(* ===== verification/Go_Prelude.thy ===== *)
theory Go_Prelude
  imports Complex_Main "HOL-Library.AList" "HOL-Library.Multiset" "HOL-Library.Word"
    "HOL-Library.Char_ord" "HOL-Library.List_Lexorder"
begin

text \<open>
  What the Go language and its standard library contribute to every component: 64-bit integer
  arithmetic with its wrap-around, truncating division, the clock arithmetic of package
  \<^verbatim>\<open>time\<close>, maps and the unspecified order of a \<^verbatim>\<open>range\<close> loop over a
  map, and the ``evict the oldest entry'' loop that four of the detectors repeat over their maps.

  Go's \<^verbatim>\<open>int\<close> and \<^verbatim>\<open>int64\<close> (both 64 bits on the supported
  platforms) are values of type \<open>int\<close>, and every operation of the source that can leave the
  range is wrapped by \<open>wrap64\<close>. A Go \<^verbatim>\<open>string\<close> and a
  \<^verbatim>\<open>[]byte\<close> are both lists of bytes, that is of type \<open>string\<close>.
\<close>

named_theorems go_arith \<open>64-bit wrap-around and clock arithmetic\<close>
named_theorems gomap_simps \<open>lookups and sizes of Go maps\<close>

section \<open>Running minima and maxima\<close>

lemma Min_insert_if:
  "finite A \<Longrightarrow> A \<noteq> {} \<Longrightarrow> Min (insert x A) = (if x < Min A then x else Min A)"
  for x :: "'a::linorder"
  by (metis Min_insert min_def order_le_less)

lemma Max_insert_if:
  "finite A \<Longrightarrow> A \<noteq> {} \<Longrightarrow> Max (insert x A) = (if Max A < x then x else Max A)"
  for x :: "'a::linorder"
  by (metis Max_insert max_def not_le)

section \<open>Errors\<close>

text \<open>A Go \<^verbatim>\<open>error\<close> is its text where only the text matters.\<close>

type_synonym error = string

section \<open>Machine integers\<close>

definition int64_min :: int where "int64_min = - (2 ^ 63)"
definition int64_max :: int where "int64_max = 2 ^ 63 - 1"

definition is_int64 :: "int \<Rightarrow> bool" where
  "is_int64 x \<longleftrightarrow> int64_min \<le> x \<and> x \<le> int64_max"

text \<open>The value an \<^verbatim>\<open>int64\<close> register holds after an operation whose exact result is \<open>x\<close>.\<close>

definition wrap64 :: "int \<Rightarrow> int" where
  "wrap64 x = (x + 2 ^ 63) mod 2 ^ 64 - 2 ^ 63"

text \<open>Go's integer division truncates towards zero.\<close>

definition go_quot :: "int \<Rightarrow> int \<Rightarrow> int" where
  "go_quot a b = sgn a * sgn b * (\<bar>a\<bar> div \<bar>b\<bar>)"

lemmas int64_bounds = int64_min_def int64_max_def

lemma is_int64_iff: "is_int64 x \<longleftrightarrow> - 9223372036854775808 \<le> x \<and> x \<le> 9223372036854775807"
  by (simp add: is_int64_def int64_bounds)

lemma wrap64_is_int64 [simp]: "is_int64 (wrap64 x)"
proof -
  have "0 \<le> (x + 2 ^ 63) mod 2 ^ 64" "(x + 2 ^ 63) mod 2 ^ 64 < (2 ^ 64 :: int)"
    by (simp_all add: pos_mod_bound)
  then show ?thesis by (simp add: is_int64_iff wrap64_def)
qed

lemma wrap64_id [go_arith]: "is_int64 x \<Longrightarrow> wrap64 x = x"
  by (simp add: is_int64_iff wrap64_def)

lemma wrap64_wrap64 [simp]: "wrap64 (wrap64 x) = wrap64 x"
  by (simp add: wrap64_id)

lemma wrap64_eq_iff: "wrap64 x = wrap64 y \<longleftrightarrow> x mod 2 ^ 64 = y mod (2 ^ 64 :: int)"
proof -
  have "wrap64 x = wrap64 y \<longleftrightarrow> (x + 2 ^ 63) mod 2 ^ 64 = (y + 2 ^ 63) mod (2 ^ 64 :: int)"
    by (simp add: wrap64_def)
  also have "\<dots> \<longleftrightarrow> x mod 2 ^ 64 = y mod (2 ^ 64 :: int)"
    by (simp add: mod_eq_dvd_iff)
  finally show ?thesis .
qed

lemma wrap64_mod: "wrap64 x mod 2 ^ 64 = x mod (2 ^ 64 :: int)"
  using wrap64_eq_iff [of "wrap64 x" x] by simp

lemma wrap64_add_left [simp]: "wrap64 (wrap64 x + y) = wrap64 (x + y)"
  unfolding wrap64_eq_iff by (metis wrap64_mod mod_add_left_eq)

lemma wrap64_add_right [simp]: "wrap64 (x + wrap64 y) = wrap64 (x + y)"
  using wrap64_add_left [of y x] by (simp add: add.commute)

lemma wrap64_diff_left [simp]: "wrap64 (wrap64 x - y) = wrap64 (x - y)"
  using wrap64_add_left [of x "- y"] by simp

lemma go_quot_nonneg: "0 \<le> a \<Longrightarrow> 0 < b \<Longrightarrow> go_quot a b = a div b"
  by (cases "a = 0") (simp_all add: go_quot_def)

section \<open>Package time\<close>

text \<open>
  A \<^verbatim>\<open>time.Time\<close> is the number of nanoseconds since Go's zero time, so that
  \<^verbatim>\<open>IsZero\<close> is equality with 0; a \<^verbatim>\<open>time.Duration\<close> is an
  \<^verbatim>\<open>int64\<close> number of nanoseconds. \<^verbatim>\<open>Time.Sub\<close> saturates at the
  ends of the duration range. All readings are those of one clock.
\<close>

type_synonym time = int
type_synonym duration = int

definition Second :: duration where "Second = 1000000000"
definition Minute :: duration where "Minute = 60 * Second"
definition Hour :: duration where "Hour = 60 * Minute"

definition time_IsZero :: "time \<Rightarrow> bool" where "time_IsZero t \<longleftrightarrow> t = 0"

definition time_Add :: "time \<Rightarrow> duration \<Rightarrow> time" where "time_Add t d = t + d"

definition time_Sub :: "time \<Rightarrow> time \<Rightarrow> duration" where
  "time_Sub t u = max int64_min (min int64_max (t - u))"

lemmas time_defs = time_IsZero_def time_Add_def

lemma Second_pos [simp]: "0 < Second"
  by (simp add: Second_def)

lemma time_Sub_exact [go_arith]: "is_int64 (t - u) \<Longrightarrow> time_Sub t u = t - u"
  by (simp add: time_Sub_def is_int64_def)

lemma time_Sub_is_int64 [simp]: "is_int64 (time_Sub t u)"
  by (auto simp: time_Sub_def is_int64_def int64_bounds)

text \<open>
  Rounding a positive duration up to whole seconds, as the detectors write it:
  \<^verbatim>\<open>(d + time.Second - 1) / time.Second\<close>. The sum wraps for durations within a
  second of the end of the range; below that the result is the exact ceiling.
\<close>

definition ceil_secs :: "duration \<Rightarrow> int" where
  "ceil_secs d = go_quot (wrap64 (d + Second - 1)) Second"

lemma ceil_secs_eq:
  assumes "0 \<le> d" and "d \<le> int64_max - Second + 1"
  shows "ceil_secs d = (d + Second - 1) div Second"
  using assms
  by (simp add: ceil_secs_def wrap64_id is_int64_iff int64_bounds Second_def go_quot_nonneg)

lemma ceil_secs_bounds:
  assumes "0 < d" and "d \<le> int64_max - Second + 1"
  shows "1 \<le> ceil_secs d" and "d \<le> ceil_secs d * Second" and "(ceil_secs d - 1) * Second < d"
  using assms by (simp_all add: ceil_secs_eq Second_def)

lemma length_filter_mono:
  "(\<And>x. x \<in> set xs \<Longrightarrow> P x \<Longrightarrow> Q x) \<Longrightarrow> length (filter P xs) \<le> length (filter Q xs)"
  by (induction xs) (auto intro: le_SucI)

section \<open>Bounded FIFOs and sliding windows\<close>

text \<open>The most recent \<open>n\<close> elements of a list whose newest element is last.\<close>

definition lastn :: "nat \<Rightarrow> 'a list \<Rightarrow> 'a list" where
  "lastn n xs = drop (length xs - n) xs"

lemma length_lastn [simp]: "length (lastn n xs) = min n (length xs)"
  by (auto simp: lastn_def)

lemma lastn_all [simp]: "length xs \<le> n \<Longrightarrow> lastn n xs = xs"
  by (simp add: lastn_def)

lemma lastn_append: "lastn n (xs @ ys) = lastn (n - length ys) xs @ lastn n ys"
proof (cases "length ys \<le> n")
  case True
  then have "length xs + length ys - n = length xs - (n - length ys)"
    and "length xs - (n - length ys) - length xs = length ys - n" by simp_all
  then show ?thesis unfolding lastn_def by (simp only: length_append drop_append)
qed (simp add: lastn_def)

lemma lastn_lastn: "n \<le> m \<Longrightarrow> lastn n (lastn m xs) = lastn n xs"
proof -
  assume "n \<le> m"
  then have "length xs - (length xs - m + n) + (length xs - m) = length xs - n" by linarith
  then show ?thesis by (simp add: lastn_def)
qed

lemma lastn_push: "n \<le> m + length ys \<Longrightarrow> lastn n (lastn m xs @ ys) = lastn n (xs @ ys)"
  by (simp add: lastn_append lastn_lastn)

lemma set_lastn_subset: "set (lastn n xs) \<subseteq> set xs"
  by (simp add: lastn_def set_drop_subset)

text \<open>
  In a list ordered by time, the elements after a cutoff are a suffix: dropping the expired prefix is
  filtering, and filtering commutes with keeping the most recent elements.
\<close>

lemma dropWhile_sorted_filter:
  fixes f :: "'a \<Rightarrow> int"
  assumes "sorted_wrt (\<lambda>x y. f x \<le> f y) xs"
  shows "dropWhile (\<lambda>x. \<not> c < f x) xs = filter (\<lambda>x. c < f x) xs"
  using assms
proof (induction xs)
  case (Cons x xs)
  then have "c < f x \<Longrightarrow> filter (\<lambda>x. c < f x) xs = xs"
    by (auto simp: filter_id_conv intro: order_less_le_trans)
  with Cons show ?case by simp
qed simp

lemma sorted_filter_split:
  fixes f :: "'a \<Rightarrow> int"
  assumes "sorted_wrt (\<lambda>x y. f x \<le> f y) xs"
  shows "xs = filter (\<lambda>x. \<not> c < f x) xs @ filter (\<lambda>x. c < f x) xs"
  using assms
proof (induction xs)
  case (Cons x xs)
  show ?case
  proof (cases "c < f x")
    case True
    then have "filter (\<lambda>x. \<not> c < f x) xs = []" "filter (\<lambda>x. c < f x) xs = xs"
      using Cons.prems by (auto simp: filter_empty_conv filter_id_conv intro: order_less_le_trans dest: order_less_le_trans)
    with True show ?thesis by simp
  next
    case False
    with Cons show ?thesis by simp
  qed
qed simp

lemma filter_lastn:
  fixes f :: "'a \<Rightarrow> int"
  assumes "sorted_wrt (\<lambda>x y. f x \<le> f y) xs"
  shows "filter (\<lambda>x. c < f x) (lastn n xs) = lastn n (filter (\<lambda>x. c < f x) xs)"
proof -
  let ?old = "filter (\<lambda>x. \<not> c < f x) xs" and ?live = "filter (\<lambda>x. c < f x) xs"
  have "lastn n xs = lastn (n - length ?live) ?old @ lastn n ?live"
    by (subst sorted_filter_split [OF assms, of c]) (rule lastn_append)
  moreover have "filter (\<lambda>x. c < f x) (lastn (n - length ?live) ?old) = []"
    using set_lastn_subset [of "n - length ?live" ?old] by (auto simp: filter_empty_conv)
  moreover have "filter (\<lambda>x. c < f x) (lastn n ?live) = lastn n ?live"
    using set_lastn_subset [of n ?live] by (auto simp: filter_id_conv)
  ultimately show ?thesis by simp
qed

end
