(* ===== verification/Go_Map.thy ===== *)
theory Go_Map
  imports Go_Prelude
begin

text \<open>
  Go maps. A map is an association list with distinct keys (\<open>gm_ok\<close>), so that its size is
  the length of the list and every operation computes. The order in which a
  \<^verbatim>\<open>range\<close> loop visits the keys is unspecified and differs from loop to loop: it is
  an argument of type \<open>range_order\<close>, a function that permutes the key list, and no result may
  depend on it unless the code's result does.

  \<open>evictOldest\<close> is the body that \<^verbatim>\<open>evictIfNeeded\<close> of all four detectors
  shares, up to the map and the timestamp it compares.
\<close>

type_synonym ('k, 'v) gomap = "('k \<times> 'v) list"

abbreviation gm_get :: "('k, 'v) gomap \<Rightarrow> 'k \<Rightarrow> 'v option" where
  "gm_get m k \<equiv> map_of m k"

abbreviation gm_set :: "('k, 'v) gomap \<Rightarrow> 'k \<Rightarrow> 'v \<Rightarrow> ('k, 'v) gomap" where
  "gm_set m k v \<equiv> AList.update k v m"

abbreviation gm_delete :: "('k, 'v) gomap \<Rightarrow> 'k \<Rightarrow> ('k, 'v) gomap" where
  "gm_delete m k \<equiv> AList.delete k m"

abbreviation gm_keys :: "('k, 'v) gomap \<Rightarrow> 'k list" where
  "gm_keys m \<equiv> map fst m"

abbreviation gm_ok :: "('k, 'v) gomap \<Rightarrow> bool" where
  "gm_ok m \<equiv> distinct (gm_keys m)"

abbreviation gm_len :: "('k, 'v) gomap \<Rightarrow> int" where
  "gm_len m \<equiv> int (length m)"

section \<open>Elementary facts\<close>

lemma gm_ok_set [simp, intro]: "gm_ok m \<Longrightarrow> gm_ok (gm_set m k v)"
  by (rule distinct_update)

lemma gm_ok_delete [simp, intro]: "gm_ok m \<Longrightarrow> gm_ok (gm_delete m k)"
  by (rule distinct_delete)

lemma gm_get_set [simp, gomap_simps]: "gm_get (gm_set m k v) k' = (if k' = k then Some v else gm_get m k')"
  by (simp add: update_conv)

lemma gm_get_delete [simp, gomap_simps]: "gm_get (gm_delete m k) k' = (if k' = k then None else gm_get m k')"
  by (simp add: delete_conv)

lemma gm_get_None_iff: "gm_get m k = None \<longleftrightarrow> k \<notin> set (gm_keys m)"
  by (simp add: map_of_eq_None_iff)

lemma length_gm_set: "length (gm_set m k v) = (if gm_get m k = None then Suc (length m) else length m)"
  by (induction m) auto

lemma gm_delete_filter: "gm_delete m k = filter (\<lambda>p. fst p \<noteq> k) m"
  by (auto simp: AList.delete_eq intro: filter_cong)

lemma gm_set_twice [simp]: "gm_set (gm_set m k v) k w = gm_set m k w"
  by (induction m) auto

lemma gm_delete_absent: "gm_get m k = None \<Longrightarrow> gm_delete m k = m"
  by (simp add: gm_get_None_iff delete_id)

lemma length_gm_delete_less: "k \<in> set (gm_keys m) \<Longrightarrow> length (gm_delete m k) < length m"
  by (induction m) (auto simp: gm_delete_filter le_imp_less_Suc)

lemma gm_get_filter_key:
  "gm_get (filter (\<lambda>p. P (fst p)) m) k = (if P k then gm_get m k else None)"
  by (induction m) auto

lemma gm_ok_filter: "gm_ok m \<Longrightarrow> gm_ok (filter P m)"
  by (induction m) auto

lemma gm_get_filter:
  assumes "gm_ok m"
  shows "gm_get (filter (\<lambda>(k, v). P k v) m) k
    = (case gm_get m k of None \<Rightarrow> None | Some v \<Rightarrow> if P k v then Some v else None)"
  using assms by (induction m) (auto simp: map_of_eq_None_iff split: option.splits)

section \<open>The order of a range loop\<close>

typedef 'k range_order = "{f :: 'k list \<Rightarrow> 'k list. \<forall>xs. mset (f xs) = mset xs}"
  morphisms range_over Range_Order
  by (rule exI [of _ "\<lambda>xs. xs"]) simp

setup_lifting type_definition_range_order

lift_definition in_order :: "'k range_order" is "\<lambda>xs. xs" by simp
lift_definition in_reverse :: "'k range_order" is rev by simp

lemma range_over_in_order [simp]: "range_over in_order xs = xs"
  by (simp add: in_order.rep_eq)

lemma range_over_in_reverse [simp]: "range_over in_reverse xs = rev xs"
  by (simp add: in_reverse.rep_eq)

lemma mset_range_over [simp]: "mset (range_over ord xs) = mset xs"
  using range_over [of ord] by simp

lemma set_range_over [simp]: "set (range_over ord xs) = set xs"
  by (rule mset_eq_setD) simp

lemma length_range_over [simp]: "length (range_over ord xs) = length xs"
  by (rule mset_eq_length) simp

lemma distinct_range_over [simp]: "distinct (range_over ord xs) \<longleftrightarrow> distinct xs"
  by (rule mset_eq_imp_distinct_iff) simp

lemma length_filter_range_over: "length (filter P (range_over ord xs)) = length (filter P xs)"
  by (rule mset_eq_length) simp

text \<open>The key-value pairs in the order the loop visits them.\<close>

definition range_entries :: "'k range_order \<Rightarrow> ('k, 'v) gomap \<Rightarrow> ('k \<times> 'v) list" where
  "range_entries ord m = map (\<lambda>k. (k, the (gm_get m k))) (range_over ord (gm_keys m))"

lemma map_keys_lookup: "gm_ok m \<Longrightarrow> map (\<lambda>k. (k, the (gm_get m k))) (gm_keys m) = m"
  by (induction m) (auto simp: rev_image_eqI intro!: map_idI)

lemma mset_range_entries [simp]:
  assumes "gm_ok m"
  shows "mset (range_entries ord m) = mset m"
proof -
  have "mset (range_entries ord m) = mset (map (\<lambda>k. (k, the (gm_get m k))) (gm_keys m))"
    unfolding range_entries_def by (simp only: mset_map mset_range_over)
  then show ?thesis by (simp only: map_keys_lookup [OF assms])
qed

lemma set_range_entries: "gm_ok m \<Longrightarrow> set (range_entries ord m) = set m"
  by (rule mset_eq_setD) simp

lemma range_entries_in_order [simp]: "gm_ok m \<Longrightarrow> range_entries in_order m = m"
  unfolding range_entries_def range_over_in_order by (rule map_keys_lookup)

lemma fst_range_entries [simp]: "map fst (range_entries ord m) = range_over ord (gm_keys m)"
  by (simp add: range_entries_def comp_def)

text \<open>
  A loop whose body is insensitive to the order of two visits computes the same for every order:
  the device by which the order of a \<^verbatim>\<open>range\<close> loop is shown not to matter.
\<close>

lemma fold_range_order:
  assumes "\<And>x y. f x \<circ> f y = f y \<circ> f x" and "mset xs = mset ys"
  shows "fold f xs s = fold f ys s"
proof -
  have "fold f xs = fold f ys"
    by (rule fold_multiset_equiv) (use assms in \<open>auto simp: fun_eq_iff\<close>)
  then show ?thesis by simp
qed

section \<open>Evicting the oldest entries\<close>

text \<open>
  The inner loop: \<open>None\<close> is the flag \<^verbatim>\<open>first\<close> still set, \<open>Some (k, t)\<close>
  the oldest key and timestamp seen so far.
\<close>

fun oldest_scan :: "('k \<times> time) list \<Rightarrow> ('k \<times> time) option \<Rightarrow> ('k \<times> time) option" where
  "oldest_scan [] acc = acc"
| "oldest_scan ((k, t) # kts) acc =
     oldest_scan kts
       (case acc of
          None \<Rightarrow> Some (k, t)
        | Some (k0, t0) \<Rightarrow> if t < t0 then Some (k, t) else Some (k0, t0))"

lemma oldest_scan_None_iff: "oldest_scan kts acc = None \<longleftrightarrow> kts = [] \<and> acc = None"
  by (induction kts acc rule: oldest_scan.induct) (auto split: option.splits if_splits)

lemma oldest_scan_mem:
  "oldest_scan kts acc = Some p \<Longrightarrow> p \<in> set kts \<or> acc = Some p"
  by (induction kts acc rule: oldest_scan.induct) (auto split: option.splits if_splits)

lemma oldest_scan_least:
  "oldest_scan kts acc = Some (k, t) \<Longrightarrow>
     (\<forall>q \<in> set kts. t \<le> snd q) \<and> (\<forall>q. acc = Some q \<longrightarrow> t \<le> snd q)"
proof (induction kts acc rule: oldest_scan.induct)
  case (2 k' t' kts acc)
  then show ?case by (cases acc) (auto split: if_splits)
qed simp

definition oldest_key :: "('v \<Rightarrow> time) \<Rightarrow> 'k range_order \<Rightarrow> ('k, 'v) gomap \<Rightarrow> 'k option" where
  "oldest_key stamp ord m =
     map_option fst (oldest_scan (map (\<lambda>(k, v). (k, stamp v)) (range_entries ord m)) None)"

lemma oldest_key_None_iff: "oldest_key stamp ord m = None \<longleftrightarrow> m = []"
proof -
  have "range_entries ord m = [] \<longleftrightarrow> m = []"
    by (metis length_0_conv length_map length_range_over range_entries_def)
  then show ?thesis by (simp add: oldest_key_def oldest_scan_None_iff)
qed

lemma oldest_key_mem:
  assumes "oldest_key stamp ord m = Some k"
  shows "k \<in> set (gm_keys m)"
proof -
  from assms obtain t
    where "oldest_scan (map (\<lambda>(k, v). (k, stamp v)) (range_entries ord m)) None = Some (k, t)"
    by (auto simp: oldest_key_def)
  then have "(k, t) \<in> set (map (\<lambda>(k, v). (k, stamp v)) (range_entries ord m))"
    by (auto dest: oldest_scan_mem)
  then obtain v where "(k, v) \<in> set (range_entries ord m)" by auto
  then have "k \<in> set (map fst (range_entries ord m))" by (metis fst_conv image_eqI set_map)
  then show ?thesis by simp
qed

lemma oldest_key_least:
  assumes ok: "gm_ok m" and sel: "oldest_key stamp ord m = Some k"
    and kv: "(k, v) \<in> set m" and q: "(k', v') \<in> set m"
  shows "stamp v \<le> stamp v'"
proof -
  let ?kts = "map (\<lambda>(k, v). (k, stamp v)) (range_entries ord m)"
  from sel obtain t where scan: "oldest_scan ?kts None = Some (k, t)"
    by (auto simp: oldest_key_def)
  then have "(k, t) \<in> set ?kts" by (auto dest: oldest_scan_mem)
  then obtain w where "(k, w) \<in> set m" and t: "t = stamp w"
    by (auto simp: set_range_entries [OF ok])
  with ok kv have "w = v" by (metis eq_key_imp_eq_value)
  moreover have "(k', stamp v') \<in> set ?kts"
    using q by (force simp: set_range_entries [OF ok])
  with oldest_scan_least [OF scan] have "t \<le> stamp v'" by force
  ultimately show ?thesis using t by simp
qed

function evictOldest :: "('v \<Rightarrow> time) \<Rightarrow> 'k range_order \<Rightarrow> int \<Rightarrow> ('k, 'v) gomap \<Rightarrow> ('k, 'v) gomap" where
  "evictOldest stamp ord mx m =
     (if mx \<le> gm_len m
      then (case oldest_key stamp ord m of
              None \<Rightarrow> m
            | Some k \<Rightarrow> evictOldest stamp ord mx (gm_delete m k))
      else m)"
  by pat_completeness auto
termination
  by (relation "measure (\<lambda>(stamp, ord, mx, m). length m)")
     (auto dest: oldest_key_mem intro: length_gm_delete_less)

declare evictOldest.simps [simp del]

lemma evictOldest_room [simp]: "gm_len m < mx \<Longrightarrow> evictOldest stamp ord mx m = m"
  by (simp add: evictOldest.simps)

lemma evictOldest_unfold:
  "mx \<le> gm_len m \<Longrightarrow> oldest_key stamp ord m = Some k \<Longrightarrow>
   evictOldest stamp ord mx m = evictOldest stamp ord mx (gm_delete m k)"
  by (simp add: evictOldest.simps [of stamp ord mx m])

lemma evictOldest_subset: "set (evictOldest stamp ord mx m) \<subseteq> set m"
proof (induction stamp ord mx m rule: evictOldest.induct)
  case (1 stamp ord mx m)
  show ?case
  proof (cases "mx \<le> gm_len m \<and> oldest_key stamp ord m \<noteq> None")
    case True
    then obtain k where k: "mx \<le> gm_len m" "oldest_key stamp ord m = Some k" by auto
    with 1 show ?thesis by (force simp: evictOldest_unfold gm_delete_filter)
  next
    case False
    then show ?thesis by (auto simp: evictOldest.simps [of stamp ord mx m])
  qed
qed

lemma gm_ok_evictOldest [simp, intro]: "gm_ok m \<Longrightarrow> gm_ok (evictOldest stamp ord mx m)"
proof (induction stamp ord mx m rule: evictOldest.induct)
  case (1 stamp ord mx m)
  then show ?case
    by (subst evictOldest.simps) (auto split: option.split)
qed

lemma length_evictOldest: "0 < mx \<Longrightarrow> gm_len (evictOldest stamp ord mx m) < mx"
proof (induction stamp ord mx m rule: evictOldest.induct)
  case (1 stamp ord mx m)
  show ?case
  proof (cases "oldest_key stamp ord m")
    case None
    with 1(2) show ?thesis
      by (subst evictOldest.simps) (auto simp: oldest_key_None_iff)
  next
    case (Some k)
    with 1 show ?thesis by (subst evictOldest.simps) auto
  qed
qed

text \<open>Everything that was evicted is at least as old as everything that was kept.\<close>

lemma evictOldest_oldest:
  assumes "gm_ok m" and "p \<in> set m" and "p \<notin> set (evictOldest stamp ord mx m)"
    and "q \<in> set (evictOldest stamp ord mx m)"
  shows "stamp (snd p) \<le> stamp (snd q)"
  using assms
proof (induction stamp ord mx m rule: evictOldest.induct)
  case (1 stamp ord mx m)
  have q: "q \<in> set m" using "1.prems"(4) evictOldest_subset by blast
  from "1.prems" obtain k where k: "mx \<le> gm_len m" "oldest_key stamp ord m = Some k"
    by (cases "oldest_key stamp ord m") (auto simp: evictOldest.simps [of stamp ord mx m] split: if_splits)
  show ?case
  proof (cases "fst p = k")
    case True
    with k(2) "1.prems"(1,2) q show ?thesis
      by (metis oldest_key_least prod.collapse)
  next
    case False
    with "1.prems"(2) have "p \<in> set (gm_delete m k)" by (simp add: gm_delete_filter)
    with "1.IH" [OF k] "1.prems" show ?thesis by (simp add: evictOldest_unfold [OF k])
  qed
qed

lemma map_leD: "m \<subseteq>\<^sub>m m' \<Longrightarrow> m k = Some v \<Longrightarrow> m' k = Some v"
  by (metis domI map_le_def)

lemma gm_get_subset:
  assumes "gm_ok m" and "gm_ok m'" and "set m' \<subseteq> set m"
  shows "map_of m' \<subseteq>\<^sub>m map_of m"
  using assms by (auto simp: map_le_def)

lemma evictOldest_map_le: "gm_ok m \<Longrightarrow> map_of (evictOldest stamp ord mx m) \<subseteq>\<^sub>m map_of m"
  by (intro gm_get_subset gm_ok_evictOldest evictOldest_subset)

end
