(* ===== verification/Detector.thy ===== *)
theory Detector
  imports Go_Map
begin

text \<open>
  The data that detectors and the HTTP handler exchange
  (\<^verbatim>\<open>pkg/circuitbreaker/detector.go\<close>, \<^verbatim>\<open>status.go\<close>), and the
  contract that every per-agent detector keeps, as the locale \<open>agent_scoped\<close>: what a check may
  change of another agent's history, what a reset clears, and that a verdict rests on the agent's own
  history alone.
\<close>

type_synonym Fingerprint = string
type_synonym AgentID = string

record CheckResult =
  cr_Block :: bool
  cr_Reason :: string
  cr_RetryAfter :: int
  cr_FirstBlock :: bool

text \<open>The zero \<^verbatim>\<open>CheckResult{}\<close>: proceed.\<close>

definition CheckResult_zero :: CheckResult where
  "CheckResult_zero = \<lparr>cr_Block = False, cr_Reason = '''', cr_RetryAfter = 0, cr_FirstBlock = False\<rparr>"

definition ReasonExactHash :: string where
  "ReasonExactHash = ''identical request fingerprint observed within TTL window (possible infinite loop)''"

definition ReasonStructural :: string where
  "ReasonStructural = ''structurally identical request observed within TTL window (possible loop with dynamic values)''"

definition ReasonToolCycle :: string where
  "ReasonToolCycle = ''repeating tool-call cycle detected (possible A->B->A->B agent loop)''"

definition ReasonVelocity :: string where
  "ReasonVelocity = ''abnormal token consumption velocity (possible unbounded consumption loop)''"

record AgentStatus =
  as_Agent :: AgentID
  as_Blocked :: bool
  as_Fingerprints :: int
  as_BlockedFP :: int
  as_FirstBlocked :: time
  as_LastBlocked :: time

definition AgentStatus_zero :: AgentStatus where
  "AgentStatus_zero = \<lparr>as_Agent = '''', as_Blocked = False, as_Fingerprints = 0, as_BlockedFP = 0,
     as_FirstBlocked = 0, as_LastBlocked = 0\<rparr>"

lemma CheckResult_zero_sel [simp]:
  "\<not> cr_Block CheckResult_zero" "\<not> cr_FirstBlock CheckResult_zero"
  "cr_Reason CheckResult_zero = ''''" "cr_RetryAfter CheckResult_zero = 0"
  by (simp_all add: CheckResult_zero_def)

section \<open>The contract of a per-agent detector\<close>

text \<open>
  \<open>history s a\<close> is what the detector remembers of agent \<open>a\<close>, as a partial map
  (the hash detector remembers several fingerprints per agent, the others one state). A check by
  \<open>a\<close> may forget parts of another agent's history (eviction) and never alters or invents any.
  A request \<open>'x\<close> carries whatever a detector looks at: the reading of the clock, the order of
  map iteration, the fingerprint, the body or the token count.
\<close>

locale agent_scoped =
  fixes check :: "'x \<Rightarrow> AgentID \<Rightarrow> 's \<Rightarrow> CheckResult \<times> 's"
    and reset :: "AgentID \<Rightarrow> 's \<Rightarrow> int \<times> 's"
    and history :: "'s \<Rightarrow> AgentID \<Rightarrow> 'f \<Rightarrow> 'e option"
    and config :: "'s \<Rightarrow> 'c"
    and inv :: "'s \<Rightarrow> bool"
  assumes inv_check: "inv s \<Longrightarrow> inv (snd (check x a s))"
    and inv_reset: "inv s \<Longrightarrow> inv (snd (reset a s))"
    and config_check: "config (snd (check x a s)) = config s"
    and config_reset: "config (snd (reset a s)) = config s"
    and check_forgets: "inv s \<Longrightarrow> b \<noteq> a \<Longrightarrow> history (snd (check x a s)) b \<subseteq>\<^sub>m history s b"
    and reset_clears: "inv s \<Longrightarrow> history (snd (reset a s)) a = Map.empty"
    and reset_others: "inv s \<Longrightarrow> b \<noteq> a \<Longrightarrow> history (snd (reset a s)) b = history s b"
    and verdict_local: "inv s \<Longrightarrow> inv s' \<Longrightarrow> config s = config s' \<Longrightarrow> history s a = history s' a \<Longrightarrow>
           fst (check x a s) = fst (check x a s')"
begin

text \<open>A reset agent is treated exactly as one the detector has never seen.\<close>

lemma reset_then_fresh:
  assumes "inv s" and "inv s0" and "config s0 = config s" and "history s0 a = Map.empty"
  shows "fst (check x a (snd (reset a s))) = fst (check x a s0)"
  using assms by (intro verdict_local) (simp_all add: inv_reset config_reset reset_clears)

text \<open>Resetting one agent never changes another agent's next verdict.\<close>

lemma reset_isolated:
  assumes "inv s" and "b \<noteq> a"
  shows "fst (check x b (snd (reset a s))) = fst (check x b s)"
  using assms by (intro verdict_local) (simp_all add: inv_reset config_reset reset_others)

text \<open>
  A check by one agent changes another agent's next verdict only by forgetting: if nothing of the
  other agent was evicted, the verdict is the same.
\<close>

lemma check_isolated:
  assumes "inv s" and "b \<noteq> a"
    and "dom (history s b) \<subseteq> dom (history (snd (check x a s)) b)"
  shows "fst (check y b (snd (check x a s))) = fst (check y b s)"
proof -
  have le: "history (snd (check x a s)) b \<subseteq>\<^sub>m history s b"
    using assms by (intro check_forgets)
  then have "dom (history (snd (check x a s)) b) = dom (history s b)"
    using assms(3) map_le_implies_dom_le by blast
  with le have "history (snd (check x a s)) b = history s b"
    by (metis map_le_antisym map_le_def)
  with assms(1) show ?thesis by (intro verdict_local) (simp_all add: inv_check config_check)
qed

text \<open>Resetting twice is resetting once, as far as the agent's history goes.\<close>

lemma reset_idem: "inv s \<Longrightarrow> history (snd (reset a (snd (reset a s)))) b = history (snd (reset a s)) b"
  by (cases "b = a") (simp_all add: reset_clears reset_others inv_reset)

end

section \<open>Fixed windows\<close>

text \<open>
  The structural and tool detectors keep what they saw in a window that the first observation opens
  and that ends \<open>ttl\<close> later, whatever comes in between. \<open>fixed_window\<close> gives the
  opening time and the observations of the last window of a history (oldest first), and
  \<open>fixed_past\<close> those that an observation at \<open>t\<close> finds.
\<close>

definition fixed_past :: "duration \<Rightarrow> time \<Rightarrow> (time \<times> 'a list) option \<Rightarrow> time \<times> 'a list" where
  "fixed_past ttl t w =
     (case w of None \<Rightarrow> (t, []) | Some (s, xs) \<Rightarrow> if t < s + ttl then (s, xs) else (t, []))"

definition fixed_window :: "duration \<Rightarrow> (time \<times> 'a) list \<Rightarrow> (time \<times> 'a list) option" where
  "fixed_window ttl h =
     fold (\<lambda>(t, x) w. let (s, xs) = fixed_past ttl t w in Some (s, xs @ [x])) h None"

lemma fixed_window_Nil [simp]: "fixed_window ttl [] = None"
  by (simp add: fixed_window_def)

lemma fixed_window_snoc [simp]:
  "fixed_window ttl (h @ [(t, x)]) =
     Some (fst (fixed_past ttl t (fixed_window ttl h)), snd (fixed_past ttl t (fixed_window ttl h)) @ [x])"
  by (simp add: fixed_window_def case_prod_beta)

lemma fixed_window_None_iff: "fixed_window ttl h = None \<longleftrightarrow> h = []"
proof (cases h rule: rev_cases)
  case (snoc h' p)
  then show ?thesis by (cases p) simp
qed simp

text \<open>Observations closer together than the window all fall into it.\<close>

lemma fixed_window_together:
  assumes "h \<noteq> []" and "\<forall>p\<in>set h. fst p < fst (hd h) + ttl"
  shows "fixed_window ttl h = Some (fst (hd h), map snd h)"
  using assms
proof (induction h rule: rev_induct)
  case (snoc p h)
  obtain t x where p: "p = (t, x)" by (cases p)
  show ?case
  proof (cases "h = []")
    case True
    then show ?thesis using fixed_window_snoc [of ttl "[]" t x] by (simp add: p fixed_past_def)
  next
    case False
    then have "fixed_window ttl h = Some (fst (hd h), map snd h)" "t < fst (hd h) + ttl"
      using snoc by (auto simp: p)
    then show ?thesis using False by (simp add: p fixed_past_def)
  qed
qed simp

section \<open>Detectors that keep one state per agent\<close>

text \<open>
  The structural, tool and velocity detectors keep a map from agents to states: a check looks the
  agent up, makes room and inserts an initial state for a new agent, and updates the state in place.
  \<open>agent_put\<close> is what that does to the map.
\<close>

definition agent_put ::
  "('e \<Rightarrow> time) \<Rightarrow> AgentID range_order \<Rightarrow> int \<Rightarrow> (AgentID, 'e) gomap \<Rightarrow> AgentID \<Rightarrow> 'e \<Rightarrow> (AgentID, 'e) gomap" where
  "agent_put stamp ord mx m a st =
     gm_set (case gm_get m a of None \<Rightarrow> evictOldest stamp ord mx m | Some _ \<Rightarrow> m) a st"

definition states_ok :: "int \<Rightarrow> (AgentID, 'e) gomap \<Rightarrow> bool" where
  "states_ok mx m \<longleftrightarrow> gm_ok m \<and> 1 \<le> mx \<and> gm_len m \<le> mx"

lemma states_ok_put: "states_ok mx m \<Longrightarrow> states_ok mx (agent_put stamp ord mx m a st)"
  using length_evictOldest [of mx stamp ord m]
  by (auto simp: states_ok_def agent_put_def length_gm_set split: option.splits)

lemma states_ok_delete: "states_ok mx m \<Longrightarrow> states_ok mx (gm_delete m a)"
  using length_filter_le [of "\<lambda>p. fst p \<noteq> a" m]
  by (simp add: states_ok_def gm_delete_filter gm_ok_filter del: length_filter_le)

lemma gm_get_agent_put_same [simp]: "gm_get (agent_put stamp ord mx m a st) a = Some st"
  by (simp add: agent_put_def)

lemma agent_put_map_le:
  assumes "gm_ok m" and "b \<noteq> a" and "gm_get (agent_put stamp ord mx m a st) b = Some e"
  shows "gm_get m b = Some e"
  using assms map_leD [OF evictOldest_map_le [OF assms(1), of stamp ord mx], of b e]
  by (auto simp: agent_put_def split: option.splits)

text \<open>When the map has room for the agent, nothing is evicted.\<close>

lemma agent_put_room:
  assumes "gm_ok m" and "card (insert a (set (gm_keys m))) \<le> nat mx"
  shows "agent_put stamp ord mx m a st = gm_set m a st"
proof (cases "gm_get m a")
  case None
  then have "a \<notin> set (gm_keys m)" by (simp add: gm_get_None_iff)
  then have "card (insert a (set (gm_keys m))) = Suc (length m)"
    using distinct_card [OF assms(1)] by (simp del: set_map)
  then have "gm_len m < mx" using assms(2) by linarith
  with None show ?thesis by (simp add: agent_put_def)
qed (simp add: agent_put_def)

lemma keys_gm_set: "set (gm_keys (gm_set m k v)) = insert k (set (gm_keys m))"
  by (auto simp: dom_map_of_conv_image_fst [symmetric] dom_def)

text \<open>A sequence of checks, and the fold of one agent's own steps.\<close>

fun run_checks :: "('x \<Rightarrow> AgentID \<Rightarrow> 's \<Rightarrow> CheckResult \<times> 's) \<Rightarrow> ('x \<times> AgentID) list \<Rightarrow> 's \<Rightarrow> CheckResult list \<times> 's" where
  "run_checks check [] s = ([], s)"
| "run_checks check ((x, a) # rs) s =
     (let (r, s1) = check x a s; (out, s2) = run_checks check rs s1 in (r # out, s2))"

fun fold_step :: "('x \<Rightarrow> 'e option \<Rightarrow> CheckResult \<times> 'e option) \<Rightarrow> 'x list \<Rightarrow> 'e option \<Rightarrow> 'e option" where
  "fold_step step [] st = st"
| "fold_step step (x # xs) st =
     fold_step step xs (case snd (step x st) of None \<Rightarrow> st | Some st' \<Rightarrow> Some st')"

definition own :: "AgentID \<Rightarrow> ('x \<times> AgentID) list \<Rightarrow> 'x list" where
  "own a rs = map fst (filter (\<lambda>r. snd r = a) rs)"

lemma own_simps [simp]:
  "own a [] = []" "own a ((x, b) # rs) = (if b = a then x # own a rs else own a rs)"
  by (simp_all add: own_def)

lemma fold_step_append: "fold_step step (xs @ ys) st = fold_step step ys (fold_step step xs st)"
  by (induction xs arbitrary: st) simp_all

text \<open>The states that checks and resets in any order and number lead to.\<close>

inductive agent_reach ::
  "('x \<Rightarrow> AgentID \<Rightarrow> 's \<Rightarrow> CheckResult \<times> 's) \<Rightarrow> (AgentID \<Rightarrow> 's \<Rightarrow> int \<times> 's) \<Rightarrow> 's \<Rightarrow> 's \<Rightarrow> bool"
  for check reset s0 where
  reach_start: "agent_reach check reset s0 s0"
| reach_check: "agent_reach check reset s0 s \<Longrightarrow> agent_reach check reset s0 (snd (check x a s))"
| reach_reset: "agent_reach check reset s0 s \<Longrightarrow> agent_reach check reset s0 (snd (reset a s))"

text \<open>A stage that may be switched off.\<close>

definition opt_check :: "('s \<Rightarrow> CheckResult \<times> 's) \<Rightarrow> 's option \<Rightarrow> CheckResult \<times> 's option" where
  "opt_check f os = (case os of None \<Rightarrow> (CheckResult_zero, None) | Some s \<Rightarrow> apsnd Some (f s))"

definition opt_reset :: "('s \<Rightarrow> int \<times> 's) \<Rightarrow> 's option \<Rightarrow> int \<times> 's option" where
  "opt_reset f os = (case os of None \<Rightarrow> (0, None) | Some s \<Rightarrow> apsnd Some (f s))"

text \<open>
  The contract: \<open>step c x\<close> is the effect of request \<open>x\<close> on the agent's state under
  configuration \<open>c\<close>, its second component \<open>None\<close> when the detector does not look at the
  state at all (no signal in the body).
\<close>

locale agent_states =
  fixes check :: "'x \<Rightarrow> AgentID \<Rightarrow> 's \<Rightarrow> CheckResult \<times> 's"
    and reset :: "AgentID \<Rightarrow> 's \<Rightarrow> int \<times> 's"
    and states :: "'s \<Rightarrow> (AgentID, 'e) gomap"
    and config :: "'s \<Rightarrow> 'c"
    and stamp :: "'e \<Rightarrow> time"
    and order :: "'x \<Rightarrow> AgentID range_order"
    and cap :: "'c \<Rightarrow> int"
    and step :: "'c \<Rightarrow> 'x \<Rightarrow> 'e option \<Rightarrow> CheckResult \<times> 'e option"
  assumes check_config: "config (snd (check x a s)) = config s"
    and check_verdict: "fst (check x a s) = fst (step (config s) x (gm_get (states s) a))"
    and check_states: "states (snd (check x a s)) =
          (case snd (step (config s) x (gm_get (states s) a)) of
             None \<Rightarrow> states s
           | Some st \<Rightarrow> agent_put stamp (order x) (cap (config s)) (states s) a st)"
    and reset_config: "config (snd (reset a s)) = config s"
    and reset_states: "states (snd (reset a s)) = gm_delete (states s) a"
    and reset_count: "fst (reset a s) = (if gm_get (states s) a = None then 0 else 1)"
begin

lemma states_ok_check:
  "states_ok (cap (config s)) (states s) \<Longrightarrow> states_ok (cap (config s)) (states (snd (check x a s)))"
  by (simp add: check_states states_ok_put split: option.splits)

text \<open>
  An invariant of every agent's state that each step keeps holds of all states in the map of any
  reachable detector, and the map stays within its bound.
\<close>

lemma reach_inv:
  assumes "agent_reach check reset s0 s" and "states s0 = []" and "1 \<le> cap (config s0)"
    and step: "\<And>x ost st. (\<And>st. ost = Some st \<Longrightarrow> P st) \<Longrightarrow> snd (step (config s0) x ost) = Some st \<Longrightarrow> P st"
  shows "config s = config s0 \<and> states_ok (cap (config s0)) (states s) \<and>
    (\<forall>a st. gm_get (states s) a = Some st \<longrightarrow> P st)"
  using assms(1)
proof (induction rule: agent_reach.induct)
  case reach_start
  then show ?case using assms(2,3) by (simp add: states_ok_def)
next
  case (reach_check s x a)
  let ?new = "snd (step (config s0) x (gm_get (states s) a))"
  have "P st" if st: "gm_get (states (snd (check x a s))) b = Some st" for b st
  proof (cases ?new)
    case None
    then have "states (snd (check x a s)) = states s" using reach_check.IH by (simp add: check_states)
    then show ?thesis using st reach_check.IH by metis
  next
    case (Some st')
    then have put: "states (snd (check x a s)) = agent_put stamp (order x) (cap (config s0)) (states s) a st'"
      using reach_check.IH by (simp add: check_states)
    show ?thesis
    proof (cases "b = a")
      case True
      then have "?new = Some st" using st put Some by simp
      then show ?thesis using step reach_check.IH by blast
    next
      case False
      have "gm_ok (states s)" using reach_check.IH by (simp only: states_ok_def)
      from agent_put_map_le [OF this False st [unfolded put]] have "gm_get (states s) b = Some st" .
      then show ?thesis using reach_check.IH by metis
    qed
  qed
  then show ?case
    using reach_check.IH states_ok_check [of s x a] by (simp add: check_config)
next
  case (reach_reset s a)
  then show ?case by (simp add: reset_config reset_states states_ok_delete)
qed

text \<open>A stage of a pipeline that may be absent, and may or may not be reached by a check.\<close>

lemma opt_stage:
  assumes "os' \<in> {os, snd (opt_check (check x a) os)}"
  shows "map_option config os' = map_option config os"
    and "(\<And>s. os = Some s \<Longrightarrow> states_ok (cap (config s)) (states s)) \<Longrightarrow> os' = Some s' \<Longrightarrow>
           states_ok (cap (config s')) (states s')"
    and "(\<And>s. os = Some s \<Longrightarrow> states_ok (cap (config s)) (states s)) \<Longrightarrow> b \<noteq> a \<Longrightarrow> os' = Some s' \<Longrightarrow>
           gm_get (states s') b = Some e \<Longrightarrow> \<exists>s. os = Some s \<and> gm_get (states s) b = Some e"
proof -
  have cases: "os' = os \<or> (\<exists>s. os = Some s \<and> os' = Some (snd (check x a s)))"
    using assms by (cases os) (auto simp: opt_check_def)
  then show "map_option config os' = map_option config os" by (auto simp: check_config)
  show "states_ok (cap (config s')) (states s')"
    if "\<And>s. os = Some s \<Longrightarrow> states_ok (cap (config s)) (states s)" "os' = Some s'"
    using cases that states_ok_check by (auto simp: check_config)
  show "\<exists>s. os = Some s \<and> gm_get (states s) b = Some e"
    if ok: "\<And>s. os = Some s \<Longrightarrow> states_ok (cap (config s)) (states s)" and "b \<noteq> a" "os' = Some s'"
      "gm_get (states s') b = Some e"
    using cases
  proof (elim disjE exE conjE)
    fix s assume s: "os = Some s" "os' = Some (snd (check x a s))"
    then have get: "gm_get (states (snd (check x a s))) b = Some e" and "gm_ok (states s)"
      using that by (auto simp only: states_ok_def option.inject)
    have "gm_get (states s) b = Some e"
    proof (cases "snd (step (config s) x (gm_get (states s) a))")
      case None
      then show ?thesis using get by (simp only: check_states option.case)
    next
      case (Some st)
      show ?thesis
        using get by (intro agent_put_map_le [OF \<open>gm_ok (states s)\<close> \<open>b \<noteq> a\<close>]) (simp only: check_states Some option.case)
    qed
    with s show ?thesis by blast
  qed (use that in blast)
qed

lemma opt_verdict:
  assumes "map_option config os = map_option config os'"
    and "\<And>s s'. os = Some s \<Longrightarrow> os' = Some s' \<Longrightarrow> gm_get (states s) a = gm_get (states s') a"
  shows "fst (opt_check (check x a) os) = fst (opt_check (check x a) os')"
proof (cases os)
  case None
  then show ?thesis using assms(1) by (cases os') simp_all
next
  case (Some s)
  then obtain s' where s': "os' = Some s'" and cfg: "config s = config s'" using assms(1) by (cases os') simp_all
  have "fst (check x a s) = fst (check x a s')"
    by (simp only: check_verdict cfg assms(2) [OF Some s'])
  then show ?thesis by (simp only: Some s' opt_check_def option.case fst_apsnd)
qed

lemma opt_reset_stage:
  assumes "(n, os') = opt_reset (reset a) os"
  shows "map_option config os' = map_option config os"
    and "(\<And>s. os = Some s \<Longrightarrow> states_ok (cap (config s)) (states s)) \<Longrightarrow> os' = Some s' \<Longrightarrow>
           states_ok (cap (config s')) (states s')"
    and "map_option (\<lambda>s. gm_get (states s) b) os'
           = map_option (\<lambda>s. if b = a then None else gm_get (states s) b) os"
    and "n = (case os of None \<Rightarrow> 0 | Some s \<Rightarrow> if gm_get (states s) a = None then 0 else 1)"
proof -
  have none: "os = None \<Longrightarrow> n = 0 \<and> os' = None" using assms by (simp add: opt_reset_def)
  have some: "n = fst (reset a s) \<and> os' = Some (snd (reset a s))" if "os = Some s" for s
    using assms that by (simp add: opt_reset_def apsnd_def map_prod_def case_prod_beta)
  show "map_option config os' = map_option config os"
    using none some by (cases os) (simp_all add: reset_config)
  show "states_ok (cap (config s')) (states s')"
    if "\<And>s. os = Some s \<Longrightarrow> states_ok (cap (config s)) (states s)" "os' = Some s'"
    using none some that by (cases os) (auto simp only: reset_config reset_states states_ok_delete option.inject option.distinct)
  show "map_option (\<lambda>s. gm_get (states s) b) os' = map_option (\<lambda>s. if b = a then None else gm_get (states s) b) os"
    using none some by (cases os) (simp_all add: reset_states)
  show "n = (case os of None \<Rightarrow> 0 | Some s \<Rightarrow> if gm_get (states s) a = None then 0 else 1)"
    using none some by (cases os) (simp_all only: reset_count option.case)
qed

lemma run_config: "config (snd (run_checks check rs s)) = config s"
  by (induction rs arbitrary: s) (auto simp: case_prod_beta check_config)

text \<open>
  Without eviction the detector is a family of independent per-agent machines: after a run, each
  agent's state is the fold of its own requests.
\<close>

lemma run_states:
  assumes "gm_ok (states s)"
    and "card (set (gm_keys (states s)) \<union> snd ` set rs) \<le> nat (cap (config s))"
  shows "gm_get (states (snd (run_checks check rs s))) a
    = fold_step (step (config s)) (own a rs) (gm_get (states s) a)"
  using assms
proof (induction rs arbitrary: s)
  case (Cons r rs)
  obtain x b where r: "r = (x, b)" by (cases r)
  let ?s = "snd (check x b s)"
  let ?st = "snd (step (config s) x (gm_get (states s) b))"
  have "card (insert b (set (gm_keys (states s)))) \<le> nat (cap (config s))"
    using Cons.prems(2) by (rule order_trans [OF card_mono, rotated 2]) (auto simp: r)
  then have st: "states ?s = (case ?st of None \<Rightarrow> states s | Some st \<Rightarrow> gm_set (states s) b st)"
    by (simp add: check_states agent_put_room [OF Cons.prems(1)] split: option.splits)
  then have ok: "gm_ok (states ?s)" using Cons.prems(1) by (simp split: option.splits)
  have "set (gm_keys (states ?s)) \<union> snd ` set rs \<subseteq> set (gm_keys (states s)) \<union> snd ` set (r # rs)"
    using st by (auto simp: keys_gm_set r simp del: set_map split: option.splits)
  then have "card (set (gm_keys (states ?s)) \<union> snd ` set rs) \<le> nat (cap (config ?s))"
    unfolding check_config using Cons.prems(2) by (rule order_trans [OF card_mono, rotated]) simp
  from Cons.IH [OF ok this] show ?case
    by (simp add: r case_prod_beta check_config st split: option.splits)
qed simp

lemma run_verdicts:
  assumes "gm_ok (states s)"
    and "card (set (gm_keys (states s)) \<union> snd ` set rs) \<le> nat (cap (config s))"
    and "rs = pre @ (x, a) # post"
  shows "fst (run_checks check rs s) ! length pre
    = fst (step (config s) x (fold_step (step (config s)) (own a pre) (gm_get (states s) a)))"
proof -
  have split: "run_checks check (xs @ ys) s =
      (fst (run_checks check xs s) @ fst (run_checks check ys (snd (run_checks check xs s))),
       snd (run_checks check ys (snd (run_checks check xs s))))" for xs ys s
    by (induction xs arbitrary: s) (auto simp: case_prod_beta)
  have len: "length (fst (run_checks check xs s)) = length xs" for xs s
    by (induction xs arbitrary: s) (auto simp: case_prod_beta)
  have "card (set (gm_keys (states s)) \<union> snd ` set pre) \<le> nat (cap (config s))"
    using assms(2) by (rule order_trans [OF card_mono, rotated 2]) (auto simp: assms(3))
  from run_states [OF assms(1) this, of a] show ?thesis
    by (simp add: assms(3) split len nth_append case_prod_beta check_verdict run_config)
qed

end

sublocale agent_states \<subseteq> agent_scoped check reset "\<lambda>s a (_::unit). gm_get (states s) a" config
  "\<lambda>s. states_ok (cap (config s)) (states s)"
proof (unfold_locales, goal_cases)
  case (5 s b a x)
  then show ?case
    by (auto simp: map_le_def dom_def check_states states_ok_def dest: agent_put_map_le split: option.splits)
next
  case (8 s s' a x)
  then show ?case by (metis check_verdict)
qed (auto simp: states_ok_check reset_states reset_config check_config states_ok_delete fun_eq_iff)

end
