(* ===== verification/Hash_Detector.thy ===== *)
theory Hash_Detector
  imports Detector
begin

text \<open>
  The exact-repeat detector (\<^verbatim>\<open>pkg/circuitbreaker/hash_detector.go\<close>): its state, its five
  operations and the eviction of old entries. Every operation runs under the detector's mutex, so it
  is one atomic step; \<open>now\<close> is the reading of the injected clock in that step and the
  \<open>range_order\<close> arguments the order of its \<^verbatim>\<open>range\<close> loops.
\<close>

section \<open>Definitions\<close>

definition maxEntries :: int where "maxEntries = 100000"

datatype key = Key (key_agent: AgentID) (key_fp: Fingerprint)

record entry =
  e_count :: int
  e_expires :: time
  e_blockedAt :: time
  e_lastBlock :: time

record HashDetector =
  hd_seen :: "(key, entry) gomap"
  hd_ttl :: duration
  hd_limit :: int
  hd_max :: int

definition NewHashDetector :: "duration \<Rightarrow> int \<Rightarrow> HashDetector" where
  "NewHashDetector ttl limit =
     \<lparr>hd_seen = [], hd_ttl = ttl, hd_limit = (if limit \<le> 0 then 2 else limit), hd_max = maxEntries\<rparr>"

definition HashDetector_SetLimit :: "int \<Rightarrow> HashDetector \<Rightarrow> HashDetector" where
  "HashDetector_SetLimit n d = d\<lparr>hd_limit := (if n < 1 then 1 else n)\<rparr>"

definition HashDetector_evictIfNeeded :: "key range_order \<Rightarrow> HashDetector \<Rightarrow> HashDetector" where
  "HashDetector_evictIfNeeded ord d = d\<lparr>hd_seen := evictOldest e_expires ord (hd_max d) (hd_seen d)\<rparr>"

definition HashDetector_Check ::
  "time \<Rightarrow> key range_order \<Rightarrow> AgentID \<Rightarrow> Fingerprint \<Rightarrow> HashDetector \<Rightarrow> CheckResult \<times> HashDetector" where
  "HashDetector_Check now ord agent fp d =
     (let k = Key agent fp;
          fresh = (let d = HashDetector_evictIfNeeded ord d
                   in (CheckResult_zero,
                       d\<lparr>hd_seen := gm_set (hd_seen d) k
                           \<lparr>e_count = 1, e_expires = time_Add now (hd_ttl d),
                            e_blockedAt = 0, e_lastBlock = 0\<rparr>\<rparr>))
      in case gm_get (hd_seen d) k of
           None \<Rightarrow> fresh
         | Some e \<Rightarrow>
             if \<not> now < e_expires e then fresh
             else
               let e1 = e\<lparr>e_count := wrap64 (e_count e + 1)\<rparr>;
                   firstBlock = (e_count e1 \<ge> hd_limit d \<and> time_IsZero (e_blockedAt e1));
                   e2 = (if e_count e1 \<ge> hd_limit d
                         then (if time_IsZero (e_blockedAt e1) then e1\<lparr>e_blockedAt := now\<rparr> else e1)
                                \<lparr>e_lastBlock := now\<rparr>
                         else e1);
                   d' = d\<lparr>hd_seen := gm_set (hd_seen d) k e2\<rparr>
               in if e_count e2 < hd_limit d then (CheckResult_zero, d')
                  else (\<lparr>cr_Block = True, cr_Reason = ReasonExactHash,
                         cr_RetryAfter = ceil_secs (time_Sub (e_expires e2) now),
                         cr_FirstBlock = firstBlock\<rparr>, d'))"

text \<open>The loop of \<^verbatim>\<open>Reset\<close>: the map being deleted from, and the count.\<close>

definition HashDetector_Reset :: "key range_order \<Rightarrow> AgentID \<Rightarrow> HashDetector \<Rightarrow> int \<times> HashDetector" where
  "HashDetector_Reset ord agent d =
     (let (n, seen) = fold (\<lambda>k (n, seen). if key_agent k = agent then (n + 1, gm_delete seen k) else (n, seen))
                        (range_over ord (gm_keys (hd_seen d))) (0, hd_seen d)
      in (n, d\<lparr>hd_seen := seen\<rparr>))"

text \<open>
  The accumulation of one live entry into a status, the same lines in
  \<^verbatim>\<open>AgentStatus\<close> and \<^verbatim>\<open>BlockedAgents\<close>.
\<close>

definition status_add :: "int \<Rightarrow> entry \<Rightarrow> AgentStatus \<Rightarrow> AgentStatus" where
  "status_add limit e st =
     (let st = st\<lparr>as_Fingerprints := as_Fingerprints st + 1\<rparr>
      in if e_count e \<ge> limit
         then let st = st\<lparr>as_BlockedFP := as_BlockedFP st + 1\<rparr>;
                  st = (if \<not> time_IsZero (e_blockedAt e) \<and>
                           (time_IsZero (as_FirstBlocked st) \<or> e_blockedAt e < as_FirstBlocked st)
                        then st\<lparr>as_FirstBlocked := e_blockedAt e\<rparr> else st)
              in (if \<not> time_IsZero (e_lastBlock e) \<and> e_lastBlock e > as_LastBlocked st
                  then st\<lparr>as_LastBlocked := e_lastBlock e\<rparr> else st)
         else st)"

definition HashDetector_AgentStatus ::
  "time \<Rightarrow> key range_order \<Rightarrow> AgentID \<Rightarrow> HashDetector \<Rightarrow> (AgentStatus \<times> bool) \<times> HashDetector" where
  "HashDetector_AgentStatus now ord agent d =
     (let (st, found, seen) =
            fold (\<lambda>(k, e) (st, found, seen).
                    if key_agent k \<noteq> agent then (st, found, seen)
                    else if \<not> now < e_expires e then (st, found, gm_delete seen k)
                    else (status_add (hd_limit d) e st, True, seen))
              (range_entries ord (hd_seen d)) (AgentStatus_zero\<lparr>as_Agent := agent\<rparr>, False, hd_seen d);
          d' = d\<lparr>hd_seen := seen\<rparr>
      in if \<not> found then ((AgentStatus_zero, False), d')
         else ((st\<lparr>as_Blocked := (as_BlockedFP st > 0)\<rparr>, True), d'))"

definition HashDetector_BlockedAgents ::
  "time \<Rightarrow> key range_order \<Rightarrow> AgentID range_order \<Rightarrow> HashDetector \<Rightarrow> AgentStatus list \<times> HashDetector" where
  "HashDetector_BlockedAgents now ord ord' d =
     (let (byAgent, seen) =
            fold (\<lambda>(k, e) (byAgent, seen).
                    if \<not> now < e_expires e then (byAgent, gm_delete seen k)
                    else let st = (case gm_get byAgent (key_agent k) of
                                     Some st \<Rightarrow> st
                                   | None \<Rightarrow> AgentStatus_zero\<lparr>as_Agent := key_agent k\<rparr>)
                         in (gm_set byAgent (key_agent k) (status_add (hd_limit d) e st), seen))
              (range_entries ord (hd_seen d)) ([], hd_seen d);
          sts = map (\<lambda>(a, st). st\<lparr>as_Blocked := (as_BlockedFP st > 0)\<rparr>) (range_entries ord' byAgent);
          out = filter as_Blocked sts
      in (sort_key as_Agent out, d\<lparr>hd_seen := seen\<rparr>))"


section \<open>The branches of Check\<close>

text \<open>The entry whose window is still open at \<open>now\<close>, if there is one.\<close>

definition live_entry :: "time \<Rightarrow> AgentID \<Rightarrow> Fingerprint \<Rightarrow> HashDetector \<Rightarrow> entry option" where
  "live_entry now a f d =
     (case gm_get (hd_seen d) (Key a f) of
        None \<Rightarrow> None
      | Some e \<Rightarrow> if now < e_expires e then Some e else None)"

lemma live_entry_Some:
  "live_entry now a f d = Some e \<longleftrightarrow> gm_get (hd_seen d) (Key a f) = Some e \<and> now < e_expires e"
  by (auto simp: live_entry_def split: option.splits)

lemma live_entry_None:
  "live_entry now a f d = None \<longleftrightarrow>
     (\<forall>e. gm_get (hd_seen d) (Key a f) = Some e \<longrightarrow> e_expires e \<le> now)"
  by (auto simp: live_entry_def split: option.splits)

lemma Check_fresh:
  assumes "live_entry now a f d = None"
  shows "HashDetector_Check now ord a f d =
    (CheckResult_zero,
     d\<lparr>hd_seen := gm_set (evictOldest e_expires ord (hd_max d) (hd_seen d)) (Key a f)
        \<lparr>e_count = 1, e_expires = now + hd_ttl d, e_blockedAt = 0, e_lastBlock = 0\<rparr>\<rparr>)"
  using assms
  by (auto simp: HashDetector_Check_def HashDetector_evictIfNeeded_def live_entry_def time_defs Let_def
      split: option.splits if_splits)

text \<open>The entry a repeat inside the window leaves behind.\<close>

definition entry_bump :: "time \<Rightarrow> int \<Rightarrow> entry \<Rightarrow> entry" where
  "entry_bump now limit e =
     (let c = wrap64 (e_count e + 1)
      in e\<lparr>e_count := c,
           e_blockedAt := (if limit \<le> c \<and> e_blockedAt e = 0 then now else e_blockedAt e),
           e_lastBlock := (if limit \<le> c then now else e_lastBlock e)\<rparr>)"

lemma entry_bump_sel [simp]:
  "e_count (entry_bump now limit e) = wrap64 (e_count e + 1)"
  "e_expires (entry_bump now limit e) = e_expires e"
  by (simp_all add: entry_bump_def Let_def)

lemma Check_repeat:
  assumes "live_entry now a f d = Some e"
  shows "HashDetector_Check now ord a f d =
    (if hd_limit d \<le> wrap64 (e_count e + 1)
     then \<lparr>cr_Block = True, cr_Reason = ReasonExactHash,
           cr_RetryAfter = ceil_secs (time_Sub (e_expires e) now),
           cr_FirstBlock = (e_blockedAt e = 0)\<rparr>
     else CheckResult_zero,
     d\<lparr>hd_seen := gm_set (hd_seen d) (Key a f) (entry_bump now (hd_limit d) e)\<rparr>)"
  using assms by (auto simp: HashDetector_Check_def entry_bump_def live_entry_Some time_defs Let_def)

lemma Check_config [simp]:
  "hd_ttl (snd (HashDetector_Check now ord a f d)) = hd_ttl d"
  "hd_limit (snd (HashDetector_Check now ord a f d)) = hd_limit d"
  "hd_max (snd (HashDetector_Check now ord a f d)) = hd_max d"
  by (cases "live_entry now a f d"; simp add: Check_fresh Check_repeat)+

section \<open>Reset\<close>

lemma reset_loop:
  "fold (\<lambda>k (n, seen). if key_agent k = agent then (n + 1, gm_delete seen k) else (n, seen)) ks (n, seen)
   = (n + int (length (filter (\<lambda>k. key_agent k = agent) ks)),
      filter (\<lambda>p. \<not> (fst p \<in> set ks \<and> key_agent (fst p) = agent)) seen)"
proof (induction ks arbitrary: n seen)
  case Nil
  then show ?case by (simp add: filter_True)
next
  case (Cons k ks)
  then show ?case by (auto simp: gm_delete_filter intro!: filter_cong)
qed

lemma Reset_eq:
  "HashDetector_Reset ord agent d =
     (int (length (filter (\<lambda>p. key_agent (fst p) = agent) (hd_seen d))),
      d\<lparr>hd_seen := filter (\<lambda>p. key_agent (fst p) \<noteq> agent) (hd_seen d)\<rparr>)"
proof -
  have "length (filter (\<lambda>k. key_agent k = agent) (range_over ord (gm_keys (hd_seen d))))
      = length (filter (\<lambda>p. key_agent (fst p) = agent) (hd_seen d))"
    by (simp add: length_filter_range_over filter_map comp_def)
  moreover have "filter (\<lambda>p. fst p \<in> fst ` set (hd_seen d) \<longrightarrow> key_agent (fst p) \<noteq> agent) (hd_seen d)
      = filter (\<lambda>p. key_agent (fst p) \<noteq> agent) (hd_seen d)"
    by (rule filter_cong) auto
  ultimately show ?thesis by (simp add: HashDetector_Reset_def reset_loop)
qed

lemma Reset_sel [simp]:
  "hd_ttl (snd (HashDetector_Reset ord a d)) = hd_ttl d"
  "hd_limit (snd (HashDetector_Reset ord a d)) = hd_limit d"
  "hd_max (snd (HashDetector_Reset ord a d)) = hd_max d"
  "gm_get (hd_seen (snd (HashDetector_Reset ord a d))) k
     = (if key_agent k = a then None else gm_get (hd_seen d) k)"
  by (simp_all add: Reset_eq gm_get_filter_key [of "\<lambda>k. key_agent k \<noteq> a"])

section \<open>Well-formedness and the per-agent contract\<close>

definition hash_wf :: "HashDetector \<Rightarrow> bool" where
  "hash_wf d \<longleftrightarrow> gm_ok (hd_seen d) \<and> 1 \<le> hd_max d \<and> 1 \<le> hd_limit d \<and> gm_len (hd_seen d) \<le> hd_max d"

lemma hash_wf_New: "hash_wf (NewHashDetector ttl limit)"
  by (simp add: hash_wf_def NewHashDetector_def maxEntries_def)

lemma hash_wf_Check:
  assumes "hash_wf d"
  shows "hash_wf (snd (HashDetector_Check now ord a f d))"
proof (cases "live_entry now a f d")
  case None
  from assms have "gm_len (evictOldest e_expires ord (hd_max d) (hd_seen d)) < hd_max d"
    by (intro length_evictOldest) (simp add: hash_wf_def)
  with assms show ?thesis
    unfolding Check_fresh [OF None] by (auto simp: hash_wf_def length_gm_set)
next
  case (Some e)
  with assms show ?thesis
    unfolding Check_repeat [OF Some] by (auto simp: hash_wf_def length_gm_set live_entry_def)
qed

lemma hash_wf_Reset: "hash_wf d \<Longrightarrow> hash_wf (snd (HashDetector_Reset ord a d))"
  using length_filter_le [of "\<lambda>p. key_agent (fst p) \<noteq> a" "hd_seen d"]
  by (simp add: hash_wf_def Reset_eq gm_ok_filter del: length_filter_le)

lemma hash_wf_SetLimit: "hash_wf d \<Longrightarrow> hash_wf (HashDetector_SetLimit n d)"
  by (simp add: hash_wf_def HashDetector_SetLimit_def)


definition hash_history :: "HashDetector \<Rightarrow> AgentID \<Rightarrow> Fingerprint \<Rightarrow> entry option" where
  "hash_history d a f = gm_get (hd_seen d) (Key a f)"

definition hash_config :: "HashDetector \<Rightarrow> duration \<times> int \<times> int" where
  "hash_config d = (hd_ttl d, hd_limit d, hd_max d)"

lemma gm_get_Check_other:
  assumes "hash_wf d" and "k \<noteq> Key a f"
    and "gm_get (hd_seen (snd (HashDetector_Check now ord a f d))) k = Some e"
  shows "gm_get (hd_seen d) k = Some e"
proof (cases "live_entry now a f d")
  case None
  have "map_of (evictOldest e_expires ord (hd_max d) (hd_seen d)) \<subseteq>\<^sub>m map_of (hd_seen d)"
    using assms(1) by (intro evictOldest_map_le) (simp add: hash_wf_def)
  moreover from assms(2,3) None
  have "gm_get (evictOldest e_expires ord (hd_max d) (hd_seen d)) k = Some e"
    by (simp add: Check_fresh)
  ultimately show ?thesis by (rule map_leD)
next
  case (Some e')
  with assms show ?thesis by (simp add: Check_repeat)
qed

interpretation hash: agent_scoped
  "\<lambda>(now, ord, f) a. HashDetector_Check now ord a f" "HashDetector_Reset ord"
  hash_history hash_config hash_wf
  for ord
proof (unfold_locales, goal_cases)
  case (5 s b a x)
  then show ?case
    by (cases x) (auto simp: map_le_def hash_history_def dom_def intro: gm_get_Check_other [symmetric])
next
  case (8 s s' a x)
  obtain now ord f where x: "x = (now, ord, f)" by (cases x)
  have "live_entry now a f s = live_entry now a f s'"
    using fun_cong [OF 8(4), of f] by (simp add: live_entry_def hash_history_def)
  then show ?case
    using 8(3) by (cases "live_entry now a f s'") (auto simp: x Check_fresh Check_repeat hash_config_def)
qed (auto simp: hash_wf_Check hash_wf_Reset hash_config_def hash_history_def fun_eq_iff)


section \<open>What a run of checks decides\<close>

text \<open>
  A run of the detector: each request brings its clock reading, its iteration order, its agent and
  its fingerprint.
\<close>

type_synonym hash_request = "time \<times> key range_order \<times> AgentID \<times> Fingerprint"

fun req_time :: "hash_request \<Rightarrow> time" where "req_time (t, ord, a, f) = t"
fun req_key :: "hash_request \<Rightarrow> key" where "req_key (t, ord, a, f) = Key a f"

fun hash_run :: "hash_request list \<Rightarrow> HashDetector \<Rightarrow> CheckResult list \<times> HashDetector" where
  "hash_run [] d = ([], d)"
| "hash_run ((t, ord, a, f) # rs) d =
     (let (r, d1) = HashDetector_Check t ord a f d; (out, d2) = hash_run rs d1 in (r # out, d2))"

text \<open>
  The specification looks at nothing but the times at which the same agent sent the same body. They
  fall into windows: the first sighting opens one, and every sighting less than \<open>ttl\<close> after the
  opening belongs to it. \<open>window\<close> gives the opening and the number of sightings of the last
  window; the \<open>n\<close>-th sighting is blocked when \<open>n\<close> reaches the threshold.
\<close>

definition window_next :: "duration \<Rightarrow> time \<Rightarrow> (time \<times> int) option \<Rightarrow> time \<times> int" where
  "window_next ttl t w =
     (case w of
        None \<Rightarrow> (t, 1)
      | Some (s, n) \<Rightarrow> if t < s + ttl then (s, n + 1) else (t, 1))"

definition window :: "duration \<Rightarrow> time list \<Rightarrow> (time \<times> int) option" where
  "window ttl ts = fold (\<lambda>t w. Some (window_next ttl t w)) ts None"

definition threshold :: "int \<Rightarrow> int" where
  "threshold limit = max 2 limit"

definition verdict_spec :: "duration \<Rightarrow> int \<Rightarrow> time list \<Rightarrow> time \<Rightarrow> CheckResult" where
  "verdict_spec ttl limit past t =
     (let (s, n) = window_next ttl t (window ttl past)
      in if threshold limit \<le> n
         then \<lparr>cr_Block = True, cr_Reason = ReasonExactHash,
               cr_RetryAfter = ceil_secs (time_Sub (s + ttl) t),
               cr_FirstBlock = (n = threshold limit)\<rparr>
         else CheckResult_zero)"

definition times_of :: "key \<Rightarrow> hash_request list \<Rightarrow> time list" where
  "times_of k rs = map req_time (filter (\<lambda>r. req_key r = k) rs)"

lemma window_snoc [simp]: "window ttl (ts @ [t]) = Some (window_next ttl t (window ttl ts))"
  by (simp add: window_def)

lemma window_Nil [simp]: "window ttl [] = None"
  by (simp add: window_def)

lemma window_None_iff: "window ttl ts = None \<longleftrightarrow> ts = []"
  by (cases ts rule: rev_cases) simp_all

lemma window_count: "window ttl ts = Some (s, n) \<Longrightarrow> 1 \<le> n \<and> n \<le> int (length ts)"
  by (induction ts arbitrary: s n rule: rev_induct)
     (force simp: window_next_def split: option.splits if_splits prod.splits)+

lemma times_of_snoc: "times_of k (rs @ [r]) = times_of k rs @ (if req_key r = k then [req_time r] else [])"
  by (simp add: times_of_def)

lemma length_times_of: "length (times_of k rs) \<le> length rs"
  by (simp add: times_of_def)

lemma times_of_Nil_iff: "times_of k rs = [] \<longleftrightarrow> k \<notin> req_key ` set rs"
  by (auto simp: times_of_def filter_empty_conv)

text \<open>
  The simulation: after the requests \<open>past\<close>, the detector holds exactly one entry per pair seen,
  with the count and the end of that pair's last window, and the entry has been marked as blocked
  once the count has reached the threshold.
\<close>

definition entry_sim :: "duration \<Rightarrow> int \<Rightarrow> (time \<times> int) option \<Rightarrow> entry option \<Rightarrow> bool" where
  "entry_sim ttl limit w e \<longleftrightarrow>
     (case w of
        None \<Rightarrow> e = None
      | Some (s, n) \<Rightarrow> \<exists>x. e = Some x \<and> e_count x = n \<and> e_expires x = s + ttl \<and>
                          (e_blockedAt x = 0 \<longleftrightarrow> n < threshold limit))"

definition hash_sim :: "hash_request list \<Rightarrow> HashDetector \<Rightarrow> bool" where
  "hash_sim past d \<longleftrightarrow> hash_wf d \<and>
     (\<forall>k. entry_sim (hd_ttl d) (hd_limit d) (window (hd_ttl d) (times_of k past)) (gm_get (hd_seen d) k))"

lemma hash_sim_length:
  assumes "hash_sim past d"
  shows "gm_len (hd_seen d) = int (card (req_key ` set past))"
proof -
  have "k \<in> set (gm_keys (hd_seen d)) \<longleftrightarrow> k \<in> req_key ` set past" for k
  proof -
    have "entry_sim (hd_ttl d) (hd_limit d) (window (hd_ttl d) (times_of k past)) (gm_get (hd_seen d) k)"
      using assms by (simp add: hash_sim_def)
    then have "gm_get (hd_seen d) k = None \<longleftrightarrow> window (hd_ttl d) (times_of k past) = None"
      by (auto simp: entry_sim_def split: option.splits)
    then show ?thesis by (metis gm_get_None_iff times_of_Nil_iff window_None_iff)
  qed
  then have "set (gm_keys (hd_seen d)) = req_key ` set past" by blast
  moreover have "distinct (gm_keys (hd_seen d))" using assms by (simp add: hash_sim_def hash_wf_def)
  ultimately show ?thesis by (metis distinct_card length_map)
qed

lemma entry_sim_repeat:
  assumes "entry_sim ttl limit (Some (s, n)) (Some e)" and "t < s + ttl" and "0 < t"
    and "1 \<le> n" and "n < int64_max"
  shows "entry_sim ttl limit (Some (s, n + 1)) (Some (entry_bump t limit e))"
    and "limit \<le> wrap64 (e_count e + 1) \<longleftrightarrow> threshold limit \<le> n + 1"
    and "threshold limit \<le> n + 1 \<Longrightarrow> e_blockedAt e = 0 \<longleftrightarrow> n + 1 = threshold limit"
proof -
  have wrap: "wrap64 (n + 1) = n + 1"
    using assms(4,5) by (intro wrap64_id) (simp add: is_int64_def int64_bounds)
  have thr: "limit \<le> n + 1 \<longleftrightarrow> threshold limit \<le> n + 1"
    using assms(4) by (auto simp: threshold_def)
  show "entry_sim ttl limit (Some (s, n + 1)) (Some (entry_bump t limit e))"
    using assms wrap thr by (auto simp: entry_sim_def entry_bump_def Let_def)
  show "limit \<le> wrap64 (e_count e + 1) \<longleftrightarrow> threshold limit \<le> n + 1"
    using assms(1) wrap thr by (simp add: entry_sim_def)
  show "threshold limit \<le> n + 1 \<Longrightarrow> e_blockedAt e = 0 \<longleftrightarrow> n + 1 = threshold limit"
    using assms(1) by (auto simp: entry_sim_def)
qed


lemma entry_sim_fresh:
  "entry_sim ttl limit (Some (t, 1))
     (Some \<lparr>e_count = 1, e_expires = t + ttl, e_blockedAt = 0, e_lastBlock = 0\<rparr>)"
  by (simp add: entry_sim_def threshold_def)

lemma hash_sim_entry:
  "hash_sim past d \<Longrightarrow>
   entry_sim (hd_ttl d) (hd_limit d) (window (hd_ttl d) (times_of k past)) (gm_get (hd_seen d) k)"
  by (simp add: hash_sim_def)

lemma hash_sim_update:
  assumes "hash_sim past d" and "hash_wf d'"
    and "hd_ttl d' = hd_ttl d" and "hd_limit d' = hd_limit d"
    and "map_of (hd_seen d') = (map_of (hd_seen d))(Key a f \<mapsto> e)"
    and "entry_sim (hd_ttl d) (hd_limit d)
           (Some (window_next (hd_ttl d) t (window (hd_ttl d) (times_of (Key a f) past)))) (Some e)"
  shows "hash_sim (past @ [(t, ord, a, f)]) d'"
  using assms by (auto simp: hash_sim_def times_of_snoc)

lemma hash_sim_step:
  assumes sim: "hash_sim past d" and room: "gm_len (hd_seen d) < hd_max d"
    and pos: "0 < t" and short: "int (length past) < int64_max"
  shows "fst (HashDetector_Check t ord a f d)
      = verdict_spec (hd_ttl d) (hd_limit d) (times_of (Key a f) past) t"
    and "hash_sim (past @ [(t, ord, a, f)]) (snd (HashDetector_Check t ord a f d))"
proof -
  let ?w = "window (hd_ttl d) (times_of (Key a f) past)"
  let ?d' = "snd (HashDetector_Check t ord a f d)"
  have wf: "hash_wf ?d'" using sim by (simp add: hash_sim_def hash_wf_Check)
  note k = hash_sim_entry [OF sim, of "Key a f"]
  note goal = hash_sim_update [OF sim wf Check_config(1,2), where t = t and a = a and f = f and ord = ord]
  have "fst (HashDetector_Check t ord a f d) = verdict_spec (hd_ttl d) (hd_limit d) (times_of (Key a f) past) t
      \<and> hash_sim (past @ [(t, ord, a, f)]) ?d'"
  proof (cases "live_entry t a f d")
    case None
    then have nxt: "window_next (hd_ttl d) t ?w = (t, 1)"
      using k by (auto simp: live_entry_None entry_sim_def window_next_def split: option.splits)
    have upd: "map_of (hd_seen ?d') = (map_of (hd_seen d))(Key a f \<mapsto>
        \<lparr>e_count = 1, e_expires = t + hd_ttl d, e_blockedAt = 0, e_lastBlock = 0\<rparr>)"
      using room by (simp add: Check_fresh [OF None] fun_eq_iff)
    have "hash_sim (past @ [(t, ord, a, f)]) ?d'"
      by (rule goal [OF upd]) (simp add: nxt entry_sim_fresh)
    with nxt show ?thesis by (simp add: Check_fresh [OF None] verdict_spec_def threshold_def)
  next
    case (Some e)
    then have get: "gm_get (hd_seen d) (Key a f) = Some e" and live: "t < e_expires e"
      by (simp_all add: live_entry_Some)
    from k get obtain s n where w: "?w = Some (s, n)"
      by (auto simp: entry_sim_def split: option.splits)
    with k get live have lt: "t < s + hd_ttl d" and exp: "e_expires e = s + hd_ttl d"
      by (auto simp: entry_sim_def)
    have n: "1 \<le> n" "n < int64_max"
      using window_count [OF w] length_times_of [of "Key a f" past] short by auto
    note rep = entry_sim_repeat [OF k [unfolded w get] lt pos n]
    have upd: "map_of (hd_seen ?d') = (map_of (hd_seen d))(Key a f \<mapsto> entry_bump t (hd_limit d) e)"
      by (simp add: Check_repeat [OF Some] fun_eq_iff)
    have "hash_sim (past @ [(t, ord, a, f)]) ?d'"
      by (rule goal [OF upd]) (use rep(1) lt in \<open>simp add: w window_next_def\<close>)
    with rep(2,3) lt show ?thesis
      by (auto simp: Check_repeat [OF Some] verdict_spec_def window_next_def w exp)
  qed
  then show "fst (HashDetector_Check t ord a f d)
      = verdict_spec (hd_ttl d) (hd_limit d) (times_of (Key a f) past) t"
    and "hash_sim (past @ [(t, ord, a, f)]) ?d'" by auto
qed

lemma hash_run_spec:
  assumes "hash_sim past d" and "int (card (req_key ` set (past @ rs))) < hd_max d"
    and "\<forall>r \<in> set rs. 0 < req_time r" and "int (length (past @ rs)) \<le> int64_max"
    and "i < length rs"
  shows "fst (hash_run rs d) ! i
    = verdict_spec (hd_ttl d) (hd_limit d) (times_of (req_key (rs ! i)) (past @ take i rs)) (req_time (rs ! i))"
  using assms
proof (induction rs arbitrary: past d i)
  case (Cons r rs)
  obtain t ord a f where r: "r = (t, ord, a, f)" by (cases r)
  have "card (req_key ` set past) \<le> card (req_key ` set (past @ r # rs))"
    by (intro card_mono) auto
  with hash_sim_length [OF Cons.prems(1)] Cons.prems(2)
  have room: "gm_len (hd_seen d) < hd_max d" by linarith
  note step = hash_sim_step [OF Cons.prems(1) room, of t ord a f]
  show ?case
  proof (cases i)
    case 0
    then show ?thesis using step(1) Cons.prems(3,4) by (simp add: r Let_def case_prod_beta)
  next
    case (Suc j)
    let ?d' = "snd (HashDetector_Check t ord a f d)"
    have "fst (hash_run rs ?d') ! j = verdict_spec (hd_ttl ?d') (hd_limit ?d')
        (times_of (req_key (rs ! j)) ((past @ [r]) @ take j rs)) (req_time (rs ! j))"
      using Cons.prems step(2) Suc by (intro Cons.IH) (simp_all add: r)
    then show ?thesis by (simp add: r Suc Let_def case_prod_beta)
  qed
qed simp

lemma hash_sim_New: "hash_sim [] (NewHashDetector ttl limit)"
  by (simp add: hash_sim_def hash_wf_New times_of_def entry_sim_def) (simp add: NewHashDetector_def)


section \<open>Status reports\<close>

text \<open>
  What a status says of an agent whose live entries are \<open>es\<close>: sizes, the earliest and the latest
  time of a block, in terms of sets, so that no order of the entries is left in it.
\<close>

definition blocked_entries :: "int \<Rightarrow> entry list \<Rightarrow> entry list" where
  "blocked_entries limit es = filter (\<lambda>e. limit \<le> e_count e) es"

definition first_blocks :: "int \<Rightarrow> entry list \<Rightarrow> time set" where
  "first_blocks limit es = e_blockedAt ` set (blocked_entries limit es) - {0}"

definition first_of :: "int \<Rightarrow> entry list \<Rightarrow> time" where
  "first_of limit es = (if first_blocks limit es = {} then 0 else Min (first_blocks limit es))"

definition last_of :: "int \<Rightarrow> entry list \<Rightarrow> time" where
  "last_of limit es = Max (insert 0 (e_lastBlock ` set (blocked_entries limit es)))"

definition status_spec :: "int \<Rightarrow> AgentID \<Rightarrow> entry list \<Rightarrow> AgentStatus" where
  "status_spec limit a es =
     \<lparr>as_Agent = a,
      as_Blocked = (blocked_entries limit es \<noteq> []),
      as_Fingerprints = int (length es),
      as_BlockedFP = int (length (blocked_entries limit es)),
      as_FirstBlocked = first_of limit es,
      as_LastBlocked = last_of limit es\<rparr>"

lemma status_spec_Blocked: "as_Blocked (status_spec limit a es) \<longleftrightarrow> blocked_entries limit es \<noteq> []"
  by (simp add: status_spec_def)

definition status_acc :: "int \<Rightarrow> AgentID \<Rightarrow> entry list \<Rightarrow> AgentStatus" where
  "status_acc limit a es = (status_spec limit a es)\<lparr>as_Blocked := False\<rparr>"

lemma first_blocks_snoc:
  "first_blocks limit (es @ [e])
   = (if limit \<le> e_count e \<and> e_blockedAt e \<noteq> 0 then insert (e_blockedAt e) (first_blocks limit es)
      else first_blocks limit es)"
  by (auto simp: first_blocks_def blocked_entries_def)

lemma finite_first_blocks [simp]: "finite (first_blocks limit es)"
  by (simp add: first_blocks_def)

lemma zero_first_blocks [simp]: "0 \<notin> first_blocks limit es"
  by (simp add: first_blocks_def)

lemma status_acc_Nil: "status_acc limit a [] = AgentStatus_zero\<lparr>as_Agent := a\<rparr>"
  by (simp add: status_acc_def status_spec_def first_of_def last_of_def first_blocks_def
      blocked_entries_def AgentStatus_zero_def)

lemma first_of_snoc:
  "first_of limit (es @ [e]) =
     (if limit \<le> e_count e \<and> e_blockedAt e \<noteq> 0 \<and> (first_of limit es = 0 \<or> e_blockedAt e < first_of limit es)
      then e_blockedAt e else first_of limit es)"
proof -
  let ?A = "first_blocks limit es" and ?x = "e_blockedAt e"
  have zero: "first_of limit es = 0 \<longleftrightarrow> ?A = {}"
    by (metis Min_in finite_first_blocks first_of_def zero_first_blocks)
  show ?thesis
  proof (cases "limit \<le> e_count e \<and> ?x \<noteq> 0")
    case True
    then have "first_of limit (es @ [e]) = Min (insert ?x ?A)"
      by (simp add: first_of_def first_blocks_snoc)
    also have "\<dots> = (if ?A = {} \<or> ?x < Min ?A then ?x else Min ?A)"
    proof (cases "?A = {}")
      case False
      then show ?thesis using Min_insert_if [OF finite_first_blocks False, of ?x] by (simp only: simp_thms)
    qed simp
    finally have "first_of limit (es @ [e]) = (if ?A = {} \<or> ?x < Min ?A then ?x else Min ?A)" .
    moreover have "?A \<noteq> {} \<Longrightarrow> first_of limit es = Min ?A" by (simp add: first_of_def)
    ultimately show ?thesis using True zero by metis
  next
    case False
    then show ?thesis by (auto simp: first_of_def first_blocks_snoc)
  qed
qed

lemma last_of_snoc:
  "last_of limit (es @ [e]) =
     (if limit \<le> e_count e \<and> last_of limit es < e_lastBlock e then e_lastBlock e else last_of limit es)"
proof (cases "limit \<le> e_count e")
  case True
  let ?A = "insert 0 (e_lastBlock ` set (blocked_entries limit es))"
  from True have "last_of limit (es @ [e]) = Max (insert (e_lastBlock e) ?A)"
    unfolding last_of_def by (simp only: insert_commute [of _ 0]) (simp add: blocked_entries_def)
  also have "\<dots> = (if Max ?A < e_lastBlock e then e_lastBlock e else Max ?A)"
    by (rule Max_insert_if) simp_all
  finally show ?thesis unfolding last_of_def using True by (simp only: simp_thms)
qed (simp add: last_of_def blocked_entries_def)

lemma last_of_nonneg: "0 \<le> last_of limit es"
  by (simp add: last_of_def)

lemma status_add_acc: "status_add limit e (status_acc limit a es) = status_acc limit a (es @ [e])"
  using last_of_nonneg [of limit es]
  by (simp add: status_add_def status_acc_def status_spec_def Let_def time_defs
      first_of_snoc last_of_snoc blocked_entries_def)

lemma fold_status_add: "fold (status_add limit) es (status_acc limit a es0) = status_acc limit a (es0 @ es)"
  by (induction es arbitrary: es0) (simp_all add: status_add_acc)

lemma status_spec_mset:
  assumes "mset es = mset es'"
  shows "status_spec limit a es = status_spec limit a es'"
proof -
  have m: "mset (blocked_entries limit es) = mset (blocked_entries limit es')"
    using assms by (simp add: blocked_entries_def)
  then have "blocked_entries limit es = [] \<longleftrightarrow> blocked_entries limit es' = []"
    by (metis mset_zero_iff)
  then show ?thesis
    using mset_eq_length [OF assms] mset_eq_length [OF m] mset_eq_setD [OF m]
    by (simp add: status_spec_def first_of_def last_of_def first_blocks_def)
qed

text \<open>The live entries of one agent, and the sweep that an inspection performs.\<close>

definition live_of :: "time \<Rightarrow> AgentID \<Rightarrow> (key \<times> entry) list \<Rightarrow> entry list" where
  "live_of now a m = map snd (filter (\<lambda>(k, e). key_agent k = a \<and> now < e_expires e) m)"

lemma live_of_mset: "mset m = mset m' \<Longrightarrow> mset (live_of now a m) = mset (live_of now a m')"
  by (simp add: live_of_def)

lemma live_of_Nil [simp]: "live_of now a [] = []"
  by (simp add: live_of_def)

lemma live_of_snoc:
  "live_of now a (m @ [(k, e)]) = live_of now a m @ (if key_agent k = a \<and> now < e_expires e then [e] else [])"
  by (simp add: live_of_def)

lemma agent_status_loop:
  "fold (\<lambda>(k, e) (st, found, seen).
           if key_agent k \<noteq> a then (st, found, seen)
           else if \<not> now < e_expires e then (st, found, gm_delete seen k)
           else (status_add limit e st, True, seen))
     xs (AgentStatus_zero\<lparr>as_Agent := a\<rparr>, False, m)
   = (status_acc limit a (live_of now a xs), live_of now a xs \<noteq> [],
      filter (\<lambda>p. \<not> (\<exists>e. (fst p, e) \<in> set xs \<and> key_agent (fst p) = a \<and> \<not> now < e_expires e)) m)"
proof (induction xs rule: rev_induct)
  case Nil
  then show ?case by (simp add: status_acc_Nil)
next
  case (snoc x xs)
  obtain k e where x: "x = (k, e)" by (cases x)
  show ?case unfolding x
    by (auto simp: snoc live_of_snoc status_add_acc gm_delete_filter intro!: filter_cong)
qed

lemma sweep_filter:
  assumes "gm_ok m" and "set xs = set m"
  shows "filter (\<lambda>p. \<not> (\<exists>e. (fst p, e) \<in> set xs \<and> P (fst p) e)) m = filter (\<lambda>(k, e). \<not> P k e) m"
proof (rule filter_cong)
  fix p assume "p \<in> set m"
  then have "(fst p, e) \<in> set m \<longleftrightarrow> e = snd p" for e
    using assms(1) by (metis eq_key_imp_eq_value prod.collapse)
  then show "(\<not> (\<exists>e. (fst p, e) \<in> set xs \<and> P (fst p) e)) = (case p of (k, e) \<Rightarrow> \<not> P k e)"
    by (simp add: assms(2) case_prod_beta)
qed simp

lemma AgentStatus_eq:
  assumes "gm_ok (hd_seen d)"
  shows "HashDetector_AgentStatus now ord a d =
    (if live_of now a (hd_seen d) = [] then (AgentStatus_zero, False)
     else (status_spec (hd_limit d) a (live_of now a (hd_seen d)), True),
     d\<lparr>hd_seen := filter (\<lambda>(k, e). \<not> (key_agent k = a \<and> \<not> now < e_expires e)) (hd_seen d)\<rparr>)"
proof -
  let ?xs = "range_entries ord (hd_seen d)"
  have m: "mset (live_of now a ?xs) = mset (live_of now a (hd_seen d))"
    using assms by (intro live_of_mset) simp
  then have emp: "live_of now a ?xs = [] \<longleftrightarrow> live_of now a (hd_seen d) = []"
    by (metis mset_zero_iff)
  have spec: "(status_acc (hd_limit d) a es)\<lparr>as_Blocked := (as_BlockedFP (status_acc (hd_limit d) a es) > 0)\<rparr>
      = status_spec (hd_limit d) a es" for es
    by (simp add: status_acc_def status_spec_def)
  have sweep: "filter (\<lambda>p. \<not> (\<exists>e. (fst p, e) \<in> set ?xs \<and> key_agent (fst p) = a \<and> \<not> now < e_expires e)) (hd_seen d)
      = filter (\<lambda>(k, e). \<not> (key_agent k = a \<and> \<not> now < e_expires e)) (hd_seen d)"
    by (rule sweep_filter [OF assms set_range_entries [OF assms],
          where P = "\<lambda>k e. key_agent k = a \<and> \<not> now < e_expires e"])
  show ?thesis
    unfolding HashDetector_AgentStatus_def agent_status_loop sweep
    by (simp add: emp spec status_spec_mset [OF m])
qed


definition by_agent_ok :: "int \<Rightarrow> time \<Rightarrow> (key \<times> entry) list \<Rightarrow> (AgentID, AgentStatus) gomap \<Rightarrow> bool" where
  "by_agent_ok limit now xs byAgent \<longleftrightarrow> gm_ok byAgent \<and>
     (\<forall>a. gm_get byAgent a =
        (if live_of now a xs = [] then None else Some (status_acc limit a (live_of now a xs))))"

definition blocked_step ::
  "int \<Rightarrow> time \<Rightarrow> key \<times> entry \<Rightarrow> (AgentID, AgentStatus) gomap \<times> (key, entry) gomap
     \<Rightarrow> (AgentID, AgentStatus) gomap \<times> (key, entry) gomap" where
  "blocked_step limit now = (\<lambda>(k, e) (byAgent, seen).
     if \<not> now < e_expires e then (byAgent, gm_delete seen k)
     else let st = (case gm_get byAgent (key_agent k) of
                      Some st \<Rightarrow> st
                    | None \<Rightarrow> AgentStatus_zero\<lparr>as_Agent := key_agent k\<rparr>)
          in (gm_set byAgent (key_agent k) (status_add limit e st), seen))"

lemma by_agent_ok_step:
  assumes ok: "by_agent_ok limit now xs byAgent"
  shows "by_agent_ok limit now (xs @ [(k, e)]) (fst (blocked_step limit now (k, e) (byAgent, seen)))"
proof (cases "now < e_expires e")
  case True
  have "(case gm_get byAgent (key_agent k) of Some st \<Rightarrow> st | None \<Rightarrow> AgentStatus_zero\<lparr>as_Agent := key_agent k\<rparr>)
      = status_acc limit (key_agent k) (live_of now (key_agent k) xs)"
    using ok by (simp add: by_agent_ok_def status_acc_Nil)
  with ok True show ?thesis
    by (auto simp: by_agent_ok_def blocked_step_def Let_def live_of_snoc status_add_acc)
next
  case False
  with ok show ?thesis by (simp add: by_agent_ok_def blocked_step_def live_of_snoc)
qed

lemma blocked_loop:
  "by_agent_ok limit now xs (fst (fold (blocked_step limit now) xs ([], m))) \<and>
   snd (fold (blocked_step limit now) xs ([], m))
     = filter (\<lambda>p. \<not> (\<exists>e. (fst p, e) \<in> set xs \<and> \<not> now < e_expires e)) m"
proof (induction xs rule: rev_induct)
  case Nil
  then show ?case by (simp add: by_agent_ok_def)
next
  case (snoc x xs)
  obtain k e where x: "x = (k, e)" by (cases x)
  let ?r = "fold (blocked_step limit now) xs ([], m)"
  have "by_agent_ok limit now (xs @ [x]) (fst (blocked_step limit now x (fst ?r, snd ?r)))"
    unfolding x using snoc by (intro by_agent_ok_step) simp
  moreover have "snd (blocked_step limit now x (fst ?r, snd ?r))
      = filter (\<lambda>p. \<not> (\<exists>e. (fst p, e) \<in> set (xs @ [x]) \<and> \<not> now < e_expires e)) m"
    using snoc by (auto simp: x blocked_step_def Let_def gm_delete_filter intro!: filter_cong)
  ultimately show ?case by simp
qed

lemma by_agent_statuses:
  assumes "by_agent_ok limit now xs byAgent"
  shows "set (filter as_Blocked (map (\<lambda>(a, st). st\<lparr>as_Blocked := (as_BlockedFP st > 0)\<rparr>) (range_entries ord byAgent)))
      = {status_spec limit a (live_of now a xs) | a. blocked_entries limit (live_of now a xs) \<noteq> []}"
    (is "set (filter _ (map ?fin _)) = ?S")
    and "distinct (map as_Agent (filter as_Blocked
          (map (\<lambda>(a, st). st\<lparr>as_Blocked := (as_BlockedFP st > 0)\<rparr>) (range_entries ord byAgent))))"
proof -
  have ok: "gm_ok byAgent" using assms by (simp add: by_agent_ok_def)
  have mem: "(a, st) \<in> set (range_entries ord byAgent) \<longleftrightarrow>
      live_of now a xs \<noteq> [] \<and> st = status_acc limit a (live_of now a xs)" for a st
  proof -
    have "(a, st) \<in> set (range_entries ord byAgent) \<longleftrightarrow> gm_get byAgent a = Some st"
      by (simp add: set_range_entries [OF ok] map_of_eq_Some_iff [OF ok])
    then show ?thesis using assms by (auto simp: by_agent_ok_def)
  qed
  have fin: "?fin (a, status_acc limit a es) = status_spec limit a es" for a es
    by (simp add: status_acc_def status_spec_def)
  have nonempty: "blocked_entries limit es \<noteq> [] \<Longrightarrow> es \<noteq> []" for es
    by (auto simp: blocked_entries_def)
  have "?fin ` set (range_entries ord byAgent)
      = {status_spec limit a (live_of now a xs) | a. live_of now a xs \<noteq> []}"
  proof (intro equalityI subsetI)
    fix y assume "y \<in> ?fin ` set (range_entries ord byAgent)"
    then obtain a st where "(a, st) \<in> set (range_entries ord byAgent)" "y = ?fin (a, st)" by auto
    then show "y \<in> {status_spec limit a (live_of now a xs) | a. live_of now a xs \<noteq> []}"
      using mem fin by auto
  next
    fix y assume "y \<in> {status_spec limit a (live_of now a xs) | a. live_of now a xs \<noteq> []}"
    then obtain a where a: "live_of now a xs \<noteq> []" and y: "y = status_spec limit a (live_of now a xs)"
      by blast
    have "(a, status_acc limit a (live_of now a xs)) \<in> set (range_entries ord byAgent)"
      using a by (simp only: mem simp_thms)
    moreover have "y = ?fin (a, status_acc limit a (live_of now a xs))"
      unfolding y by (rule fin [symmetric])
    ultimately show "y \<in> ?fin ` set (range_entries ord byAgent)" by (rule rev_image_eqI)
  qed
  then have "set (filter as_Blocked (map ?fin (range_entries ord byAgent)))
      = {y \<in> {status_spec limit a (live_of now a xs) | a. live_of now a xs \<noteq> []}. as_Blocked y}"
    by (simp only: set_filter set_map)
  also have "\<dots> = ?S"
    using nonempty by (force simp only: status_spec_Blocked)
  finally show "set (filter as_Blocked (map ?fin (range_entries ord byAgent))) = ?S" .
  have "map (as_Agent \<circ> ?fin) (range_entries ord byAgent) = map fst (range_entries ord byAgent)"
  proof (rule map_cong)
    fix p assume "p \<in> set (range_entries ord byAgent)"
    then have "snd p = status_acc limit (fst p) (live_of now (fst p) xs)"
      using mem [of "fst p" "snd p"] by simp
    then show "(as_Agent \<circ> ?fin) p = fst p"
      by (simp add: case_prod_beta status_acc_def status_spec_def)
  qed simp
  then have "distinct (map as_Agent (map ?fin (range_entries ord byAgent)))"
    using ok by simp
  then show "distinct (map as_Agent (filter as_Blocked (map ?fin (range_entries ord byAgent))))"
    by (rule distinct_map_filter)
qed


lemma BlockedAgents_unfold:
  "HashDetector_BlockedAgents now ord ord' d =
     (let r = fold (blocked_step (hd_limit d) now) (range_entries ord (hd_seen d)) ([], hd_seen d)
      in (sort_key as_Agent (filter as_Blocked
            (map (\<lambda>(a, st). st\<lparr>as_Blocked := (as_BlockedFP st > 0)\<rparr>) (range_entries ord' (fst r)))),
          d\<lparr>hd_seen := snd r\<rparr>))"
  by (simp add: HashDetector_BlockedAgents_def blocked_step_def Let_def case_prod_beta)

lemma BlockedAgents_state:
  assumes "gm_ok (hd_seen d)"
  shows "snd (HashDetector_BlockedAgents now ord ord' d)
    = d\<lparr>hd_seen := filter (\<lambda>(k, e). now < e_expires e) (hd_seen d)\<rparr>"
  using blocked_loop [of "hd_limit d" now "range_entries ord (hd_seen d)" "hd_seen d"]
    sweep_filter [OF assms set_range_entries [OF assms, of ord], of "\<lambda>k e. \<not> now < e_expires e"]
  by (simp add: BlockedAgents_unfold)

lemma BlockedAgents_list:
  assumes ok: "gm_ok (hd_seen d)"
  shows "set (fst (HashDetector_BlockedAgents now ord ord' d))
      = {status_spec (hd_limit d) a (live_of now a (hd_seen d)) | a.
           blocked_entries (hd_limit d) (live_of now a (hd_seen d)) \<noteq> []}"
    and "sorted_wrt (<) (map as_Agent (fst (HashDetector_BlockedAgents now ord ord' d)))"
proof -
  let ?xs = "range_entries ord (hd_seen d)"
  let ?by = "fst (fold (blocked_step (hd_limit d) now) ?xs ([], hd_seen d))"
  have byok: "by_agent_ok (hd_limit d) now ?xs ?by" using blocked_loop by blast
  have m: "mset (live_of now a ?xs) = mset (live_of now a (hd_seen d))" for a
    using ok by (intro live_of_mset) simp
  have spec: "status_spec (hd_limit d) a (live_of now a ?xs) = status_spec (hd_limit d) a (live_of now a (hd_seen d))" for a
    using m by (rule status_spec_mset)
  have bl: "blocked_entries (hd_limit d) (live_of now a ?xs) \<noteq> []
      \<longleftrightarrow> blocked_entries (hd_limit d) (live_of now a (hd_seen d)) \<noteq> []" for a
    using arg_cong [OF spec, of as_Blocked a] by (simp only: status_spec_Blocked)
  show "set (fst (HashDetector_BlockedAgents now ord ord' d))
      = {status_spec (hd_limit d) a (live_of now a (hd_seen d)) | a.
           blocked_entries (hd_limit d) (live_of now a (hd_seen d)) \<noteq> []}"
    using by_agent_statuses(1) [OF byok, of ord']
    by (simp only: BlockedAgents_unfold Let_def fst_conv set_sort spec bl)
  have "distinct (map as_Agent (fst (HashDetector_BlockedAgents now ord ord' d)))"
    using by_agent_statuses(2) [OF byok, of ord']
    by (simp add: BlockedAgents_unfold Let_def distinct_map)
  moreover have "sorted (map as_Agent (fst (HashDetector_BlockedAgents now ord ord' d)))"
    by (simp add: BlockedAgents_unfold Let_def)
  ultimately show "sorted_wrt (<) (map as_Agent (fst (HashDetector_BlockedAgents now ord ord' d)))"
    by (simp add: strict_sorted_iff)
qed

section \<open>The detector as a state machine\<close>

datatype hash_op =
    OpCheck AgentID Fingerprint
  | OpReset AgentID
  | OpSetLimit int
  | OpAgentStatus AgentID
  | OpBlockedAgents

fun hash_apply :: "time \<Rightarrow> key range_order \<Rightarrow> AgentID range_order \<Rightarrow> hash_op \<Rightarrow> HashDetector \<Rightarrow> HashDetector" where
  "hash_apply now ord ord' (OpCheck a f) d = snd (HashDetector_Check now ord a f d)"
| "hash_apply now ord ord' (OpReset a) d = snd (HashDetector_Reset ord a d)"
| "hash_apply now ord ord' (OpSetLimit n) d = HashDetector_SetLimit n d"
| "hash_apply now ord ord' (OpAgentStatus a) d = snd (HashDetector_AgentStatus now ord a d)"
| "hash_apply now ord ord' OpBlockedAgents d = snd (HashDetector_BlockedAgents now ord ord' d)"

text \<open>
  \<open>hash_reach ttl limit n t d\<close>: the detector may be in state \<open>d\<close> at time
  \<open>t\<close> after \<open>n\<close> operations, in any interleaving of any callers; the mutex makes each
  operation one step and the clock does not run backwards.
\<close>

inductive hash_reach :: "duration \<Rightarrow> int \<Rightarrow> nat \<Rightarrow> time \<Rightarrow> HashDetector \<Rightarrow> bool" for ttl limit where
  hash_start: "0 < t \<Longrightarrow> hash_reach ttl limit 0 t (NewHashDetector ttl limit)"
| hash_step: "hash_reach ttl limit n t d \<Longrightarrow> t \<le> t' \<Longrightarrow>
     hash_reach ttl limit (Suc n) t' (hash_apply t' ord ord' op d)"

inductive_cases hash_reach_0: "hash_reach ttl limit 0 t d"

definition entry_inv :: "duration \<Rightarrow> nat \<Rightarrow> time \<Rightarrow> entry \<Rightarrow> bool" where
  "entry_inv ttl n t e \<longleftrightarrow>
     1 \<le> e_count e \<and> e_count e \<le> int n \<and> e_expires e \<le> t + ttl \<and>
     0 \<le> e_blockedAt e \<and> e_blockedAt e \<le> e_lastBlock e \<and> e_lastBlock e \<le> t \<and>
     (e_blockedAt e = 0 \<longleftrightarrow> e_lastBlock e = 0) \<and> (e_lastBlock e = 0 \<or> e_lastBlock e < e_expires e)"

definition hash_inv :: "duration \<Rightarrow> nat \<Rightarrow> time \<Rightarrow> HashDetector \<Rightarrow> bool" where
  "hash_inv ttl n t d \<longleftrightarrow> hash_wf d \<and> hd_ttl d = ttl \<and> hd_max d = maxEntries \<and> 0 < t \<and>
     (\<forall>k e. gm_get (hd_seen d) k = Some e \<longrightarrow> entry_inv ttl n t e)"

lemma entry_inv_later: "entry_inv ttl n t e \<Longrightarrow> t \<le> t' \<Longrightarrow> entry_inv ttl (Suc n) t' e"
  by (auto simp: entry_inv_def)

lemma hash_inv_entry:
  "hash_inv ttl n t d \<Longrightarrow> t \<le> t' \<Longrightarrow> gm_get (hd_seen d) k = Some e \<Longrightarrow> entry_inv ttl (Suc n) t' e"
  by (metis entry_inv_later hash_inv_def)

lemma entry_inv_bump:
  assumes "entry_inv ttl n t e" and "t \<le> t'" and "0 < t'" and "t' < e_expires e" and "int n < int64_max"
  shows "entry_inv ttl (Suc n) t' (entry_bump t' limit e)"
proof -
  have "wrap64 (e_count e + 1) = e_count e + 1"
    using assms by (intro wrap64_id) (auto simp: entry_inv_def is_int64_def int64_bounds)
  with assms show ?thesis by (auto simp: entry_inv_def entry_bump_def Let_def)
qed

lemma hash_inv_filter:
  assumes "hash_inv ttl n t d" and "t \<le> t'"
  shows "hash_inv ttl (Suc n) t' (d\<lparr>hd_seen := filter P (hd_seen d)\<rparr>)"
proof -
  have ok: "gm_ok (hd_seen d)" using assms by (simp add: hash_inv_def hash_wf_def)
  have "gm_get (hd_seen d) k = Some e" if "gm_get (filter P (hd_seen d)) k = Some e" for k e
    using that ok by (simp add: map_of_eq_Some_iff gm_ok_filter)
  moreover have "gm_len (filter P (hd_seen d)) \<le> hd_max d"
    using assms(1) length_filter_le [of P "hd_seen d"]
    by (auto simp: hash_inv_def hash_wf_def simp del: length_filter_le)
  moreover have "hash_wf (d\<lparr>hd_seen := filter P (hd_seen d)\<rparr>)"
    using calculation(2) assms(1) ok by (simp add: hash_inv_def hash_wf_def gm_ok_filter)
  ultimately show ?thesis
    using assms hash_inv_entry [OF assms] unfolding hash_inv_def by simp blast
qed

lemma hash_inv_Check:
  assumes inv: "hash_inv ttl n t d" and later: "t \<le> t'" and short: "int n < int64_max"
  shows "hash_inv ttl (Suc n) t' (snd (HashDetector_Check t' ord a f d))"
proof -
  let ?d' = "snd (HashDetector_Check t' ord a f d)"
  have wf: "hash_wf d" using inv by (simp add: hash_inv_def)
  have own: "entry_inv ttl (Suc n) t' e" if "gm_get (hd_seen ?d') (Key a f) = Some e" for e
  proof (cases "live_entry t' a f d")
    case None
    with that inv later show ?thesis by (auto simp: Check_fresh hash_inv_def entry_inv_def)
  next
    case (Some e0)
    then have "entry_inv ttl n t e0" "t' < e_expires e0"
      using inv by (auto simp: hash_inv_def live_entry_Some)
    with that Some inv later short show ?thesis
      by (auto simp: Check_repeat hash_inv_def intro: entry_inv_bump)
  qed
  have "entry_inv ttl (Suc n) t' e" if "gm_get (hd_seen ?d') k = Some e" "k \<noteq> Key a f" for k e
    using gm_get_Check_other [OF wf that(2,1)] by (rule hash_inv_entry [OF inv later])
  with own show ?thesis
    using inv later hash_wf_Check [OF wf] by (auto simp: hash_inv_def)
qed

lemma hash_reach_inv:
  "hash_reach ttl limit n t d \<Longrightarrow> int n \<le> int64_max \<Longrightarrow> hash_inv ttl n t d"
proof (induction rule: hash_reach.induct)
  case (hash_start t)
  then show ?case using hash_wf_New [of ttl limit] by (simp add: hash_inv_def NewHashDetector_def)
next
  case (hash_step n t d t' ord ord' op)
  then have inv: "hash_inv ttl n t d" by simp
  then have ok: "gm_ok (hd_seen d)" by (simp add: hash_inv_def hash_wf_def)
  show ?case
  proof (cases op)
    case (OpCheck a f)
    with hash_step inv show ?thesis by (simp add: hash_inv_Check)
  next
    case (OpReset a)
    with hash_step.hyps inv show ?thesis by (simp add: Reset_eq hash_inv_filter)
  next
    case (OpSetLimit m)
    have "hash_inv ttl (Suc n) t' d"
      using inv hash_step.hyps hash_inv_entry [OF inv] by (simp add: hash_inv_def)
    then show ?thesis
      using OpSetLimit by (simp add: hash_inv_def hash_wf_SetLimit) (simp add: HashDetector_SetLimit_def)
  next
    case (OpAgentStatus a)
    with hash_step.hyps inv ok show ?thesis by (simp add: AgentStatus_eq hash_inv_filter)
  next
    case OpBlockedAgents
    with hash_step.hyps inv ok show ?thesis by (simp add: BlockedAgents_state hash_inv_filter)
  qed
qed


section \<open>Properties\<close>

lemma hash_inv_live:
  assumes "hash_inv ttl n t d" and "live_entry now a f d = Some e"
  shows "entry_inv ttl n t e"
  using assms by (auto simp: hash_inv_def live_entry_Some)

text \<open>
  C6. Refinement of the window specification: over any run of checks by any agents, the verdict on
  every request is the one the specification computes from the times at which the same agent sent the
  same body before, and from nothing else: it is blocked exactly when it is at least the
  \<open>max 2 limit\<close>-th sighting since the opening of the current TTL window, its
  \<^verbatim>\<open>RetryAfter\<close> is the rest of that window rounded up to seconds, and
  \<^verbatim>\<open>FirstBlock\<close> marks exactly the one sighting that reaches the threshold. It holds
  as long as fewer than \<^verbatim>\<open>maxEntries\<close> different (agent, body) pairs occur.
\<close>

theorem hash_run_refines_window_spec:
  assumes "card (req_key ` set rs) < 100000" and "\<forall>r \<in> set rs. 0 < req_time r"
    and "int (length rs) \<le> int64_max" and "i < length rs"
  shows "fst (hash_run rs (NewHashDetector ttl limit)) ! i
    = verdict_spec ttl (if limit \<le> 0 then 2 else limit)
        (times_of (req_key (rs ! i)) (take i rs)) (req_time (rs ! i))"
  using hash_run_spec [OF hash_sim_New, of rs ttl limit i] assms
  by (simp add: NewHashDetector_def maxEntries_def)

theorem hash_run_refines_window_spec_witness:
  "fst (hash_run [(10, in_order, ''a'', ''x''), (11, in_order, ''b'', ''x''), (12, in_order, ''a'', ''x'')]
        (NewHashDetector (5 * Minute) 0)) ! 2
   = verdict_spec (5 * Minute) 2 [10] 12 \<and> cr_Block (verdict_spec (5 * Minute) 2 [10] 12)"
  using hash_run_refines_window_spec [of "[(10, in_order, ''a'', ''x''), (11, in_order, ''b'', ''x''),
      (12, in_order, ''a'', ''x'')]" 2 "5 * Minute" 0]
  by (simp add: times_of_def int64_bounds verdict_spec_def window_def window_next_def threshold_def
      Minute_def Second_def card_insert_if)

text \<open>
  C7. Invariant of every reachable state, under any interleaving of checks, resets, threshold changes
  and inspections: the map has distinct keys and never more than \<^verbatim>\<open>maxEntries\<close> of them,
  every entry's count is at least 1 and at most the number of operations so far, no window ends later
  than one TTL from now, and an entry has a first block exactly when it has a last one, the first not
  after the last, both inside the entry's window.
\<close>

theorem hash_detector_invariant:
  assumes "hash_reach ttl limit n t d" and "int n \<le> int64_max"
  shows "gm_ok (hd_seen d) \<and> gm_len (hd_seen d) \<le> 100000 \<and> 1 \<le> hd_limit d \<and>
    (\<forall>k e. gm_get (hd_seen d) k = Some e \<longrightarrow> entry_inv ttl n t e)"
  using hash_reach_inv [OF assms] by (simp_all add: hash_inv_def hash_wf_def maxEntries_def)

theorem hash_detector_invariant_witness:
  "gm_len (hd_seen (HashDetector_SetLimit 3 (NewHashDetector (5 * Minute) 2))) \<le> 100000"
  using hash_detector_invariant [OF hash_step [OF hash_start [of 1 "5 * Minute" 2], of 1
      in_order in_order "OpSetLimit 3"]]
  by (simp add: int64_bounds)

lemma hash_retry_after:
  assumes reach: "hash_reach ttl limit n t0 d" and n: "int n < int64_max - 1" and later: "t0 \<le> t"
    and ttl: "ttl \<le> int64_max - Second + 1"
    and blocked: "cr_Block (fst (HashDetector_Check t ord a f d))"
    and r: "r = cr_RetryAfter (fst (HashDetector_Check t ord a f d))"
    and d': "d' = snd (HashDetector_Check t ord a f d)"
  shows "t + r * Second \<le> t' \<Longrightarrow> fst (HashDetector_Check t' ord' a f d') = CheckResult_zero"
    and "t' \<le> t + (r - 1) * Second \<Longrightarrow> cr_Block (fst (HashDetector_Check t' ord' a f d'))"
proof -
  have inv: "hash_inv ttl n t0 d" using hash_reach_inv [OF reach] n by simp
  from blocked obtain e where live: "live_entry t a f d = Some e"
    by (cases "live_entry t a f d") (auto simp: Check_fresh)
  have e: "entry_inv ttl n t0 e" by (rule hash_inv_live [OF inv live])
  let ?rem = "e_expires e - t"
  have rem: "0 < ?rem" "?rem \<le> int64_max - Second + 1"
    using live e later ttl by (auto simp: live_entry_Some entry_inv_def)
  then have r': "r = ceil_secs ?rem"
    using live blocked
    by (simp add: r Check_repeat time_Sub_exact is_int64_def int64_bounds Second_def split: if_splits)
  note ceil = ceil_secs_bounds [OF rem, folded r']
  have c: "wrap64 (e_count e + 1) = e_count e + 1" "wrap64 (e_count e + 1 + 1) = e_count e + 1 + 1"
    using e n by (auto simp: entry_inv_def is_int64_def int64_bounds intro!: wrap64_id)
  have lim: "hd_limit d \<le> e_count e + 1"
    using blocked live c by (simp add: Check_repeat split: if_splits)
  have get': "gm_get (hd_seen d') (Key a f) = Some (entry_bump t (hd_limit d) e)"
    using live by (simp add: d' Check_repeat)
  show "fst (HashDetector_Check t' ord' a f d') = CheckResult_zero" if "t + r * Second \<le> t'"
    using that ceil(2) get' by (simp add: Check_fresh live_entry_None)
  show "cr_Block (fst (HashDetector_Check t' ord' a f d'))" if "t' \<le> t + (r - 1) * Second"
  proof -
    have "live_entry t' a f d' = Some (entry_bump t (hd_limit d) e)"
      using that ceil(3) get' by (simp add: live_entry_Some)
    then show ?thesis using c lim by (simp add: Check_repeat d')
  qed
qed

text \<open>
  C8. \<^verbatim>\<open>RetryAfter\<close> is honest and tight: in any reachable state, a request that was
  blocked with \<^verbatim>\<open>RetryAfter\<close> \<open>r\<close> passes when it is sent again \<open>r\<close>
  seconds later or after, and is blocked again when it is sent up to \<open>r - 1\<close> seconds later.
\<close>

theorem hash_retry_after_exact:
  assumes reach: "hash_reach ttl limit n t0 d" and n: "int n < int64_max - 1" and later: "t0 \<le> t"
    and ttl: "ttl \<le> int64_max - Second + 1"
    and blocked: "cr_Block (fst (HashDetector_Check t ord a f d))"
    and r: "r = cr_RetryAfter (fst (HashDetector_Check t ord a f d))"
    and d': "d' = snd (HashDetector_Check t ord a f d)"
  shows "(t + r * Second \<le> t' \<longrightarrow> fst (HashDetector_Check t' ord' a f d') = CheckResult_zero) \<and>
    (t' \<le> t + (r - 1) * Second \<longrightarrow> cr_Block (fst (HashDetector_Check t' ord' a f d')))"
  using hash_retry_after [OF assms] by blast

theorem hash_retry_after_exact_witness:
  "fst (HashDetector_Check (1 + 60 * Second) in_order ''a'' ''x''
      (snd (HashDetector_Check 1 in_order ''a'' ''x''
        (snd (HashDetector_Check 1 in_order ''a'' ''x'' (NewHashDetector Minute 2)))))) = CheckResult_zero"
proof -
  let ?d = "snd (HashDetector_Check 1 in_order ''a'' ''x'' (NewHashDetector Minute 2))"
  have reach: "hash_reach Minute 2 (Suc 0) 1 ?d"
    using hash_step [OF hash_start [of 1 Minute 2], of 1 in_order in_order "OpCheck ''a'' ''x''"] by simp
  have d: "?d = \<lparr>hd_seen = [(Key ''a'' ''x'', \<lparr>e_count = 1, e_expires = 1 + Minute, e_blockedAt = 0, e_lastBlock = 0\<rparr>)],
      hd_ttl = Minute, hd_limit = 2, hd_max = maxEntries\<rparr>"
    by (simp add: Check_fresh live_entry_def NewHashDetector_def maxEntries_def)
  have "cr_Block (fst (HashDetector_Check 1 in_order ''a'' ''x'' ?d))"
    and "cr_RetryAfter (fst (HashDetector_Check 1 in_order ''a'' ''x'' ?d)) = 60"
    unfolding d
    by (simp_all add: HashDetector_Check_def Let_def wrap64_def ceil_secs_def time_Sub_def int64_bounds
        Minute_def Second_def go_quot_def)
  then show ?thesis
    using hash_retry_after_exact [OF reach _ _ _ _ refl refl, of 1 in_order "''a''" "''x''" "1 + 60 * Second" in_order]
    by (simp add: int64_bounds Minute_def Second_def)
qed


lemma hash_reset_parts:
  assumes "hash_wf d"
  shows "fst (HashDetector_Reset ord a d) = int (card {k \<in> set (gm_keys (hd_seen d)). key_agent k = a})"
    and "fst (HashDetector_Check now ord' a f (snd (HashDetector_Reset ord a d))) = CheckResult_zero"
    and "b \<noteq> a \<Longrightarrow> fst (HashDetector_Check now ord' b f (snd (HashDetector_Reset ord a d)))
           = fst (HashDetector_Check now ord' b f d)"
proof -
  have dist: "distinct (filter (\<lambda>k. key_agent k = a) (gm_keys (hd_seen d)))"
    using assms by (simp add: hash_wf_def)
  have "card {k \<in> set (gm_keys (hd_seen d)). key_agent k = a}
      = length (filter (\<lambda>k. key_agent k = a) (gm_keys (hd_seen d)))"
    using distinct_card [OF dist] by (simp only: set_filter)
  then have "card {k \<in> set (gm_keys (hd_seen d)). key_agent k = a}
      = length (filter (\<lambda>p. key_agent (fst p) = a) (hd_seen d))"
    by (simp only: filter_map comp_def length_map)
  then show "fst (HashDetector_Reset ord a d) = int (card {k \<in> set (gm_keys (hd_seen d)). key_agent k = a})"
    by (simp add: Reset_eq)
  show "fst (HashDetector_Check now ord' a f (snd (HashDetector_Reset ord a d))) = CheckResult_zero"
    by (simp add: Check_fresh live_entry_None)
  show "fst (HashDetector_Check now ord' b f (snd (HashDetector_Reset ord a d)))
      = fst (HashDetector_Check now ord' b f d)" if "b \<noteq> a"
    using hash.reset_isolated [OF assms that, of "(now, ord', f)"] by simp
qed

text \<open>
  \<^verbatim>\<open>Reset\<close> (the operation behind \<^verbatim>\<open>DELETE /v1/agent/{id}/history\<close>):
  it returns the number of the agent's tracked fingerprints, after it every request of the agent passes
  as a first sighting, whatever its body and the time, and the next verdict on every other agent is
  what it would have been without the reset.
\<close>

theorem hash_reset_scoped:
  assumes "hash_wf d"
  shows "fst (HashDetector_Reset ord a d) = int (card {k \<in> set (gm_keys (hd_seen d)). key_agent k = a}) \<and>
    (\<forall>now ord' f. fst (HashDetector_Check now ord' a f (snd (HashDetector_Reset ord a d))) = CheckResult_zero) \<and>
    (\<forall>now ord' b f. b \<noteq> a \<longrightarrow> fst (HashDetector_Check now ord' b f (snd (HashDetector_Reset ord a d)))
           = fst (HashDetector_Check now ord' b f d))"
  using hash_reset_parts [OF assms] by blast

theorem hash_reset_scoped_witness:
  "fst (HashDetector_Reset in_order ''a'' (NewHashDetector Minute 2)) = 0"
  using hash_reset_scoped [OF hash_wf_New, of in_order "''a''" Minute 2]
  by (simp add: NewHashDetector_def)

lemma blocked_agents_parts:
  assumes "hash_wf d"
  shows "sorted_wrt (<) (map as_Agent (fst (HashDetector_BlockedAgents now ord ord' d)))"
    and "set (fst (HashDetector_BlockedAgents now ord ord' d))
      = {st. \<exists>a. fst (HashDetector_AgentStatus now ord'' a d) = (st, True) \<and> as_Blocked st}"
proof -
  have ok: "gm_ok (hd_seen d)" using assms by (simp add: hash_wf_def)
  show "sorted_wrt (<) (map as_Agent (fst (HashDetector_BlockedAgents now ord ord' d)))"
    by (rule BlockedAgents_list(2) [OF ok])
  have "fst (HashDetector_AgentStatus now ord'' a d) = (st, True) \<and> as_Blocked st \<longleftrightarrow>
      st = status_spec (hd_limit d) a (live_of now a (hd_seen d)) \<and>
      blocked_entries (hd_limit d) (live_of now a (hd_seen d)) \<noteq> []" for a st
    by (auto simp: AgentStatus_eq [OF ok] status_spec_Blocked blocked_entries_def)
  then show "set (fst (HashDetector_BlockedAgents now ord ord' d))
      = {st. \<exists>a. fst (HashDetector_AgentStatus now ord'' a d) = (st, True) \<and> as_Blocked st}"
    unfolding BlockedAgents_list(1) [OF ok] by blast
qed

text \<open>
  The blocked-agents report is exact: it lists, in strictly increasing order of the agent id and
  whatever the order of the map iterations, exactly the statuses that \<^verbatim>\<open>AgentStatus\<close>
  reports as blocked for some agent.
\<close>

theorem blocked_agents_exact:
  assumes "hash_wf d"
  shows "sorted_wrt (<) (map as_Agent (fst (HashDetector_BlockedAgents now ord ord' d))) \<and>
    set (fst (HashDetector_BlockedAgents now ord ord' d))
      = {st. \<exists>a. fst (HashDetector_AgentStatus now ord'' a d) = (st, True) \<and> as_Blocked st}"
  using blocked_agents_parts [OF assms] by blast

theorem blocked_agents_exact_witness:
  "sorted_wrt (<) (map as_Agent (fst (HashDetector_BlockedAgents 5 in_reverse in_order (NewHashDetector Minute 2))))"
  using blocked_agents_exact [OF hash_wf_New, of 5 in_reverse in_order Minute 2] by blast

lemma hash_eviction_parts:
  assumes wf: "hash_wf d" and new: "live_entry now a f d = None"
    and res: "(r, d') = HashDetector_Check now ord a f d"
  shows "r = CheckResult_zero" and "gm_len (hd_seen d') \<le> hd_max d"
    and "\<lbrakk>gm_get (hd_seen d) k = Some e; k \<noteq> Key a f; gm_get (hd_seen d') k = None;
          gm_get (hd_seen d') k' = Some e'; k' \<noteq> Key a f\<rbrakk>
         \<Longrightarrow> e_expires e \<le> e_expires e' \<and> gm_get (hd_seen d) k' = Some e'"
proof -
  let ?m = "evictOldest e_expires ord (hd_max d) (hd_seen d)"
  have ok: "gm_ok (hd_seen d)" using wf by (simp add: hash_wf_def)
  have r: "r = CheckResult_zero" and d': "d' = snd (HashDetector_Check now ord a f d)"
    using new res by (simp_all add: Check_fresh)
  show "r = CheckResult_zero" by (rule r)
  show "gm_len (hd_seen d') \<le> hd_max d"
    using hash_wf_Check [OF wf, of now ord a f] by (simp add: hash_wf_def d')
  show "e_expires e \<le> e_expires e' \<and> gm_get (hd_seen d) k' = Some e'"
    if "gm_get (hd_seen d) k = Some e" "k \<noteq> Key a f" "gm_get (hd_seen d') k = None"
      "gm_get (hd_seen d') k' = Some e'" "k' \<noteq> Key a f"
  proof -
    have gone: "gm_get ?m k = None" and kept: "gm_get ?m k' = Some e'"
      using that new by (simp_all add: d' Check_fresh)
    have "(k, e) \<in> set (hd_seen d)" "(k, e) \<notin> set ?m" "(k', e') \<in> set ?m"
      using that(1) gone kept gm_ok_evictOldest [OF ok] by (auto simp: map_of_eq_Some_iff map_of_eq_None_iff rev_image_eqI dest: map_of_SomeD)
    then have "e_expires e \<le> e_expires e'"
      using evictOldest_oldest [OF ok, of "(k, e)" e_expires ord "hd_max d" "(k', e')"] by simp
    moreover have "gm_get (hd_seen d) k' = Some e'"
      using that(4,5) by (intro gm_get_Check_other [OF wf, of k' a f]) (auto simp: d')
    ultimately show ?thesis ..
  qed
qed

text \<open>
  Eviction at capacity: recording a new pair makes room for it by dropping entries whose windows
  end no later than any window that is kept, never touches the size bound, and the verdict is
  ``proceed''; every entry kept is unchanged.
\<close>

theorem hash_eviction_oldest_first:
  assumes "hash_wf d" and "live_entry now a f d = None"
    and "(r, d') = HashDetector_Check now ord a f d"
  shows "r = CheckResult_zero \<and> gm_len (hd_seen d') \<le> hd_max d \<and>
    (\<forall>k e k' e'. gm_get (hd_seen d) k = Some e \<and> k \<noteq> Key a f \<and> gm_get (hd_seen d') k = None \<and>
          gm_get (hd_seen d') k' = Some e' \<and> k' \<noteq> Key a f
       \<longrightarrow> e_expires e \<le> e_expires e' \<and> gm_get (hd_seen d) k' = Some e')"
  using hash_eviction_parts [OF assms] by blast

theorem hash_eviction_oldest_first_witness:
  "gm_len (hd_seen (snd (HashDetector_Check 5 in_reverse ''a'' ''x'' (NewHashDetector Minute 2)))) \<le> 100000"
  using hash_eviction_oldest_first [OF hash_wf_New, of 5 "''a''" "''x''" Minute 2 _ _ in_reverse, OF _ prod.collapse]
  by (simp add: live_entry_def NewHashDetector_def maxEntries_def)

text \<open>
  Raising the threshold with \<^verbatim>\<open>SetLimit\<close> unblocks a window that is already
  blocked: the next repeat passes whenever the new threshold exceeds the count it reaches. (The comment
  of \<^verbatim>\<open>SetLimit\<close> says the window keeps answering 429 until its TTL expires.)
\<close>

theorem raising_limit_unblocks:
  assumes "live_entry now a f d = Some e" and "is_int64 (e_count e + 1)" and "e_count e + 1 < n" and "1 \<le> n"
  shows "fst (HashDetector_Check now ord a f (HashDetector_SetLimit n d)) = CheckResult_zero"
proof -
  have "live_entry now a f (HashDetector_SetLimit n d) = Some e"
    using assms(1) by (simp add: live_entry_def HashDetector_SetLimit_def)
  then show ?thesis
    using assms(2-) by (simp add: Check_repeat wrap64_id) (simp add: HashDetector_SetLimit_def)
qed

definition blocked_example :: HashDetector where
  "blocked_example = \<lparr>hd_seen = [(Key ''a'' ''x'', \<lparr>e_count = 2, e_expires = 100, e_blockedAt = 5, e_lastBlock = 5\<rparr>)],
      hd_ttl = 99, hd_limit = 2, hd_max = maxEntries\<rparr>"

theorem raising_limit_unblocks_witness:
  "cr_Block (fst (HashDetector_Check 6 in_order ''a'' ''x'' blocked_example)) \<and>
   fst (HashDetector_Check 6 in_order ''a'' ''x'' (HashDetector_SetLimit 4 blocked_example)) = CheckResult_zero"
proof -
  have live: "live_entry 6 ''a'' ''x'' blocked_example
      = Some \<lparr>e_count = 2, e_expires = 100, e_blockedAt = 5, e_lastBlock = 5\<rparr>"
    by (simp add: live_entry_def blocked_example_def)
  have "cr_Block (fst (HashDetector_Check 6 in_order ''a'' ''x'' blocked_example))"
    using Check_repeat [OF live, of in_order] by (simp add: blocked_example_def wrap64_def)
  with raising_limit_unblocks [OF live, of 4 in_order] show ?thesis by (simp add: is_int64_iff)
qed

end
