(* ===== verification/Go_Float.thy ===== *)
theory Go_Float
  imports Go_Prelude "HOL-Library.Log_Nat"
begin

text \<open>
  Go's \<^verbatim>\<open>float64\<close>: IEEE 754 binary64 with rounding to nearest, ties to even. A
  finite value is the rational number it denotes, so that every operation is the exact rational
  operation followed by \<open>round64\<close>, as the standard prescribes, and everything computes.
  Negative zero is identified with zero: no decision of the program can tell them apart (there is
  no division by zero in it, and only the status line of the agent wrapper could print the sign).

  The main facts are that rounding is monotone (\<open>round64_mono\<close>), that it is exact on numbers of
  at most 53 significant bits (\<open>round64_exact\<close>), and its relative error
  (\<open>round_pos_error\<close>).
\<close>

datatype float64 = Fin rat | PosInf | NegInf | NaN

section \<open>Rounding\<close>

definition pow2 :: "int \<Rightarrow> rat" where
  "pow2 e = (if 0 \<le> e then 2 ^ nat e else 1 / 2 ^ nat (- e))"

text \<open>The exponent \<open>k\<close> with \<open>pow2 k \<le> x < pow2 (k + 1)\<close>, for positive \<open>x\<close>.\<close>

definition flog2 :: "rat \<Rightarrow> int" where
  "flog2 x =
     (let (n, d) = quotient_of x; k = bitlen n - bitlen d
      in if pow2 k \<le> x then k else k - 1)"

text \<open>Round to the nearest integer, ties to even.\<close>

definition rne :: "rat \<Rightarrow> int" where
  "rne x =
     (let f = \<lfloor>x\<rfloor>; r = x - of_int f
      in if r < 1 / 2 then f else if r > 1 / 2 then f + 1 else if even f then f else f + 1)"

text \<open>
  The unit in the last place of a positive \<open>x\<close>: 53 significant bits, but never finer than the
  spacing of the subnormal numbers.
\<close>

definition ulp_exp :: "rat \<Rightarrow> int" where
  "ulp_exp x = max (- 1074) (flog2 x - 52)"

definition round_pos :: "rat \<Rightarrow> rat" where
  "round_pos x = of_int (rne (x / pow2 (ulp_exp x))) * pow2 (ulp_exp x)"

definition round64 :: "rat \<Rightarrow> float64" where
  "round64 x =
     (if x = 0 then Fin 0
      else if 0 < x then (if round_pos x < pow2 1024 then Fin (round_pos x) else PosInf)
      else (if round_pos (- x) < pow2 1024 then Fin (- round_pos (- x)) else NegInf))"

section \<open>Operations\<close>

text \<open>Conversion of an integer, multiplication, division (never by zero here) and comparison.\<close>

definition f64_of_int :: "int \<Rightarrow> float64" where
  "f64_of_int n = round64 (of_int n)"

fun f64_neg :: "float64 \<Rightarrow> float64" where
  "f64_neg (Fin x) = Fin (- x)"
| "f64_neg PosInf = NegInf"
| "f64_neg NegInf = PosInf"
| "f64_neg NaN = NaN"

fun f64_sgn :: "float64 \<Rightarrow> rat" where
  "f64_sgn (Fin x) = sgn x"
| "f64_sgn PosInf = 1"
| "f64_sgn NegInf = -1"
| "f64_sgn NaN = 0"

definition f64_inf :: "rat \<Rightarrow> float64" where
  "f64_inf s = (if 0 < s then PosInf else if s < 0 then NegInf else NaN)"

fun f64_mul :: "float64 \<Rightarrow> float64 \<Rightarrow> float64" where
  "f64_mul (Fin x) (Fin y) = round64 (x * y)"
| "f64_mul NaN _ = NaN"
| "f64_mul _ NaN = NaN"
| "f64_mul x y = f64_inf (f64_sgn x * f64_sgn y)"

fun f64_div :: "float64 \<Rightarrow> float64 \<Rightarrow> float64" where
  "f64_div (Fin x) (Fin y) = (if y = 0 then f64_inf (sgn x) else round64 (x / y))"
| "f64_div NaN _ = NaN"
| "f64_div _ NaN = NaN"
| "f64_div (Fin x) _ = Fin 0"
| "f64_div x (Fin y) = (if y = 0 then x else f64_inf (f64_sgn x * sgn y))"
| "f64_div _ _ = NaN"

fun f64_lt :: "float64 \<Rightarrow> float64 \<Rightarrow> bool" where
  "f64_lt (Fin x) (Fin y) \<longleftrightarrow> x < y"
| "f64_lt NegInf (Fin y) \<longleftrightarrow> True"
| "f64_lt NegInf PosInf \<longleftrightarrow> True"
| "f64_lt (Fin x) PosInf \<longleftrightarrow> True"
| "f64_lt _ _ \<longleftrightarrow> False"

definition f64_le :: "float64 \<Rightarrow> float64 \<Rightarrow> bool" where
  "f64_le x y \<longleftrightarrow> f64_lt x y \<or> x = y \<and> x \<noteq> NaN"

fun f64_add :: "float64 \<Rightarrow> float64 \<Rightarrow> float64" where
  "f64_add (Fin x) (Fin y) = round64 (x + y)"
| "f64_add NaN _ = NaN"
| "f64_add _ NaN = NaN"
| "f64_add PosInf NegInf = NaN"
| "f64_add NegInf PosInf = NaN"
| "f64_add (Fin x) y = y"
| "f64_add x _ = x"

text \<open>
  \<^verbatim>\<open>math.Ceil\<close> and \<^verbatim>\<open>math.Round\<close> (half away from zero); both are exact.
  The conversion to \<^verbatim>\<open>int64\<close> truncates; a value outside the range gives the smallest
  \<^verbatim>\<open>int64\<close>, as on amd64 (the language leaves it open).
\<close>

fun f64_ceil :: "float64 \<Rightarrow> float64" where
  "f64_ceil (Fin x) = Fin (of_int \<lceil>x\<rceil>)"
| "f64_ceil x = x"

definition round_away :: "rat \<Rightarrow> int" where
  "round_away x = (if 0 \<le> x then \<lfloor>x + 1 / 2\<rfloor> else \<lceil>x - 1 / 2\<rceil>)"

fun f64_round :: "float64 \<Rightarrow> float64" where
  "f64_round (Fin x) = Fin (of_int (round_away x))"
| "f64_round x = x"

definition trunc_rat :: "rat \<Rightarrow> int" where
  "trunc_rat x = (if 0 \<le> x then \<lfloor>x\<rfloor> else \<lceil>x\<rceil>)"

fun f64_to_int :: "float64 \<Rightarrow> int" where
  "f64_to_int (Fin x) = (if is_int64 (trunc_rat x) then trunc_rat x else int64_min)"
| "f64_to_int _ = int64_min"

text \<open>\<^verbatim>\<open>Duration.Seconds\<close>: whole seconds plus the nanoseconds divided by 1e9.\<close>

definition Duration_Seconds :: "duration \<Rightarrow> float64" where
  "Duration_Seconds d =
     f64_add (f64_of_int (go_quot d Second)) (f64_div (f64_of_int (d - go_quot d Second * Second)) (Fin 1000000000))"

section \<open>Powers of two and the binary logarithm\<close>

lemma pow2_powi: "pow2 e = 2 powi e"
  by (simp add: pow2_def power_int_def power_inverse field_simps)

lemma pow2_pos [simp]: "0 < pow2 e" and pow2_nonzero [simp]: "pow2 e \<noteq> 0"
  by (simp_all add: pow2_powi)

lemma pow2_add: "pow2 (a + b) = pow2 a * pow2 b"
  by (simp add: pow2_powi power_int_add)

lemma pow2_0 [simp]: "pow2 0 = 1"
  by (simp add: pow2_def)

lemma pow2_mono: "a \<le> b \<Longrightarrow> pow2 a \<le> pow2 b"
  by (simp add: pow2_powi power_int_increasing)

lemma pow2_nat: "0 \<le> e \<Longrightarrow> pow2 e = of_int (2 ^ nat e)"
  by (simp add: pow2_def)

lemma pow2_less_iff: "pow2 a < pow2 b \<longleftrightarrow> a < b"
  by (metis linorder_not_le nless_le pow2_mono pow2_powi power_int_strict_increasing one_less_numeral_iff semiring_norm(76))

lemma pow2_multiple: "b \<le> a \<Longrightarrow> pow2 a = of_int (2 ^ nat (a - b)) * pow2 b"
  using pow2_add [of "a - b" b] pow2_nat [of "a - b"] by simp

lemma flog2_bounds:
  assumes "0 < x"
  shows "pow2 (flog2 x) \<le> x" and "x < pow2 (flog2 x + 1)"
proof -
  obtain n d where nd: "quotient_of x = (n, d)" by (cases "quotient_of x")
  have d: "0 < d" using nd by (rule quotient_of_denom_pos)
  have x: "x = of_int n / of_int d" using nd by (rule quotient_of_div)
  have n: "0 < n" using assms d by (simp add: x zero_less_divide_iff)
  have bit: "pow2 (bitlen m - 1) \<le> of_int m \<and> of_int m < pow2 (bitlen m)" if "0 < m" for m
  proof -
    have "2 ^ nat (bitlen m - 1) \<le> m \<and> m < 2 ^ nat (bitlen m)" using that by (rule bitlen_bounds)
    moreover have "0 < bitlen m" using that by (metis bitlen_eq_zero_iff bitlen_nonneg linorder_not_le nless_le)
    ultimately show ?thesis by (simp add: pow2_nat del: of_int_power flip: of_int_le_iff of_int_less_iff)
  qed
  let ?k = "bitlen n - bitlen d"
  have up: "x < pow2 (?k + 1)"
  proof -
    have "of_int n < pow2 (?k + 1) * pow2 (bitlen d - 1)"
      using bit [OF n] by (simp flip: pow2_add)
    also have "\<dots> \<le> pow2 (?k + 1) * of_int d"
      using bit [OF d] by (intro mult_left_mono) (auto simp: less_imp_le)
    finally show ?thesis using d by (simp add: x pos_divide_less_eq)
  qed
  have low: "pow2 (?k - 1) \<le> x"
  proof -
    have "pow2 (?k - 1) * of_int d \<le> pow2 (?k - 1) * pow2 (bitlen d)"
      using bit [OF d] by (intro mult_left_mono) (auto simp: less_imp_le)
    also have "\<dots> \<le> of_int n" using bit [OF n] by (simp flip: pow2_add)
    finally show ?thesis using d by (simp add: x pos_le_divide_eq)
  qed
  show "pow2 (flog2 x) \<le> x" "x < pow2 (flog2 x + 1)"
    using up low by (auto simp: flog2_def nd Let_def)
qed

lemma flog2_unique:
  assumes "pow2 k \<le> x" and "x < pow2 (k + 1)"
  shows "flog2 x = k"
proof -
  have "0 < x" using assms(1) pow2_pos order_less_le_trans by blast
  note b = flog2_bounds [OF this]
  have "pow2 k < pow2 (flog2 x + 1)" "pow2 (flog2 x) < pow2 (k + 1)" using b assms by linarith+
  then show ?thesis by (simp add: pow2_less_iff)
qed

lemma flog2_mono: "0 < x \<Longrightarrow> x \<le> y \<Longrightarrow> flog2 x \<le> flog2 y"
proof -
  assume x: "0 < x" and xy: "x \<le> y"
  have "pow2 (flog2 x) < pow2 (flog2 y + 1)"
    using flog2_bounds(1) [OF x] flog2_bounds(2) [of y] x xy by linarith
  then show ?thesis by (simp add: pow2_less_iff)
qed

section \<open>Rounding to nearest\<close>

lemma rne_near: "of_int (rne x) \<le> x + 1 / 2" "x - 1 / 2 \<le> of_int (rne x)"
proof -
  have "of_int \<lfloor>x\<rfloor> \<le> x" "x < of_int \<lfloor>x\<rfloor> + 1" by linarith+
  then show "of_int (rne x) \<le> x + 1 / 2" "x - 1 / 2 \<le> of_int (rne x)"
    unfolding rne_def Let_def by (split if_split | intro conjI impI | linarith)+
qed

lemma rne_of_int [simp]: "rne (of_int n) = n"
  by (simp add: rne_def)

lemma rne_floor: "\<lfloor>x\<rfloor> \<le> rne x" "rne x \<le> \<lfloor>x\<rfloor> + 1"
  by (auto simp: rne_def Let_def)

lemma rne_mono:
  assumes "x \<le> y"
  shows "rne x \<le> rne y"
proof (cases "\<lfloor>x\<rfloor> = \<lfloor>y\<rfloor>")
  case True
  then show ?thesis using assms by (auto simp: rne_def Let_def)
next
  case False
  then have "\<lfloor>x\<rfloor> + 1 \<le> \<lfloor>y\<rfloor>" using floor_mono [OF assms] by linarith
  then show ?thesis using rne_floor(2) [of x] rne_floor(1) [of y] by linarith
qed

lemma ulp_exp_mono: "0 < x \<Longrightarrow> x \<le> y \<Longrightarrow> ulp_exp x \<le> ulp_exp y"
  using flog2_mono [of x y] by (auto simp: ulp_exp_def)

lemma round_pos_le_grid:
  assumes "x \<le> of_int m * pow2 (ulp_exp x)"
  shows "round_pos x \<le> of_int m * pow2 (ulp_exp x)"
proof -
  have "x / pow2 (ulp_exp x) \<le> of_int m" using assms by (simp add: pos_divide_le_eq)
  then have "rne (x / pow2 (ulp_exp x)) \<le> m" using rne_mono [of _ "of_int m"] by simp
  then show ?thesis by (simp add: round_pos_def)
qed

lemma round_pos_ge_grid:
  assumes "of_int m * pow2 (ulp_exp x) \<le> x"
  shows "of_int m * pow2 (ulp_exp x) \<le> round_pos x"
proof -
  have "of_int m \<le> x / pow2 (ulp_exp x)" using assms by (simp add: pos_le_divide_eq)
  then have "m \<le> rne (x / pow2 (ulp_exp x))" using rne_mono [of "of_int m"] by simp
  then show ?thesis by (simp add: round_pos_def)
qed

lemma round_pos_nonneg: "0 < x \<Longrightarrow> 0 \<le> round_pos x"
  using round_pos_ge_grid [of 0 x] by simp

lemma round_pos_mono:
  assumes "0 < x" and "x \<le> y"
  shows "round_pos x \<le> round_pos y"
proof (cases "ulp_exp x = ulp_exp y")
  case True
  then show ?thesis
    using assms by (simp add: round_pos_def rne_mono divide_right_mono less_imp_le)
next
  case False
  then have less: "ulp_exp x < ulp_exp y" using ulp_exp_mono [OF assms] by simp
  then have uy: "ulp_exp y = flog2 y - 52" and lt: "flog2 x < flog2 y"
    by (auto simp: ulp_exp_def split: if_splits)
  let ?B = "pow2 (flog2 y)"
  have "x \<le> ?B"
    using flog2_bounds(2) [OF assms(1)] pow2_mono [of "flog2 x + 1" "flog2 y"] lt by simp
  moreover have "?B = of_int (2 ^ nat (flog2 y - ulp_exp x)) * pow2 (ulp_exp x)"
    using less uy by (intro pow2_multiple) simp
  ultimately have "round_pos x \<le> ?B" by (metis round_pos_le_grid)
  moreover have "?B = of_int (2 ^ nat (flog2 y - ulp_exp y)) * pow2 (ulp_exp y)"
    using uy by (intro pow2_multiple) simp
  with flog2_bounds(1) [of y] assms have "?B \<le> round_pos y" by (metis order_less_le_trans round_pos_ge_grid)
  ultimately show ?thesis by linarith
qed

text \<open>A positive number of at most 53 significant bits and of no finer grain than the subnormals is exact.\<close>

lemma round_pos_exact:
  assumes "0 < m" and "m \<le> 2 ^ 53" and "- 1074 \<le> e"
  shows "round_pos (of_int m * pow2 e) = of_int m * pow2 e"
proof -
  let ?x = "of_int m * pow2 e"
  have x: "0 < ?x" using assms by simp
  have "\<exists>j. ?x = of_int j * pow2 (ulp_exp ?x)"
  proof (cases "ulp_exp ?x \<le> e")
    case True
    then have "?x = of_int (m * 2 ^ nat (e - ulp_exp ?x)) * pow2 (ulp_exp ?x)"
      using pow2_multiple [OF True] by simp
    then show ?thesis by blast
  next
    case False
    then have u: "ulp_exp ?x = flog2 ?x - 52" using assms(3) by (auto simp: ulp_exp_def)
    have "(of_int m :: rat) \<le> of_int (2 ^ 53)" using assms(2) by (simp only: of_int_le_iff)
    then have "of_int m \<le> pow2 53" using pow2_nat [of 53] by simp
    then have "?x \<le> pow2 (53 + e)" by (simp add: pow2_add)
    with flog2_bounds(1) [OF x] have "flog2 ?x \<le> 53 + e"
      using pow2_less_iff [of "53 + e" "flog2 ?x"] by linarith
    with False u have f: "flog2 ?x = 53 + e" by linarith
    with flog2_bounds(1) [OF x] \<open>?x \<le> pow2 (53 + e)\<close> have "?x = pow2 (53 + e)" by simp
    also have "\<dots> = of_int (2 ^ nat (53 + e - ulp_exp ?x)) * pow2 (ulp_exp ?x)"
      using u f by (intro pow2_multiple) simp
    finally show ?thesis by blast
  qed
  then obtain j where j: "?x = of_int j * pow2 (ulp_exp ?x)" by blast
  then have "?x / pow2 (ulp_exp ?x) = of_int j" by (metis nonzero_mult_div_cancel_right pow2_nonzero)
  then show ?thesis using j by (simp add: round_pos_def)
qed


text \<open>The relative error of rounding a number in the normal range is at most one part in \<open>2 ^ 53\<close>.\<close>

lemma round_pos_error:
  assumes "pow2 (- 1022) \<le> x"
  shows "\<bar>round_pos x - x\<bar> \<le> x * pow2 (- 53)"
proof -
  have x: "0 < x" using assms pow2_pos order_less_le_trans by blast
  have "pow2 (- 1022) < pow2 (flog2 x + 1)" using assms flog2_bounds(2) [OF x] by linarith
  then have u: "ulp_exp x = flog2 x - 52" by (simp add: ulp_exp_def pow2_less_iff)
  let ?y = "x / pow2 (ulp_exp x)"
  have "\<bar>of_int (rne ?y) - ?y\<bar> \<le> 1 / 2" using rne_near [of ?y] by linarith
  then have "\<bar>of_int (rne ?y) - ?y\<bar> * pow2 (ulp_exp x) \<le> 1 / 2 * pow2 (ulp_exp x)"
    by (rule mult_right_mono) (simp add: less_imp_le)
  moreover have "round_pos x - x = (of_int (rne ?y) - ?y) * pow2 (ulp_exp x)"
    by (simp add: round_pos_def left_diff_distrib)
  then have "\<bar>round_pos x - x\<bar> = \<bar>of_int (rne ?y) - ?y\<bar> * pow2 (ulp_exp x)"
    by (simp only: abs_mult abs_of_pos [OF pow2_pos])
  moreover have "1 / 2 * pow2 (ulp_exp x) = pow2 (flog2 x) * pow2 (- 53)"
  proof -
    have "pow2 (ulp_exp x) = pow2 (flog2 x + - 53) * pow2 1"
      unfolding u by (simp flip: pow2_add)
    also have "\<dots> = pow2 (flog2 x) * pow2 (- 53) * 2"
      by (simp only: pow2_add) (simp add: pow2_def)
    finally show ?thesis by simp
  qed
  moreover have "pow2 (flog2 x) * pow2 (- 53) \<le> x * pow2 (- 53)"
    using flog2_bounds(1) [OF x] by (intro mult_right_mono) (simp_all add: less_imp_le)
  ultimately show ?thesis by linarith
qed

section \<open>The rounding function on all rationals\<close>

lemma round64_0 [simp]: "round64 0 = Fin 0"
  by (simp add: round64_def)

lemma round64_minus: "round64 (- x) = f64_neg (round64 x)"
  by (simp add: round64_def)

lemma round64_not_NaN [simp]: "round64 x \<noteq> NaN"
  by (simp add: round64_def)

lemma f64_le_refl [simp]: "x \<noteq> NaN \<Longrightarrow> f64_le x x"
  by (simp add: f64_le_def)

lemma f64_le_Fin [simp]: "f64_le (Fin x) (Fin y) \<longleftrightarrow> x \<le> y"
  by (auto simp: f64_le_def)

lemma f64_le_neg: "f64_le (f64_neg x) (f64_neg y) \<longleftrightarrow> f64_le y x"
  by (cases x; cases y) (auto simp: f64_le_def)

lemma round64_mono_pos:
  assumes "0 < x" and "x \<le> y"
  shows "f64_le (round64 x) (round64 y)"
  using round_pos_mono [OF assms] assms by (auto simp: round64_def f64_le_def)

lemma round64_nonneg: "0 \<le> x \<Longrightarrow> f64_le (Fin 0) (round64 x)"
  using round_pos_nonneg [of x] by (auto simp: round64_def f64_le_def)

lemma f64_le_trans: "f64_le x y \<Longrightarrow> f64_le y z \<Longrightarrow> f64_le x z"
  by (cases x; cases y; cases z) (auto simp: f64_le_def)

theorem round64_mono:
  assumes "x \<le> y"
  shows "f64_le (round64 x) (round64 y)"
proof -
  consider "0 < x" | "x \<le> 0" "0 \<le> y" | "y < 0" using assms by linarith
  then show ?thesis
  proof cases
    case 1
    then show ?thesis using assms by (rule round64_mono_pos)
  next
    case 2
    have "f64_le (round64 x) (Fin 0)"
      using round64_nonneg [of "- x"] 2 f64_le_neg [of "round64 (- x)" "Fin 0"]
      by (simp add: round64_minus [symmetric])
    then show ?thesis using round64_nonneg [OF 2(2)] by (rule f64_le_trans)
  next
    case 3
    then have "f64_le (round64 (- y)) (round64 (- x))" using assms by (intro round64_mono_pos) simp_all
    then show ?thesis by (simp add: round64_minus f64_le_neg)
  qed
qed

lemma round64_exact:
  assumes "\<bar>m\<bar> \<le> 2 ^ 53" and "- 1074 \<le> e" and "e \<le> 970"
  shows "round64 (of_int m * pow2 e) = Fin (of_int m * pow2 e)"
proof -
  have pos: "round64 (of_int k * pow2 e) = Fin (of_int k * pow2 e)" if "0 < k" "k \<le> 2 ^ 53" for k :: int
  proof -
    have "(of_int k :: rat) \<le> of_int (2 ^ 53)" using that(2) by (simp only: of_int_le_iff)
    then have "of_int k * pow2 e \<le> pow2 (53 + e)"
      using pow2_nat [of 53] by (simp add: pow2_add)
    also have "\<dots> < pow2 1024" using assms(3) by (simp add: pow2_less_iff)
    finally show ?thesis
      using that round_pos_exact [OF that assms(2)] by (simp add: round64_def)
  qed
  consider "m = 0" | "0 < m" | "0 < - m" by linarith
  then show ?thesis
  proof cases
    case 2
    with assms(1) pos [of m] show ?thesis by simp
  next
    case 3
    with assms(1) pos [of "- m"] round64_minus [of "of_int (- m) * pow2 e"] show ?thesis by simp
  qed simp
qed

lemma f64_of_int_exact: "\<bar>n\<bar> \<le> 2 ^ 53 \<Longrightarrow> f64_of_int n = Fin (of_int n)"
  using round64_exact [of n 0] by (simp add: f64_of_int_def)

lemma round64_int: "\<bar>n\<bar> \<le> 2 ^ 53 \<Longrightarrow> round64 (of_int n) = Fin (of_int n)"
  using f64_of_int_exact [of n] by (simp add: f64_of_int_def)

lemma round64_quarter: "\<bar>n\<bar> \<le> 2 ^ 53 \<Longrightarrow> round64 (of_int n / 4) = Fin (of_int n / 4)"
  using round64_exact [of n "- 2"] by (simp add: pow2_def)

lemma round64_sixtyfourth: "\<bar>n\<bar> \<le> 2 ^ 53 \<Longrightarrow> round64 (of_int n / 64) = Fin (of_int n / 64)"
  using round64_exact [of n "- 6"] by (simp add: pow2_def)

text \<open>Rounding never crosses a representable number.\<close>

lemma round64_between:
  assumes "round64 a = Fin a" and "round64 b = Fin b" and "a \<le> x" and "x \<le> b"
  obtains y where "round64 x = Fin y" and "a \<le> y" and "y \<le> b"
proof -
  have "f64_le (Fin a) (round64 x)" "f64_le (round64 x) (Fin b)"
    using round64_mono [OF assms(3)] round64_mono [OF assms(4)] assms(1,2) by simp_all
  then show thesis by (cases "round64 x") (auto simp: f64_le_def intro: that)
qed

lemma f64_to_int_of_int: "is_int64 n \<Longrightarrow> f64_to_int (Fin (of_int n)) = n"
  by (simp add: trunc_rat_def)

lemma Duration_Seconds_whole:
  assumes "0 \<le> n" and "n \<le> 2 ^ 53"
  shows "Duration_Seconds (n * Second) = Fin (of_int n)"
proof -
  have "go_quot (n * Second) Second = n" using assms by (simp add: go_quot_nonneg Second_def)
  then show ?thesis
    using assms by (simp add: Duration_Seconds_def f64_of_int_exact round64_int)
qed

end
