(* ===== verification/Structural_Hasher.thy ===== *)
theory Structural_Hasher
  imports Detector Go_Float
begin

text \<open>
  The fuzzy structural detector (\<^verbatim>\<open>pkg/circuitbreaker/structural_hasher.go\<close>): the
  single-pass normaliser of JSON bodies, the MinHash sketch of the normalised form, the similarity of
  two sketches and the per-agent window of recent sketches. A \<^verbatim>\<open>byte\<close> is a
  \<open>char\<close> and a \<^verbatim>\<open>uint64\<close> a \<open>64 word\<close>.
\<close>

unbundle bit_operations_syntax

section \<open>Definitions\<close>

subsection \<open>Normalising a body\<close>

definition isDigit :: "char \<Rightarrow> bool" where
  "isDigit c \<longleftrightarrow> c \<ge> CHR ''0'' \<and> c \<le> CHR ''9''"

definition isHex :: "char \<Rightarrow> bool" where
  "isHex c \<longleftrightarrow> isDigit c \<or> (c \<ge> CHR ''a'' \<and> c \<le> CHR ''f'') \<or> (c \<ge> CHR ''A'' \<and> c \<le> CHR ''F'')"

definition isNumberByte :: "char \<Rightarrow> bool" where
  "isNumberByte c \<longleftrightarrow> (c \<ge> CHR ''0'' \<and> c \<le> CHR ''9'') \<or> c = CHR ''-'' \<or> c = CHR ''+'' \<or> c = CHR ''.'' \<or>
     c = CHR ''e'' \<or> c = CHR ''E''"

text \<open>\<^verbatim>\<open>hasWord(body, i, w)\<close>, on the rest \<^verbatim>\<open>body[i:]\<close>.\<close>

definition hasWord :: "string \<Rightarrow> string \<Rightarrow> bool" where
  "hasWord rest w \<longleftrightarrow> (if length w > length rest then False else take (length w) rest = w)"

definition isUUID :: "string \<Rightarrow> bool" where
  "isUUID s \<longleftrightarrow> length s = 36 \<and>
     list_all (\<lambda>i. if i = 8 \<or> i = 13 \<or> i = 18 \<or> i = 23 then s ! i = CHR ''-'' else isHex (s ! i)) [0..<36]"

definition isRFC3339 :: "string \<Rightarrow> bool" where
  "isRFC3339 s \<longleftrightarrow> \<not> length s < 16 \<and> list_all (\<lambda>i. isDigit (s ! i)) [0..<4] \<and>
     s ! 4 = CHR ''-'' \<and> isDigit (s ! 5) \<and> isDigit (s ! 6) \<and> s ! 7 = CHR ''-'' \<and>
     isDigit (s ! 8) \<and> isDigit (s ! 9) \<and>
     (s ! 10 = CHR ''T'' \<or> s ! 10 = CHR ''t'') \<and>
     isDigit (s ! 11) \<and> isDigit (s ! 12) \<and> s ! 13 = CHR '':'' \<and> isDigit (s ! 14) \<and> isDigit (s ! 15)"

definition isAllDigits :: "string \<Rightarrow> bool" where
  "isAllDigits s = list_all isDigit s"

fun isHexWithDigit_loop :: "string \<Rightarrow> bool \<Rightarrow> bool" where
  "isHexWithDigit_loop [] hasDigit = hasDigit"
| "isHexWithDigit_loop (c # cs) hasDigit =
     (if \<not> isHex c then False else isHexWithDigit_loop cs (if isDigit c then True else hasDigit))"

definition isHexWithDigit :: "string \<Rightarrow> bool" where
  "isHexWithDigit s = isHexWithDigit_loop s False"

text \<open>\<open>None\<close> is \<^verbatim>\<open>ok = false\<close>: keep the string verbatim.\<close>

definition classifyString :: "string \<Rightarrow> char option" where
  "classifyString s =
     (if length s = 0 then None
      else if isUUID s then Some (CHR ''U'')
      else if isRFC3339 s then Some (CHR ''T'')
      else if (length s = 10 \<or> length s = 13) \<and> isAllDigits s then Some (CHR ''T'')
      else if length s \<ge> 8 \<and> isHexWithDigit s then Some (CHR ''H'')
      else None)"

text \<open>
  The inner loop over a string: the content up to the closing quote and the rest behind it, or
  \<open>None\<close> when the body ends first. An escape skips the byte behind the backslash.
\<close>

abbreviation quote :: char where "quote \<equiv> CHR 0x22"
abbreviation backslash :: char where "backslash \<equiv> CHR 0x5C"

fun scan_string :: "string \<Rightarrow> (string \<times> string) option" where
  "scan_string [] = None"
| "scan_string (c # cs) =
     (if c = backslash
      then (case cs of
              [] \<Rightarrow> None
            | d # ds \<Rightarrow> map_option (\<lambda>(s, r). (c # d # s, r)) (scan_string ds))
      else if c = quote then Some ([], cs)
      else map_option (\<lambda>(s, r). (c # s, r)) (scan_string cs))"

definition isSpace :: "char \<Rightarrow> bool" where
  "isSpace c \<longleftrightarrow> c = CHR '' '' \<or> c = CHR 0x09 \<or> c = CHR 0x0A \<or> c = CHR 0x0D"

lemma scan_string_length: "scan_string cs = Some (s, r) \<Longrightarrow> length r < length cs"
  by (induction cs arbitrary: s r rule: scan_string.induct)
     (auto split: if_splits list.splits intro: less_SucI, metis less_SucI)

lemma length_dropWhile_head: "P c \<Longrightarrow> length (dropWhile P (c # cs)) < Suc (length cs)"
  by (simp add: le_imp_less_Suc length_dropWhile_le)

function normalizePayload :: "string \<Rightarrow> string" where
  "normalizePayload [] = []"
| "normalizePayload (c # cs) =
     (if c = quote
      then (case scan_string cs of
              None \<Rightarrow> c # cs
            | Some (content, rest) \<Rightarrow>
                (case classifyString content of
                   Some tag \<Rightarrow> [tag]
                 | None \<Rightarrow> quote # content @ [quote]) @ normalizePayload rest)
      else if isSpace c then normalizePayload cs
      else if c = CHR ''-'' \<or> (c \<ge> CHR ''0'' \<and> c \<le> CHR ''9'')
      then CHR ''#'' # normalizePayload (dropWhile isNumberByte (c # cs))
      else if c = CHR ''t'' \<and> hasWord (c # cs) ''true'' then CHR ''B'' # normalizePayload (drop 4 (c # cs))
      else if c = CHR ''f'' \<and> hasWord (c # cs) ''false'' then CHR ''B'' # normalizePayload (drop 5 (c # cs))
      else if c = CHR ''n'' \<and> hasWord (c # cs) ''null'' then CHR ''N'' # normalizePayload (drop 4 (c # cs))
      else c # normalizePayload cs)"
  by pat_completeness auto
termination
  by (relation "measure length")
     (auto simp: isNumberByte_def dest: scan_string_length intro: le_imp_less_Suc length_dropWhile_le)

subsection \<open>The sketch of a form\<close>

type_synonym signature = "64 word list"

definition minHashK :: nat where "minHashK = 64"
definition shingleSize :: nat where "shingleSize = 3"
definition maxShingles :: nat where "maxShingles = 256"

definition fnv1aOffset :: "64 word" where "fnv1aOffset = 14695981039346656037"
definition fnv1aPrime :: "64 word" where "fnv1aPrime = 1099511628211"
definition goldenRatio :: "64 word" where "goldenRatio = 0x9E3779B97F4A7C15"

definition fnv1a :: "string \<Rightarrow> 64 word" where
  "fnv1a b = fold (\<lambda>c h. (h XOR of_char c) * fnv1aPrime) b fnv1aOffset"

text \<open>The inner loop: the hash projected into every slot, the smaller value kept.\<close>

definition sig_update :: "64 word \<Rightarrow> signature \<Rightarrow> signature" where
  "sig_update h v =
     map (\<lambda>(k, old). let hi = h XOR (of_nat (k + 1) * goldenRatio) in if hi < old then hi else old)
       (enumerate 0 v)"

text \<open>The outer loop, on the rest \<^verbatim>\<open>form[i:]\<close>.\<close>

fun minHash_loop :: "string \<Rightarrow> nat \<Rightarrow> signature \<Rightarrow> signature" where
  "minHash_loop [] cnt v = v"
| "minHash_loop (c # cs) cnt v =
     (if shingleSize \<le> length (c # cs)
      then let v = sig_update (fnv1a (take shingleSize (c # cs))) v; cnt = cnt + 1
           in if cnt \<ge> maxShingles then v else minHash_loop cs cnt v
      else v)"

definition minHash :: "string \<Rightarrow> signature" where
  "minHash form =
     (let v = replicate minHashK (NOT 0)
      in if length form < shingleSize then v else minHash_loop form 0 v)"

definition jaccard :: "signature \<Rightarrow> signature \<Rightarrow> float64" where
  "jaccard a b =
     (let match = length (filter (\<lambda>i. a ! i = b ! i) [0..<minHashK])
      in f64_div (f64_of_int (int match)) (f64_of_int (int minHashK)))"

subsection \<open>The detector\<close>

record StructuralConfig =
  sc_Threshold :: float64
  sc_Window :: int
  sc_Limit :: int
  sc_TTL :: duration
  sc_MaxEntries :: int

record structuralState =
  ss_sigs :: "signature list"
  ss_expires :: time
  ss_blockedAt :: time

record StructuralHasher =
  sh_cfg :: StructuralConfig
  sh_seen :: "(AgentID, structuralState) gomap"

text \<open>0.85 as a \<^verbatim>\<open>float64\<close>.\<close>

definition defaultStructuralThreshold :: float64 where "defaultStructuralThreshold = round64 (85 / 100)"
definition defaultStructuralWindow :: int where "defaultStructuralWindow = 8"
definition defaultStructuralLimit :: int where "defaultStructuralLimit = 3"
definition defaultStructuralTTL :: duration where "defaultStructuralTTL = 10 * Minute"
definition defaultStructuralMax :: int where "defaultStructuralMax = 10000"

definition StructuralConfig_defaults :: "StructuralConfig \<Rightarrow> StructuralConfig" where
  "StructuralConfig_defaults cfg =
     (let cfg = (if f64_le (sc_Threshold cfg) (Fin 0) \<or> f64_lt (Fin 1) (sc_Threshold cfg)
                 then cfg\<lparr>sc_Threshold := defaultStructuralThreshold\<rparr> else cfg);
          cfg = (if sc_Window cfg \<le> 0 then cfg\<lparr>sc_Window := defaultStructuralWindow\<rparr> else cfg);
          cfg = (if sc_Limit cfg \<le> 0 then cfg\<lparr>sc_Limit := defaultStructuralLimit\<rparr> else cfg);
          cfg = (if sc_TTL cfg \<le> 0 then cfg\<lparr>sc_TTL := defaultStructuralTTL\<rparr> else cfg)
      in (if sc_MaxEntries cfg \<le> 0 then cfg\<lparr>sc_MaxEntries := defaultStructuralMax\<rparr> else cfg))"

definition NewStructuralHasher :: "StructuralConfig \<Rightarrow> StructuralHasher" where
  "NewStructuralHasher cfg = \<lparr>sh_cfg = StructuralConfig_defaults cfg, sh_seen = []\<rparr>"

definition ceilSeconds :: "duration \<Rightarrow> int" where
  "ceilSeconds d = (if d \<le> 0 then 1 else ceil_secs d)"

definition appendWindow :: "signature list \<Rightarrow> signature \<Rightarrow> int \<Rightarrow> signature list" where
  "appendWindow sigs e cap =
     (let sigs = sigs @ [e]
      in if int (length sigs) > cap then drop (nat (int (length sigs) - cap)) sigs else sigs)"

definition StructuralHasher_evictIfNeeded :: "AgentID range_order \<Rightarrow> StructuralHasher \<Rightarrow> StructuralHasher" where
  "StructuralHasher_evictIfNeeded ord s =
     s\<lparr>sh_seen := evictOldest ss_expires ord (sc_MaxEntries (sh_cfg s)) (sh_seen s)\<rparr>"

definition StructuralHasher_state ::
  "AgentID range_order \<Rightarrow> AgentID \<Rightarrow> time \<Rightarrow> StructuralHasher \<Rightarrow> structuralState \<times> StructuralHasher" where
  "StructuralHasher_state ord agent now s =
     (case gm_get (sh_seen s) agent of
        Some st \<Rightarrow> (st, s)
      | None \<Rightarrow>
          let s = StructuralHasher_evictIfNeeded ord s;
              st = \<lparr>ss_sigs = [], ss_expires = time_Add now (sc_TTL (sh_cfg s)), ss_blockedAt = 0\<rparr>
          in (st, s\<lparr>sh_seen := gm_set (sh_seen s) agent st\<rparr>))"

definition StructuralHasher_CheckPayload ::
  "time \<Rightarrow> AgentID range_order \<Rightarrow> AgentID \<Rightarrow> string \<Rightarrow> StructuralHasher \<Rightarrow> CheckResult \<times> StructuralHasher" where
  "StructuralHasher_CheckPayload now ord agent body s =
     (let form = normalizePayload body
      in if length form < shingleSize then (CheckResult_zero, s)
         else
           let sig = minHash form; cfg = sh_cfg s;
               (st, s) = StructuralHasher_state ord agent now s;
               st = (if \<not> now < ss_expires st
                     then st\<lparr>ss_sigs := [], ss_expires := time_Add now (sc_TTL cfg), ss_blockedAt := 0\<rparr>
                     else st);
               matches = int (length (filter (\<lambda>e. f64_le (sc_Threshold cfg) (jaccard sig e)) (ss_sigs st)))
           in if matches \<ge> sc_Limit cfg
              then let first = time_IsZero (ss_blockedAt st);
                       st = (if first then st\<lparr>ss_blockedAt := now\<rparr> else st);
                       st = st\<lparr>ss_sigs := appendWindow (ss_sigs st) sig (sc_Window cfg)\<rparr>
                   in (\<lparr>cr_Block = True, cr_Reason = ReasonStructural,
                        cr_RetryAfter = ceilSeconds (time_Sub (ss_expires st) now), cr_FirstBlock = first\<rparr>,
                       s\<lparr>sh_seen := gm_set (sh_seen s) agent st\<rparr>)
              else (CheckResult_zero,
                    s\<lparr>sh_seen := gm_set (sh_seen s) agent
                       (st\<lparr>ss_sigs := appendWindow (ss_sigs st) sig (sc_Window cfg)\<rparr>)\<rparr>))"

definition StructuralHasher_Reset :: "AgentID \<Rightarrow> StructuralHasher \<Rightarrow> int \<times> StructuralHasher" where
  "StructuralHasher_Reset agent s =
     (case gm_get (sh_seen s) agent of
        Some _ \<Rightarrow> (1, s\<lparr>sh_seen := gm_delete (sh_seen s) agent\<rparr>)
      | None \<Rightarrow> (0, s))"

section \<open>Characters and tags\<close>

lemma isNumberByte_start: "c = CHR ''-'' \<or> isDigit c \<Longrightarrow> isNumberByte c"
  by (auto simp: isNumberByte_def isDigit_def)

lemma isHexWithDigit_iff: "isHexWithDigit s \<longleftrightarrow> list_all isHex s \<and> list_ex isDigit s"
proof -
  have "isHexWithDigit_loop s b \<longleftrightarrow> list_all isHex s \<and> (b \<or> list_ex isDigit s)" for b
    by (induction s b rule: isHexWithDigit_loop.induct) auto
  then show ?thesis by (simp add: isHexWithDigit_def)
qed

section \<open>The normal form of a token sequence\<close>

text \<open>
  The lexical structure of a JSON text: punctuation, literals, numbers and strings, with insignificant
  whitespace in front of each token. Two numbers never stand next to each other in JSON (a comma, a
  bracket or a colon is between any two values).
\<close>

datatype token = TPunct char | TTrue | TFalse | TNull | TNum string | TStr string

fun str_ok :: "string \<Rightarrow> bool" where
  "str_ok [] \<longleftrightarrow> True"
| "str_ok (c # cs) \<longleftrightarrow>
     (if c = backslash then (case cs of [] \<Rightarrow> False | d # ds \<Rightarrow> str_ok ds) else c \<noteq> quote \<and> str_ok cs)"

fun token_ok :: "token \<Rightarrow> bool" where
  "token_ok (TPunct c) \<longleftrightarrow> c \<in> set ''{}[],:''"
| "token_ok (TNum s) \<longleftrightarrow> s \<noteq> [] \<and> (hd s = CHR ''-'' \<or> isDigit (hd s)) \<and> list_all isNumberByte s"
| "token_ok (TStr s) \<longleftrightarrow> str_ok s"
| "token_ok _ \<longleftrightarrow> True"

fun token_text :: "token \<Rightarrow> string" where
  "token_text (TPunct c) = [c]"
| "token_text TTrue = ''true''"
| "token_text TFalse = ''false''"
| "token_text TNull = ''null''"
| "token_text (TNum s) = s"
| "token_text (TStr s) = quote # s @ [quote]"

text \<open>What the normaliser makes of a token: every dynamic value becomes its placeholder.\<close>

fun token_form :: "token \<Rightarrow> string" where
  "token_form (TPunct c) = [c]"
| "token_form TTrue = ''B''"
| "token_form TFalse = ''B''"
| "token_form TNull = ''N''"
| "token_form (TNum s) = ''#''"
| "token_form (TStr s) = (case classifyString s of Some tag \<Rightarrow> [tag] | None \<Rightarrow> quote # s @ [quote])"

fun is_TNum :: "token \<Rightarrow> bool" where
  "is_TNum (TNum _) = True"
| "is_TNum _ = False"

fun numbers_apart :: "token list \<Rightarrow> bool" where
  "numbers_apart (t # u # ts) \<longleftrightarrow> \<not> (is_TNum t \<and> is_TNum u) \<and> numbers_apart (u # ts)"
| "numbers_apart _ \<longleftrightarrow> True"

text \<open>The text of a token sequence, each token with the whitespace in front of it.\<close>

definition layout :: "(string \<times> token) list \<Rightarrow> string" where
  "layout wts = concat (map (\<lambda>(w, t). w @ token_text t) wts)"

lemma scan_string_ok: "str_ok s \<Longrightarrow> scan_string (s @ quote # r) = Some (s, r)"
  by (induction s rule: str_ok.induct) (auto split: if_splits list.splits)

lemma normalize_spaces: "list_all isSpace w \<Longrightarrow> normalizePayload (w @ r) = normalizePayload r"
  by (induction w) (auto simp: isSpace_def)

lemma dropWhile_number:
  assumes "list_all isNumberByte s" and "r = [] \<or> \<not> isNumberByte (hd r)"
  shows "dropWhile isNumberByte (s @ r) = r"
  using assms by (induction s) (cases r; auto)+

lemma normalize_number:
  assumes "token_ok (TNum s)" and "r = [] \<or> \<not> isNumberByte (hd r)"
  shows "normalizePayload (s @ r) = CHR ''#'' # normalizePayload r"
proof -
  obtain c cs where s: "s = c # cs" "c = CHR ''-'' \<or> isDigit c" using assms(1) by (cases s) auto
  then have "c \<noteq> quote" "\<not> isSpace c" by (auto simp: isDigit_def isSpace_def)
  moreover have "dropWhile isNumberByte (c # cs @ r) = r"
    using dropWhile_number [of s r] assms s(1) by simp
  ultimately show ?thesis using s by (simp add: isDigit_def)
qed

lemma normalize_token:
  assumes "token_ok t" and "is_TNum t \<Longrightarrow> r = [] \<or> \<not> isNumberByte (hd r)"
  shows "normalizePayload (token_text t @ r) = token_form t @ normalizePayload r"
proof (cases t)
  case (TNum s)
  then show ?thesis using normalize_number assms by simp
next
  case (TStr s)
  then show ?thesis using assms scan_string_ok [of s r] by (simp split: option.splits)
next
  case (TPunct c)
  then have "c \<in> set ''{}[],:''" using assms(1) by simp
  then have "c \<noteq> quote" "\<not> isSpace c" "c \<noteq> CHR ''-''" "\<not> (c \<ge> CHR ''0'' \<and> c \<le> CHR ''9'')"
      "c \<noteq> CHR ''t''" "c \<noteq> CHR ''f''" "c \<noteq> CHR ''n''"
    by (auto simp: isSpace_def)
  then have "normalizePayload (c # r) = c # normalizePayload r"
    by (simp only: normalizePayload.simps simp_thms if_False)
  then show ?thesis by (simp add: TPunct)
qed (simp_all add: hasWord_def isSpace_def)

lemma token_text_head:
  assumes "token_ok t" and "\<not> is_TNum t"
  shows "token_text t \<noteq> [] \<and> \<not> isNumberByte (hd (token_text t))"
  using assms by (cases t) (auto simp: isNumberByte_def)

lemma layout_head:
  assumes "list_all (\<lambda>(w, t). list_all isSpace w \<and> token_ok t) wts" and "list_all isSpace trail"
    and "wts = [] \<or> \<not> is_TNum (snd (hd wts))"
  shows "layout wts @ trail = [] \<or> \<not> isNumberByte (hd (layout wts @ trail))"
proof -
  have sp: "isSpace c \<Longrightarrow> \<not> isNumberByte c" for c by (auto simp: isSpace_def isNumberByte_def)
  show ?thesis
  proof (cases wts)
    case Nil
    then show ?thesis using assms(2) sp by (cases trail) (auto simp: layout_def)
  next
    case (Cons p ps)
    obtain w t where p: "p = (w, t)" by (cases p)
    show ?thesis
      using assms sp token_text_head [of t] by (cases w) (auto simp: Cons p layout_def)
  qed
qed

lemma normalize_layout:
  assumes "list_all (\<lambda>(w, t). list_all isSpace w \<and> token_ok t) wts" and "list_all isSpace trail"
    and "numbers_apart (map snd wts)"
  shows "normalizePayload (layout wts @ trail) = concat (map (\<lambda>p. token_form (snd p)) wts)"
  using assms
proof (induction wts)
  case Nil
  then show ?case using normalize_spaces [of trail "[]"] by (simp add: layout_def)
next
  case (Cons p wts)
  obtain w t where p: "p = (w, t)" by (cases p)
  have "numbers_apart (map snd wts)" and next_tok: "is_TNum t \<Longrightarrow> wts = [] \<or> \<not> is_TNum (snd (hd wts))"
    using Cons.prems(3) by (cases wts; simp add: p)+
  then have IH: "normalizePayload (layout wts @ trail) = concat (map (\<lambda>p. token_form (snd p)) wts)"
    using Cons by simp
  have "layout (p # wts) @ trail = w @ token_text t @ layout wts @ trail" by (simp add: layout_def p)
  moreover have "is_TNum t \<Longrightarrow> layout wts @ trail = [] \<or> \<not> isNumberByte (hd (layout wts @ trail))"
    using Cons.prems by (intro layout_head next_tok) simp_all
  ultimately show ?case
    using Cons.prems normalize_token [of t "layout wts @ trail"] IH by (simp add: p normalize_spaces)
qed

section \<open>The sketch and the similarity\<close>

definition shingles :: "string \<Rightarrow> string list" where
  "shingles form = map (\<lambda>i. take shingleSize (drop i form)) [0..<min maxShingles (length form - 2)]"

text \<open>The projection of a shingle into slot \<open>k\<close>.\<close>

definition slot_hash :: "nat \<Rightarrow> string \<Rightarrow> 64 word" where
  "slot_hash k s = fnv1a s XOR (of_nat (k + 1) * goldenRatio)"

lemma length_sig_update [simp]: "length (sig_update h v) = length v"
  by (simp add: sig_update_def)

lemma nth_sig_update:
  "k < length v \<Longrightarrow> sig_update (fnv1a s) v ! k = min (slot_hash k s) (v ! k)"
  by (auto simp: sig_update_def nth_enumerate_eq slot_hash_def Let_def min_def less_le)

lemma minHash_loop_eq:
  assumes "cnt < maxShingles"
  shows "minHash_loop form cnt v =
    fold (\<lambda>s. sig_update (fnv1a s))
      (map (\<lambda>i. take shingleSize (drop i form)) [0..<min (maxShingles - cnt) (length form - 2)]) v"
  using assms
proof (induction form cnt v rule: minHash_loop.induct)
  case (2 c cs cnt v)
  let ?f = "\<lambda>i. take shingleSize (drop i (c # cs))"
  show ?case
  proof (cases "shingleSize \<le> length (c # cs)")
    case False
    then show ?thesis by (simp add: shingleSize_def)
  next
    case True
    define n where n2: "n = min (maxShingles - Suc cnt) (length cs - 2)"
    have "maxShingles - cnt = Suc (maxShingles - Suc cnt)" "length (c # cs) - 2 = Suc (length cs - 2)"
      using 2(2) True by (simp_all add: shingleSize_def)
    then have n1: "min (maxShingles - cnt) (length (c # cs) - 2) = Suc n"
      by (simp only: min_Suc_Suc n2)
    have "map ?f [0..<Suc n] = ?f 0 # map (\<lambda>i. take shingleSize (drop i cs)) [0..<n]"
      by (simp add: map_upt_Suc del: upt_Suc)
    then show ?thesis
      unfolding n1 using True 2 n2 by (cases "maxShingles \<le> Suc cnt") (simp_all add: Let_def del: upt_Suc)
  qed
qed simp

lemma nth_fold_sig_update:
  "k < length v \<Longrightarrow> fold (\<lambda>s. sig_update (fnv1a s)) ss v ! k = fold min (map (slot_hash k) ss) (v ! k)"
  by (induction ss arbitrary: v) (simp_all add: nth_sig_update)

lemma length_fold_sig_update [simp]: "length (fold (\<lambda>s. sig_update (fnv1a s)) ss v) = length v"
  by (induction ss arbitrary: v) simp_all

lemma minHash_eq:
  "minHash form = fold (\<lambda>s. sig_update (fnv1a s)) (shingles form) (replicate minHashK (NOT 0))"
  by (simp add: minHash_def Let_def minHash_loop_eq shingles_def maxShingles_def shingleSize_def)

lemma length_minHash [simp]: "length (minHash form) = minHashK"
  by (simp add: minHash_eq)

definition agreements :: "signature \<Rightarrow> signature \<Rightarrow> nat" where
  "agreements a b = card {i. i < minHashK \<and> a ! i = b ! i}"

lemma agreements_le: "agreements a b \<le> 64"
proof -
  have "agreements a b \<le> card {..<minHashK}" unfolding agreements_def by (intro card_mono) auto
  then show ?thesis by (simp add: minHashK_def)
qed

lemma jaccard_eq: "jaccard a b = Fin (of_nat (agreements a b) / 64)"
proof -
  let ?xs = "filter (\<lambda>i. a ! i = b ! i) [0..<minHashK]"
  have "agreements a b = length ?xs"
    using distinct_card [of ?xs] by (simp add: agreements_def atLeast0LessThan lessThan_def conj_commute)
  then have "jaccard a b = f64_div (f64_of_int (int (agreements a b))) (Fin 64)"
    by (simp add: jaccard_def Let_def minHashK_def f64_of_int_exact)
  then show ?thesis
    using agreements_le [of a b] round64_sixtyfourth [of "int (agreements a b)"]
    by (simp add: f64_of_int_exact)
qed

lemma agreements_self [simp]: "agreements a a = 64"
  by (simp add: agreements_def minHashK_def)

section \<open>One step of an agent's window\<close>

type_synonym payload_input = "time \<times> AgentID range_order \<times> string"

definition structural_fresh :: "StructuralConfig \<Rightarrow> time \<Rightarrow> structuralState" where
  "structural_fresh cfg now = \<lparr>ss_sigs = [], ss_expires = now + sc_TTL cfg, ss_blockedAt = 0\<rparr>"

definition structural_open :: "StructuralConfig \<Rightarrow> time \<Rightarrow> structuralState option \<Rightarrow> structuralState" where
  "structural_open cfg now ost =
     (case ost of None \<Rightarrow> structural_fresh cfg now
      | Some st \<Rightarrow> if now < ss_expires st then st else structural_fresh cfg now)"

text \<open>The number of retained sketches that are similar to this one.\<close>

definition similar_count :: "StructuralConfig \<Rightarrow> signature \<Rightarrow> signature list \<Rightarrow> int" where
  "similar_count cfg sig sigs = int (length (filter (\<lambda>e. f64_le (sc_Threshold cfg) (jaccard sig e)) sigs))"

definition has_structure :: "string \<Rightarrow> bool" where
  "has_structure body \<longleftrightarrow> shingleSize \<le> length (normalizePayload body)"

definition sketch :: "string \<Rightarrow> signature" where
  "sketch body = minHash (normalizePayload body)"

fun structural_step ::
  "StructuralConfig \<Rightarrow> payload_input \<Rightarrow> structuralState option \<Rightarrow> CheckResult \<times> structuralState option" where
  "structural_step cfg (now, ord, body) ost =
     (if \<not> has_structure body then (CheckResult_zero, None)
      else
        let st = structural_open cfg now ost;
            block = (sc_Limit cfg \<le> similar_count cfg (sketch body) (ss_sigs st))
        in (if block
            then \<lparr>cr_Block = True, cr_Reason = ReasonStructural,
                  cr_RetryAfter = ceilSeconds (time_Sub (ss_expires st) now),
                  cr_FirstBlock = (ss_blockedAt st = 0)\<rparr>
            else CheckResult_zero,
            Some \<lparr>ss_sigs = appendWindow (ss_sigs st) (sketch body) (sc_Window cfg),
                  ss_expires = ss_expires st,
                  ss_blockedAt = (if block \<and> ss_blockedAt st = 0 then now else ss_blockedAt st)\<rparr>))"

lemmas structural_check_defs =
  StructuralHasher_CheckPayload_def StructuralHasher_state_def StructuralHasher_evictIfNeeded_def
  structural_open_def structural_fresh_def similar_count_def sketch_def has_structure_def agent_put_def
  time_defs Let_def not_less

lemma CheckPayload_skip:
  "\<not> has_structure body \<Longrightarrow> StructuralHasher_CheckPayload now ord a body s = (CheckResult_zero, s)"
  by (simp add: StructuralHasher_CheckPayload_def has_structure_def)

lemma CheckPayload_eq:
  assumes "has_structure body"
  shows "StructuralHasher_CheckPayload now ord a body s =
     (fst (structural_step (sh_cfg s) (now, ord, body) (gm_get (sh_seen s) a)),
      s\<lparr>sh_seen := agent_put ss_expires ord (sc_MaxEntries (sh_cfg s)) (sh_seen s) a
          (the (snd (structural_step (sh_cfg s) (now, ord, body) (gm_get (sh_seen s) a))))\<rparr>)"
proof (cases "gm_get (sh_seen s) a")
  case None
  then show ?thesis
    using assms by (simp add: structural_check_defs)
next
  case (Some st)
  then show ?thesis
    using assms by (cases st) (simp add: structural_check_defs)
qed

interpretation structural: agent_states
  "\<lambda>(now, ord, body) a. StructuralHasher_CheckPayload now ord a body" StructuralHasher_Reset
  sh_seen sh_cfg ss_expires "\<lambda>(now, ord, body). ord" sc_MaxEntries structural_step
proof (unfold_locales, goal_cases)
  case (1 x a s)
  obtain now ord body where "x = (now, ord, body)" by (cases x)
  then show ?case by (cases "has_structure body") (simp_all add: CheckPayload_skip CheckPayload_eq)
next
  case (2 x a s)
  obtain now ord body where "x = (now, ord, body)" by (cases x)
  then show ?case by (cases "has_structure body") (simp_all add: CheckPayload_skip CheckPayload_eq)
next
  case (3 x a s)
  obtain now ord body where "x = (now, ord, body)" by (cases x)
  then show ?case by (cases "has_structure body") (simp_all add: CheckPayload_skip CheckPayload_eq Let_def)
qed (auto simp: StructuralHasher_Reset_def gm_delete_absent split: option.splits)

declare structural_step.simps [simp del]

section \<open>What a run of checks decides\<close>

text \<open>
  The history of an agent: the sketches of its bodies that have a structure, with their times. A
  request is blocked when at least \<^verbatim>\<open>Limit\<close> of the most recent
  \<^verbatim>\<open>Window\<close> sketches of the current fixed window are similar to its own.
\<close>

definition structural_history :: "payload_input list \<Rightarrow> (time \<times> signature) list" where
  "structural_history xs =
     map (\<lambda>(now, ord, body). (now, sketch body)) (filter (\<lambda>(now, ord, body). has_structure body) xs)"

definition structural_spec :: "StructuralConfig \<Rightarrow> (time \<times> signature) list \<Rightarrow> time \<Rightarrow> signature \<Rightarrow> CheckResult \<Rightarrow> bool" where
  "structural_spec cfg h now sig r \<longleftrightarrow>
     (let (s, past) = fixed_past (sc_TTL cfg) now (fixed_window (sc_TTL cfg) h)
      in if sc_Limit cfg \<le> similar_count cfg sig (lastn (nat (sc_Window cfg)) past)
         then cr_Block r \<and> cr_Reason r = ReasonStructural \<and>
              cr_RetryAfter r = ceilSeconds (time_Sub (s + sc_TTL cfg) now)
         else r = CheckResult_zero)"

lemma appendWindow_eq: "0 \<le> cap \<Longrightarrow> appendWindow sigs e cap = lastn (nat cap) (sigs @ [e])"
proof -
  assume "0 \<le> cap"
  then have "nat (int (length (sigs @ [e])) - cap) = length (sigs @ [e]) - nat cap" by linarith
  then show ?thesis using \<open>0 \<le> cap\<close> by (simp add: appendWindow_def Let_def lastn_def)
qed

definition structural_rel :: "StructuralConfig \<Rightarrow> (time \<times> signature list) option \<Rightarrow> structuralState option \<Rightarrow> bool" where
  "structural_rel cfg w ost \<longleftrightarrow>
     (case w of
        None \<Rightarrow> ost = None
      | Some (s, xs) \<Rightarrow> \<exists>st. ost = Some st \<and> ss_expires st = s + sc_TTL cfg \<and>
                          ss_sigs st = lastn (nat (sc_Window cfg)) xs)"

lemma structural_rel_open:
  assumes "structural_rel cfg w ost" and "(s, past) = fixed_past (sc_TTL cfg) now w"
  shows "ss_expires (structural_open cfg now ost) = s + sc_TTL cfg"
    and "ss_sigs (structural_open cfg now ost) = lastn (nat (sc_Window cfg)) past"
  using assms
  by (auto simp: structural_rel_def structural_open_def structural_fresh_def fixed_past_def
      split: option.splits prod.splits if_splits)

lemma structural_fold:
  assumes "0 < sc_Window cfg"
  shows "structural_rel cfg (fixed_window (sc_TTL cfg) (structural_history xs))
           (fold_step (structural_step cfg) xs None)"
proof (induction xs rule: rev_induct)
  case Nil
  then show ?case by (simp add: structural_history_def structural_rel_def)
next
  case (snoc x xs)
  obtain now ord body where x: "x = (now, ord, body)" by (cases x)
  let ?w = "fixed_window (sc_TTL cfg) (structural_history xs)"
  obtain s past where p: "(s, past) = fixed_past (sc_TTL cfg) now ?w" by (metis surj_pair)
  note op = structural_rel_open [OF snoc p]
  show ?case
  proof (cases "has_structure body")
    case False
    then show ?thesis
      using snoc by (simp add: x fold_step_append structural_step.simps structural_history_def)
  next
    case True
    then have "structural_history (xs @ [x]) = structural_history xs @ [(now, sketch body)]"
      by (simp add: structural_history_def x)
    then show ?thesis
      using True op assms
      by (simp add: x fold_step_append structural_step.simps structural_rel_def Let_def p [symmetric]
          appendWindow_eq lastn_push)
  qed
qed

lemma structural_step_spec:
  assumes "0 < sc_Window cfg" and "has_structure body"
  shows "structural_spec cfg (structural_history xs) now (sketch body)
           (fst (structural_step cfg (now, ord, body) (fold_step (structural_step cfg) xs None)))"
proof -
  let ?w = "fixed_window (sc_TTL cfg) (structural_history xs)"
  obtain s past where p: "(s, past) = fixed_past (sc_TTL cfg) now ?w" by (metis surj_pair)
  show ?thesis
    using structural_rel_open [OF structural_fold [OF assms(1), of xs] p] assms(2)
    by (simp add: structural_spec_def structural_step.simps Let_def p [symmetric])
qed

abbreviation structural_run ::
  "(payload_input \<times> AgentID) list \<Rightarrow> StructuralHasher \<Rightarrow> CheckResult list \<times> StructuralHasher" where
  "structural_run \<equiv> run_checks (\<lambda>(now, ord, body) a. StructuralHasher_CheckPayload now ord a body)"

lemma NewStructuralHasher_sel [simp]:
  "sh_seen (NewStructuralHasher cfg) = []" "sh_cfg (NewStructuralHasher cfg) = StructuralConfig_defaults cfg"
  by (simp_all add: NewStructuralHasher_def)

lemma structural_defaults:
  "0 < sc_Window (StructuralConfig_defaults cfg)" "0 < sc_Limit (StructuralConfig_defaults cfg)"
  "0 < sc_TTL (StructuralConfig_defaults cfg)" "0 < sc_MaxEntries (StructuralConfig_defaults cfg)"
  by (simp_all add: StructuralConfig_defaults_def Let_def defaultStructuralWindow_def defaultStructuralLimit_def
      defaultStructuralTTL_def defaultStructuralMax_def Minute_def Second_def)

lemma structural_run_spec:
  assumes "card (snd ` set rs) \<le> nat (sc_MaxEntries (StructuralConfig_defaults cfg))"
    and "rs = pre @ ((now, ord, body), a) # post" and "has_structure body"
  shows "structural_spec (StructuralConfig_defaults cfg) (structural_history (own a pre)) now (sketch body)
           (fst (structural_run rs (NewStructuralHasher cfg)) ! length pre)"
  using structural.run_verdicts [of "NewStructuralHasher cfg" rs pre "(now, ord, body)" a post]
    structural_step_spec [OF structural_defaults(1) assms(3)] assms(1,2)
  by simp

section \<open>Reachable states\<close>

abbreviation structural_reach :: "StructuralConfig \<Rightarrow> StructuralHasher \<Rightarrow> bool" where
  "structural_reach cfg \<equiv> agent_reach (\<lambda>(now, ord, body) a. StructuralHasher_CheckPayload now ord a body)
     StructuralHasher_Reset (NewStructuralHasher cfg)"

lemma structural_step_bound:
  assumes "0 < sc_Window cfg" and "snd (structural_step cfg x ost) = Some st'"
  shows "int (length (ss_sigs st')) \<le> sc_Window cfg"
proof -
  obtain now ord body where x: "x = (now, ord, body)" by (cases x)
  show ?thesis
    using assms by (auto simp: x structural_step.simps Let_def appendWindow_eq split: if_splits)
qed

lemma structural_reach_bound:
  assumes "structural_reach cfg s"
  shows "sh_cfg s = StructuralConfig_defaults cfg \<and>
    states_ok (sc_MaxEntries (StructuralConfig_defaults cfg)) (sh_seen s) \<and>
    (\<forall>a st. gm_get (sh_seen s) a = Some st \<longrightarrow> int (length (ss_sigs st)) \<le> sc_Window (StructuralConfig_defaults cfg))"
proof -
  have "sh_cfg s = sh_cfg (NewStructuralHasher cfg) \<and>
      states_ok (sc_MaxEntries (sh_cfg (NewStructuralHasher cfg))) (sh_seen s) \<and>
      (\<forall>a st. gm_get (sh_seen s) a = Some st \<longrightarrow> int (length (ss_sigs st)) \<le> sc_Window (StructuralConfig_defaults cfg))"
  proof (rule structural.reach_inv [OF assms])
    show "1 \<le> sc_MaxEntries (sh_cfg (NewStructuralHasher cfg))"
      using structural_defaults(4) [of cfg] by simp
  qed (simp_all add: structural_step_bound [OF structural_defaults(1)])
  then show ?thesis by simp
qed

lemma similar_count_le: "similar_count cfg sig sigs \<le> int (length sigs)"
  by (simp add: similar_count_def)

lemma similar_same_form:
  assumes "sc_Threshold cfg \<noteq> NaN"
  shows "f64_le (sc_Threshold (StructuralConfig_defaults cfg)) (jaccard sig sig)"
proof -
  let ?t = "sc_Threshold (StructuralConfig_defaults cfg)"
  have t: "?t = (if f64_le (sc_Threshold cfg) (Fin 0) \<or> f64_lt (Fin 1) (sc_Threshold cfg)
      then defaultStructuralThreshold else sc_Threshold cfg)"
    by (simp add: StructuralConfig_defaults_def Let_def)
  have "f64_le defaultStructuralThreshold (Fin 1)"
    using round64_mono [of "85 / 100" 1] round64_int [of 1] by (simp add: defaultStructuralThreshold_def)
  moreover have "f64_le (sc_Threshold cfg) (Fin 1)" if "\<not> f64_lt (Fin 1) (sc_Threshold cfg)"
    using that assms by (cases "sc_Threshold cfg") (auto simp: f64_le_def)
  ultimately show ?thesis by (simp add: t jaccard_eq)
qed

section \<open>Properties\<close>

text \<open>
  C11. The structural detector is exactly its specification: over any sequence of checks with no more
  agents than the map holds, a body with a structure is blocked if and only if at least
  \<^verbatim>\<open>Limit\<close> of the sketches that the agent's current fixed window retains (the last
  \<^verbatim>\<open>Window\<close> of them) are similar to its own, and then with the time to the end of
  that window; every other answer is ``proceed''.
\<close>

theorem structural_run_refines_window:
  assumes "card (snd ` set rs) \<le> nat (sc_MaxEntries (sh_cfg (NewStructuralHasher cfg)))"
    and "rs = pre @ ((now, ord, body), a) # post" and "has_structure body"
  shows "structural_spec (sh_cfg (NewStructuralHasher cfg)) (structural_history (own a pre)) now (sketch body)
           (fst (structural_run rs (NewStructuralHasher cfg)) ! length pre)"
  using structural_run_spec [of rs cfg] assms by simp

definition structural_config0 :: StructuralConfig where
  "structural_config0 = \<lparr>sc_Threshold = Fin 0, sc_Window = 0, sc_Limit = 0, sc_TTL = 0, sc_MaxEntries = 0\<rparr>"

lemma structural_default_config:
  "sh_cfg (NewStructuralHasher structural_config0) =
     \<lparr>sc_Threshold = round64 (85 / 100), sc_Window = 8, sc_Limit = 3, sc_TTL = 600000000000, sc_MaxEntries = 10000\<rparr>"
  by (simp add: StructuralConfig_defaults_def structural_config0_def Let_def defaultStructuralThreshold_def
      defaultStructuralWindow_def defaultStructuralLimit_def defaultStructuralTTL_def defaultStructuralMax_def
      Minute_def Second_def)

theorem structural_run_refines_window_witness:
  "structural_spec (sh_cfg (NewStructuralHasher structural_config0)) [] 1 (sketch ''[1,2]'')
     (fst (structural_run [((1, in_order, ''[1,2]''), ''a'')] (NewStructuralHasher structural_config0)) ! 0)"
proof -
  have "has_structure ''[1,2]''" by code_simp
  then show ?thesis
    using structural_run_refines_window [of "[((1, in_order, ''[1,2]''), ''a'')]" structural_config0 "[]"
        1 in_order "''[1,2]''" "''a''" "[]"]
    by (simp add: structural_default_config structural_history_def del: run_checks.simps NewStructuralHasher_sel(2))
qed

text \<open>
  C12. Normalisation of JSON: the form of any sequence of JSON tokens is the concatenation of the
  tokens' placeholders, whatever whitespace is laid out around them. So pretty-printed and compact
  encodings have the same form, and so have two requests that differ only in numbers, identifiers,
  timestamps or long hexadecimal strings.
\<close>

theorem normalize_json_tokens:
  assumes "list_all (\<lambda>(w, t). list_all isSpace w \<and> token_ok t) wts" and "list_all isSpace trail"
    and "numbers_apart (map snd wts)"
  shows "normalizePayload (layout wts @ trail) = concat (map (\<lambda>p. token_form (snd p)) wts)"
  using assms by (rule normalize_layout)

theorem normalize_json_tokens_witness:
  "normalizePayload (layout [('' '', TPunct CHR ''[''), ([], TNum ''-1.5e3''), ([], TPunct CHR '',''), ('' '', TNull), ('' '', TPunct CHR '']'')])
     = ''[#,N]''"
  using normalize_json_tokens [of "[('' '', TPunct CHR ''[''), ([], TNum ''-1.5e3''), ([], TPunct CHR '',''), ('' '', TNull), ('' '', TPunct CHR '']'')]" "[]"]
  by (simp add: isSpace_def isNumberByte_def)

text \<open>
  The sketch is the MinHash of the form: 64 slots, slot \<open>k\<close> the least projection of the
  first 256 shingles (all the windows of three bytes), the largest 64-bit value when there are none.
\<close>

theorem minHash_is_minimum:
  "length (minHash form) = 64 \<and>
   (\<forall>k<64. minHash form ! k = Min (insert (NOT 0) (slot_hash k ` set (shingles form))))"
proof -
  have "minHash form ! k = Min (set (NOT 0 # map (slot_hash k) (shingles form)))" if "k < 64" for k
    unfolding minHash_eq Min.set_eq_fold using that by (simp add: nth_fold_sig_update minHashK_def)
  then show ?thesis by (simp add: minHashK_def)
qed

theorem minHash_is_minimum_witness:
  "minHash ''[#,#]'' ! 5 = Min (insert (NOT 0) (slot_hash 5 ` set (shingles ''[#,#]'')))"
  using minHash_is_minimum [of "''[#,#]''"] by simp

text \<open>
  The similarity of two sketches is exactly the fraction of the slots that agree: no rounding
  happens, it is symmetric, lies between 0 and 1, and is 1 only for sketches that agree everywhere.
\<close>

theorem jaccard_exact:
  "jaccard a b = Fin (of_nat (card {i. i < 64 \<and> a ! i = b ! i}) / 64) \<and>
   jaccard a b = jaccard b a \<and> f64_le (Fin 0) (jaccard a b) \<and> f64_le (jaccard a b) (Fin 1) \<and>
   (jaccard (minHash f) (minHash g) = Fin 1 \<longleftrightarrow> minHash f = minHash g)"
proof -
  have "(of_nat (agreements a b) :: rat) \<le> 64" using agreements_le [of a b] by (metis of_nat_le_iff of_nat_numeral)
  moreover have "agreements a b = agreements b a" unfolding agreements_def by metis
  moreover have "minHash f = minHash g" if "agreements (minHash f) (minHash g) = 64"
  proof -
    have "{i. i < minHashK \<and> minHash f ! i = minHash g ! i} = {..<minHashK}"
      using that by (intro card_subset_eq) (auto simp: agreements_def minHashK_def)
    then show ?thesis by (intro nth_equalityI) auto
  qed
  moreover have "(of_nat (agreements (minHash f) (minHash g)) / 64 = (1 :: rat)) \<longleftrightarrow> agreements (minHash f) (minHash g) = 64"
    by (metis agreements_self eq_divide_eq_1 of_nat_eq_iff of_nat_numeral zero_neq_numeral)
  ultimately show ?thesis
    by (auto simp: jaccard_eq agreements_def minHashK_def)
qed

text \<open>
  A loop that re-issues the same request with other numbers, identifiers or timestamps is caught:
  when at least \<^verbatim>\<open>Limit\<close> of the last \<^verbatim>\<open>Window\<close> requests of an
  agent have the same form as the one at hand, all inside one TTL window, the request is blocked.
\<close>

theorem structural_loop_blocked:
  assumes "c = sh_cfg (NewStructuralHasher cfg)" and "sc_Threshold cfg \<noteq> NaN"
    and "card (snd ` set rs) \<le> nat (sc_MaxEntries c)"
    and "rs = pre @ ((now, ord, body), a) # post" and "has_structure body"
    and "own a pre \<noteq> []" and "\<forall>(t, ord, b) \<in> set (own a pre). has_structure b \<and> t < fst (hd (own a pre)) + sc_TTL c"
    and "now < fst (hd (own a pre)) + sc_TTL c"
    and "sc_Limit c \<le> int (length (filter (\<lambda>(t, ord, b). normalizePayload b = normalizePayload body)
             (lastn (nat (sc_Window c)) (own a pre))))"
  shows "cr_Block (fst (structural_run rs (NewStructuralHasher cfg)) ! length pre)"
proof -
  let ?xs = "own a pre" and ?W = "nat (sc_Window c)"
  let ?h = "structural_history ?xs"
  have h: "?h = map (\<lambda>(t, ord, b). (t, sketch b)) ?xs"
    using assms(7) by (auto simp: structural_history_def filter_id_conv intro!: arg_cong [where f = "map _"])
  then have hd: "fst (hd ?h) = fst (hd ?xs)" using assms(6) by (cases ?xs) (auto split: prod.splits)
  have "fixed_window (sc_TTL c) ?h = Some (fst (hd ?h), map snd ?h)"
    using assms(6,7) hd by (intro fixed_window_together) (auto simp: h split: prod.splits)
  then have past: "fixed_past (sc_TTL c) now (fixed_window (sc_TTL c) ?h) = (fst (hd ?h), map snd ?h)"
    using assms(8) hd by (simp add: fixed_past_def)
  have "length (filter (\<lambda>(t, ord, b). normalizePayload b = normalizePayload body) (lastn ?W ?xs))
      \<le> length (filter (\<lambda>(t, ord, b). f64_le (sc_Threshold c) (jaccard (sketch body) (sketch b))) (lastn ?W ?xs))"
    by (rule length_filter_mono) (use similar_same_form [OF assms(2)] in \<open>auto simp: sketch_def assms(1)\<close>)
  also have "\<dots> = length (filter (\<lambda>e. f64_le (sc_Threshold c) (jaccard (sketch body) e)) (lastn ?W (map snd ?h)))"
    by (simp add: h lastn_def drop_map filter_map comp_def case_prod_unfold)
  finally have "sc_Limit c \<le> similar_count c (sketch body) (lastn ?W (map snd ?h))"
    using assms(9) unfolding similar_count_def by linarith
  moreover have "c = StructuralConfig_defaults cfg" by (simp add: assms(1))
  then have "structural_spec c ?h now (sketch body) (fst (structural_run rs (NewStructuralHasher cfg)) ! length pre)"
    using structural_run_spec [OF _ assms(4,5), of cfg] assms(3) by simp
  ultimately show ?thesis unfolding structural_spec_def past by simp
qed

theorem structural_loop_blocked_witness:
  "cr_Block (fst (structural_run
      [((1, in_order, ''[1,2]''), ''a''), ((2, in_order, ''[3, 4]''), ''a''), ((3, in_order, ''[5,66]''), ''a''),
       ((4, in_order, ''[7,8]''), ''a'')] (NewStructuralHasher structural_config0)) ! Suc (Suc (Suc 0)))"
proof -
  let ?pre = "[((1, in_order, ''[1,2]''), ''a''), ((2, in_order, ''[3, 4]''), ''a''), ((3, in_order, ''[5,66]''), ''a'')]
      :: (payload_input \<times> AgentID) list"
  let ?rs = "?pre @ ((4, in_order, ''[7,8]''), ''a'') # []"
  note c = structural_default_config
  have form: "normalizePayload ''[1,2]'' = ''[#,#]''" "normalizePayload ''[3, 4]'' = ''[#,#]''"
      "normalizePayload ''[5,66]'' = ''[#,#]''" "normalizePayload ''[7,8]'' = ''[#,#]''" by code_simp+
  have "sc_Threshold structural_config0 \<noteq> NaN" by (simp add: structural_config0_def)
  moreover have "card (snd ` set ?rs) \<le> nat (sc_MaxEntries (sh_cfg (NewStructuralHasher structural_config0)))"
    unfolding c by simp
  ultimately have "cr_Block (fst (structural_run ?rs (NewStructuralHasher structural_config0)) ! length ?pre)"
    by (rule structural_loop_blocked [OF refl _ _ refl])
       (simp_all only: c, simp_all add: form has_structure_def shingleSize_def del: normalizePayload.simps)
  moreover have "length ?pre = Suc (Suc (Suc 0))" by simp
  ultimately show ?thesis by (simp only: append.simps)
qed

text \<open>
  The sketch looks at a prefix only: two forms that agree on their first 258 bytes have the same
  sketch, whatever follows. So requests that share a long constant beginning, such as a system prompt,
  and differ only after it count as the same structure.
\<close>

theorem sketch_reads_258_bytes:
  assumes "take 258 f = take 258 g" and "258 \<le> length f" and "258 \<le> length g"
  shows "minHash f = minHash g \<and> jaccard (minHash f) (minHash g) = Fin 1"
proof -
  have sh: "shingles x = map (\<lambda>i. take 3 (drop i (take 258 x))) [0..<256]" if "258 \<le> length x" for x :: string
    using that by (auto simp: shingles_def maxShingles_def shingleSize_def take_drop min_def)
  have "shingles f = shingles g" by (simp only: sh [OF assms(2)] sh [OF assms(3)] assms(1))
  then show ?thesis by (simp add: minHash_eq jaccard_eq)
qed

theorem sketch_reads_258_bytes_witness:
  "minHash (replicate 258 CHR ''x'' @ ''first question'') = minHash (replicate 258 CHR ''x'' @ ''another one'')"
  using sketch_reads_258_bytes [of "replicate 258 CHR ''x'' @ ''first question''" "replicate 258 CHR ''x'' @ ''another one''"]
  by simp

text \<open>
  A configured \<^verbatim>\<open>Limit\<close> above the \<^verbatim>\<open>Window\<close> switches the
  detector off: in no reachable state does a check block. In every reachable state the map holds at most
  \<^verbatim>\<open>MaxEntries\<close> agents and each window at most \<^verbatim>\<open>Window\<close> sketches.
\<close>

theorem structural_bounds:
  assumes "structural_reach cfg s" and "c = sh_cfg (NewStructuralHasher cfg)"
  shows "gm_ok (sh_seen s) \<and> gm_len (sh_seen s) \<le> sc_MaxEntries c \<and>
    (\<forall>a st. gm_get (sh_seen s) a = Some st \<longrightarrow> int (length (ss_sigs st)) \<le> sc_Window c) \<and>
    (sc_Window c < sc_Limit c \<longrightarrow> (\<forall>now ord a body. \<not> cr_Block (fst (StructuralHasher_CheckPayload now ord a body s))))"
proof -
  note inv = structural_reach_bound [OF assms(1)]
  have c: "c = StructuralConfig_defaults cfg" "sh_cfg s = c" using assms(2) inv by simp_all
  have "\<not> cr_Block (fst (StructuralHasher_CheckPayload now ord a body s))" if "sc_Window c < sc_Limit c"
    for now ord a body
  proof (cases "has_structure body")
    case True
    let ?st = "structural_open c now (gm_get (sh_seen s) a)"
    have "int (length (ss_sigs ?st)) \<le> sc_Window c"
      using inv structural_defaults(1) [of cfg]
      by (auto simp: structural_open_def structural_fresh_def c(1) simp del: map_of_eq_Some_iff split: option.splits)
    then have "\<not> sc_Limit c \<le> similar_count c (sketch body) (ss_sigs ?st)"
      using that similar_count_le [of c "sketch body" "ss_sigs ?st"] by linarith
    then show ?thesis using True by (simp add: CheckPayload_eq structural_step.simps Let_def c(2))
  qed (simp add: CheckPayload_skip)
  then show ?thesis using inv unfolding states_ok_def c(1) by blast
qed

theorem structural_bounds_witness:
  "\<not> cr_Block (fst (StructuralHasher_CheckPayload 1 in_order ''a'' ''[1,2]''
     (NewStructuralHasher (structural_config0\<lparr>sc_Window := 2\<rparr>))))"
  using structural_bounds [OF reach_start refl, of "structural_config0\<lparr>sc_Window := 2\<rparr>"]
  by (simp add: StructuralConfig_defaults_def structural_config0_def defaultStructuralLimit_def Let_def)

text \<open>
  Object keys are rewritten like values: a key that reads as an identifier, a timestamp or a long
  hexadecimal string is replaced by the placeholder, so objects with different such keys have the same
  form. (The comment of \<^verbatim>\<open>normalizePayload\<close> says that keys are kept verbatim.)
\<close>

theorem object_key_rewritten:
  assumes "str_ok k" and "classifyString k = Some tag"
  shows "normalizePayload (CHR ''{'' # quote # k @ quote # CHR '':'' # rest)
    = CHR ''{'' # tag # CHR '':'' # normalizePayload rest"
proof -
  have "normalizePayload (token_text (TPunct CHR ''{'') @ r) = CHR ''{'' # normalizePayload r"
    and "normalizePayload (token_text (TStr k) @ r) = tag # normalizePayload r"
    and "normalizePayload (token_text (TPunct CHR '':'') @ r) = CHR '':'' # normalizePayload r" for r
    using normalize_token [of "TPunct CHR ''{''" r] normalize_token [of "TStr k" r]
      normalize_token [of "TPunct CHR '':''" r] assms by simp_all
  then show ?thesis by (simp del: normalizePayload.simps)
qed

theorem object_key_rewritten_witness:
  "normalizePayload (CHR ''{'' # quote # ''12345678'' @ quote # CHR '':'' # ''1}'')
   = CHR ''{'' # CHR ''H'' # CHR '':'' # normalizePayload ''1}''"
proof -
  have "str_ok ''12345678''" and "classifyString ''12345678'' = Some (CHR ''H'')" by code_simp+
  then show ?thesis by (rule object_key_rewritten)
qed

end
