(* ===== verification/Go_JSON.thy ===== *)
theory Go_JSON
  imports Go_Prelude
begin

text \<open>
  What the program uses of package \<^verbatim>\<open>encoding/json\<close>: \<^verbatim>\<open>Unmarshal\<close>
  of a byte slice into structs. A text is cut into tokens, the tokens are read by a push-down machine
  with the states of the library's scanner (its nesting limit included), and the value is stored into
  a struct field by field: keys match a field name exactly or else up to case, \<^verbatim>\<open>null\<close>
  leaves strings and structs alone, a repeated key is stored onto what is there, and any mismatch of
  types is an error, which every caller of the program answers by discarding the result.

  Strings are byte strings. Escapes are resolved to UTF-8 and bytes that are not UTF-8 become the
  replacement character, as the library does.
\<close>

datatype json =
  JNull
| JBool bool
| JNum string
| JStr string
| JArr "json list"
| JObj "(string \<times> json) list"

section \<open>Characters and UTF-8\<close>

definition code :: "char \<Rightarrow> nat" where "code c = of_char c"

definition byte :: "nat \<Rightarrow> char" where "byte n = char_of n"

lemma code_byte: "n < 256 \<Longrightarrow> code (byte n) = n"
  by (simp add: code_def byte_def)

lemma byte_code: "byte (code c) = c"
  by (simp add: code_def byte_def)

lemma code_less: "code c < 256"
proof -
  have "of_char c mod 256 = (of_char c :: nat)" by simp
  then show ?thesis unfolding code_def by (metis mod_less_divisor zero_less_numeral)
qed

definition between :: "nat \<Rightarrow> nat \<Rightarrow> char \<Rightarrow> bool" where
  "between lo hi c \<longleftrightarrow> lo \<le> code c \<and> code c \<le> hi"

definition json_digit :: "char \<Rightarrow> bool" where "json_digit = between 0x30 0x39"

definition json_space :: "char \<Rightarrow> bool" where
  "json_space c \<longleftrightarrow> c = CHR '' '' \<or> c = CHR 0x09 \<or> c = CHR 0x0A \<or> c = CHR 0x0D"

text \<open>The value of a hexadecimal digit.\<close>

definition hex_value :: "char \<Rightarrow> nat option" where
  "hex_value c =
     (if between 0x30 0x39 c then Some (code c - 0x30)
      else if between 0x61 0x66 c then Some (code c - 0x61 + 10)
      else if between 0x41 0x46 c then Some (code c - 0x41 + 10)
      else None)"

fun hex4 :: "string \<Rightarrow> (nat \<times> string) option" where
  "hex4 (a # b # c # d # r) =
     (case (hex_value a, hex_value b, hex_value c, hex_value d) of
        (Some w, Some x, Some y, Some z) \<Rightarrow> Some (((w * 16 + x) * 16 + y) * 16 + z, r)
      | _ \<Rightarrow> None)"
| "hex4 _ = None"

definition utf8_encode :: "nat \<Rightarrow> string" where
  "utf8_encode n =
     (if n < 0x80 then [byte n]
      else if n < 0x800 then [byte (0xC0 + n div 64), byte (0x80 + n mod 64)]
      else if n < 0x10000 then [byte (0xE0 + n div 4096), byte (0x80 + n div 64 mod 64), byte (0x80 + n mod 64)]
      else [byte (0xF0 + n div 262144), byte (0x80 + n div 4096 mod 64), byte (0x80 + n div 64 mod 64),
            byte (0x80 + n mod 64)])"

definition replacement :: string where "replacement = utf8_encode 0xFFFD"

text \<open>The number of bytes of the multi-byte character a string starts with, 0 when it is not UTF-8.\<close>

definition utf8_size :: "string \<Rightarrow> nat" where
  "utf8_size s =
     (case s of
        a # b # r \<Rightarrow>
          if between 0xC2 0xDF a then (if between 0x80 0xBF b then 2 else 0)
          else if between 0xE0 0xEF a
          then (if between (if code a = 0xE0 then 0xA0 else 0x80) (if code a = 0xED then 0x9F else 0xBF) b
                then (case r of c # _ \<Rightarrow> if between 0x80 0xBF c then 3 else 0 | [] \<Rightarrow> 0) else 0)
          else if between 0xF0 0xF4 a
          then (if between (if code a = 0xF0 then 0x90 else 0x80) (if code a = 0xF4 then 0x8F else 0xBF) b
                then (case r of c # d # _ \<Rightarrow> if between 0x80 0xBF c \<and> between 0x80 0xBF d then 4 else 0 | _ \<Rightarrow> 0) else 0)
          else 0
      | _ \<Rightarrow> 0)"

section \<open>Tokens\<close>

datatype jtok = LBrace | RBrace | LBrack | RBrack | Colon | Comma | TkTrue | TkFalse | TkNull | TkNum string | TkStr string

text \<open>A \<^verbatim>\<open>\u\<close> escape, with the low half of a surrogate pair if one follows.\<close>

definition unicode_escape :: "string \<Rightarrow> (string \<times> string) option" where
  "unicode_escape s =
     (case hex4 s of
        None \<Rightarrow> None
      | Some (n, r) \<Rightarrow>
          if 0xD800 \<le> n \<and> n < 0xE000
          then (case r of
                  x # u # r' \<Rightarrow>
                    (case (if x = CHR 0x5C \<and> u = CHR ''u'' then hex4 r' else None) of
                       Some (m, r'') \<Rightarrow>
                         if n < 0xDC00 \<and> 0xDC00 \<le> m \<and> m < 0xE000
                         then Some (utf8_encode ((n - 0xD800) * 1024 + (m - 0xDC00) + 0x10000), r'')
                         else Some (replacement, r)
                     | None \<Rightarrow> Some (replacement, r))
                | _ \<Rightarrow> Some (replacement, r))
          else Some (utf8_encode n, r))"

definition simple_escape :: "char \<Rightarrow> char option" where
  "simple_escape c =
     (if c = CHR 0x22 \<or> c = CHR 0x5C \<or> c = CHR ''/'' then Some c
      else if c = CHR ''b'' then Some (CHR 0x08)
      else if c = CHR ''f'' then Some (CHR 0x0C)
      else if c = CHR ''n'' then Some (CHR 0x0A)
      else if c = CHR ''r'' then Some (CHR 0x0D)
      else if c = CHR ''t'' then Some (CHR 0x09)
      else None)"

lemma hex4_length: "hex4 s = Some (n, r) \<Longrightarrow> length r < length s"
  by (cases s rule: hex4.cases) (auto split: option.splits)

lemma unicode_escape_length: "unicode_escape s = Some (b, r) \<Longrightarrow> length r < length s"
  by (auto simp: unicode_escape_def dest!: hex4_length split: option.splits if_splits list.splits)

text \<open>One character of a string (not the closing quote): the bytes it stands for, and the rest.\<close>

definition string_char :: "char \<Rightarrow> string \<Rightarrow> (string \<times> string) option" where
  "string_char c s =
     (if c = CHR 0x5C
      then (case s of
              [] \<Rightarrow> None
            | d # r \<Rightarrow> if d = CHR ''u'' then unicode_escape r else map_option (\<lambda>e. ([e], r)) (simple_escape d))
      else if code c < 0x20 then None
      else if code c < 0x80 then Some ([c], s)
      else let n = utf8_size (c # s)
           in if n = 0 then Some (replacement, s) else Some (take n (c # s), drop n (c # s)))"

lemma string_char_length: "string_char c s = Some (b, r) \<Longrightarrow> length r < Suc (length s)"
  by (auto simp: string_char_def Let_def dest!: unicode_escape_length split: if_splits list.splits)

text \<open>A string behind its opening quote: the bytes it stands for, and the rest behind the closing quote.\<close>

function json_string :: "string \<Rightarrow> (string \<times> string) option" where
  "json_string [] = None"
| "json_string (c # s) =
     (if c = CHR 0x22 then Some ([], s)
      else case string_char c s of
             None \<Rightarrow> None
           | Some (b, r) \<Rightarrow> map_option (\<lambda>(t, q). (b @ t, q)) (json_string r))"
  by pat_completeness auto
termination
  by (relation "measure length") (auto dest: string_char_length)

lemma json_string_length: "json_string s = Some (b, r) \<Longrightarrow> length r < length s"
proof (induction s arbitrary: b r rule: json_string.induct)
  case (2 c s)
  show ?case
  proof (cases "c = CHR 0x22")
    case True
    then show ?thesis using 2(2) by simp
  next
    case False
    then obtain b1 r1 where sc: "string_char c s = Some (b1, r1)"
      using 2(2) by (cases "string_char c s") auto
    with False 2(2) obtain t where "json_string r1 = Some (t, r)" by auto
    from 2(1) [OF False sc refl this] string_char_length [OF sc] show ?thesis by simp
  qed
qed simp

text \<open>The parts of a number.\<close>

definition num_int :: "string \<Rightarrow> (string \<times> string) option" where
  "num_int s =
     (case s of
        [] \<Rightarrow> None
      | c # r \<Rightarrow> if c = CHR ''0'' then Some ([c], r)
                 else if json_digit c then Some (takeWhile json_digit s, dropWhile json_digit s)
                 else None)"

definition num_digits :: "string \<Rightarrow> (string \<times> string) option" where
  "num_digits s = (if takeWhile json_digit s = [] then None else Some (takeWhile json_digit s, dropWhile json_digit s))"

definition num_frac :: "string \<Rightarrow> (string \<times> string) option" where
  "num_frac s =
     (case s of
        c # r \<Rightarrow> if c = CHR ''.'' then map_option (\<lambda>(d, q). (c # d, q)) (num_digits r) else Some ([], s)
      | [] \<Rightarrow> Some ([], []))"

definition num_exp :: "string \<Rightarrow> (string \<times> string) option" where
  "num_exp s =
     (case s of
        c # r \<Rightarrow>
          if c = CHR ''e'' \<or> c = CHR ''E''
          then (case r of
                  d # r' \<Rightarrow> if d = CHR ''+'' \<or> d = CHR ''-'' then map_option (\<lambda>(t, q). (c # d # t, q)) (num_digits r')
                            else map_option (\<lambda>(t, q). (c # t, q)) (num_digits r)
                | [] \<Rightarrow> None)
          else Some ([], s)
      | [] \<Rightarrow> Some ([], []))"

definition json_number :: "string \<Rightarrow> (string \<times> string) option" where
  "json_number s =
     (let (sign, s0) = (case s of c # r \<Rightarrow> if c = CHR ''-'' then ([c], r) else ([], s) | [] \<Rightarrow> ([], []))
      in case num_int s0 of
           None \<Rightarrow> None
         | Some (i, s1) \<Rightarrow>
             (case num_frac s1 of
                None \<Rightarrow> None
              | Some (f, s2) \<Rightarrow> map_option (\<lambda>(e, s3). (sign @ i @ f @ e, s3)) (num_exp s2)))"

definition punct :: "char \<Rightarrow> jtok option" where
  "punct c =
     (if c = CHR ''{'' then Some LBrace else if c = CHR ''}'' then Some RBrace
      else if c = CHR ''['' then Some LBrack else if c = CHR '']'' then Some RBrack
      else if c = CHR '':'' then Some Colon else if c = CHR '','' then Some Comma else None)"

definition word_at :: "string \<Rightarrow> string \<Rightarrow> bool" where
  "word_at w s \<longleftrightarrow> take (length w) s = w"

text \<open>The token a text starts with and the rest behind it.\<close>

definition next_token :: "string \<Rightarrow> (jtok \<times> string) option" where
  "next_token s =
     (case s of
        [] \<Rightarrow> None
      | c # r \<Rightarrow>
          (case punct c of
             Some t \<Rightarrow> Some (t, r)
           | None \<Rightarrow>
               if c = CHR 0x22 then map_option (\<lambda>(b, q). (TkStr b, q)) (json_string r)
               else if word_at ''true'' s then Some (TkTrue, drop 4 s)
               else if word_at ''false'' s then Some (TkFalse, drop 5 s)
               else if word_at ''null'' s then Some (TkNull, drop 4 s)
               else map_option (\<lambda>(n, q). (TkNum n, q)) (json_number s)))"

lemma num_digits_length: "num_digits s = Some (d, r) \<Longrightarrow> length r < length s"
proof -
  assume "num_digits s = Some (d, r)"
  then have "takeWhile json_digit s \<noteq> []" "r = dropWhile json_digit s" by (auto simp: num_digits_def split: if_splits)
  then show ?thesis by (cases s) (auto simp: le_imp_less_Suc length_dropWhile_le split: if_splits)
qed

lemma num_int_length: "num_int s = Some (d, r) \<Longrightarrow> length r < length s"
  by (auto simp: num_int_def le_imp_less_Suc length_dropWhile_le split: list.splits if_splits)

lemma num_frac_length: "num_frac s = Some (d, r) \<Longrightarrow> length r \<le> length s"
  by (auto simp: num_frac_def dest: num_digits_length split: list.splits if_splits)

lemma num_exp_length: "num_exp s = Some (d, r) \<Longrightarrow> length r \<le> length s"
  by (auto simp: num_exp_def dest: num_digits_length split: list.splits if_splits)

lemma json_number_length: "json_number s = Some (n, r) \<Longrightarrow> length r < length s"
  by (auto simp: json_number_def Let_def split: option.splits list.splits if_splits
      dest!: num_int_length num_frac_length num_exp_length)

lemma next_token_length: "next_token s = Some (t, r) \<Longrightarrow> length r < length s"
  by (auto simp: next_token_def dest: json_string_length json_number_length
      split: list.splits option.splits if_splits)

function lex :: "string \<Rightarrow> jtok list option" where
  "lex [] = Some []"
| "lex (c # s) =
     (if json_space c then lex s
      else case next_token (c # s) of
             None \<Rightarrow> None
           | Some (t, r) \<Rightarrow> map_option ((#) t) (lex r))"
  by pat_completeness auto
termination
  by (relation "measure length") (auto dest: next_token_length)

section \<open>The push-down machine\<close>

text \<open>
  The open arrays and objects (an object with the key whose value is being read), innermost first, and
  what the machine expects. The scanner refuses a nesting deeper than 10000.
\<close>

datatype frame = FArr "json list" | FObj "(string \<times> json) list" string

datatype pmode =
  BeginValue
| BeginValueOrEmpty
| BeginString
| BeginStringOrEmpty
| WantColon
| EndValue json

definition maxNestingDepth :: nat where "maxNestingDepth = 10000"

fun scalar :: "jtok \<Rightarrow> json option" where
  "scalar TkTrue = Some (JBool True)"
| "scalar TkFalse = Some (JBool False)"
| "scalar TkNull = Some JNull"
| "scalar (TkNum n) = Some (JNum n)"
| "scalar (TkStr b) = Some (JStr b)"
| "scalar _ = None"

definition begin_value :: "jtok \<Rightarrow> frame list \<Rightarrow> (pmode \<times> frame list) option" where
  "begin_value t st =
     (if t = LBrack then (if length st < maxNestingDepth then Some (BeginValueOrEmpty, FArr [] # st) else None)
      else if t = LBrace then (if length st < maxNestingDepth then Some (BeginStringOrEmpty, FObj [] [] # st) else None)
      else map_option (\<lambda>v. (EndValue v, st)) (scalar t))"

fun set_key :: "string \<Rightarrow> frame list \<Rightarrow> frame list" where
  "set_key k (FObj ms _ # st) = FObj ms k # st"
| "set_key k st = st"

definition begin_string :: "jtok \<Rightarrow> frame list \<Rightarrow> (pmode \<times> frame list) option" where
  "begin_string t st = (case t of TkStr k \<Rightarrow> Some (WantColon, set_key k st) | _ \<Rightarrow> None)"

fun parse_step :: "jtok \<Rightarrow> pmode \<Rightarrow> frame list \<Rightarrow> (pmode \<times> frame list) option" where
  "parse_step t BeginValue st = begin_value t st"
| "parse_step t BeginValueOrEmpty st = (if t = RBrack then Some (EndValue (JArr []), tl st) else begin_value t st)"
| "parse_step t BeginString st = begin_string t st"
| "parse_step t BeginStringOrEmpty st = (if t = RBrace then Some (EndValue (JObj []), tl st) else begin_string t st)"
| "parse_step t WantColon st = (if t = Colon then Some (BeginValue, st) else None)"
| "parse_step t (EndValue v) [] = None"
| "parse_step t (EndValue v) (FArr vs # st) =
     (if t = Comma then Some (BeginValue, FArr (vs @ [v]) # st)
      else if t = RBrack then Some (EndValue (JArr (vs @ [v])), st) else None)"
| "parse_step t (EndValue v) (FObj ms k # st) =
     (if t = Comma then Some (BeginString, FObj (ms @ [(k, v)]) [] # st)
      else if t = RBrace then Some (EndValue (JObj (ms @ [(k, v)])), st) else None)"

fun parse_run :: "jtok list \<Rightarrow> pmode \<Rightarrow> frame list \<Rightarrow> json option" where
  "parse_run [] m st = (case (m, st) of (EndValue v, []) \<Rightarrow> Some v | _ \<Rightarrow> None)"
| "parse_run (t # ts) m st =
     (case parse_step t m st of None \<Rightarrow> None | Some (m', st') \<Rightarrow> parse_run ts m' st')"

text \<open>\<open>None\<close> is a syntax error.\<close>

definition json_parse :: "string \<Rightarrow> json option" where
  "json_parse s = (case lex s of None \<Rightarrow> None | Some ts \<Rightarrow> parse_run ts BeginValue [])"

section \<open>Storing a value\<close>

text \<open>
  Names match up to case; two letters outside ASCII fold to an ASCII letter, the long s and the Kelvin
  sign.
\<close>

definition upper :: "char \<Rightarrow> char" where
  "upper c = (if between 0x61 0x7A c then byte (code c - 0x20) else c)"

fun fold_name :: "string \<Rightarrow> string" where
  "fold_name (a # b # c # s) =
     (if a = CHR 0xC5 \<and> b = CHR 0xBF then CHR ''S'' # fold_name (c # s)
      else if a = CHR 0xE2 \<and> b = CHR 0x84 \<and> c = CHR 0xAA then CHR ''K'' # fold_name s
      else upper a # fold_name (b # c # s))"
| "fold_name [a, b] = (if a = CHR 0xC5 \<and> b = CHR 0xBF then [CHR ''S''] else [upper a, upper b])"
| "fold_name [a] = [upper a]"
| "fold_name [] = []"

text \<open>How the value of a field is stored onto what is there; \<open>None\<close> is a type error.\<close>

type_synonym 'a store = "json \<Rightarrow> 'a \<Rightarrow> 'a option"

fun store_string :: "string store" where
  "store_string (JStr b) old = Some b"
| "store_string JNull old = Some old"
| "store_string _ old = None"

definition find_field :: "(string \<times> 'a store) list \<Rightarrow> string \<Rightarrow> 'a store option" where
  "find_field fs k =
     (case map_of fs k of
        Some f \<Rightarrow> Some f
      | None \<Rightarrow> map_of (map (\<lambda>(n, f). (fold_name n, f)) fs) (fold_name k))"

fun store_members :: "(string \<times> 'a store) list \<Rightarrow> (string \<times> json) list \<Rightarrow> 'a \<Rightarrow> 'a option" where
  "store_members fs [] old = Some old"
| "store_members fs ((k, v) # ms) old =
     (case (case find_field fs k of None \<Rightarrow> Some old | Some f \<Rightarrow> f v old) of
        None \<Rightarrow> None
      | Some new \<Rightarrow> store_members fs ms new)"

fun store_struct :: "(string \<times> 'a store) list \<Rightarrow> 'a store" where
  "store_struct fs (JObj ms) old = store_members fs ms old"
| "store_struct fs JNull old = Some old"
| "store_struct fs _ old = None"

text \<open>
  A slice with the elements its backing array still holds behind its length: an array is stored onto
  them, element by element.
\<close>

type_synonym 'a slice = "'a list \<times> 'a list"

fun store_elems :: "'a \<Rightarrow> 'a store \<Rightarrow> json list \<Rightarrow> 'a list \<Rightarrow> ('a list \<times> 'a list) option" where
  "store_elems zero f [] back = Some ([], back)"
| "store_elems zero f (v # vs) back =
     (case f v (case back of [] \<Rightarrow> zero | x # _ \<Rightarrow> x) of
        None \<Rightarrow> None
      | Some y \<Rightarrow> map_option (\<lambda>(ys, rest). (y # ys, rest)) (store_elems zero f vs (tl back)))"

fun store_slice :: "'a \<Rightarrow> 'a store \<Rightarrow> 'a slice store" where
  "store_slice zero f (JArr vs) (xs, stale) = (if vs = [] then Some ([], []) else store_elems zero f vs (xs @ stale))"
| "store_slice zero f JNull old = Some ([], [])"
| "store_slice zero f _ old = None"

text \<open>
  A number onto an \<^verbatim>\<open>int64\<close> field: its literal has to be an integer in range.
  A pointer to a struct is allocated when it is nil, and null makes it nil.
\<close>

fun digits_value :: "string \<Rightarrow> int \<Rightarrow> int option" where
  "digits_value [] n = Some n"
| "digits_value (c # cs) n = (if json_digit c then digits_value cs (n * 10 + int (code c - 0x30)) else None)"

definition parse_int64 :: "string \<Rightarrow> int option" where
  "parse_int64 s =
     (case (case s of [] \<Rightarrow> None
            | c # cs \<Rightarrow> if c = CHR ''-'' then map_option uminus (digits_value cs 0) else digits_value s 0) of
        None \<Rightarrow> None
      | Some n \<Rightarrow> if is_int64 n then Some n else None)"

fun store_int64 :: "int store" where
  "store_int64 (JNum s) old = parse_int64 s"
| "store_int64 JNull old = Some old"
| "store_int64 _ old = None"

fun store_ptr :: "'a \<Rightarrow> 'a store \<Rightarrow> 'a option store" where
  "store_ptr zero f JNull old = Some None"
| "store_ptr zero f v old = map_option Some (f v (case old of None \<Rightarrow> zero | Some x \<Rightarrow> x))"

definition unmarshal :: "'a store \<Rightarrow> 'a \<Rightarrow> string \<Rightarrow> 'a option" where
  "unmarshal f zero s = (case json_parse s of None \<Rightarrow> None | Some v \<Rightarrow> f v zero)"

section \<open>Storing what was encoded\<close>

text \<open>A key that matches no field, not even up to case, is skipped.\<close>

definition unknown_key :: "string list \<Rightarrow> string \<Rightarrow> bool" where
  "unknown_key names k \<longleftrightarrow> k \<notin> set names \<and> fold_name k \<notin> fold_name ` set names"

lemma find_field_unknown: "unknown_key (map fst fs) k \<Longrightarrow> find_field fs k = None"
  by (auto simp: unknown_key_def find_field_def map_of_eq_None_iff image_image case_prod_beta split: option.splits)

lemma store_members_skip:
  assumes "list_all (\<lambda>m. unknown_key (map fst fs) (fst m)) ex"
  shows "store_members fs (ex @ ms) old = store_members fs ms old"
  using assms by (induction ex) (auto simp: find_field_unknown)

lemma store_elems_map:
  assumes "\<And>x. x \<in> set xs \<Longrightarrow> f (g x) zero = Some (h x)"
  shows "store_elems zero f (map g xs) [] = Some (map h xs, [])"
  using assms by (induction xs) auto

lemma store_slice_map:
  assumes "\<And>x. x \<in> set xs \<Longrightarrow> f (g x) zero = Some (h x)"
  shows "store_slice zero f (JArr (map g xs)) ([], []) = Some (map h xs, [])"
  using store_elems_map [of xs f g zero h] assms by (cases xs) simp_all

lemma find_field_exact: "map_of fs k = Some f \<Longrightarrow> find_field fs k = Some f"
  by (simp add: find_field_def)

text \<open>Examples of texts are written with backquotes for their quotes.\<close>

definition quoted :: "string \<Rightarrow> string" where
  "quoted s = map (\<lambda>c. if c = CHR 0x60 then CHR 0x22 else c) s"

end
