(* ===== verification/Tool_Matcher.thy ===== *)
theory Tool_Matcher
  imports Structural_Hasher Go_JSON
begin

text \<open>
  The tool-cycle detector (\<^verbatim>\<open>pkg/circuitbreaker/tool_matcher.go\<close>): the tool names a
  body references, the bounded sequence of names per agent, the search for a repeated period at its
  tail and the count of consecutive confirmations. (\<^verbatim>\<open>ceilSeconds\<close> is shared with
  \<^verbatim>\<open>structural_hasher.go\<close>.)
\<close>

section \<open>Definitions\<close>

subsection \<open>The names in a body\<close>

record function_ref =
  fr_Name :: string

record tool_call =
  tc_Function :: function_ref

record message =
  ms_ToolCalls :: "tool_call slice"

record tool_def =
  td_Name :: string
  td_Function :: function_ref

record toolCallEnvelope =
  ev_Messages :: "message slice"
  ev_Functions :: "function_ref slice"
  ev_Tools :: "tool_def slice"

definition store_function :: "function_ref store" where
  "store_function = store_struct
     [(''name'', \<lambda>v r. map_option (\<lambda>s. r\<lparr>fr_Name := s\<rparr>) (store_string v (fr_Name r)))]"

definition store_tool_call :: "tool_call store" where
  "store_tool_call = store_struct
     [(''function'', \<lambda>v r. map_option (\<lambda>f. r\<lparr>tc_Function := f\<rparr>) (store_function v (tc_Function r)))]"

definition store_message :: "message store" where
  "store_message = store_struct
     [(''tool_calls'', \<lambda>v r. map_option (\<lambda>cs. r\<lparr>ms_ToolCalls := cs\<rparr>)
         (store_slice \<lparr>tc_Function = \<lparr>fr_Name = []\<rparr>\<rparr> store_tool_call v (ms_ToolCalls r)))]"

definition store_tool :: "tool_def store" where
  "store_tool = store_struct
     [(''name'', \<lambda>v r. map_option (\<lambda>s. r\<lparr>td_Name := s\<rparr>) (store_string v (td_Name r))),
      (''function'', \<lambda>v r. map_option (\<lambda>f. r\<lparr>td_Function := f\<rparr>) (store_function v (td_Function r)))]"

definition store_envelope :: "toolCallEnvelope store" where
  "store_envelope = store_struct
     [(''messages'', \<lambda>v r. map_option (\<lambda>m. r\<lparr>ev_Messages := m\<rparr>)
         (store_slice \<lparr>ms_ToolCalls = ([], [])\<rparr> store_message v (ev_Messages r))),
      (''functions'', \<lambda>v r. map_option (\<lambda>f. r\<lparr>ev_Functions := f\<rparr>)
         (store_slice \<lparr>fr_Name = []\<rparr> store_function v (ev_Functions r))),
      (''tools'', \<lambda>v r. map_option (\<lambda>t. r\<lparr>ev_Tools := t\<rparr>)
         (store_slice \<lparr>td_Name = [], td_Function = \<lparr>fr_Name = []\<rparr>\<rparr> store_tool v (ev_Tools r)))]"

definition toolCallEnvelope_zero :: toolCallEnvelope where
  "toolCallEnvelope_zero = \<lparr>ev_Messages = ([], []), ev_Functions = ([], []), ev_Tools = ([], [])\<rparr>"

text \<open>The three loops of \<^verbatim>\<open>extractToolNames\<close> over a decoded envelope.\<close>

definition envelope_names :: "toolCallEnvelope \<Rightarrow> string list" where
  "envelope_names env =
     (let out = [];
          out = fold (\<lambda>m out. fold (\<lambda>c out. if fr_Name (tc_Function c) \<noteq> '''' then out @ [fr_Name (tc_Function c)] else out)
                                (fst (ms_ToolCalls m)) out) (fst (ev_Messages env)) out;
          out = fold (\<lambda>f out. if fr_Name f \<noteq> '''' then out @ [fr_Name f] else out) (fst (ev_Functions env)) out
      in fold (\<lambda>t out. let name = fr_Name (td_Function t);
                            name = (if name = '''' then td_Name t else name)
                        in if name \<noteq> '''' then out @ [name] else out) (fst (ev_Tools env)) out)"

definition extractToolNames :: "string \<Rightarrow> string list" where
  "extractToolNames body =
     (case unmarshal store_envelope toolCallEnvelope_zero body of
        None \<Rightarrow> []
      | Some env \<Rightarrow> envelope_names env)"

subsection \<open>Cycles\<close>

fun equalStrings_loop :: "string list \<Rightarrow> string list \<Rightarrow> bool" where
  "equalStrings_loop (x # xs) (y # ys) = (if x \<noteq> y then False else equalStrings_loop xs ys)"
| "equalStrings_loop _ _ = True"

definition equalStrings :: "string list \<Rightarrow> string list \<Rightarrow> bool" where
  "equalStrings a b = (if length a \<noteq> length b then False else equalStrings_loop a b)"

text \<open>The slice \<^verbatim>\<open>seq[i:j]\<close>.\<close>

definition slice_of :: "'a list \<Rightarrow> nat \<Rightarrow> nat \<Rightarrow> 'a list" where
  "slice_of xs i j = take (j - i) (drop i xs)"

function detectCycle_loop :: "string list \<Rightarrow> int \<Rightarrow> nat \<Rightarrow> (nat \<times> bool)" where
  "detectCycle_loop seq maxPeriod p =
     (if int p \<le> maxPeriod \<and> 2 * p \<le> length seq
      then if equalStrings (slice_of seq (length seq - 2 * p) (length seq - p)) (slice_of seq (length seq - p) (length seq))
           then (p, True)
           else detectCycle_loop seq maxPeriod (p + 1)
      else (0, False))"
  by pat_completeness auto
termination by (relation "measure (\<lambda>(seq, maxPeriod, p). length seq + 1 - p)") auto

declare detectCycle_loop.simps [simp del]

definition detectCycle :: "string list \<Rightarrow> int \<Rightarrow> (nat \<times> bool)" where
  "detectCycle seq maxPeriod = detectCycle_loop seq maxPeriod 2"

subsection \<open>The detector\<close>

record ToolConfig =
  tl_MaxSeq :: int
  tl_MaxPeriod :: int
  tl_Limit :: int
  tl_TTL :: duration
  tl_MaxEntries :: int

record toolState =
  ts_seq :: "string list"
  ts_period :: nat
  ts_confirms :: int
  ts_expires :: time
  ts_blockedAt :: time

record ToolMatcher =
  tm_cfg :: ToolConfig
  tm_states :: "(AgentID, toolState) gomap"

definition defaultToolMaxSeq :: int where "defaultToolMaxSeq = 64"
definition defaultToolMaxPeriod :: int where "defaultToolMaxPeriod = 8"
definition defaultToolLimit :: int where "defaultToolLimit = 2"
definition defaultToolTTL :: duration where "defaultToolTTL = 10 * Minute"
definition defaultToolMaxEntries :: int where "defaultToolMaxEntries = 10000"

definition ToolConfig_defaults :: "ToolConfig \<Rightarrow> ToolConfig" where
  "ToolConfig_defaults cfg =
     (let cfg = (if tl_MaxSeq cfg \<le> 0 then cfg\<lparr>tl_MaxSeq := defaultToolMaxSeq\<rparr> else cfg);
          cfg = (if tl_MaxPeriod cfg < 2 then cfg\<lparr>tl_MaxPeriod := defaultToolMaxPeriod\<rparr> else cfg);
          cfg = (if tl_Limit cfg \<le> 0 then cfg\<lparr>tl_Limit := defaultToolLimit\<rparr> else cfg);
          cfg = (if tl_TTL cfg \<le> 0 then cfg\<lparr>tl_TTL := defaultToolTTL\<rparr> else cfg)
      in (if tl_MaxEntries cfg \<le> 0 then cfg\<lparr>tl_MaxEntries := defaultToolMaxEntries\<rparr> else cfg))"

definition NewToolMatcher :: "ToolConfig \<Rightarrow> ToolMatcher" where
  "NewToolMatcher cfg = \<lparr>tm_cfg = ToolConfig_defaults cfg, tm_states = []\<rparr>"

definition toolState_reset :: "time \<Rightarrow> toolState \<Rightarrow> toolState" where
  "toolState_reset expires st =
     st\<lparr>ts_seq := [], ts_period := 0, ts_confirms := 0, ts_expires := expires, ts_blockedAt := 0\<rparr>"

definition toolState_push :: "string list \<Rightarrow> int \<Rightarrow> toolState \<Rightarrow> toolState" where
  "toolState_push names cap st =
     (let seq = ts_seq st @ names
      in st\<lparr>ts_seq := (if int (length seq) > cap then drop (nat (int (length seq) - cap)) seq else seq)\<rparr>)"

definition ToolMatcher_evictIfNeeded :: "AgentID range_order \<Rightarrow> ToolMatcher \<Rightarrow> ToolMatcher" where
  "ToolMatcher_evictIfNeeded ord m =
     m\<lparr>tm_states := evictOldest ts_expires ord (tl_MaxEntries (tm_cfg m)) (tm_states m)\<rparr>"

definition ToolMatcher_state ::
  "AgentID range_order \<Rightarrow> AgentID \<Rightarrow> time \<Rightarrow> ToolMatcher \<Rightarrow> toolState \<times> ToolMatcher" where
  "ToolMatcher_state ord agent now m =
     (case gm_get (tm_states m) agent of
        Some st \<Rightarrow> (st, m)
      | None \<Rightarrow>
          let m = ToolMatcher_evictIfNeeded ord m;
              st = \<lparr>ts_seq = [], ts_period = 0, ts_confirms = 0,
                    ts_expires = time_Add now (tl_TTL (tm_cfg m)), ts_blockedAt = 0\<rparr>
          in (st, m\<lparr>tm_states := gm_set (tm_states m) agent st\<rparr>))"

definition ToolMatcher_CheckPayload ::
  "time \<Rightarrow> AgentID range_order \<Rightarrow> AgentID \<Rightarrow> string \<Rightarrow> ToolMatcher \<Rightarrow> CheckResult \<times> ToolMatcher" where
  "ToolMatcher_CheckPayload now ord agent body m =
     (let names = extractToolNames body; cfg = tm_cfg m
      in if length names = 0 then (CheckResult_zero, m)
         else
           let (st, m) = ToolMatcher_state ord agent now m;
               st = (if \<not> now < ts_expires st then toolState_reset (time_Add now (tl_TTL cfg)) st else st);
               st = toolState_push names (tl_MaxSeq cfg) st;
               (p, ok) = detectCycle (ts_seq st) (tl_MaxPeriod cfg);
               st = (if ok
                     then (if p = ts_period st then st\<lparr>ts_confirms := wrap64 (ts_confirms st + 1)\<rparr>
                           else st\<lparr>ts_period := p, ts_confirms := 1\<rparr>)
                     else st\<lparr>ts_period := 0, ts_confirms := 0\<rparr>)
           in if ts_confirms st \<ge> tl_Limit cfg
              then let first = time_IsZero (ts_blockedAt st);
                       st = (if first then st\<lparr>ts_blockedAt := now\<rparr> else st)
                   in (\<lparr>cr_Block = True, cr_Reason = ReasonToolCycle,
                        cr_RetryAfter = ceilSeconds (time_Sub (ts_expires st) now), cr_FirstBlock = first\<rparr>,
                       m\<lparr>tm_states := gm_set (tm_states m) agent st\<rparr>)
              else (CheckResult_zero, m\<lparr>tm_states := gm_set (tm_states m) agent st\<rparr>))"

definition ToolMatcher_Reset :: "AgentID \<Rightarrow> ToolMatcher \<Rightarrow> int \<times> ToolMatcher" where
  "ToolMatcher_Reset agent m =
     (case gm_get (tm_states m) agent of
        Some _ \<Rightarrow> (1, m\<lparr>tm_states := gm_delete (tm_states m) agent\<rparr>)
      | None \<Rightarrow> (0, m))"

section \<open>The smallest repeated period\<close>

text \<open>The sequence ends with a block of length \<open>p\<close> and the same block again.\<close>

definition tail_square :: "nat \<Rightarrow> 'a list \<Rightarrow> bool" where
  "tail_square p xs \<longleftrightarrow> (\<exists>pre w. xs = pre @ w @ w \<and> length w = p)"

definition cycle_of :: "int \<Rightarrow> string list \<Rightarrow> nat option" where
  "cycle_of mp seq = (let (p, ok) = detectCycle seq mp in if ok then Some p else None)"

lemma equalStrings_iff: "equalStrings a b \<longleftrightarrow> a = b"
proof -
  have "length a = length b \<Longrightarrow> equalStrings_loop a b \<longleftrightarrow> a = b" for a b
    by (induction a b rule: list_induct2) auto
  then show ?thesis by (auto simp: equalStrings_def)
qed

lemma tail_square_iff:
  "tail_square p xs \<longleftrightarrow> 2 * p \<le> length xs \<and>
     slice_of xs (length xs - 2 * p) (length xs - p) = slice_of xs (length xs - p) (length xs)"
proof
  assume "tail_square p xs"
  then show "2 * p \<le> length xs \<and>
     slice_of xs (length xs - 2 * p) (length xs - p) = slice_of xs (length xs - p) (length xs)"
    by (auto simp: tail_square_def slice_of_def)
next
  assume a: "2 * p \<le> length xs \<and>
     slice_of xs (length xs - 2 * p) (length xs - p) = slice_of xs (length xs - p) (length xs)"
  let ?pre = "take (length xs - 2 * p) xs" and ?w = "drop (length xs - p) xs"
  have "length xs - p - (length xs - 2 * p) = p" using a by linarith
  with a have w: "take p (drop (length xs - 2 * p) xs) = ?w" by (simp only: slice_of_def) simp
  have "drop (length xs - 2 * p) xs = take p (drop (length xs - 2 * p) xs) @ drop p (drop (length xs - 2 * p) xs)"
    by (simp only: append_take_drop_id)
  moreover have "p + (length xs - 2 * p) = length xs - p" using a by linarith
  ultimately have "drop (length xs - 2 * p) xs = ?w @ ?w" by (simp only: w drop_drop)
  then have "xs = ?pre @ ?w @ ?w" by (metis append_take_drop_id)
  then show "tail_square p xs" using a unfolding tail_square_def by (intro exI [of _ ?pre] exI [of _ ?w]) simp
qed

lemma detectCycle_loop_spec:
  "detectCycle_loop seq mp p =
     (if \<exists>q. p \<le> q \<and> int q \<le> mp \<and> tail_square q seq
      then (LEAST q. p \<le> q \<and> int q \<le> mp \<and> tail_square q seq, True) else (0, False))"
proof (induction seq mp p rule: detectCycle_loop.induct)
  case (1 seq mp p)
  let ?C = "\<lambda>p q. p \<le> q \<and> int q \<le> mp \<and> tail_square q seq"
  show ?case
  proof (cases "int p \<le> mp \<and> 2 * p \<le> length seq")
    case False
    then have "\<not> ?C p q" for q using tail_square_iff [of q seq] by auto
    then have "\<not> (\<exists>q. p \<le> q \<and> int q \<le> mp \<and> tail_square q seq)" by blast
    then show ?thesis by (subst detectCycle_loop.simps) (simp only: False if_False)
  next
    case True
    show ?thesis
    proof (cases "tail_square p seq")
      case sq: True
      then have "(LEAST q. ?C p q) = p" using True by (intro Least_equality) auto
      then show ?thesis
        using True sq tail_square_iff [of p seq] by (subst detectCycle_loop.simps) (auto simp: equalStrings_iff)
    next
      case no: False
      then have shift: "?C p q \<longleftrightarrow> ?C (p + 1) q" for q by (cases "q = p") auto
      have "detectCycle_loop seq mp p = detectCycle_loop seq mp (p + 1)"
        using True no tail_square_iff [of p seq] by (subst detectCycle_loop.simps) (auto simp: equalStrings_iff)
      also have "\<dots> = (if \<exists>q. p + 1 \<le> q \<and> int q \<le> mp \<and> tail_square q seq then (LEAST q. ?C (p + 1) q, True) else (0, False))"
        using 1 [OF True] no True by (simp add: equalStrings_iff tail_square_iff)
      also have "\<dots> = (if \<exists>q. p \<le> q \<and> int q \<le> mp \<and> tail_square q seq then (LEAST q. ?C p q, True) else (0, False))"
        by (simp only: shift [symmetric])
      finally show ?thesis .
    qed
  qed
qed

lemma cycle_of_eq:
  "cycle_of mp seq =
     (if \<exists>q. 2 \<le> q \<and> int q \<le> mp \<and> tail_square q seq
      then Some (LEAST q. 2 \<le> q \<and> int q \<le> mp \<and> tail_square q seq) else None)"
  by (auto simp: cycle_of_def detectCycle_def detectCycle_loop_spec Let_def)

lemma cycle_of_Some:
  "cycle_of mp seq = Some p \<longleftrightarrow> 2 \<le> p \<and> int p \<le> mp \<and> tail_square p seq \<and> (\<forall>q. 2 \<le> q \<and> q < p \<longrightarrow> \<not> tail_square q seq)"
proof
  assume a: "cycle_of mp seq = Some p"
  let ?C = "\<lambda>q. 2 \<le> q \<and> int q \<le> mp \<and> tail_square q seq"
  from a have p: "p = (LEAST q. ?C q)" and ex: "\<exists>q. ?C q"
    by (auto simp: cycle_of_eq split: if_splits)
  have "?C p" unfolding p using ex by (rule LeastI_ex)
  moreover have "\<not> ?C q" if "q < p" for q using that unfolding p by (rule not_less_Least)
  ultimately show "2 \<le> p \<and> int p \<le> mp \<and> tail_square p seq \<and> (\<forall>q. 2 \<le> q \<and> q < p \<longrightarrow> \<not> tail_square q seq)"
    by (metis int_ops(1) less_imp_le of_nat_less_iff order_trans)
next
  assume a: "2 \<le> p \<and> int p \<le> mp \<and> tail_square p seq \<and> (\<forall>q. 2 \<le> q \<and> q < p \<longrightarrow> \<not> tail_square q seq)"
  then have "(LEAST q. 2 \<le> q \<and> int q \<le> mp \<and> tail_square q seq) = p"
    by (intro Least_equality) (auto simp: not_less [symmetric])
  then show "cycle_of mp seq = Some p" using a by (auto simp: cycle_of_eq)
qed

lemma tail_square_suffix: "2 * q \<le> length xs \<Longrightarrow> tail_square q (pre @ xs) \<longleftrightarrow> tail_square q xs"
  by (simp add: tail_square_iff slice_of_def)

text \<open>A sequence that ends with a block twice has the cycle of that square, whatever came before.\<close>

lemma cycle_of_square:
  assumes "2 \<le> length ns" and "int (length ns) \<le> mp"
  shows "\<exists>p. cycle_of mp (ns @ ns) = Some p" and "cycle_of mp (pre @ ns @ ns) = cycle_of mp (ns @ ns)"
proof -
  let ?n = "length ns"
  have sq: "tail_square ?n (ns @ ns)" unfolding tail_square_def by (intro exI [of _ "[]"] exI [of _ ns]) simp
  then show ex: "\<exists>p. cycle_of mp (ns @ ns) = Some p" using assms by (auto simp: cycle_of_eq)
  then obtain p where p: "cycle_of mp (ns @ ns) = Some p" by blast
  then have "p \<le> ?n" using sq assms by (metis cycle_of_Some linorder_not_less)
  moreover have "tail_square q (pre @ ns @ ns) \<longleftrightarrow> tail_square q (ns @ ns)" if "q \<le> ?n" for q
    using that by (intro tail_square_suffix) simp
  ultimately have "cycle_of mp (pre @ ns @ ns) = Some p"
    using p unfolding cycle_of_Some by (metis less_imp_le order_trans)
  with p show "cycle_of mp (pre @ ns @ ns) = cycle_of mp (ns @ ns)" by simp
qed

section \<open>One step of an agent's window\<close>

definition tool_fresh :: "ToolConfig \<Rightarrow> time \<Rightarrow> toolState" where
  "tool_fresh cfg now = \<lparr>ts_seq = [], ts_period = 0, ts_confirms = 0, ts_expires = now + tl_TTL cfg, ts_blockedAt = 0\<rparr>"

definition tool_open :: "ToolConfig \<Rightarrow> time \<Rightarrow> toolState option \<Rightarrow> toolState" where
  "tool_open cfg now ost =
     (case ost of None \<Rightarrow> tool_fresh cfg now
      | Some st \<Rightarrow> if now < ts_expires st then st else tool_fresh cfg now)"

definition tool_advance :: "ToolConfig \<Rightarrow> string list \<Rightarrow> toolState \<Rightarrow> toolState" where
  "tool_advance cfg names st =
     (let st = toolState_push names (tl_MaxSeq cfg) st
      in case cycle_of (tl_MaxPeriod cfg) (ts_seq st) of
           Some p \<Rightarrow> if p = ts_period st then st\<lparr>ts_confirms := wrap64 (ts_confirms st + 1)\<rparr>
                     else st\<lparr>ts_period := p, ts_confirms := 1\<rparr>
         | None \<Rightarrow> st\<lparr>ts_period := 0, ts_confirms := 0\<rparr>)"

fun tool_step ::
  "ToolConfig \<Rightarrow> payload_input \<Rightarrow> toolState option \<Rightarrow> CheckResult \<times> toolState option" where
  "tool_step cfg (now, ord, body) ost =
     (if extractToolNames body = [] then (CheckResult_zero, None)
      else
        let st = tool_advance cfg (extractToolNames body) (tool_open cfg now ost)
        in if tl_Limit cfg \<le> ts_confirms st
           then (\<lparr>cr_Block = True, cr_Reason = ReasonToolCycle,
                  cr_RetryAfter = ceilSeconds (time_Sub (ts_expires st) now),
                  cr_FirstBlock = (ts_blockedAt st = 0)\<rparr>,
                 Some (if ts_blockedAt st = 0 then st\<lparr>ts_blockedAt := now\<rparr> else st))
           else (CheckResult_zero, Some st))"

lemma ToolCheck_skip:
  "extractToolNames body = [] \<Longrightarrow> ToolMatcher_CheckPayload now ord a body m = (CheckResult_zero, m)"
  by (simp add: ToolMatcher_CheckPayload_def)

lemma ToolMatcher_state_open:
  "(let (st, m') = ToolMatcher_state ord a now m
    in (if \<not> now < ts_expires st then toolState_reset (time_Add now (tl_TTL (tm_cfg m))) st else st, m'))
   = (tool_open (tm_cfg m) now (gm_get (tm_states m) a), snd (ToolMatcher_state ord a now m))"
  by (cases "gm_get (tm_states m) a")
     (auto simp: ToolMatcher_state_def ToolMatcher_evictIfNeeded_def tool_open_def tool_fresh_def toolState_reset_def
       time_defs Let_def split: prod.splits)

lemma ToolMatcher_state_put:
  "(snd (ToolMatcher_state ord a now m))\<lparr>tm_states := gm_set (tm_states (snd (ToolMatcher_state ord a now m))) a st\<rparr>
   = m\<lparr>tm_states := agent_put ts_expires ord (tl_MaxEntries (tm_cfg m)) (tm_states m) a st\<rparr>"
  by (cases "gm_get (tm_states m) a")
     (simp_all add: ToolMatcher_state_def ToolMatcher_evictIfNeeded_def agent_put_def Let_def)

lemma ToolCheck_eq:
  assumes "extractToolNames body \<noteq> []"
  shows "ToolMatcher_CheckPayload now ord a body m =
     (fst (tool_step (tm_cfg m) (now, ord, body) (gm_get (tm_states m) a)),
      m\<lparr>tm_states := agent_put ts_expires ord (tl_MaxEntries (tm_cfg m)) (tm_states m) a
          (the (snd (tool_step (tm_cfg m) (now, ord, body) (gm_get (tm_states m) a))))\<rparr>)"
proof -
  obtain st0 m' where s: "ToolMatcher_state ord a now m = (st0, m')" by (cases "ToolMatcher_state ord a now m")
  have op: "(if \<not> now < ts_expires st0 then toolState_reset (time_Add now (tl_TTL (tm_cfg m))) st0 else st0)
      = tool_open (tm_cfg m) now (gm_get (tm_states m) a)"
    using ToolMatcher_state_open [where ord = ord and a = a and now = now and m = m] by (simp add: s)
  have put: "m'\<lparr>tm_states := gm_set (tm_states m') a st\<rparr>
      = m\<lparr>tm_states := agent_put ts_expires ord (tl_MaxEntries (tm_cfg m)) (tm_states m) a st\<rparr>" for st
    using ToolMatcher_state_put [where ord = ord and a = a and now = now and m = m and st = st] by (simp add: s)
  let ?st = "toolState_push (extractToolNames body) (tl_MaxSeq (tm_cfg m)) (tool_open (tm_cfg m) now (gm_get (tm_states m) a))"
  obtain p ok where dc: "detectCycle (ts_seq ?st) (tl_MaxPeriod (tm_cfg m)) = (p, ok)"
    by (cases "detectCycle (ts_seq ?st) (tl_MaxPeriod (tm_cfg m))")
  have adv: "(if ok then (if p = ts_period ?st then ?st\<lparr>ts_confirms := wrap64 (ts_confirms ?st + 1)\<rparr>
        else ?st\<lparr>ts_period := p, ts_confirms := 1\<rparr>) else ?st\<lparr>ts_period := 0, ts_confirms := 0\<rparr>)
      = tool_advance (tm_cfg m) (extractToolNames body) (tool_open (tm_cfg m) now (gm_get (tm_states m) a))"
    by (simp add: tool_advance_def cycle_of_def Let_def dc)
  show ?thesis
    using assms
    unfolding ToolMatcher_CheckPayload_def Let_def s prod.case op dc adv put
    by (simp add: Let_def time_IsZero_def)
qed

interpretation tools: agent_states
  "\<lambda>(now, ord, body) a. ToolMatcher_CheckPayload now ord a body" ToolMatcher_Reset
  tm_states tm_cfg ts_expires "\<lambda>(now, ord, body). ord" tl_MaxEntries tool_step
proof (unfold_locales, goal_cases)
  case (1 x a s)
  obtain now ord body where "x = (now, ord, body)" by (cases x)
  then show ?case by (cases "extractToolNames body = []") (simp_all add: ToolCheck_skip ToolCheck_eq)
next
  case (2 x a s)
  obtain now ord body where "x = (now, ord, body)" by (cases x)
  then show ?case by (cases "extractToolNames body = []") (simp_all add: ToolCheck_skip ToolCheck_eq)
next
  case (3 x a s)
  obtain now ord body where "x = (now, ord, body)" by (cases x)
  then show ?case by (cases "extractToolNames body = []") (simp_all add: ToolCheck_skip ToolCheck_eq Let_def)
qed (auto simp: ToolMatcher_Reset_def gm_delete_absent split: option.splits)

declare tool_step.simps [simp del]

section \<open>What a run of checks decides\<close>

text \<open>
  The history of an agent: the lists of names of its bodies that reference any, with their times. In a
  window of such lists, each request leaves the sequence of names with or without a repeated period at
  its tail. A request is blocked when the last \<^verbatim>\<open>Limit\<close> requests of the window, itself
  included, all left the same period.
\<close>

definition tool_history :: "payload_input list \<Rightarrow> (time \<times> string list) list" where
  "tool_history xs =
     map (\<lambda>(now, ord, body). (now, extractToolNames body)) (filter (\<lambda>(now, ord, body). extractToolNames body \<noteq> []) xs)"

definition retained :: "ToolConfig \<Rightarrow> string list list \<Rightarrow> string list" where
  "retained cfg nss = lastn (nat (tl_MaxSeq cfg)) (concat nss)"

definition periods :: "ToolConfig \<Rightarrow> string list list \<Rightarrow> nat option list" where
  "periods cfg nss = map (\<lambda>i. cycle_of (tl_MaxPeriod cfg) (retained cfg (take (Suc i) nss))) [0..<length nss]"

text \<open>How many of the last requests left the same period.\<close>

definition streak :: "nat option list \<Rightarrow> nat" where
  "streak ps = (if ps = [] \<or> last ps = None then 0 else length (takeWhile (\<lambda>q. q = last ps) (rev ps)))"

definition tool_spec :: "ToolConfig \<Rightarrow> (time \<times> string list) list \<Rightarrow> time \<Rightarrow> string list \<Rightarrow> CheckResult \<Rightarrow> bool" where
  "tool_spec cfg h now names r \<longleftrightarrow>
     (let (s, past) = fixed_past (tl_TTL cfg) now (fixed_window (tl_TTL cfg) h)
      in if tl_Limit cfg \<le> int (streak (periods cfg (past @ [names])))
         then cr_Block r \<and> cr_Reason r = ReasonToolCycle \<and>
              cr_RetryAfter r = ceilSeconds (time_Sub (s + tl_TTL cfg) now)
         else r = CheckResult_zero)"

lemma periods_snoc:
  "periods cfg (nss @ [ns]) = periods cfg nss @ [cycle_of (tl_MaxPeriod cfg) (retained cfg (nss @ [ns]))]"
  by (simp add: periods_def)

lemma periods_Nil [simp]: "periods cfg [] = []"
  by (simp add: periods_def)

lemma periods_empty_iff: "periods cfg nss = [] \<longleftrightarrow> nss = []"
  by (simp add: periods_def)

lemma length_periods [simp]: "length (periods cfg nss) = length nss"
  by (simp add: periods_def)

lemma streak_snoc:
  "streak (ps @ [q]) = (case q of None \<Rightarrow> 0 | Some p \<Rightarrow> if ps \<noteq> [] \<and> last ps = Some p then streak ps + 1 else 1)"
proof (cases ps rule: rev_cases)
  case (snoc ps' q')
  then show ?thesis by (auto simp: streak_def split: option.splits)
qed (auto simp: streak_def split: option.splits)

lemma streak_le: "streak ps \<le> length ps"
  using length_takeWhile_le [of "\<lambda>q. q = last ps" "rev ps"] by (simp add: streak_def)

text \<open>The period field: 0 when the last request left none.\<close>

definition period_field :: "nat option list \<Rightarrow> nat" where
  "period_field ps = (if ps = [] then 0 else case last ps of None \<Rightarrow> 0 | Some p \<Rightarrow> p)"

definition tool_state_ok :: "ToolConfig \<Rightarrow> time \<Rightarrow> string list list \<Rightarrow> toolState \<Rightarrow> bool" where
  "tool_state_ok cfg s nss st \<longleftrightarrow> ts_expires st = s + tl_TTL cfg \<and> ts_seq st = retained cfg nss \<and>
     ts_period st = period_field (periods cfg nss) \<and> ts_confirms st = int (streak (periods cfg nss))"

lemma toolState_push_eq: "0 \<le> cap \<Longrightarrow> toolState_push names cap st = st\<lparr>ts_seq := lastn (nat cap) (ts_seq st @ names)\<rparr>"
proof -
  assume "0 \<le> cap"
  then have "nat (int (length (ts_seq st @ names)) - cap) = length (ts_seq st @ names) - nat cap" by linarith
  then show ?thesis using \<open>0 \<le> cap\<close> by (simp add: toolState_push_def Let_def lastn_def)
qed

lemma tool_advance_ok:
  assumes "tool_state_ok cfg s nss st" and "0 < tl_MaxSeq cfg" and "int (length nss) < int64_max"
  shows "tool_state_ok cfg s (nss @ [ns]) (tool_advance cfg ns st)"
proof -
  let ?seq = "retained cfg (nss @ [ns])"
  let ?q = "cycle_of (tl_MaxPeriod cfg) ?seq"
  have seq: "lastn (nat (tl_MaxSeq cfg)) (ts_seq st @ ns) = ?seq"
    using assms(1) by (simp add: tool_state_ok_def retained_def lastn_push)
  have wrap: "wrap64 (int (streak (periods cfg nss)) + 1) = int (streak (periods cfg nss)) + 1"
    using assms(3) streak_le [of "periods cfg nss"] by (intro wrap64_id) (simp add: is_int64_def int64_bounds)
  have pos: "0 < p" if "?q = Some p" for p using that by (simp add: cycle_of_Some)
  show ?thesis
  proof (cases ?q)
    case None
    then show ?thesis
      using assms seq
      by (simp add: tool_advance_def toolState_push_eq tool_state_ok_def periods_snoc streak_snoc period_field_def Let_def)
  next
    case (Some p)
    have "ts_period st = p \<longleftrightarrow> periods cfg nss \<noteq> [] \<and> last (periods cfg nss) = Some p"
      using assms(1) pos [OF Some] by (auto simp: tool_state_ok_def period_field_def split: option.splits)
    then show ?thesis
      using assms seq Some wrap
      by (auto simp: tool_advance_def toolState_push_eq tool_state_ok_def periods_snoc streak_snoc period_field_def Let_def)
  qed
qed

definition tool_rel :: "ToolConfig \<Rightarrow> (time \<times> string list list) option \<Rightarrow> toolState option \<Rightarrow> bool" where
  "tool_rel cfg w ost \<longleftrightarrow>
     (case w of None \<Rightarrow> ost = None | Some (s, nss) \<Rightarrow> \<exists>st. ost = Some st \<and> tool_state_ok cfg s nss st)"

lemma tool_rel_open:
  assumes "tool_rel cfg w ost" and "(s, past) = fixed_past (tl_TTL cfg) now w"
  shows "tool_state_ok cfg s past (tool_open cfg now ost)"
  using assms
  by (auto simp: tool_rel_def tool_open_def tool_fresh_def tool_state_ok_def fixed_past_def retained_def
      period_field_def streak_def split: option.splits prod.splits if_splits)

lemma fixed_past_length:
  assumes "(s, past) = fixed_past ttl now (fixed_window ttl h)"
  shows "length past \<le> length h"
proof -
  have "length xs \<le> length h" if "fixed_window ttl h = Some (s, xs)" for s xs
    using that
  proof (induction h arbitrary: s xs rule: rev_induct)
    case (snoc p h)
    obtain t x where p: "p = (t, x)" by (cases p)
    show ?case
      using snoc by (cases "fixed_window ttl h") (auto simp: p fixed_past_def split: if_splits)
  qed simp
  then show ?thesis using assms by (auto simp: fixed_past_def split: option.splits if_splits)
qed

lemma length_tool_history: "length (tool_history xs) \<le> length xs"
  by (simp add: tool_history_def)

lemma tool_fold:
  assumes "0 < tl_MaxSeq cfg" and "int (length xs) \<le> int64_max"
  shows "tool_rel cfg (fixed_window (tl_TTL cfg) (tool_history xs)) (fold_step (tool_step cfg) xs None)"
  using assms(2)
proof (induction xs rule: rev_induct)
  case Nil
  then show ?case by (simp add: tool_history_def tool_rel_def)
next
  case (snoc x xs)
  obtain now ord body where x: "x = (now, ord, body)" by (cases x)
  let ?w = "fixed_window (tl_TTL cfg) (tool_history xs)" and ?ns = "extractToolNames body"
  obtain s past where p: "(s, past) = fixed_past (tl_TTL cfg) now ?w" by (metis surj_pair)
  have IH: "tool_rel cfg ?w (fold_step (tool_step cfg) xs None)" using snoc by simp
  show ?case
  proof (cases "?ns = []")
    case True
    then show ?thesis using IH by (simp add: x fold_step_append tool_step.simps tool_history_def)
  next
    case False
    then have h: "tool_history (xs @ [x]) = tool_history xs @ [(now, ?ns)]" by (simp add: tool_history_def x)
    have "int (length past) < int64_max"
      using fixed_past_length [OF p] length_tool_history [of xs] snoc.prems by simp
    from tool_advance_ok [OF tool_rel_open [OF IH p] assms(1) this, of ?ns] show ?thesis
      using False unfolding h
      by (auto simp: x fold_step_append tool_step.simps tool_rel_def Let_def p [symmetric] tool_state_ok_def)
  qed
qed

lemma tool_step_spec:
  assumes "0 < tl_MaxSeq cfg" and "int (length xs) < int64_max" and "extractToolNames body \<noteq> []"
  shows "tool_spec cfg (tool_history xs) now (extractToolNames body)
           (fst (tool_step cfg (now, ord, body) (fold_step (tool_step cfg) xs None)))"
proof -
  let ?w = "fixed_window (tl_TTL cfg) (tool_history xs)"
  obtain s past where p: "(s, past) = fixed_past (tl_TTL cfg) now ?w" by (metis surj_pair)
  have "tool_rel cfg ?w (fold_step (tool_step cfg) xs None)" using assms(1,2) by (intro tool_fold) simp_all
  moreover have "int (length past) < int64_max"
    using fixed_past_length [OF p] length_tool_history [of xs] assms(2) by simp
  ultimately have "tool_state_ok cfg s (past @ [extractToolNames body])
      (tool_advance cfg (extractToolNames body) (tool_open cfg now (fold_step (tool_step cfg) xs None)))"
    using assms(1) tool_rel_open [OF _ p] by (intro tool_advance_ok)
  then show ?thesis
    using assms(3) by (auto simp: tool_spec_def tool_step.simps Let_def p [symmetric] tool_state_ok_def)
qed

abbreviation tool_run ::
  "(payload_input \<times> AgentID) list \<Rightarrow> ToolMatcher \<Rightarrow> CheckResult list \<times> ToolMatcher" where
  "tool_run \<equiv> run_checks (\<lambda>(now, ord, body) a. ToolMatcher_CheckPayload now ord a body)"

lemma NewToolMatcher_sel [simp]:
  "tm_states (NewToolMatcher cfg) = []" "tm_cfg (NewToolMatcher cfg) = ToolConfig_defaults cfg"
  by (simp_all add: NewToolMatcher_def)

lemma tool_defaults:
  "0 < tl_MaxSeq (ToolConfig_defaults cfg)" "2 \<le> tl_MaxPeriod (ToolConfig_defaults cfg)"
  "0 < tl_Limit (ToolConfig_defaults cfg)" "0 < tl_TTL (ToolConfig_defaults cfg)"
  "0 < tl_MaxEntries (ToolConfig_defaults cfg)"
  by (simp_all add: ToolConfig_defaults_def Let_def defaultToolMaxSeq_def defaultToolMaxPeriod_def
      defaultToolLimit_def defaultToolTTL_def defaultToolMaxEntries_def Minute_def Second_def)

lemma length_own: "length (own a rs) \<le> length rs"
  by (simp add: own_def)

lemma tool_run_spec:
  assumes "card (snd ` set rs) \<le> nat (tl_MaxEntries (ToolConfig_defaults cfg))" and "int (length rs) \<le> int64_max"
    and "rs = pre @ ((now, ord, body), a) # post" and "extractToolNames body \<noteq> []"
  shows "tool_spec (ToolConfig_defaults cfg) (tool_history (own a pre)) now (extractToolNames body)
           (fst (tool_run rs (NewToolMatcher cfg)) ! length pre)"
proof -
  have "int (length (own a pre)) < int64_max" using length_own [of a pre] assms(2,3) by simp
  from tool_step_spec [OF tool_defaults(1) this assms(4)] show ?thesis
    using tools.run_verdicts [of "NewToolMatcher cfg" rs pre "(now, ord, body)" a post] assms(1,3) by simp
qed

section \<open>The same names in every request\<close>

lemma retained_replicate:
  assumes "2 * length ns \<le> nat (tl_MaxSeq cfg)" and "2 \<le> k"
  shows "\<exists>pre. retained cfg (replicate k ns) = pre @ ns @ ns"
proof -
  obtain j where k: "k = j + 2" using assms(2) by (metis add.commute le_Suc_ex)
  have "concat (replicate k ns) = concat (replicate j ns) @ ns @ ns"
    unfolding k replicate_add by (simp add: numeral_2_eq_2)
  then have "retained cfg (replicate k ns) = lastn (nat (tl_MaxSeq cfg) - length (ns @ ns)) (concat (replicate j ns)) @ ns @ ns"
    using assms(1) unfolding retained_def by (simp add: lastn_append [of _ "concat (replicate j ns)"])
  then show ?thesis by blast
qed

lemma streak_replicate:
  assumes "2 \<le> length ns" and "int (length ns) \<le> tl_MaxPeriod cfg" and "2 * length ns \<le> nat (tl_MaxSeq cfg)"
  shows "k \<le> streak (periods cfg (replicate (Suc k) ns))"
proof (induction k)
  case (Suc k)
  let ?q = "\<lambda>k. cycle_of (tl_MaxPeriod cfg) (retained cfg (replicate (Suc k) ns))"
  obtain p where p: "cycle_of (tl_MaxPeriod cfg) (ns @ ns) = Some p"
    using cycle_of_square(1) [OF assms(1,2)] by blast
  have q: "?q j = Some p" if "1 \<le> j" for j
    using retained_replicate [OF assms(3), of "Suc j"] that cycle_of_square(2) [OF assms(1,2)] p by fastforce
  have snoc: "periods cfg (replicate (Suc (Suc j)) ns) = periods cfg (replicate (Suc j) ns) @ [?q (Suc j)]" for j
    using periods_snoc [of cfg "replicate (Suc j) ns" ns] by (simp add: replicate_append_same)
  show ?case
  proof (cases k)
    case 0
    then show ?thesis unfolding snoc using q [of "Suc k"] by (simp add: streak_snoc)
  next
    case (Suc j)
    have "last (periods cfg (replicate (Suc k) ns)) = Some p"
      unfolding Suc snoc using q [of "Suc j"] by simp
    moreover have "periods cfg (replicate (Suc k) ns) \<noteq> []" by (simp add: periods_empty_iff)
    ultimately have "streak (periods cfg (replicate (Suc k) ns) @ [Some p]) = streak (periods cfg (replicate (Suc k) ns)) + 1"
      by (simp add: streak_snoc)
    then show ?thesis unfolding snoc using q [of "Suc k"] Suc.IH by simp
  qed
qed simp

section \<open>Encoded envelopes\<close>

text \<open>
  A chat body: at the top level and in each message any other members first, then the calls of each
  message, the legacy functions and the tools with their two places for a name.
\<close>

definition call_json :: "string \<Rightarrow> json" where
  "call_json n = JObj [(''function'', JObj [(''name'', JStr n)])]"

definition message_json :: "(string \<times> json) list \<times> string list \<Rightarrow> json" where
  "message_json m = JObj (fst m @ [(''tool_calls'', JArr (map call_json (snd m)))])"

definition tool_json :: "string \<times> string \<Rightarrow> json" where
  "tool_json t = JObj [(''name'', JStr (fst t)), (''function'', JObj [(''name'', JStr (snd t))])]"

definition envelope_json ::
  "(string \<times> json) list \<Rightarrow> ((string \<times> json) list \<times> string list) list \<Rightarrow> string list \<Rightarrow> (string \<times> string) list \<Rightarrow> json" where
  "envelope_json extra ms fns ts = JObj (extra @
     [(''messages'', JArr (map message_json ms)),
      (''functions'', JArr (map (\<lambda>n. JObj [(''name'', JStr n)]) fns)),
      (''tools'', JArr (map tool_json ts))])"

lemma store_function_name: "store_function (JObj [(''name'', JStr n)]) r = Some (r\<lparr>fr_Name := n\<rparr>)"
  by (simp add: store_function_def find_field_exact)

lemma store_call: "store_tool_call (call_json n) r = Some (r\<lparr>tc_Function := (tc_Function r)\<lparr>fr_Name := n\<rparr>\<rparr>)"
  by (simp add: store_tool_call_def call_json_def find_field_exact store_function_name)

lemma store_tool_json:
  "store_tool (tool_json t) r = Some (r\<lparr>td_Name := fst t, td_Function := (td_Function r)\<lparr>fr_Name := snd t\<rparr>\<rparr>)"
  by (simp add: store_tool_def tool_json_def find_field_exact store_function_name)

lemma store_message_json:
  assumes "list_all (\<lambda>m. unknown_key [''tool_calls''] (fst m)) (fst m)"
  shows "store_message (message_json m) \<lparr>ms_ToolCalls = ([], [])\<rparr>
    = Some \<lparr>ms_ToolCalls = (map (\<lambda>n. \<lparr>tc_Function = \<lparr>fr_Name = n\<rparr>\<rparr>) (snd m), [])\<rparr>"
proof -
  have "store_slice \<lparr>tc_Function = \<lparr>fr_Name = []\<rparr>\<rparr> store_tool_call (JArr (map call_json (snd m))) ([], [])
      = Some (map (\<lambda>n. \<lparr>tc_Function = \<lparr>fr_Name = n\<rparr>\<rparr>) (snd m), [])"
    by (rule store_slice_map) (simp add: store_call)
  then show ?thesis
    using assms by (simp add: store_message_def message_json_def store_members_skip find_field_exact)
qed

lemma store_envelope_json:
  assumes "list_all (\<lambda>m. unknown_key [''messages'', ''functions'', ''tools''] (fst m)) extra"
    and "list_all (\<lambda>m. list_all (\<lambda>m. unknown_key [''tool_calls''] (fst m)) (fst m)) ms"
  shows "store_envelope (envelope_json extra ms fns ts) toolCallEnvelope_zero = Some
    \<lparr>ev_Messages = (map (\<lambda>m. \<lparr>ms_ToolCalls = (map (\<lambda>n. \<lparr>tc_Function = \<lparr>fr_Name = n\<rparr>\<rparr>) (snd m), [])\<rparr>) ms, []),
     ev_Functions = (map (\<lambda>n. \<lparr>fr_Name = n\<rparr>) fns, []),
     ev_Tools = (map (\<lambda>t. \<lparr>td_Name = fst t, td_Function = \<lparr>fr_Name = snd t\<rparr>\<rparr>) ts, [])\<rparr>"
proof -
  have "store_slice \<lparr>ms_ToolCalls = ([], [])\<rparr> store_message (JArr (map message_json ms)) ([], [])
      = Some (map (\<lambda>m. \<lparr>ms_ToolCalls = (map (\<lambda>n. \<lparr>tc_Function = \<lparr>fr_Name = n\<rparr>\<rparr>) (snd m), [])\<rparr>) ms, [])"
    using assms(2) by (intro store_slice_map store_message_json) (simp add: list_all_iff)
  moreover have "store_slice \<lparr>fr_Name = []\<rparr> store_function (JArr (map (\<lambda>n. JObj [(''name'', JStr n)]) fns)) ([], [])
      = Some (map (\<lambda>n. \<lparr>fr_Name = n\<rparr>) fns, [])"
    by (rule store_slice_map) (simp add: store_function_name)
  moreover have "store_slice \<lparr>td_Name = [], td_Function = \<lparr>fr_Name = []\<rparr>\<rparr> store_tool (JArr (map tool_json ts)) ([], [])
      = Some (map (\<lambda>t. \<lparr>td_Name = fst t, td_Function = \<lparr>fr_Name = snd t\<rparr>\<rparr>) ts, [])"
    by (rule store_slice_map) (simp add: store_tool_json)
  ultimately show ?thesis
    using assms(1)
    by (simp add: store_envelope_def envelope_json_def toolCallEnvelope_zero_def store_members_skip find_field_exact)
qed

text \<open>The names a body references: calls first, then functions, then tools, the empty ones left out.\<close>

definition referenced :: "string list list \<Rightarrow> string list \<Rightarrow> (string \<times> string) list \<Rightarrow> string list" where
  "referenced calls fns ts =
     filter (\<lambda>n. n \<noteq> '''') (concat calls @ fns @ map (\<lambda>(n, f). if f = '''' then n else f) ts)"

lemma fold_append_filter: "fold (\<lambda>x out. if P x then out @ [g x] else out) xs out = out @ map g (filter P xs)"
  by (induction xs arbitrary: out) auto

lemma envelope_names_json:
  "envelope_names
    \<lparr>ev_Messages = (map (\<lambda>m. \<lparr>ms_ToolCalls = (map (\<lambda>n. \<lparr>tc_Function = \<lparr>fr_Name = n\<rparr>\<rparr>) (snd m), [])\<rparr>) ms, []),
     ev_Functions = (map (\<lambda>n. \<lparr>fr_Name = n\<rparr>) fns, []),
     ev_Tools = (map (\<lambda>t. \<lparr>td_Name = fst t, td_Function = \<lparr>fr_Name = snd t\<rparr>\<rparr>) ts, [])\<rparr>
   = referenced (map snd ms) fns ts"
proof -
  have calls: "fold (\<lambda>m out. out @ map (\<lambda>c. fr_Name (tc_Function c)) (filter (\<lambda>c. fr_Name (tc_Function c) \<noteq> '''') (fst (ms_ToolCalls m))))
      (map (\<lambda>m. \<lparr>ms_ToolCalls = (map (\<lambda>n. \<lparr>tc_Function = \<lparr>fr_Name = n\<rparr>\<rparr>) (snd m), [])\<rparr>) ms) out
      = out @ filter (\<lambda>n. n \<noteq> '''') (concat (map snd ms))" for out
    by (induction ms arbitrary: out) (auto simp: fold_append_filter filter_map comp_def)
  have tools: "fold (\<lambda>t out. let name = fr_Name (td_Function t); name = (if name = '''' then td_Name t else name)
        in if name \<noteq> '''' then out @ [name] else out)
      (map (\<lambda>t. \<lparr>td_Name = fst t, td_Function = \<lparr>fr_Name = snd t\<rparr>\<rparr>) ts) out
      = out @ filter (\<lambda>n. n \<noteq> '''') (map (\<lambda>(n, f). if f = '''' then n else f) ts)" for out
    by (induction ts arbitrary: out) (auto simp: Let_def)
  show ?thesis
    by (simp add: envelope_names_def Let_def [of "[]"] Let_def [of "fold _ _ _"] calls tools fold_append_filter
        referenced_def filter_map comp_def)
qed

section \<open>Properties\<close>

text \<open>
  C13. The tool detector is exactly its specification: over any sequence of checks with no more agents
  than the map holds, a body that references tools is blocked if and only if the last
  \<^verbatim>\<open>Limit\<close> requests of the agent's current window all left the same repeated period
  at the tail of the retained names, and then with the time to the end of the window.
\<close>

theorem tool_run_refines_periods:
  assumes "card (snd ` set rs) \<le> nat (tl_MaxEntries (tm_cfg (NewToolMatcher cfg)))" and "int (length rs) \<le> int64_max"
    and "rs = pre @ ((now, ord, body), a) # post" and "extractToolNames body \<noteq> []"
  shows "tool_spec (tm_cfg (NewToolMatcher cfg)) (tool_history (own a pre)) now (extractToolNames body)
           (fst (tool_run rs (NewToolMatcher cfg)) ! length pre)"
  using tool_run_spec [of rs cfg] assms by simp

definition tool_config0 :: ToolConfig where
  "tool_config0 = \<lparr>tl_MaxSeq = 0, tl_MaxPeriod = 0, tl_Limit = 0, tl_TTL = 0, tl_MaxEntries = 0\<rparr>"

lemma tool_default_config:
  "tm_cfg (NewToolMatcher tool_config0) =
     \<lparr>tl_MaxSeq = 64, tl_MaxPeriod = 8, tl_Limit = 2, tl_TTL = 600000000000, tl_MaxEntries = 10000\<rparr>"
  by (simp add: ToolConfig_defaults_def tool_config0_def Let_def defaultToolMaxSeq_def defaultToolMaxPeriod_def
      defaultToolLimit_def defaultToolTTL_def defaultToolMaxEntries_def Minute_def Second_def)

text \<open>A body that declares two tools and calls none, written with backquotes for its quotes.\<close>

definition two_tools :: string where
  "two_tools = quoted ''{`tools`:[{`name`:`a`},{`name`:`b`}]}''"

lemma extract_two_tools: "extractToolNames two_tools = [''a'', ''b'']"
  by code_simp

theorem tool_run_refines_periods_witness:
  "tool_spec (tm_cfg (NewToolMatcher tool_config0)) [] 1 [''a'', ''b'']
     (fst (tool_run [((1, in_order, two_tools), ''x'')] (NewToolMatcher tool_config0)) ! 0)"
  using tool_run_refines_periods [of "[((1, in_order, two_tools), ''x'')]" tool_config0 "[]" 1 in_order two_tools "''x''" "[]"]
  by (simp add: tool_default_config tool_history_def extract_two_tools int64_bounds del: run_checks.simps NewToolMatcher_sel(2))

text \<open>
  The period that the detector reports is the smallest one of at least two and at most
  \<^verbatim>\<open>maxPeriod\<close> names for which the sequence ends with a block and the same block again;
  it reports none exactly when there is none.
\<close>

theorem detect_cycle_smallest:
  "detectCycle seq mp =
     (if \<exists>p\<ge>2. int p \<le> mp \<and> (\<exists>pre w. seq = pre @ w @ w \<and> length w = p)
      then (LEAST p. 2 \<le> p \<and> int p \<le> mp \<and> (\<exists>pre w. seq = pre @ w @ w \<and> length w = p), True)
      else (0, False))"
  unfolding tail_square_def [symmetric] detectCycle_def detectCycle_loop_spec by simp

text \<open>
  Extraction reads back what was encoded: from any text that parses to a chat body with the given
  tool calls, functions and tools, among any other members, it returns the names of the calls in order,
  then the functions, then the tools, the name inside \<^verbatim>\<open>function\<close> before the
  top-level one.
\<close>

theorem extract_envelope:
  assumes "json_parse body = Some (envelope_json extra ms fns ts)"
    and "list_all (\<lambda>m. unknown_key [''messages'', ''functions'', ''tools''] (fst m)) extra"
    and "list_all (\<lambda>m. list_all (\<lambda>m. unknown_key [''tool_calls''] (fst m)) (fst m)) ms"
  shows "extractToolNames body = referenced (map snd ms) fns ts"
  using assms(1) store_envelope_json [OF assms(2,3), of fns ts]
  by (simp add: extractToolNames_def unmarshal_def envelope_names_json)

theorem extract_envelope_witness:
  "extractToolNames (quoted ''{`m`:1,`messages`:[{`tool_calls`:[{`function`:{`name`:`f`}}]}],`functions`:[],`tools`:[]}'') = [''f'']"
proof -
  let ?ms = "[([], [''f''])] :: ((string \<times> json) list \<times> string list) list"
  have "json_parse (quoted ''{`m`:1,`messages`:[{`tool_calls`:[{`function`:{`name`:`f`}}]}],`functions`:[],`tools`:[]}'')
      = Some (envelope_json [(''m'', JNum ''1'')] ?ms [] [])" by code_simp
  moreover have "list_all (\<lambda>m. unknown_key [''messages'', ''functions'', ''tools''] (fst m)) [(''m'', JNum ''1'')]" by code_simp
  ultimately show ?thesis
    using extract_envelope [of "quoted ''{`m`:1,`messages`:[{`tool_calls`:[{`function`:{`name`:`f`}}]}],`functions`:[],`tools`:[]}''"
        "[(''m'', JNum ''1'')]" ?ms "[]" "[]"]
    by (simp add: referenced_def)
qed

lemma same_tools_block:
  assumes "c = ToolConfig_defaults cfg" and "card (snd ` set rs) \<le> nat (tl_MaxEntries c)"
    and "int (length rs) \<le> int64_max" and "rs = pre @ ((now, ord, body), a) # post"
    and "2 \<le> length (extractToolNames body)" and "int (length (extractToolNames body)) \<le> tl_MaxPeriod c"
    and "2 * int (length (extractToolNames body)) \<le> tl_MaxSeq c"
    and "own a pre \<noteq> []" and "tl_Limit c \<le> int (length (own a pre))"
    and "\<forall>(t, ord, b) \<in> set (own a pre). extractToolNames b = extractToolNames body \<and> t < fst (hd (own a pre)) + tl_TTL c"
    and "now < fst (hd (own a pre)) + tl_TTL c"
  shows "cr_Block (fst (tool_run rs (NewToolMatcher cfg)) ! length pre)"
proof -
  let ?xs = "own a pre" and ?ns = "extractToolNames body"
  let ?h = "tool_history ?xs"
  have ne: "?ns \<noteq> []" using assms(5) by auto
  have h: "?h = map (\<lambda>(t, ord, b). (t, ?ns)) ?xs"
  proof -
    have "filter (\<lambda>(now, ord, b). extractToolNames b \<noteq> []) ?xs = ?xs"
      using assms(10) ne by (auto simp: filter_id_conv)
    then show ?thesis using assms(10) by (auto simp: tool_history_def)
  qed
  then have hd: "fst (hd ?h) = fst (hd ?xs)" using assms(8) by (cases ?xs) (auto split: prod.splits)
  have "map snd ?h = replicate (length ?xs) ?ns"
    unfolding h by (simp add: comp_def case_prod_unfold map_replicate_const)
  moreover have "fixed_window (tl_TTL c) ?h = Some (fst (hd ?h), map snd ?h)"
    using assms(8,10) hd by (intro fixed_window_together) (auto simp: h split: prod.splits)
  ultimately have past: "fixed_past (tl_TTL c) now (fixed_window (tl_TTL c) ?h) = (fst (hd ?h), replicate (length ?xs) ?ns)"
    using assms(11) hd by (simp add: fixed_past_def)
  have "replicate (length ?xs) ?ns @ [?ns] = replicate (Suc (length ?xs)) ?ns" by (simp add: replicate_append_same)
  then have "length ?xs \<le> streak (periods c (replicate (length ?xs) ?ns @ [?ns]))"
    using assms(7) by (simp only: streak_replicate [OF assms(5,6)])
  moreover have "tool_spec c ?h now ?ns (fst (tool_run rs (NewToolMatcher cfg)) ! length pre)"
    using tool_run_spec [OF _ assms(3,4) ne, of cfg] assms(1,2) by simp
  ultimately show ?thesis using assms(9) unfolding tool_spec_def past by simp
qed

text \<open>
  C14. Requests that merely declare the same two to eight tools are blocked as a tool loop: with the
  default configuration, when an agent's earlier requests (two or extra, in one window) reference the
  same list of names as the one at hand, it is blocked, although no tool was called and whatever else
  the requests say. Every ordinary conversation whose requests repeat their tool definitions is cut off
  at its third request.
\<close>

theorem same_tools_blocked:
  assumes "tm_cfg (NewToolMatcher cfg) = tm_cfg (NewToolMatcher tool_config0)" and "card (snd ` set rs) \<le> 10000"
    and "int (length rs) \<le> int64_max" and "rs = pre @ ((now, ord, body), a) # post"
    and "2 \<le> length (extractToolNames body)" and "length (extractToolNames body) \<le> 8" and "2 \<le> length (own a pre)"
    and "\<forall>(t, ord, b) \<in> set (own a pre). extractToolNames b = extractToolNames body \<and> t < fst (hd (own a pre)) + 10 * Minute"
    and "now < fst (hd (own a pre)) + 10 * Minute"
  shows "cr_Block (fst (tool_run rs (NewToolMatcher cfg)) ! length pre)"
proof (rule same_tools_block [OF refl _ assms(3,4,5)])
  have c: "ToolConfig_defaults cfg = \<lparr>tl_MaxSeq = 64, tl_MaxPeriod = 8, tl_Limit = 2, tl_TTL = 600000000000, tl_MaxEntries = 10000\<rparr>"
    using assms(1) unfolding tool_default_config by simp
  have m: "10 * Minute = 600000000000" by (simp add: Minute_def Second_def)
  show "own a pre \<noteq> []" using assms(7) by auto
  show "\<forall>(t, ord, b) \<in> set (own a pre). extractToolNames b = extractToolNames body \<and>
      t < fst (hd (own a pre)) + tl_TTL (ToolConfig_defaults cfg)"
    using assms(8) by (simp add: c m)
qed (use assms in \<open>simp_all add: tool_default_config [simplified] Minute_def Second_def\<close>)

theorem same_tools_blocked_witness:
  "cr_Block (fst (tool_run [((1, in_order, two_tools), ''x''), ((2, in_order, two_tools), ''x''), ((3, in_order, two_tools), ''x'')]
      (NewToolMatcher tool_config0)) ! Suc (Suc 0))"
proof -
  let ?pre = "[((1, in_order, two_tools), ''x''), ((2, in_order, two_tools), ''x'')] :: (payload_input \<times> AgentID) list"
  let ?rs = "?pre @ ((3, in_order, two_tools), ''x'') # []"
  have "cr_Block (fst (tool_run ?rs (NewToolMatcher tool_config0)) ! length ?pre)"
    by (rule same_tools_blocked [OF refl _ _ refl])
       (simp_all add: extract_two_tools int64_bounds Minute_def Second_def)
  moreover have "length ?pre = Suc (Suc 0)" by simp
  ultimately show ?thesis by (simp only: append.simps)
qed

end
