(* ===== verification/Velocity_Breaker.thy ===== *)
theory Velocity_Breaker
  imports Detector Go_Float
begin

text \<open>
  The token-velocity detector (\<^verbatim>\<open>pkg/circuitbreaker/velocity_breaker.go\<close>): two
  sliding windows of token counts per agent with running sums, a hard cap on the tokens of the long
  window, and a spike test that compares the two rates in floating point. The two window rings are
  shown to be exactly the recent events of the agent, and the verdict a function of them.
\<close>

section \<open>Definitions\<close>

record VelocityConfig =
  vc_Window :: duration
  vc_ShortWindow :: duration
  vc_BurstTokens :: int
  vc_SpikeFactor :: float64
  vc_MaxEntries :: int

record tokenEvent =
  te_t :: time
  te_n :: int

record velocityState =
  vs_events :: "tokenEvent list"
  vs_sumLong :: int
  vs_short :: "tokenEvent list"
  vs_sumShort :: int
  vs_firstAt :: time
  vs_lastAt :: time
  vs_blockedAt :: time

definition velocityState_zero :: velocityState where
  "velocityState_zero = \<lparr>vs_events = [], vs_sumLong = 0, vs_short = [], vs_sumShort = 0,
     vs_firstAt = 0, vs_lastAt = 0, vs_blockedAt = 0\<rparr>"

record VelocityBreaker =
  vb_cfg :: VelocityConfig
  vb_states :: "(AgentID, velocityState) gomap"

definition defaultVelocityWindow :: duration where "defaultVelocityWindow = 30 * Second"
definition defaultVelocityShortWindow :: duration where "defaultVelocityShortWindow = 5 * Second"
definition defaultVelocityBurst :: int where "defaultVelocityBurst = 200000"
definition defaultVelocitySpike :: float64 where "defaultVelocitySpike = Fin 5"
definition defaultVelocityMaxEntries :: int where "defaultVelocityMaxEntries = 10000"
definition maxVelocityEvents :: nat where "maxVelocityEvents = 1024"

definition VelocityConfig_defaults :: "VelocityConfig \<Rightarrow> VelocityConfig" where
  "VelocityConfig_defaults cfg =
     (let cfg = (if vc_Window cfg \<le> 0 then cfg\<lparr>vc_Window := defaultVelocityWindow\<rparr> else cfg);
          cfg = (if vc_ShortWindow cfg \<le> 0 \<or> vc_ShortWindow cfg > vc_Window cfg
                 then cfg\<lparr>vc_ShortWindow := defaultVelocityShortWindow\<rparr> else cfg);
          cfg = (if vc_BurstTokens cfg \<le> 0 then cfg\<lparr>vc_BurstTokens := defaultVelocityBurst\<rparr> else cfg);
          cfg = (if f64_le (vc_SpikeFactor cfg) (Fin 0) then cfg\<lparr>vc_SpikeFactor := defaultVelocitySpike\<rparr> else cfg)
      in (if vc_MaxEntries cfg \<le> 0 then cfg\<lparr>vc_MaxEntries := defaultVelocityMaxEntries\<rparr> else cfg))"

definition NewVelocityBreaker :: "VelocityConfig \<Rightarrow> VelocityBreaker" where
  "NewVelocityBreaker cfg = \<lparr>vb_cfg = VelocityConfig_defaults cfg, vb_states = []\<rparr>"

text \<open>
  The loops of \<^verbatim>\<open>append\<close>: dropping the expired prefix, then the oldest events over
  the cap, each with the running sum kept in a 64-bit register.
\<close>

fun velocity_expire :: "time \<Rightarrow> tokenEvent list \<Rightarrow> int \<Rightarrow> tokenEvent list \<times> int" where
  "velocity_expire cutoff [] s = ([], s)"
| "velocity_expire cutoff (e # es) s =
     (if \<not> te_t e > cutoff then velocity_expire cutoff es (wrap64 (s - te_n e)) else (e # es, s))"

fun velocity_trim :: "tokenEvent list \<Rightarrow> int \<Rightarrow> tokenEvent list \<times> int" where
  "velocity_trim [] s = ([], s)"
| "velocity_trim (e # es) s =
     (if length (e # es) > maxVelocityEvents then velocity_trim es (wrap64 (s - te_n e)) else (e # es, s))"

definition velocityState_append ::
  "time \<Rightarrow> int \<Rightarrow> duration \<Rightarrow> duration \<Rightarrow> velocityState \<Rightarrow> velocityState" where
  "velocityState_append now tokens longWin shortWin st =
     (let st = (if time_IsZero (vs_firstAt st) then st\<lparr>vs_firstAt := now\<rparr> else st);
          st = st\<lparr>vs_lastAt := now\<rparr>;
          ev = \<lparr>te_t = now, te_n = tokens\<rparr>;
          events = vs_events st @ [ev];
          sumLong = wrap64 (vs_sumLong st + tokens);
          short = vs_short st @ [ev];
          sumShort = wrap64 (vs_sumShort st + tokens);
          (events, sumLong) = velocity_expire (time_Add now (- longWin)) events sumLong;
          (short, sumShort) = velocity_expire (time_Add now (- shortWin)) short sumShort;
          (events, sumLong) = velocity_trim events sumLong;
          (short, sumShort) = velocity_trim short sumShort
      in st\<lparr>vs_events := events, vs_sumLong := sumLong, vs_short := short, vs_sumShort := sumShort\<rparr>)"

definition VelocityBreaker_evictIfNeeded :: "AgentID range_order \<Rightarrow> VelocityBreaker \<Rightarrow> VelocityBreaker" where
  "VelocityBreaker_evictIfNeeded ord v =
     v\<lparr>vb_states := evictOldest vs_lastAt ord (vc_MaxEntries (vb_cfg v)) (vb_states v)\<rparr>"

definition VelocityBreaker_state ::
  "AgentID range_order \<Rightarrow> AgentID \<Rightarrow> VelocityBreaker \<Rightarrow> velocityState \<times> VelocityBreaker" where
  "VelocityBreaker_state ord agent v =
     (case gm_get (vb_states v) agent of
        Some st \<Rightarrow> (st, v)
      | None \<Rightarrow>
          let v = VelocityBreaker_evictIfNeeded ord v; st = velocityState_zero
          in (st, v\<lparr>vb_states := gm_set (vb_states v) agent st\<rparr>))"

definition velocity_spike :: "VelocityConfig \<Rightarrow> int \<Rightarrow> int \<Rightarrow> bool" where
  "velocity_spike cfg sumLong sumShort =
     (let longRate = f64_div (f64_of_int sumLong) (Duration_Seconds (vc_Window cfg));
          shortRate = f64_div (f64_of_int sumShort) (Duration_Seconds (vc_ShortWindow cfg))
      in f64_lt (Fin 0) longRate \<and> f64_lt (vc_SpikeFactor cfg) (f64_div shortRate longRate))"

definition VelocityBreaker_CheckVelocity ::
  "time \<Rightarrow> AgentID range_order \<Rightarrow> AgentID \<Rightarrow> int \<Rightarrow> VelocityBreaker \<Rightarrow> CheckResult \<times> VelocityBreaker" where
  "VelocityBreaker_CheckVelocity now ord agent tokens v =
     (let cfg = vb_cfg v;
          (st, v) = VelocityBreaker_state ord agent v;
          st = velocityState_append now tokens (vc_Window cfg) (vc_ShortWindow cfg) st;
          block = (vs_sumLong st > vc_BurstTokens cfg);
          block = (if \<not> block \<and> time_Sub now (vs_firstAt st) \<ge> vc_Window cfg
                   then velocity_spike cfg (vs_sumLong st) (vs_sumShort st) else block)
      in if block
         then let first = time_IsZero (vs_blockedAt st);
                  st = (if first then st\<lparr>vs_blockedAt := now\<rparr> else st)
              in (\<lparr>cr_Block = True, cr_Reason = ReasonVelocity,
                   cr_RetryAfter = wrap64 (f64_to_int (Duration_Seconds (vc_ShortWindow cfg)) + 1),
                   cr_FirstBlock = first\<rparr>,
                  v\<lparr>vb_states := gm_set (vb_states v) agent st\<rparr>)
         else let st = (if \<not> time_IsZero (vs_blockedAt st) \<and>
                           time_Sub now (vs_blockedAt st) \<ge> vc_ShortWindow cfg
                        then st\<lparr>vs_blockedAt := 0\<rparr> else st)
              in (CheckResult_zero, v\<lparr>vb_states := gm_set (vb_states v) agent st\<rparr>))"

definition VelocityBreaker_Reset :: "AgentID \<Rightarrow> VelocityBreaker \<Rightarrow> int \<times> VelocityBreaker" where
  "VelocityBreaker_Reset agent v =
     (case gm_get (vb_states v) agent of
        Some _ \<Rightarrow> (1, v\<lparr>vb_states := gm_delete (vb_states v) agent\<rparr>)
      | None \<Rightarrow> (0, v))"

section \<open>One step of an agent's state\<close>

type_synonym velocity_input = "time \<times> AgentID range_order \<times> int"

definition velocity_block :: "VelocityConfig \<Rightarrow> time \<Rightarrow> velocityState \<Rightarrow> bool" where
  "velocity_block cfg now st \<longleftrightarrow>
     vc_BurstTokens cfg < vs_sumLong st \<or>
     vc_Window cfg \<le> time_Sub now (vs_firstAt st) \<and> velocity_spike cfg (vs_sumLong st) (vs_sumShort st)"

text \<open>The incident flag after the verdict.\<close>

definition velocity_mark :: "VelocityConfig \<Rightarrow> time \<Rightarrow> velocityState \<Rightarrow> velocityState" where
  "velocity_mark cfg now st =
     (if velocity_block cfg now st then (if vs_blockedAt st = 0 then st\<lparr>vs_blockedAt := now\<rparr> else st)
      else if vs_blockedAt st \<noteq> 0 \<and> vc_ShortWindow cfg \<le> time_Sub now (vs_blockedAt st)
      then st\<lparr>vs_blockedAt := 0\<rparr> else st)"

fun velocity_step ::
  "VelocityConfig \<Rightarrow> velocity_input \<Rightarrow> velocityState option \<Rightarrow> CheckResult \<times> velocityState option" where
  "velocity_step cfg (now, ord, tokens) ost =
     (let st = velocityState_append now tokens (vc_Window cfg) (vc_ShortWindow cfg)
                 (case ost of None \<Rightarrow> velocityState_zero | Some st \<Rightarrow> st)
      in (if velocity_block cfg now st
          then \<lparr>cr_Block = True, cr_Reason = ReasonVelocity,
                cr_RetryAfter = wrap64 (f64_to_int (Duration_Seconds (vc_ShortWindow cfg)) + 1),
                cr_FirstBlock = (vs_blockedAt st = 0)\<rparr>
          else CheckResult_zero,
          Some (velocity_mark cfg now st)))"

lemma CheckVelocity_eq:
  "VelocityBreaker_CheckVelocity now ord a n v =
     (fst (velocity_step (vb_cfg v) (now, ord, n) (gm_get (vb_states v) a)),
      v\<lparr>vb_states := agent_put vs_lastAt ord (vc_MaxEntries (vb_cfg v)) (vb_states v) a
          (the (snd (velocity_step (vb_cfg v) (now, ord, n) (gm_get (vb_states v) a))))\<rparr>)"
  by (cases "gm_get (vb_states v) a")
     (simp_all add: VelocityBreaker_CheckVelocity_def VelocityBreaker_state_def
       VelocityBreaker_evictIfNeeded_def agent_put_def velocity_mark_def velocity_block_def time_IsZero_def Let_def)

interpretation velocity: agent_states
  "\<lambda>(now, ord, n) a. VelocityBreaker_CheckVelocity now ord a n" VelocityBreaker_Reset
  vb_states vb_cfg vs_lastAt "\<lambda>(now, ord, n). ord" vc_MaxEntries velocity_step
  by unfold_locales
     (auto simp: CheckVelocity_eq VelocityBreaker_Reset_def Let_def gm_delete_absent split: option.splits)

declare velocity_step.simps [simp del]

section \<open>The rings are the recent events\<close>

abbreviation tokens_of :: "tokenEvent list \<Rightarrow> int" where
  "tokens_of es \<equiv> sum_list (map te_n es)"

definition sums_ok :: "velocityState \<Rightarrow> bool" where
  "sums_ok st \<longleftrightarrow> vs_sumLong st = wrap64 (tokens_of (vs_events st)) \<and>
     vs_sumShort st = wrap64 (tokens_of (vs_short st)) \<and>
     length (vs_events st) \<le> maxVelocityEvents \<and> length (vs_short st) \<le> maxVelocityEvents"

lemma velocity_expire_eq:
  "velocity_expire c es (wrap64 (tokens_of es)) =
     (dropWhile (\<lambda>e. \<not> c < te_t e) es, wrap64 (tokens_of (dropWhile (\<lambda>e. \<not> c < te_t e) es)))"
  by (induction es) auto

lemma velocity_trim_eq:
  "velocity_trim es (wrap64 (tokens_of es)) =
     (lastn maxVelocityEvents es, wrap64 (tokens_of (lastn maxVelocityEvents es)))"
proof (induction es)
  case (Cons e es)
  have "lastn maxVelocityEvents (e # es) = lastn maxVelocityEvents es" if "maxVelocityEvents \<le> length es"
    using that by (simp add: lastn_def Suc_diff_le)
  with Cons show ?case by simp
qed simp

definition window_push :: "duration \<Rightarrow> time \<Rightarrow> int \<Rightarrow> tokenEvent list \<Rightarrow> tokenEvent list" where
  "window_push W now n es =
     lastn maxVelocityEvents (dropWhile (\<lambda>e. \<not> now - W < te_t e) (es @ [\<lparr>te_t = now, te_n = n\<rparr>]))"

lemma append_eq:
  assumes "sums_ok st"
  shows "velocityState_append now n W S st =
    st\<lparr>vs_firstAt := (if vs_firstAt st = 0 then now else vs_firstAt st), vs_lastAt := now,
       vs_events := window_push W now n (vs_events st),
       vs_sumLong := wrap64 (tokens_of (window_push W now n (vs_events st))),
       vs_short := window_push S now n (vs_short st),
       vs_sumShort := wrap64 (tokens_of (window_push S now n (vs_short st)))\<rparr>"
proof -
  let ?ev = "\<lparr>te_t = now, te_n = n\<rparr>"
  have sums: "wrap64 (vs_sumLong st + n) = wrap64 (tokens_of (vs_events st @ [?ev]))"
      "wrap64 (vs_sumShort st + n) = wrap64 (tokens_of (vs_short st @ [?ev]))"
    using assms by (simp_all add: sums_ok_def)
  show ?thesis
    by (simp add: velocityState_append_def Let_def sums velocity_expire_eq velocity_trim_eq
        time_defs window_push_def case_prod_beta del: map_append sum_list_append)
qed

lemma sums_ok_zero: "sums_ok velocityState_zero"
  by (simp add: sums_ok_def velocityState_zero_def wrap64_id is_int64_iff)

lemma sums_ok_append: "sums_ok st \<Longrightarrow> sums_ok (velocityState_append now n W S st)"
  by (simp add: append_eq) (simp add: sums_ok_def window_push_def)

lemma velocity_mark_sel [simp]:
  "vs_events (velocity_mark cfg now st) = vs_events st" "vs_sumLong (velocity_mark cfg now st) = vs_sumLong st"
  "vs_short (velocity_mark cfg now st) = vs_short st" "vs_sumShort (velocity_mark cfg now st) = vs_sumShort st"
  "vs_firstAt (velocity_mark cfg now st) = vs_firstAt st" "vs_lastAt (velocity_mark cfg now st) = vs_lastAt st"
  by (simp_all add: velocity_mark_def)

lemma sums_ok_step:
  assumes "\<And>st. ost = Some st \<Longrightarrow> sums_ok st" and "snd (velocity_step cfg x ost) = Some st'"
  shows "sums_ok st'"
proof -
  obtain now ord n where x: "x = (now, ord, n)" by (cases x)
  have "sums_ok (case ost of None \<Rightarrow> velocityState_zero | Some st \<Rightarrow> st)"
    using assms(1) by (auto simp: sums_ok_zero split: option.splits)
  from sums_ok_append [OF this] assms(2) show ?thesis
    by (simp add: x velocity_step.simps Let_def) (auto simp: sums_ok_def)
qed

section \<open>What a run of checks decides\<close>

text \<open>
  The specification: an agent's history is the list of its observations, oldest first, the request
  at hand included. The tokens of a window are those of the observations younger than the window, at
  most the 1024 most recent of them.
\<close>

definition window_events :: "duration \<Rightarrow> time \<Rightarrow> tokenEvent list \<Rightarrow> tokenEvent list" where
  "window_events W now h = lastn maxVelocityEvents (filter (\<lambda>e. now - W < te_t e) h)"

definition window_tokens :: "duration \<Rightarrow> tokenEvent list \<Rightarrow> int" where
  "window_tokens W h = wrap64 (tokens_of (window_events W (te_t (last h)) h))"

definition velocity_spec :: "VelocityConfig \<Rightarrow> tokenEvent list \<Rightarrow> bool" where
  "velocity_spec cfg h \<longleftrightarrow>
     vc_BurstTokens cfg < window_tokens (vc_Window cfg) h \<or>
     vc_Window cfg \<le> time_Sub (te_t (last h)) (te_t (hd h)) \<and>
     velocity_spike cfg (window_tokens (vc_Window cfg) h) (window_tokens (vc_ShortWindow cfg) h)"

lemma window_push_events:
  assumes "sorted_wrt (\<lambda>x y. te_t x \<le> te_t y) (h @ [\<lparr>te_t = now, te_n = n\<rparr>])" and "now0 \<le> now"
  shows "window_push W now n (window_events W now0 h) = window_events W now (h @ [\<lparr>te_t = now, te_n = n\<rparr>])"
proof -
  let ?ev = "\<lparr>te_t = now, te_n = n\<rparr>" and ?live = "\<lambda>e. now - W < te_t e"
  let ?old = "filter (\<lambda>e. now0 - W < te_t e) h"
  have sh: "sorted_wrt (\<lambda>x y. te_t x \<le> te_t y) h" and le: "\<forall>e\<in>set h. te_t e \<le> now"
    using assms(1) by (auto simp: sorted_wrt_append)
  have so: "sorted_wrt (\<lambda>x y. te_t x \<le> te_t y) ?old" by (rule sorted_wrt_filter [OF sh])
  have "set (lastn maxVelocityEvents ?old) \<subseteq> set h" using set_lastn_subset by fastforce
  moreover have "sorted_wrt (\<lambda>x y. te_t x \<le> te_t y) (lastn maxVelocityEvents ?old)"
    unfolding lastn_def by (rule sorted_wrt_drop [OF so])
  ultimately have "sorted_wrt (\<lambda>x y. te_t x \<le> te_t y) (lastn maxVelocityEvents ?old @ [?ev])"
    using le by (auto simp: sorted_wrt_append)
  note drop = dropWhile_sorted_filter [OF this, of "now - W"]
  have "filter ?live ?old = filter ?live h" using assms(2) by (auto intro: filter_cong)
  then have "filter ?live (lastn maxVelocityEvents ?old) = lastn maxVelocityEvents (filter ?live h)"
    by (simp only: filter_lastn [OF so])
  then show ?thesis
    by (simp add: window_push_def window_events_def drop lastn_push)
qed

definition velocity_rel :: "VelocityConfig \<Rightarrow> tokenEvent list \<Rightarrow> velocityState \<Rightarrow> bool" where
  "velocity_rel cfg h st \<longleftrightarrow> sums_ok st \<and> h \<noteq> [] \<and>
     vs_firstAt st = te_t (hd h) \<and>
     vs_events st = window_events (vc_Window cfg) (te_t (last h)) h \<and>
     vs_short st = window_events (vc_ShortWindow cfg) (te_t (last h)) h"

definition velocity_history :: "velocity_input list \<Rightarrow> tokenEvent list" where
  "velocity_history xs = map (\<lambda>(now, ord, n). \<lparr>te_t = now, te_n = n\<rparr>) xs"

lemma velocity_rel_append:
  assumes "velocity_rel cfg h st \<or> h = [] \<and> st = velocityState_zero" and "h = [] \<or> te_t (hd h) \<noteq> 0"
    and "sorted_wrt (\<lambda>x y. te_t x \<le> te_t y) (h @ [\<lparr>te_t = now, te_n = n\<rparr>])"
  shows "velocity_rel cfg (h @ [\<lparr>te_t = now, te_n = n\<rparr>])
           (velocityState_append now n (vc_Window cfg) (vc_ShortWindow cfg) st)"
proof -
  have ok: "sums_ok st" using assms(1) by (auto simp: velocity_rel_def sums_ok_zero)
  have emp: "window_push W now n [] = window_events W now [\<lparr>te_t = now, te_n = n\<rparr>]" for W
    using window_push_events [of "[]" now n now W] by (simp add: window_events_def)
  have "h \<noteq> [] \<Longrightarrow> te_t (last h) \<le> now" using assms(3) by (simp add: sorted_wrt_append)
  then show ?thesis
    using assms(1,2) window_push_events [OF assms(3), of "te_t (last h)"] sums_ok_append [OF ok]
    by (auto simp: velocity_rel_def append_eq [OF ok] emp velocityState_zero_def)
qed

lemma velocity_history_simps [simp]:
  "velocity_history [] = []"
  "velocity_history ((now, ord, n) # xs) = \<lparr>te_t = now, te_n = n\<rparr> # velocity_history xs"
  "velocity_history (xs @ ys) = velocity_history xs @ velocity_history ys"
  "velocity_history xs = [] \<longleftrightarrow> xs = []"
  by (simp_all add: velocity_history_def)

text \<open>Times in order, none of them the zero time.\<close>

definition clock_ok :: "tokenEvent list \<Rightarrow> bool" where
  "clock_ok h \<longleftrightarrow> sorted_wrt (\<lambda>x y. te_t x \<le> te_t y) h \<and> (\<forall>e\<in>set h. 0 < te_t e)"

lemma clock_ok_appendD: "clock_ok (xs @ ys) \<Longrightarrow> clock_ok xs"
  by (auto simp: clock_ok_def sorted_wrt_append)

lemma velocity_rel_mark [simp]: "velocity_rel cfg h (velocity_mark cfg now st) = velocity_rel cfg h st"
  by (simp add: velocity_rel_def sums_ok_def)

definition state_or_new :: "velocityState option \<Rightarrow> velocityState" where
  "state_or_new ost = (case ost of None \<Rightarrow> velocityState_zero | Some st \<Rightarrow> st)"

lemma velocity_fold_append:
  assumes "clock_ok (velocity_history xs @ [\<lparr>te_t = now, te_n = n\<rparr>])"
  shows "velocity_rel cfg (velocity_history xs @ [\<lparr>te_t = now, te_n = n\<rparr>])
    (velocityState_append now n (vc_Window cfg) (vc_ShortWindow cfg)
      (state_or_new (fold_step (velocity_step cfg) xs None)))"
  using assms
proof (induction xs arbitrary: now n rule: rev_induct)
  case Nil
  then show ?case
    by (intro velocity_rel_append) (simp_all add: state_or_new_def clock_ok_def)
next
  case (snoc x xs)
  obtain t ord k where x: "x = (t, ord, k)" by (cases x)
  let ?h = "velocity_history xs @ [\<lparr>te_t = t, te_n = k\<rparr>]"
  have "clock_ok ?h" using snoc.prems by (simp add: x clock_ok_appendD)
  note IH = snoc.IH [OF this]
  have "te_t (hd ?h) \<noteq> 0"
    using snoc.prems hd_in_set [of ?h] by (auto simp: x clock_ok_def simp del: hd_append)
  with IH snoc.prems show ?case
    by (intro velocity_rel_append)
       (simp_all add: x fold_step_append velocity_step.simps Let_def state_or_new_def clock_ok_def)
qed

lemma velocity_block_rel:
  assumes "velocity_rel cfg h st" and "te_t (last h) = now"
  shows "velocity_block cfg now st \<longleftrightarrow> velocity_spec cfg h"
  using assms by (auto simp: velocity_block_def velocity_spec_def velocity_rel_def sums_ok_def window_tokens_def)

lemma velocity_step_spec:
  assumes "clock_ok (velocity_history (xs @ [(now, ord, n)]))"
  shows "cr_Block (fst (velocity_step cfg (now, ord, n) (fold_step (velocity_step cfg) xs None)))
    \<longleftrightarrow> velocity_spec cfg (velocity_history (xs @ [(now, ord, n)]))"
proof -
  have "clock_ok (velocity_history xs @ [\<lparr>te_t = now, te_n = n\<rparr>])" using assms by simp
  from velocity_block_rel [OF velocity_fold_append [OF this]] show ?thesis
    by (simp add: velocity_step.simps Let_def state_or_new_def)
qed

lemma NewVelocityBreaker_sel [simp]: "vb_states (NewVelocityBreaker cfg) = []"
  by (simp add: NewVelocityBreaker_def)

abbreviation velocity_run ::
  "(velocity_input \<times> AgentID) list \<Rightarrow> VelocityBreaker \<Rightarrow> CheckResult list \<times> VelocityBreaker" where
  "velocity_run \<equiv> run_checks (\<lambda>(now, ord, n) a. VelocityBreaker_CheckVelocity now ord a n)"

lemma clock_ok_own:
  assumes "clock_ok (velocity_history (map fst rs))" and "rs = pre @ ((now, ord, n), a) # post"
  shows "clock_ok (velocity_history (own a pre @ [(now, ord, n)]))"
proof -
  have "clock_ok (velocity_history (map fst (pre @ [((now, ord, n), a)])))"
    using assms(1) clock_ok_appendD [of "velocity_history (map fst (pre @ [((now, ord, n), a)]))"]
    by (simp add: assms(2))
  then show ?thesis
    unfolding clock_ok_def own_def velocity_history_def
    by (auto simp: sorted_wrt_append sorted_wrt_map sorted_wrt_filter split: prod.splits)
qed

lemma velocity_run_spec:
  assumes "clock_ok (velocity_history (map fst rs))"
    and "card (snd ` set rs) \<le> nat (vc_MaxEntries (vb_cfg (NewVelocityBreaker cfg)))"
    and "rs = pre @ ((now, ord, n), a) # post"
  shows "cr_Block (fst (velocity_run rs (NewVelocityBreaker cfg)) ! length pre)
    \<longleftrightarrow> velocity_spec (vb_cfg (NewVelocityBreaker cfg)) (velocity_history (own a pre @ [(now, ord, n)]))"
  using velocity.run_verdicts [of "NewVelocityBreaker cfg" rs pre "(now, ord, n)" a post]
    velocity_step_spec [OF clock_ok_own [OF assms(1,3)]] assms(2,3)
  by simp


section \<open>A single request in both windows\<close>

lemma round64_rel:
  assumes "1 / 100 \<le> x" and "x \<le> 2 ^ 53"
  obtains y where "round64 x = Fin y" and "\<bar>y - x\<bar> \<le> x * pow2 (- 53)" and "0 < y"
proof -
  have small: "pow2 (- 1022) \<le> 1 / 100"
    using pow2_mono [of "- 1022" "- 7"] by (simp add: pow2_def)
  then have err: "\<bar>round_pos x - x\<bar> \<le> x * pow2 (- 53)" using assms(1) by (intro round_pos_error) linarith
  have "round64 (2 ^ 53) = Fin (2 ^ 53)" using round64_int [of "2 ^ 53"] by simp
  then obtain y where y: "round64 x = Fin y"
    using assms round64_between [OF round64_0, of "2 ^ 53" x] by (metis div_by_1 divide_nonneg_nonneg order_trans zero_le_numeral zero_le_one)
  moreover have "y = round_pos x" using y assms(1) by (simp add: round64_def split: if_splits)
  moreover have "x * pow2 (- 53) \<le> x * (1 / 2)"
    using pow2_mono [of "- 53" "- 1"] assms(1) by (intro mult_left_mono) (simp_all add: pow2_def)
  ultimately show thesis using err assms(1) by (intro that [of y]) linarith+
qed

text \<open>
  An observation that is alone in both windows looks like a spike by the factor
  \<open>Window / ShortWindow\<close>, which is 6 with the default windows, over the default threshold of 5.
\<close>

lemma lone_request_spikes:
  assumes "vc_Window cfg = defaultVelocityWindow" and "vc_ShortWindow cfg = defaultVelocityShortWindow"
    and "vc_SpikeFactor cfg = defaultVelocitySpike" and "1 \<le> n" and "n \<le> 2 ^ 53"
  shows "velocity_spike cfg n n"
proof -
  let ?n = "of_int n :: rat" and ?e = "pow2 (- 53)"
  have n: "1 \<le> ?n" using assms(4) by simp
  have "?n \<le> of_int (2 ^ 53)" using assms(5) by (simp only: of_int_le_iff)
  then have n': "?n \<le> 2 ^ 53" by simp
  obtain l where l: "round64 (?n / 30) = Fin l" "\<bar>l - ?n / 30\<bar> \<le> ?n / 30 * ?e" "0 < l"
    using n n' round64_rel [of "?n / 30"] by auto
  obtain s where s: "round64 (?n / 5) = Fin s" "\<bar>s - ?n / 5\<bar> \<le> ?n / 5 * ?e" "0 < s"
    using n n' round64_rel [of "?n / 5"] by auto
  have e: "?e \<le> 1 / 100" using pow2_mono [of "- 53" "- 7"] by (simp add: pow2_def)
  have "?n / 30 * ?e \<le> ?n / 30 * (1 / 100)" "?n / 5 * ?e \<le> ?n / 5 * (1 / 100)"
    using n e by (intro mult_left_mono; simp)+
  with l(2) s(2) n have "11 / 2 * l \<le> s" by linarith
  then have "11 / 2 \<le> s / l" using l(3) by (simp add: pos_le_divide_eq)
  then have "f64_le (round64 (11 / 2)) (round64 (s / l))" by (rule round64_mono)
  moreover have "round64 (11 / 2) = Fin (11 / 2)" using round64_quarter [of 22] by simp
  ultimately have "f64_lt (Fin 5) (round64 (s / l))"
    by (cases "round64 (s / l)") (auto simp: f64_le_def)
  then show ?thesis
    using assms l s
    by (simp add: velocity_spike_def Let_def f64_of_int_exact defaultVelocityWindow_def
        defaultVelocityShortWindow_def defaultVelocitySpike_def Duration_Seconds_whole)
qed

lemma window_tokens_lone:
  assumes "\<forall>e\<in>set h. te_t e \<le> now - W" and "0 < W" and "is_int64 n"
  shows "window_tokens W (h @ [\<lparr>te_t = now, te_n = n\<rparr>]) = n"
proof -
  have "filter (\<lambda>e. now - W < te_t e) h = []"
    using assms(1) by (auto simp: filter_empty_conv linorder_not_less)
  then show ?thesis
    using assms(2,3) by (simp add: window_tokens_def window_events_def maxVelocityEvents_def wrap64_id)
qed

section \<open>Reachable states\<close>

abbreviation velocity_reach :: "VelocityConfig \<Rightarrow> VelocityBreaker \<Rightarrow> bool" where
  "velocity_reach cfg \<equiv> agent_reach (\<lambda>(now, ord, n) a. VelocityBreaker_CheckVelocity now ord a n)
     VelocityBreaker_Reset (NewVelocityBreaker cfg)"

lemma defaults_MaxEntries: "1 \<le> vc_MaxEntries (VelocityConfig_defaults cfg)"
  by (simp add: VelocityConfig_defaults_def Let_def defaultVelocityMaxEntries_def)

lemma defaults_Window: "0 < vc_Window (VelocityConfig_defaults cfg)"
  by (simp add: VelocityConfig_defaults_def Let_def defaultVelocityWindow_def)

lemma NewVelocityBreaker_cfg: "vb_cfg (NewVelocityBreaker cfg) = VelocityConfig_defaults cfg"
  by (simp add: NewVelocityBreaker_def)

section \<open>Properties\<close>

text \<open>
  C9. The velocity detector is exactly its specification: over any sequence of checks with a clock
  that never runs backwards and no more agents than the map holds, a check blocks if and only if the
  tokens of the agent's own last \<^verbatim>\<open>Window\<close> exceed the burst cap, or its history spans a
  \<^verbatim>\<open>Window\<close> and the rate of the short window exceeds the rate of the long one by
  the spike factor. The expiry loops, the running sums and the other agents' traffic leave no trace.
\<close>

theorem velocity_run_refines_windows:
  assumes "clock_ok (velocity_history (map fst rs))"
    and "card (snd ` set rs) \<le> nat (vc_MaxEntries (vb_cfg (NewVelocityBreaker cfg)))"
    and "rs = pre @ ((now, ord, n), a) # post"
  shows "cr_Block (fst (velocity_run rs (NewVelocityBreaker cfg)) ! length pre)
    \<longleftrightarrow> velocity_spec (vb_cfg (NewVelocityBreaker cfg)) (velocity_history (own a pre @ [(now, ord, n)]))"
  using assms by (rule velocity_run_spec)

definition velocity_config0 :: VelocityConfig where
  "velocity_config0 = \<lparr>vc_Window = 0, vc_ShortWindow = 0, vc_BurstTokens = 0, vc_SpikeFactor = Fin 0, vc_MaxEntries = 0\<rparr>"

lemma default_config:
  "vb_cfg (NewVelocityBreaker velocity_config0) =
     \<lparr>vc_Window = 30 * Second, vc_ShortWindow = 5 * Second, vc_BurstTokens = 200000, vc_SpikeFactor = Fin 5,
      vc_MaxEntries = 10000\<rparr>"
  by (simp add: NewVelocityBreaker_def VelocityConfig_defaults_def velocity_config0_def Let_def
      defaultVelocityWindow_def defaultVelocityShortWindow_def defaultVelocityBurst_def
      defaultVelocitySpike_def defaultVelocityMaxEntries_def)

theorem velocity_run_refines_windows_witness:
  "cr_Block (fst (velocity_run [((1, in_order, 150000), ''a''), ((2, in_order, 10), ''b''), ((3, in_order, 50001), ''a'')]
      (NewVelocityBreaker velocity_config0)) ! Suc (Suc 0))"
proof -
  let ?pre = "[((1, in_order, 150000), ''a''), ((2, in_order, 10), ''b'')]"
  let ?rs = "[((1, in_order, 150000), ''a''), ((2, in_order, 10), ''b''), ((3, in_order, 50001), ''a'')]"
  have spec: "velocity_spec (vb_cfg (NewVelocityBreaker velocity_config0))
      [\<lparr>te_t = 1, te_n = 150000\<rparr>, \<lparr>te_t = 3, te_n = 50001\<rparr>]"
    by (simp add: velocity_spec_def default_config window_tokens_def window_events_def Second_def
        maxVelocityEvents_def wrap64_def)
  have clock: "clock_ok (velocity_history (map fst ?rs))" by (simp add: clock_ok_def)
  have card: "card (snd ` set ?rs) \<le> nat (vc_MaxEntries (vb_cfg (NewVelocityBreaker velocity_config0)))"
    using card_length [of "map snd ?rs"] by (simp add: default_config)
  have rs: "?rs = ?pre @ ((3, in_order, 50001), ''a'') # []" by simp
  have "length ?pre = Suc (Suc 0)"
    and "velocity_history (own ''a'' ?pre @ [(3, in_order, 50001)])
      = [\<lparr>te_t = 1, te_n = 150000\<rparr>, \<lparr>te_t = 3, te_n = 50001\<rparr>]" by simp_all
  with spec velocity_run_refines_windows [OF clock card rs] show ?thesis by metis
qed

text \<open>
  Bounded memory and exact bookkeeping: in every state the detector can reach, with evictions,
  resets and any clock readings, it holds at most \<^verbatim>\<open>MaxEntries\<close> agents, each ring
  holds at most 1024 events, and each running sum is the 64-bit sum of its ring.
\<close>

theorem velocity_rings_bounded:
  assumes "velocity_reach cfg v"
  shows "gm_ok (vb_states v) \<and> gm_len (vb_states v) \<le> vc_MaxEntries (vb_cfg v) \<and>
    (\<forall>a st. gm_get (vb_states v) a = Some st \<longrightarrow>
       length (vs_events st) \<le> 1024 \<and> length (vs_short st) \<le> 1024 \<and>
       vs_sumLong st = wrap64 (tokens_of (vs_events st)) \<and> vs_sumShort st = wrap64 (tokens_of (vs_short st)))"
proof -
  have "vb_cfg v = vb_cfg (NewVelocityBreaker cfg) \<and>
      states_ok (vc_MaxEntries (vb_cfg (NewVelocityBreaker cfg))) (vb_states v) \<and>
      (\<forall>a st. gm_get (vb_states v) a = Some st \<longrightarrow> sums_ok st)"
  proof (rule velocity.reach_inv [OF assms])
    show "1 \<le> vc_MaxEntries (vb_cfg (NewVelocityBreaker cfg))"
      using defaults_MaxEntries [of cfg] by (simp add: NewVelocityBreaker_cfg)
  qed (simp, rule sums_ok_step)
  then have "vb_cfg v = vb_cfg (NewVelocityBreaker cfg)" and "states_ok (vc_MaxEntries (vb_cfg v)) (vb_states v)"
    and sums: "\<forall>a st. gm_get (vb_states v) a = Some st \<longrightarrow> sums_ok st" by simp_all
  then show ?thesis unfolding states_ok_def sums_ok_def maxVelocityEvents_def by blast
qed

theorem velocity_rings_bounded_witness:
  "gm_len (vb_states (snd (VelocityBreaker_CheckVelocity 1 in_order ''a'' 7 (NewVelocityBreaker velocity_config0)))) \<le> 10000"
  using velocity_rings_bounded [OF reach_check [OF reach_start], of "(1, in_order, 7)" "''a''" velocity_config0]
  by (simp add: CheckVelocity_eq default_config)

text \<open>
  C10. The acceleration test counts an agent that returns after a pause as a spike: with the default
  windows and threshold, when every earlier observation of an agent is at least one
  \<^verbatim>\<open>Window\<close> old, its next request is blocked whatever its size, from one token up to the
  burst cap. So an agent that sends one request every thirty seconds or slower is answered 429 for
  every request after its first.
\<close>

theorem returning_agent_blocked:
  assumes "vb_cfg (NewVelocityBreaker cfg) = vb_cfg (NewVelocityBreaker velocity_config0)"
    and "clock_ok (velocity_history (map fst rs))" and "card (snd ` set rs) \<le> 10000"
    and "rs = pre @ ((now, ord, n), a) # post"
    and "own a pre \<noteq> []" and "\<forall>e\<in>set (velocity_history (own a pre)). te_t e \<le> now - 30 * Second"
    and "1 \<le> n" and "n \<le> 200000"
  shows "cr_Block (fst (velocity_run rs (NewVelocityBreaker cfg)) ! length pre)"
proof -
  let ?cfg = "vb_cfg (NewVelocityBreaker cfg)" and ?h = "velocity_history (own a pre)"
  note cfg = assms(1) [unfolded default_config]
  have n: "is_int64 n" using assms(7,8) by (simp add: is_int64_iff)
  have ev: "\<forall>e\<in>set ?h. te_t e \<le> now - 5 * Second" using assms(6) by (auto simp: Second_def)
  have "hd ?h \<in> set ?h" using assms(5) by simp
  then have "30 * Second \<le> now - te_t (hd ?h)" using assms(6) by fastforce
  then have "30 * Second \<le> time_Sub now (te_t (hd ?h))"
    by (simp add: time_Sub_def int64_bounds Second_def)
  moreover have "velocity_spike ?cfg n n"
    using assms(7,8) by (intro lone_request_spikes)
      (simp_all add: cfg defaultVelocityWindow_def defaultVelocityShortWindow_def defaultVelocitySpike_def)
  ultimately have "velocity_spec ?cfg (?h @ [\<lparr>te_t = now, te_n = n\<rparr>])"
    using window_tokens_lone [OF assms(6) _ n] window_tokens_lone [OF ev _ n] assms(5)
    by (simp add: velocity_spec_def cfg)
  then show ?thesis
    using velocity_run_spec [OF assms(2) _ assms(4), of cfg] assms(3) by (simp add: cfg del: run_checks.simps)
qed

theorem returning_agent_blocked_witness:
  "cr_Block (fst (velocity_run [((Second, in_order, 10), ''a''), ((31 * Second, in_order, 1), ''a'')]
      (NewVelocityBreaker velocity_config0)) ! 1)"
  using returning_agent_blocked [of velocity_config0 "[((Second, in_order, 10), ''a''), ((31 * Second, in_order, 1), ''a'')]"
      "[((Second, in_order, 10), ''a'')]" "31 * Second" in_order 1 "''a''" "[]"]
  by (simp add: clock_ok_def Second_def del: run_checks.simps)

lemma velocity_spec_cold:
  assumes "h \<noteq> []" and "te_t (last h) - te_t (hd h) < vc_Window cfg" and "0 < vc_Window cfg"
  shows "velocity_spec cfg h \<longleftrightarrow> vc_BurstTokens cfg < window_tokens (vc_Window cfg) h"
proof -
  have "\<not> vc_Window cfg \<le> time_Sub (te_t (last h)) (te_t (hd h)) \<or> vc_Window cfg \<le> int64_min"
    using assms by (auto simp: time_Sub_def)
  then show ?thesis using assms by (auto simp: velocity_spec_def int64_bounds)
qed

text \<open>
  A cold-start agent is never blocked by the spike test: while its whole history is younger than
  one \<^verbatim>\<open>Window\<close>, a check blocks if and only if the tokens of all its requests so far
  exceed the burst cap (for up to 1024 requests and sums that fit 64 bits).
\<close>

theorem cold_start_only_burst:
  assumes "clock_ok (velocity_history (map fst rs))"
    and "card (snd ` set rs) \<le> nat (vc_MaxEntries (vb_cfg (NewVelocityBreaker cfg)))"
    and "rs = pre @ ((now, ord, n), a) # post"
    and "h = velocity_history (own a pre @ [(now, ord, n)])"
    and "now - te_t (hd h) < vc_Window (vb_cfg (NewVelocityBreaker cfg))"
    and "length h \<le> 1024" and "is_int64 (tokens_of h)"
  shows "cr_Block (fst (velocity_run rs (NewVelocityBreaker cfg)) ! length pre)
    \<longleftrightarrow> vc_BurstTokens (vb_cfg (NewVelocityBreaker cfg)) < tokens_of h"
proof -
  let ?W = "vc_Window (vb_cfg (NewVelocityBreaker cfg))"
  have last: "te_t (last h) = now" and ne: "h \<noteq> []" by (simp_all add: assms(4))
  have "clock_ok h" unfolding assms(4) by (rule clock_ok_own [OF assms(1,3)])
  then have "\<forall>e\<in>set h. te_t (hd h) \<le> te_t e"
    using ne by (cases h) (auto simp: clock_ok_def)
  then have "filter (\<lambda>e. now - ?W < te_t e) h = h"
    using assms(5) by (auto simp: filter_id_conv)
  then have "window_tokens ?W h = tokens_of h"
    using assms(6,7) by (simp add: window_tokens_def window_events_def last maxVelocityEvents_def wrap64_id)
  then show ?thesis
    using velocity_run_spec [OF assms(1-3), folded assms(4)] velocity_spec_cold [OF ne, of "vb_cfg (NewVelocityBreaker cfg)"] assms(5)
      defaults_Window [of cfg]
    by (simp add: last NewVelocityBreaker_cfg)
qed

theorem cold_start_only_burst_witness:
  "\<not> cr_Block (fst (velocity_run [((Second, in_order, 100000), ''a''), ((3 * Second, in_order, 100000), ''a'')]
      (NewVelocityBreaker velocity_config0)) ! 1)"
  using cold_start_only_burst [of "[((Second, in_order, 100000), ''a''), ((3 * Second, in_order, 100000), ''a'')]"
      velocity_config0 "[((Second, in_order, 100000), ''a'')]" "3 * Second" in_order 100000 "''a''" "[]", OF _ _ _ refl]
  by (simp add: clock_ok_def Second_def default_config is_int64_iff del: run_checks.simps)

text \<open>
  The constructor's configuration: every field ends up positive, and the short window is no longer
  than the long one, except when the window given is shorter than the five-second default that an
  invalid short window is replaced with.
\<close>

theorem velocity_config_sane:
  assumes "c = vb_cfg (NewVelocityBreaker cfg)"
  shows "0 < vc_Window c \<and> 0 < vc_ShortWindow c \<and> 0 < vc_BurstTokens c \<and> 0 < vc_MaxEntries c \<and>
    \<not> f64_le (vc_SpikeFactor c) (Fin 0) \<and>
    (vc_Window c < vc_ShortWindow c \<longleftrightarrow>
       vc_Window c < 5 * Second \<and> (vc_ShortWindow cfg \<le> 0 \<or> vc_Window c < vc_ShortWindow cfg))"
  unfolding assms
  by (simp add: NewVelocityBreaker_def VelocityConfig_defaults_def Let_def defaultVelocityWindow_def
      defaultVelocityShortWindow_def defaultVelocityBurst_def defaultVelocitySpike_def
      defaultVelocityMaxEntries_def Second_def f64_le_def)

theorem velocity_config_sane_witness:
  "vc_Window (vb_cfg (NewVelocityBreaker (velocity_config0\<lparr>vc_Window := Second\<rparr>)))
     < vc_ShortWindow (vb_cfg (NewVelocityBreaker (velocity_config0\<lparr>vc_Window := Second\<rparr>)))"
  using velocity_config_sane [OF refl, of "velocity_config0\<lparr>vc_Window := Second\<rparr>"]
  by (simp add: NewVelocityBreaker_def VelocityConfig_defaults_def velocity_config0_def Let_def Second_def)

end
