(* ===== verification/Pipeline.thy ===== *)
theory Pipeline
  imports Hash_Detector Tool_Matcher Velocity_Breaker
begin

text \<open>
  The detector pipeline (\<^verbatim>\<open>pkg/circuitbreaker/pipeline.go\<close>): the exact detector in
  front, then the structural, tool and velocity detectors where they are configured, stopping at the
  first block. The exact detector is the \<^verbatim>\<open>HashDetector\<close> that
  \<^verbatim>\<open>cmd/proxy\<close> wires in. Each stage reads the clock on its own, so a check carries one
  reading and one iteration order per stage.

  The four detectors keep the contract \<open>agent_scoped\<close>; the pipeline is shown to keep it too, which
  gives what \<^verbatim>\<open>DELETE /v1/agent/{id}/history\<close> promises.
\<close>

section \<open>Definitions\<close>

type_synonym TokenEstimator = "string \<Rightarrow> int"

record Pipeline =
  pl_exact :: HashDetector
  pl_structural :: "StructuralHasher option"
  pl_tools :: "ToolMatcher option"
  pl_velocity :: "VelocityBreaker option"
  pl_estimate :: "TokenEstimator option"

record stage_env =
  se_exact :: "time \<times> key range_order"
  se_structural :: "time \<times> AgentID range_order"
  se_tools :: "time \<times> AgentID range_order"
  se_velocity :: "time \<times> AgentID range_order"

type_synonym PipelineOption = "Pipeline \<Rightarrow> Pipeline"

definition WithStructural :: "StructuralHasher \<Rightarrow> PipelineOption" where
  "WithStructural s p = p\<lparr>pl_structural := Some s\<rparr>"

definition WithTools :: "ToolMatcher \<Rightarrow> PipelineOption" where
  "WithTools t p = p\<lparr>pl_tools := Some t\<rparr>"

definition WithVelocity :: "VelocityBreaker \<Rightarrow> PipelineOption" where
  "WithVelocity v p = p\<lparr>pl_velocity := Some v\<rparr>"

definition WithTokenEstimator :: "TokenEstimator \<Rightarrow> PipelineOption" where
  "WithTokenEstimator f p = p\<lparr>pl_estimate := Some f\<rparr>"

definition NewPipeline :: "HashDetector \<Rightarrow> PipelineOption list \<Rightarrow> Pipeline" where
  "NewPipeline exact opts =
     fold (\<lambda>opt p. opt p) opts
       \<lparr>pl_exact = exact, pl_structural = None, pl_tools = None, pl_velocity = None, pl_estimate = None\<rparr>"

definition Pipeline_Check ::
  "time \<Rightarrow> key range_order \<Rightarrow> AgentID \<Rightarrow> Fingerprint \<Rightarrow> Pipeline \<Rightarrow> CheckResult \<times> Pipeline" where
  "Pipeline_Check now ord agent fp p =
     (let (res, d) = HashDetector_Check now ord agent fp (pl_exact p) in (res, p\<lparr>pl_exact := d\<rparr>))"

definition Pipeline_estimateTokens :: "string \<Rightarrow> Pipeline \<Rightarrow> int" where
  "Pipeline_estimateTokens body p =
     (case pl_estimate p of
        Some f \<Rightarrow> f body
      | None \<Rightarrow> go_quot (wrap64 (int (length body) + 3)) 4)"

text \<open>The stages, each with the ones behind it.\<close>

definition stage_velocity :: "stage_env \<Rightarrow> AgentID \<Rightarrow> string \<Rightarrow> Pipeline \<Rightarrow> CheckResult \<times> Pipeline" where
  "stage_velocity env agent body p =
     (case pl_velocity p of
        None \<Rightarrow> (CheckResult_zero, p)
      | Some v \<Rightarrow>
          let (res, v) = VelocityBreaker_CheckVelocity (fst (se_velocity env)) (snd (se_velocity env)) agent
                           (Pipeline_estimateTokens body p) v;
              p = p\<lparr>pl_velocity := Some v\<rparr>
          in if cr_Block res then (res, p) else (CheckResult_zero, p))"

definition stage_tools :: "stage_env \<Rightarrow> AgentID \<Rightarrow> string \<Rightarrow> Pipeline \<Rightarrow> CheckResult \<times> Pipeline" where
  "stage_tools env agent body p =
     (case pl_tools p of
        None \<Rightarrow> stage_velocity env agent body p
      | Some t \<Rightarrow>
          let (res, t) = ToolMatcher_CheckPayload (fst (se_tools env)) (snd (se_tools env)) agent body t;
              p = p\<lparr>pl_tools := Some t\<rparr>
          in if cr_Block res then (res, p) else stage_velocity env agent body p)"

definition stage_structural :: "stage_env \<Rightarrow> AgentID \<Rightarrow> string \<Rightarrow> Pipeline \<Rightarrow> CheckResult \<times> Pipeline" where
  "stage_structural env agent body p =
     (case pl_structural p of
        None \<Rightarrow> stage_tools env agent body p
      | Some s \<Rightarrow>
          let (res, s) = StructuralHasher_CheckPayload (fst (se_structural env)) (snd (se_structural env)) agent body s;
              p = p\<lparr>pl_structural := Some s\<rparr>
          in if cr_Block res then (res, p) else stage_tools env agent body p)"

definition Pipeline_CheckPayload ::
  "stage_env \<Rightarrow> AgentID \<Rightarrow> Fingerprint \<Rightarrow> string \<Rightarrow> Pipeline \<Rightarrow> CheckResult \<times> Pipeline" where
  "Pipeline_CheckPayload env agent fp body p =
     (let (res, d) = HashDetector_Check (fst (se_exact env)) (snd (se_exact env)) agent fp (pl_exact p);
          p = p\<lparr>pl_exact := d\<rparr>
      in if cr_Block res then (res, p) else stage_structural env agent body p)"

definition Pipeline_Reset :: "key range_order \<Rightarrow> AgentID \<Rightarrow> Pipeline \<Rightarrow> int \<times> Pipeline" where
  "Pipeline_Reset ord agent p =
     (let (n, d) = HashDetector_Reset ord agent (pl_exact p);
          p = p\<lparr>pl_exact := d\<rparr>;
          (n, p) = (case pl_structural p of
                      None \<Rightarrow> (n, p)
                    | Some s \<Rightarrow> let (k, s) = StructuralHasher_Reset agent s in (n + k, p\<lparr>pl_structural := Some s\<rparr>));
          (n, p) = (case pl_tools p of
                      None \<Rightarrow> (n, p)
                    | Some t \<Rightarrow> let (k, t) = ToolMatcher_Reset agent t in (n + k, p\<lparr>pl_tools := Some t\<rparr>));
          (n, p) = (case pl_velocity p of
                      None \<Rightarrow> (n, p)
                    | Some v \<Rightarrow> let (k, v) = VelocityBreaker_Reset agent v in (n + k, p\<lparr>pl_velocity := Some v\<rparr>))
      in (n, p))"

section \<open>The stages one at a time\<close>

abbreviation exact_at :: "stage_env \<Rightarrow> AgentID \<Rightarrow> Fingerprint \<Rightarrow> HashDetector \<Rightarrow> CheckResult \<times> HashDetector" where
  "exact_at env a fp \<equiv> HashDetector_Check (fst (se_exact env)) (snd (se_exact env)) a fp"

abbreviation structural_at :: "stage_env \<Rightarrow> AgentID \<Rightarrow> string \<Rightarrow> StructuralHasher option \<Rightarrow> CheckResult \<times> StructuralHasher option" where
  "structural_at env a body \<equiv> opt_check (StructuralHasher_CheckPayload (fst (se_structural env)) (snd (se_structural env)) a body)"

abbreviation tools_at :: "stage_env \<Rightarrow> AgentID \<Rightarrow> string \<Rightarrow> ToolMatcher option \<Rightarrow> CheckResult \<times> ToolMatcher option" where
  "tools_at env a body \<equiv> opt_check (ToolMatcher_CheckPayload (fst (se_tools env)) (snd (se_tools env)) a body)"

abbreviation velocity_at :: "stage_env \<Rightarrow> AgentID \<Rightarrow> int \<Rightarrow> VelocityBreaker option \<Rightarrow> CheckResult \<times> VelocityBreaker option" where
  "velocity_at env a n \<equiv> opt_check (VelocityBreaker_CheckVelocity (fst (se_velocity env)) (snd (se_velocity env)) a n)"

definition tokens_for :: "string \<Rightarrow> Pipeline \<Rightarrow> int" where
  "tokens_for body p = Pipeline_estimateTokens body p"

lemma tokens_for_update [simp]:
  "tokens_for body (p\<lparr>pl_exact := d\<rparr>) = tokens_for body p" "tokens_for body (p\<lparr>pl_structural := s\<rparr>) = tokens_for body p"
  "tokens_for body (p\<lparr>pl_tools := t\<rparr>) = tokens_for body p" "tokens_for body (p\<lparr>pl_velocity := v\<rparr>) = tokens_for body p"
  by (simp_all add: tokens_for_def Pipeline_estimateTokens_def)

lemma update_same_stage [simp]:
  "p\<lparr>pl_structural := pl_structural p\<rparr> = p" "p\<lparr>pl_tools := pl_tools p\<rparr> = p" "p\<lparr>pl_velocity := pl_velocity p\<rparr> = p"
  by simp_all

lemma absent_stage:
  "pl_structural p = None \<Longrightarrow> p\<lparr>pl_structural := None\<rparr> = p" "pl_tools p = None \<Longrightarrow> p\<lparr>pl_tools := None\<rparr> = p"
  by (metis update_same_stage)+

lemma stage_velocity_eq:
  "stage_velocity env a body p =
     (let (r, v) = velocity_at env a (tokens_for body p) (pl_velocity p)
      in (if cr_Block r then r else CheckResult_zero, p\<lparr>pl_velocity := v\<rparr>))"
  by (cases "pl_velocity p")
     (simp_all add: stage_velocity_def opt_check_def tokens_for_def case_prod_beta Let_def apsnd_def map_prod_def)

lemma stage_tools_eq:
  "stage_tools env a body p =
     (let (r, t) = tools_at env a body (pl_tools p); p = p\<lparr>pl_tools := t\<rparr>
      in if cr_Block r then (r, p) else stage_velocity env a body p)"
  by (cases "pl_tools p") (simp_all add: absent_stage stage_tools_def opt_check_def case_prod_beta Let_def apsnd_def map_prod_def)

lemma stage_structural_eq:
  "stage_structural env a body p =
     (let (r, s) = structural_at env a body (pl_structural p); p = p\<lparr>pl_structural := s\<rparr>
      in if cr_Block r then (r, p) else stage_tools env a body p)"
  by (cases "pl_structural p") (simp_all add: absent_stage stage_structural_def opt_check_def case_prod_beta Let_def apsnd_def map_prod_def)

lemma CheckPayload_stages:
  assumes "(r1, d) = exact_at env a fp (pl_exact p)" and "(r2, s) = structural_at env a body (pl_structural p)"
    and "(r3, t) = tools_at env a body (pl_tools p)" and "(r4, v) = velocity_at env a (tokens_for body p) (pl_velocity p)"
  shows "Pipeline_CheckPayload env a fp body p =
    (if cr_Block r1 then (r1, p\<lparr>pl_exact := d\<rparr>)
     else if cr_Block r2 then (r2, p\<lparr>pl_exact := d, pl_structural := s\<rparr>)
     else if cr_Block r3 then (r3, p\<lparr>pl_exact := d, pl_structural := s, pl_tools := t\<rparr>)
     else (if cr_Block r4 then r4 else CheckResult_zero,
           p\<lparr>pl_exact := d, pl_structural := s, pl_tools := t, pl_velocity := v\<rparr>))"
  by (simp add: Pipeline_CheckPayload_def stage_structural_eq stage_tools_eq stage_velocity_eq
      assms [symmetric] Let_def)

lemma Pipeline_Reset_eq:
  assumes "(n1, d) = HashDetector_Reset ord a (pl_exact p)" and "(n2, s) = opt_reset (StructuralHasher_Reset a) (pl_structural p)"
    and "(n3, t) = opt_reset (ToolMatcher_Reset a) (pl_tools p)" and "(n4, v) = opt_reset (VelocityBreaker_Reset a) (pl_velocity p)"
  shows "Pipeline_Reset ord a p =
    (n1 + n2 + n3 + n4, p\<lparr>pl_exact := d, pl_structural := s, pl_tools := t, pl_velocity := v\<rparr>)"
  using assms
  by (cases "pl_structural p"; cases "pl_tools p"; cases "pl_velocity p"; cases p)
     (simp_all add: Pipeline_Reset_def opt_reset_def case_prod_beta Let_def apsnd_def map_prod_def prod_eq_iff)

section \<open>The contract of the whole pipeline\<close>

text \<open>What the pipeline remembers of an agent: the parts of its four stages.\<close>

datatype slot = SExact Fingerprint | SStructural | STools | SVelocity
datatype memory = MExact entry | MStructural structuralState | MTools toolState | MVelocity velocityState

fun pipeline_history :: "Pipeline \<Rightarrow> AgentID \<Rightarrow> slot \<Rightarrow> memory option" where
  "pipeline_history p a (SExact f) = map_option MExact (hash_history (pl_exact p) a f)"
| "pipeline_history p a SStructural =
     (case pl_structural p of None \<Rightarrow> None | Some s \<Rightarrow> map_option MStructural (gm_get (sh_seen s) a))"
| "pipeline_history p a STools =
     (case pl_tools p of None \<Rightarrow> None | Some t \<Rightarrow> map_option MTools (gm_get (tm_states t) a))"
| "pipeline_history p a SVelocity =
     (case pl_velocity p of None \<Rightarrow> None | Some v \<Rightarrow> map_option MVelocity (gm_get (vb_states v) a))"

definition pipeline_config :: "Pipeline \<Rightarrow> (duration \<times> int \<times> int) \<times> StructuralConfig option \<times> ToolConfig option \<times>
    VelocityConfig option \<times> TokenEstimator option" where
  "pipeline_config p = (hash_config (pl_exact p), map_option sh_cfg (pl_structural p), map_option tm_cfg (pl_tools p),
     map_option vb_cfg (pl_velocity p), pl_estimate p)"

definition pipeline_wf :: "Pipeline \<Rightarrow> bool" where
  "pipeline_wf p \<longleftrightarrow> hash_wf (pl_exact p) \<and>
     (\<forall>s. pl_structural p = Some s \<longrightarrow> states_ok (sc_MaxEntries (sh_cfg s)) (sh_seen s)) \<and>
     (\<forall>t. pl_tools p = Some t \<longrightarrow> states_ok (tl_MaxEntries (tm_cfg t)) (tm_states t)) \<and>
     (\<forall>v. pl_velocity p = Some v \<longrightarrow> states_ok (vc_MaxEntries (vb_cfg v)) (vb_states v))"

text \<open>What a check does to each stage: either it runs there or the stage stays as it is.\<close>

lemma CheckPayload_parts:
  defines "p' env a fp body p \<equiv> snd (Pipeline_CheckPayload env a fp body p)"
  shows "pl_exact (p' env a fp body p) = snd (exact_at env a fp (pl_exact p))"
    and "pl_structural (p' env a fp body p) \<in> {pl_structural p, snd (structural_at env a body (pl_structural p))}"
    and "pl_tools (p' env a fp body p) \<in> {pl_tools p, snd (tools_at env a body (pl_tools p))}"
    and "pl_velocity (p' env a fp body p) \<in> {pl_velocity p, snd (velocity_at env a (tokens_for body p) (pl_velocity p))}"
    and "pl_estimate (p' env a fp body p) = pl_estimate p"
  unfolding p'_def
  by (simp_all add: CheckPayload_stages [OF prod.collapse prod.collapse prod.collapse prod.collapse])

text \<open>The inputs of the three optional stages, as their contracts take them.\<close>

abbreviation structural_input :: "stage_env \<Rightarrow> string \<Rightarrow> payload_input" where
  "structural_input env body \<equiv> (fst (se_structural env), snd (se_structural env), body)"

abbreviation tools_input :: "stage_env \<Rightarrow> string \<Rightarrow> payload_input" where
  "tools_input env body \<equiv> (fst (se_tools env), snd (se_tools env), body)"

abbreviation velocity_input_of :: "stage_env \<Rightarrow> int \<Rightarrow> velocity_input" where
  "velocity_input_of env n \<equiv> (fst (se_velocity env), snd (se_velocity env), n)"

abbreviation exact_input :: "stage_env \<Rightarrow> Fingerprint \<Rightarrow> time \<times> key range_order \<times> Fingerprint" where
  "exact_input env fp \<equiv> (fst (se_exact env), snd (se_exact env), fp)"


lemma pipeline_check_config:
  "pipeline_config (snd (Pipeline_CheckPayload env a fp body p)) = pipeline_config p"
  using CheckPayload_parts [of env a fp body p]
    structural.opt_stage(1) [of "pl_structural (snd (Pipeline_CheckPayload env a fp body p))" "pl_structural p" "structural_input env body" a]
    tools.opt_stage(1) [of "pl_tools (snd (Pipeline_CheckPayload env a fp body p))" "pl_tools p" "tools_input env body" a]
    velocity.opt_stage(1) [of "pl_velocity (snd (Pipeline_CheckPayload env a fp body p))" "pl_velocity p" "velocity_input_of env (tokens_for body p)" a]
  by (simp add: pipeline_config_def hash_config_def)

lemma pipeline_check_wf:
  assumes "pipeline_wf p"
  shows "pipeline_wf (snd (Pipeline_CheckPayload env a fp body p))"
proof -
  let ?p = "snd (Pipeline_CheckPayload env a fp body p)"
  note parts = CheckPayload_parts [of env a fp body p]
  have wf: "hash_wf (pl_exact p)"
      "\<And>s. pl_structural p = Some s \<Longrightarrow> states_ok (sc_MaxEntries (sh_cfg s)) (sh_seen s)"
      "\<And>t. pl_tools p = Some t \<Longrightarrow> states_ok (tl_MaxEntries (tm_cfg t)) (tm_states t)"
      "\<And>v. pl_velocity p = Some v \<Longrightarrow> states_ok (vc_MaxEntries (vb_cfg v)) (vb_states v)"
    using assms by (auto simp: pipeline_wf_def)
  have "hash_wf (pl_exact ?p)" unfolding parts(1) by (rule hash_wf_Check [OF wf(1)])
  moreover have "states_ok (sc_MaxEntries (sh_cfg s)) (sh_seen s)" if "pl_structural ?p = Some s" for s
    using structural.opt_stage(2) [of "pl_structural ?p" "pl_structural p" "structural_input env body" a] parts(2) wf(2) that by simp
  moreover have "states_ok (tl_MaxEntries (tm_cfg t)) (tm_states t)" if "pl_tools ?p = Some t" for t
    using tools.opt_stage(2) [of "pl_tools ?p" "pl_tools p" "tools_input env body" a] parts(3) wf(3) that by simp
  moreover have "states_ok (vc_MaxEntries (vb_cfg v)) (vb_states v)" if "pl_velocity ?p = Some v" for v
    using velocity.opt_stage(2) [of "pl_velocity ?p" "pl_velocity p" "velocity_input_of env (tokens_for body p)" a] parts(4) wf(4) that by simp
  ultimately show ?thesis by (simp add: pipeline_wf_def)
qed

lemma pipeline_check_forgets:
  assumes "pipeline_wf p" and "b \<noteq> a"
    and "pipeline_history (snd (Pipeline_CheckPayload env a fp body p)) b sl = Some m"
  shows "pipeline_history p b sl = Some m"
proof -
  let ?p = "snd (Pipeline_CheckPayload env a fp body p)"
  note parts = CheckPayload_parts [of env a fp body p]
  have wf: "hash_wf (pl_exact p)"
      "\<And>s. pl_structural p = Some s \<Longrightarrow> states_ok (sc_MaxEntries (sh_cfg s)) (sh_seen s)"
      "\<And>t. pl_tools p = Some t \<Longrightarrow> states_ok (tl_MaxEntries (tm_cfg t)) (tm_states t)"
      "\<And>v. pl_velocity p = Some v \<Longrightarrow> states_ok (vc_MaxEntries (vb_cfg v)) (vb_states v)"
    using assms(1) by (auto simp: pipeline_wf_def)
  show ?thesis
  proof (cases sl)
    case (SExact f)
    then obtain e where e: "m = MExact e" "gm_get (hd_seen (snd (exact_at env a fp (pl_exact p)))) (Key b f) = Some e"
      using assms(3) by (auto simp: parts(1) hash_history_def simp del: map_of_eq_Some_iff)
    have "gm_get (hd_seen (pl_exact p)) (Key b f) = Some e"
      by (rule gm_get_Check_other [OF wf(1) _ e(2)]) (use assms(2) in simp)
    then show ?thesis by (simp only: SExact pipeline_history.simps hash_history_def option.map e(1))
  next
    case SStructural
    then obtain s' e where e: "pl_structural ?p = Some s'" "gm_get (sh_seen s') b = Some e" "m = MStructural e"
      using assms(3) by (auto split: option.splits simp del: map_of_eq_Some_iff)
    have "\<exists>s. pl_structural p = Some s \<and> gm_get (sh_seen s) b = Some e"
      using structural.opt_stage(3) [of "pl_structural ?p" "pl_structural p" "structural_input env body" a b s' e] wf(2) assms(2) e(1,2) parts(2)
      by (simp del: map_of_eq_Some_iff)
    then show ?thesis using e(3) by (auto simp: SStructural simp del: map_of_eq_Some_iff)
  next
    case STools
    then obtain t' e where e: "pl_tools ?p = Some t'" "gm_get (tm_states t') b = Some e" "m = MTools e"
      using assms(3) by (auto split: option.splits simp del: map_of_eq_Some_iff)
    have "\<exists>t. pl_tools p = Some t \<and> gm_get (tm_states t) b = Some e"
      using tools.opt_stage(3) [of "pl_tools ?p" "pl_tools p" "tools_input env body" a b t' e] wf(3) assms(2) e(1,2) parts(3)
      by (simp del: map_of_eq_Some_iff)
    then show ?thesis using e(3) by (auto simp: STools simp del: map_of_eq_Some_iff)
  next
    case SVelocity
    then obtain v' e where e: "pl_velocity ?p = Some v'" "gm_get (vb_states v') b = Some e" "m = MVelocity e"
      using assms(3) by (auto split: option.splits simp del: map_of_eq_Some_iff)
    have "\<exists>v. pl_velocity p = Some v \<and> gm_get (vb_states v) b = Some e"
      using velocity.opt_stage(3) [of "pl_velocity ?p" "pl_velocity p" "velocity_input_of env (tokens_for body p)" a b v' e] wf(4) assms(2) e(1,2) parts(4)
      by (simp del: map_of_eq_Some_iff)
    then show ?thesis using e(3) by (auto simp: SVelocity simp del: map_of_eq_Some_iff)
  qed
qed

lemma Pipeline_Reset_stages:
  "Pipeline_Reset ord a p =
    (fst (HashDetector_Reset ord a (pl_exact p)) + fst (opt_reset (StructuralHasher_Reset a) (pl_structural p)) +
       fst (opt_reset (ToolMatcher_Reset a) (pl_tools p)) + fst (opt_reset (VelocityBreaker_Reset a) (pl_velocity p)),
     p\<lparr>pl_exact := snd (HashDetector_Reset ord a (pl_exact p)),
       pl_structural := snd (opt_reset (StructuralHasher_Reset a) (pl_structural p)),
       pl_tools := snd (opt_reset (ToolMatcher_Reset a) (pl_tools p)),
       pl_velocity := snd (opt_reset (VelocityBreaker_Reset a) (pl_velocity p))\<rparr>)"
  by (rule Pipeline_Reset_eq) simp_all

lemma pipeline_reset_config: "pipeline_config (snd (Pipeline_Reset ord a p)) = pipeline_config p"
  using structural.opt_reset_stage(1) [OF prod.collapse, of a "pl_structural p"]
    tools.opt_reset_stage(1) [OF prod.collapse, of a "pl_tools p"]
    velocity.opt_reset_stage(1) [OF prod.collapse, of a "pl_velocity p"]
  by (simp add: Pipeline_Reset_stages pipeline_config_def hash_config_def)

lemma pipeline_reset_wf:
  assumes "pipeline_wf p"
  shows "pipeline_wf (snd (Pipeline_Reset ord a p))"
  using assms hash_wf_Reset [of "pl_exact p" ord a]
    structural.opt_reset_stage(2) [OF prod.collapse, of "pl_structural p" a]
    tools.opt_reset_stage(2) [OF prod.collapse, of "pl_tools p" a]
    velocity.opt_reset_stage(2) [OF prod.collapse, of "pl_velocity p" a]
  by (simp add: Pipeline_Reset_stages pipeline_wf_def)

lemma opt_history:
  "map_option g os' = map_option g0 os \<Longrightarrow>
   (case os' of None \<Rightarrow> None | Some s \<Rightarrow> map_option M (g s)) = (case os of None \<Rightarrow> None | Some s \<Rightarrow> map_option M (g0 s))"
  by (cases os; cases os') simp_all

lemma pipeline_reset_history:
  "pipeline_history (snd (Pipeline_Reset ord a p)) b sl = (if b = a then None else pipeline_history p b sl)"
proof (cases sl)
  case (SExact f)
  then show ?thesis by (simp add: Pipeline_Reset_stages hash_history_def)
next
  case SStructural
  have "(case snd (opt_reset (StructuralHasher_Reset a) (pl_structural p)) of None \<Rightarrow> None | Some s \<Rightarrow> map_option MStructural (gm_get (sh_seen s) b))
      = (case pl_structural p of None \<Rightarrow> None | Some s \<Rightarrow> map_option MStructural (if b = a then None else gm_get (sh_seen s) b))"
    by (rule opt_history) (rule structural.opt_reset_stage(3) [OF prod.collapse])
  then show ?thesis by (simp add: SStructural Pipeline_Reset_stages split: option.split)
next
  case STools
  have "(case snd (opt_reset (ToolMatcher_Reset a) (pl_tools p)) of None \<Rightarrow> None | Some s \<Rightarrow> map_option MTools (gm_get (tm_states s) b))
      = (case pl_tools p of None \<Rightarrow> None | Some s \<Rightarrow> map_option MTools (if b = a then None else gm_get (tm_states s) b))"
    by (rule opt_history) (rule tools.opt_reset_stage(3) [OF prod.collapse])
  then show ?thesis by (simp add: STools Pipeline_Reset_stages split: option.split)
next
  case SVelocity
  have "(case snd (opt_reset (VelocityBreaker_Reset a) (pl_velocity p)) of None \<Rightarrow> None | Some s \<Rightarrow> map_option MVelocity (gm_get (vb_states s) b))
      = (case pl_velocity p of None \<Rightarrow> None | Some s \<Rightarrow> map_option MVelocity (if b = a then None else gm_get (vb_states s) b))"
    by (rule opt_history) (rule velocity.opt_reset_stage(3) [OF prod.collapse])
  then show ?thesis by (simp add: SVelocity Pipeline_Reset_stages split: option.split)
qed

lemma inj_map_option_eq: "inj M \<Longrightarrow> map_option M x = map_option M y \<Longrightarrow> x = y"
  by (metis option.inj_map_strong injD)

lemma pipeline_verdict_local:
  assumes "pipeline_wf p" and "pipeline_wf q" and cfg: "pipeline_config p = pipeline_config q"
    and hist: "pipeline_history p a = pipeline_history q a"
  shows "fst (Pipeline_CheckPayload env a fp body p) = fst (Pipeline_CheckPayload env a fp body q)"
proof -
  have h: "pipeline_history p a sl = pipeline_history q a sl" for sl using hist by simp
  have "hash_history (pl_exact p) a f = hash_history (pl_exact q) a f" for f
    using h [of "SExact f"] by (intro inj_map_option_eq [of MExact]) (simp_all add: inj_def)
  then have "fst (exact_at env a fp (pl_exact p)) = fst (exact_at env a fp (pl_exact q))"
    using hash.verdict_local [of "pl_exact p" "pl_exact q" a "exact_input env fp"] assms(1,2) cfg
    by (simp add: pipeline_wf_def pipeline_config_def fun_eq_iff)
  moreover have "fst (structural_at env a body (pl_structural p)) = fst (structural_at env a body (pl_structural q))"
  proof (rule structural.opt_verdict [of _ _ a "structural_input env body", simplified])
    show "map_option sh_cfg (pl_structural p) = map_option sh_cfg (pl_structural q)"
      using cfg by (simp add: pipeline_config_def)
    show "gm_get (sh_seen s) a = gm_get (sh_seen s') a" if "pl_structural p = Some s" "pl_structural q = Some s'" for s s'
      using h [of SStructural] that by (intro inj_map_option_eq [of MStructural]) (simp_all add: inj_def)
  qed
  moreover have "fst (tools_at env a body (pl_tools p)) = fst (tools_at env a body (pl_tools q))"
  proof (rule tools.opt_verdict [of _ _ a "tools_input env body", simplified])
    show "map_option tm_cfg (pl_tools p) = map_option tm_cfg (pl_tools q)"
      using cfg by (simp add: pipeline_config_def)
    show "gm_get (tm_states s) a = gm_get (tm_states s') a" if "pl_tools p = Some s" "pl_tools q = Some s'" for s s'
      using h [of STools] that by (intro inj_map_option_eq [of MTools]) (simp_all add: inj_def)
  qed
  moreover have "tokens_for body p = tokens_for body q"
    using cfg by (simp add: tokens_for_def Pipeline_estimateTokens_def pipeline_config_def)
  moreover have "fst (velocity_at env a (tokens_for body q) (pl_velocity p)) = fst (velocity_at env a (tokens_for body q) (pl_velocity q))"
  proof (rule velocity.opt_verdict [of _ _ a "velocity_input_of env (tokens_for body q)", simplified])
    show "map_option vb_cfg (pl_velocity p) = map_option vb_cfg (pl_velocity q)"
      using cfg by (simp add: pipeline_config_def)
    show "gm_get (vb_states s) a = gm_get (vb_states s') a" if "pl_velocity p = Some s" "pl_velocity q = Some s'" for s s'
      using h [of SVelocity] that by (intro inj_map_option_eq [of MVelocity]) (simp_all add: inj_def)
  qed
  ultimately show ?thesis
    by (simp add: CheckPayload_stages [OF prod.collapse prod.collapse prod.collapse prod.collapse])
qed

interpretation pipeline: agent_scoped
  "\<lambda>(env, fp, body) a. Pipeline_CheckPayload env a fp body" "Pipeline_Reset ord"
  pipeline_history pipeline_config pipeline_wf
  for ord
proof (unfold_locales, goal_cases)
  case (5 s b a x)
  obtain env fp body where x: "x = (env, fp, body)" by (cases x)
  have "pipeline_history (snd (Pipeline_CheckPayload env a fp body s)) b sl = pipeline_history s b sl"
    if "sl \<in> dom (pipeline_history (snd (Pipeline_CheckPayload env a fp body s)) b)" for sl
    using that pipeline_check_forgets [OF 5(1,2)] by (metis domD)
  then show ?case by (simp add: map_le_def x)
next
  case (8 s s' a x)
  show ?case using pipeline_verdict_local [OF 8] by (cases x) simp
qed (auto simp: pipeline_check_wf pipeline_reset_wf pipeline_check_config pipeline_reset_config
    pipeline_reset_history fun_eq_iff)

section \<open>Properties\<close>

text \<open>
  The pipeline's decision: the verdict is that of the first of the four stages (exact, structural,
  tools, velocity) that blocks, ``proceed'' when none does; every stage up to that one has recorded the
  request and every stage behind it is untouched, so a request that one detector blocks leaves no trace
  in the histories of the ones behind it.
\<close>

theorem pipeline_first_block_wins:
  assumes "(r1, d) = exact_at env a fp (pl_exact p)" and "(r2, s) = structural_at env a body (pl_structural p)"
    and "(r3, t) = tools_at env a body (pl_tools p)"
    and "(r4, v) = velocity_at env a (Pipeline_estimateTokens body p) (pl_velocity p)"
    and "k = length (takeWhile (\<lambda>r. \<not> cr_Block r) [r1, r2, r3, r4])"
  shows "fst (Pipeline_CheckPayload env a fp body p) = ([r1, r2, r3, r4] @ [CheckResult_zero]) ! k \<and>
    snd (Pipeline_CheckPayload env a fp body p) =
      p\<lparr>pl_exact := d, pl_structural := (if 1 \<le> k then s else pl_structural p),
        pl_tools := (if 2 \<le> k then t else pl_tools p), pl_velocity := (if 3 \<le> k then v else pl_velocity p)\<rparr>"
proof -
  have k: "k = (if cr_Block r1 then 0 else if cr_Block r2 then 1 else if cr_Block r3 then 2 else if cr_Block r4 then 3 else 4)"
    by (simp add: assms(5))
  show ?thesis
    unfolding CheckPayload_stages [OF assms(1-3) assms(4) [folded tokens_for_def]] k
    by (cases p) simp
qed

definition small_pipeline :: Pipeline where
  "small_pipeline = NewPipeline (NewHashDetector Minute 2) [WithVelocity (NewVelocityBreaker velocity_config0)]"

definition env0 :: stage_env where
  "env0 = \<lparr>se_exact = (1, in_order), se_structural = (1, in_order), se_tools = (1, in_order), se_velocity = (1, in_order)\<rparr>"

lemma small_pipeline_eq:
  "small_pipeline = \<lparr>pl_exact = NewHashDetector Minute 2, pl_structural = None, pl_tools = None,
     pl_velocity = Some (NewVelocityBreaker velocity_config0), pl_estimate = None\<rparr>"
  by (simp add: small_pipeline_def NewPipeline_def WithVelocity_def)

lemma small_pipeline_wf: "pipeline_wf small_pipeline"
  by (simp add: pipeline_wf_def small_pipeline_eq hash_wf_New states_ok_def default_config)

theorem pipeline_first_block_wins_witness:
  "pl_exact (snd (Pipeline_CheckPayload env0 ''a'' ''x'' ''hello'' small_pipeline))
     = snd (HashDetector_Check 1 in_order ''a'' ''x'' (NewHashDetector Minute 2))"
  using conjunct2 [OF pipeline_first_block_wins [OF prod.collapse prod.collapse prod.collapse prod.collapse refl,
      where env = env0 and a = "''a''" and fp = "''x''" and p = small_pipeline and body = "''hello''"]]
  by (simp add: small_pipeline_eq env0_def)

text \<open>
  C15. \<^verbatim>\<open>DELETE /v1/agent/{id}/history\<close> on the whole pipeline: it removes and counts what
  all four stages remember of the agent, after it the agent is judged exactly as one that a pipeline of
  the same configuration has never seen, and the next verdict on every other agent is what it would
  have been without it.
\<close>

theorem pipeline_reset_fresh:
  assumes "pipeline_wf p"
  shows "pipeline_history (snd (Pipeline_Reset ord a p)) a = Map.empty \<and>
    (\<forall>q env fp body. pipeline_wf q \<and> pipeline_config q = pipeline_config p \<and> pipeline_history q a = Map.empty \<longrightarrow>
       fst (Pipeline_CheckPayload env a fp body (snd (Pipeline_Reset ord a p))) = fst (Pipeline_CheckPayload env a fp body q)) \<and>
    (\<forall>b env fp body. b \<noteq> a \<longrightarrow>
       fst (Pipeline_CheckPayload env b fp body (snd (Pipeline_Reset ord a p))) = fst (Pipeline_CheckPayload env b fp body p))"
  using pipeline.reset_clears [OF assms] pipeline.reset_then_fresh [OF assms] pipeline.reset_isolated [OF assms]
  by (metis (mono_tags, lifting) case_prod_conv)

theorem pipeline_reset_fresh_witness:
  "pipeline_history (snd (Pipeline_Reset in_order ''a'' small_pipeline)) ''a'' = Map.empty"
  using pipeline_reset_fresh [OF small_pipeline_wf] by blast

text \<open>
  Agents share nothing but capacity: a check by one agent leaves the next verdict on another agent
  as it was, unless it made one of the stages evict part of that agent's history; it never adds to or
  alters it.
\<close>

theorem pipeline_agents_isolated:
  assumes "pipeline_wf p" and "b \<noteq> a"
  shows "pipeline_history (snd (Pipeline_CheckPayload env a fp body p)) b \<subseteq>\<^sub>m pipeline_history p b \<and>
    (dom (pipeline_history p b) \<subseteq> dom (pipeline_history (snd (Pipeline_CheckPayload env a fp body p)) b) \<longrightarrow>
      fst (Pipeline_CheckPayload env' b fp' body' (snd (Pipeline_CheckPayload env a fp body p)))
        = fst (Pipeline_CheckPayload env' b fp' body' p))"
  using pipeline.check_forgets [OF assms, of "(env, fp, body)"]
    pipeline.check_isolated [OF assms, of "(env, fp, body)" "(env', fp', body')"] by auto

theorem pipeline_agents_isolated_witness:
  "pipeline_history (snd (Pipeline_CheckPayload env0 ''a'' ''x'' ''hello'' small_pipeline)) ''b'' \<subseteq>\<^sub>m pipeline_history small_pipeline ''b''"
  using pipeline_agents_isolated [OF small_pipeline_wf, of "''b''" "''a''"] by simp

end
