(* ===== verification/Price_Table.thy ===== *)
theory Price_Table
  imports Go_Map Go_Float Go_JSON
begin

text \<open>
  The price table and the cost arithmetic (\<^verbatim>\<open>pkg/pricing/calculator.go\<close>,
  \<^verbatim>\<open>table.go\<close> and the conversion of dollar prices shared by
  \<^verbatim>\<open>load.go\<close> and \<^verbatim>\<open>fetcher.go\<close>). Money is integer
  micro-dollars; the only floating-point steps are the conversion of a price and the token estimate.
\<close>

section \<open>Definitions\<close>

definition MicroUSDPerUSD :: int where "MicroUSDPerUSD = 1000000"
definition defaultCharsPerToken :: float64 where "defaultCharsPerToken = Fin 4"
definition maxUSDPer1M :: float64 where "maxUSDPer1M = Fin 1000"

record ModelPrice =
  mp_InputUSD :: int
  mp_OutputUSD :: int

definition ModelPrice_zero :: ModelPrice where
  "ModelPrice_zero = \<lparr>mp_InputUSD = 0, mp_OutputUSD = 0\<rparr>"

record Pricing =
  pr_assumedCompletionTokens :: int
  pr_PromptEstimationCharsPerToken :: float64
  pr_models :: "(string, ModelPrice) gomap"
  pr_def :: ModelPrice

definition hasPrefix :: "string \<Rightarrow> string \<Rightarrow> bool" where
  "hasPrefix s pre \<longleftrightarrow> length s \<ge> length pre \<and> take (length pre) s = pre"

definition Pricing_PriceFor :: "string range_order \<Rightarrow> string \<Rightarrow> Pricing \<Rightarrow> ModelPrice \<times> bool" where
  "Pricing_PriceFor ord model p =
     (case gm_get (pr_models p) model of
        Some mp \<Rightarrow> (mp, True)
      | None \<Rightarrow>
          let best = fold (\<lambda>key best. if length key > length best \<and> hasPrefix model key then key else best)
                       (range_over ord (gm_keys (pr_models p))) ''''
          in if best \<noteq> ''''
             then (case gm_get (pr_models p) best of Some mp \<Rightarrow> mp | None \<Rightarrow> ModelPrice_zero, True)
             else (pr_def p, False))"

definition Cost :: "ModelPrice \<Rightarrow> int \<Rightarrow> int \<Rightarrow> int" where
  "Cost mp promptTok completionTok =
     go_quot (wrap64 (wrap64 (promptTok * mp_InputUSD mp) + wrap64 (completionTok * mp_OutputUSD mp))) MicroUSDPerUSD"

definition ExtractModel :: "string \<Rightarrow> string" where
  "ExtractModel body =
     (case unmarshal (store_struct [(''model'', store_string)]) '''' body of
        None \<Rightarrow> ''''
      | Some m \<Rightarrow> m)"

definition estimateTokens :: "int \<Rightarrow> float64 \<Rightarrow> int" where
  "estimateTokens chars charsPerToken =
     (let charsPerToken = (if f64_le charsPerToken (Fin 0) then defaultCharsPerToken else charsPerToken)
      in if chars \<le> 0 then 0
         else f64_to_int (f64_ceil (f64_div (f64_of_int chars) charsPerToken)))"

definition EstimatePromptTokens :: "string \<Rightarrow> int" where
  "EstimatePromptTokens body = estimateTokens (int (length body)) defaultCharsPerToken"

definition Pricing_EstimatePromptTokens :: "string \<Rightarrow> Pricing \<Rightarrow> int" where
  "Pricing_EstimatePromptTokens body p = estimateTokens (int (length body)) (pr_PromptEstimationCharsPerToken p)"

definition Pricing_SavedCost :: "string range_order \<Rightarrow> string \<Rightarrow> Pricing \<Rightarrow> int" where
  "Pricing_SavedCost ord body p =
     (let (mp, _) = Pricing_PriceFor ord (ExtractModel body) p
      in Cost mp (Pricing_EstimatePromptTokens body p) (pr_assumedCompletionTokens p))"

definition Pricing_AssumedCompletionTokens :: "Pricing \<Rightarrow> int" where
  "Pricing_AssumedCompletionTokens p = pr_assumedCompletionTokens p"

text \<open>The copy loop: a new map with the entries in the order of the iteration.\<close>

definition Pricing_Models :: "string range_order \<Rightarrow> Pricing option \<Rightarrow> (string, ModelPrice) gomap option" where
  "Pricing_Models ord p =
     (case p of
        None \<Rightarrow> None
      | Some p \<Rightarrow> Some (fold (\<lambda>(k, v) out. gm_set out k v) (range_entries ord (pr_models p)) []))"

definition Build :: "(string, ModelPrice) gomap option \<Rightarrow> ModelPrice \<Rightarrow> int \<Rightarrow> float64 \<Rightarrow> Pricing" where
  "Build models def assumed chars =
     (let chars = (if f64_le chars (Fin 0) then defaultCharsPerToken else chars);
          models = (case models of None \<Rightarrow> [] | Some m \<Rightarrow> m)
      in \<lparr>pr_assumedCompletionTokens = assumed, pr_PromptEstimationCharsPerToken = chars, pr_models = models, pr_def = def\<rparr>)"

definition Pricing_Default :: "Pricing option \<Rightarrow> ModelPrice" where
  "Pricing_Default p = (case p of None \<Rightarrow> ModelPrice_zero | Some p \<Rightarrow> pr_def p)"

text \<open>\<open>None\<close> is \<^verbatim>\<open>ok = false\<close>.\<close>

definition toMicroUSDPer1M :: "float64 \<Rightarrow> int option" where
  "toMicroUSDPer1M v =
     (if v = NaN \<or> v = PosInf \<or> v = NegInf then None
      else if f64_lt v (Fin 0) then None
      else if f64_lt maxUSDPer1M v then None
      else Some (f64_to_int (f64_round (f64_mul v (f64_of_int MicroUSDPerUSD)))))"

section \<open>The longest matching key\<close>

text \<open>The nonempty configured keys that are a prefix of the model.\<close>

definition prefix_keys :: "(string, ModelPrice) gomap \<Rightarrow> string \<Rightarrow> string set" where
  "prefix_keys m model = {k \<in> set (gm_keys m). k \<noteq> '''' \<and> hasPrefix model k}"

lemma hasPrefix_eq: "hasPrefix s k \<Longrightarrow> hasPrefix s k' \<Longrightarrow> length k = length k' \<Longrightarrow> k = k'"
  by (metis hasPrefix_def)

lemma best_scan:
  fixes keys :: "string list" and model :: string
  defines "step \<equiv> \<lambda>key best. if length key > length best \<and> hasPrefix model key then key else best"
  shows "fold step keys best = best \<and> (\<forall>k\<in>set keys. hasPrefix model k \<longrightarrow> length k \<le> length best) \<or>
    fold step keys best \<in> set keys \<and> hasPrefix model (fold step keys best) \<and> length best < length (fold step keys best) \<and>
    (\<forall>k\<in>set keys. hasPrefix model k \<longrightarrow> length k \<le> length (fold step keys best))"
proof (induction keys arbitrary: best)
  case (Cons k keys)
  show ?case using Cons [of "step k best"] by (auto simp: step_def)
qed simp

lemma PriceFor_cases:
  assumes "gm_ok (pr_models p)" and "gm_get (pr_models p) model = None"
  shows "prefix_keys (pr_models p) model = {} \<Longrightarrow> Pricing_PriceFor ord model p = (pr_def p, False)"
    and "k \<in> prefix_keys (pr_models p) model \<Longrightarrow> \<forall>k'\<in>prefix_keys (pr_models p) model. length k' \<le> length k \<Longrightarrow>
         gm_get (pr_models p) k = Some mp \<Longrightarrow> Pricing_PriceFor ord model p = (mp, True)"
proof -
  let ?keys = "range_over ord (gm_keys (pr_models p))"
  define best where "best = fold (\<lambda>key best. if length key > length best \<and> hasPrefix model key then key else best) ?keys ''''"
  have scan: "best = '''' \<and> (\<forall>k\<in>set ?keys. hasPrefix model k \<longrightarrow> k = '''') \<or>
      best \<in> set ?keys \<and> hasPrefix model best \<and> best \<noteq> '''' \<and> (\<forall>k\<in>set ?keys. hasPrefix model k \<longrightarrow> length k \<le> length best)"
    using best_scan [of model ?keys "''''", folded best_def] by simp
  have pk: "k \<in> prefix_keys (pr_models p) model \<longleftrightarrow> k \<in> set ?keys \<and> k \<noteq> '''' \<and> hasPrefix model k" for k
    by (simp add: prefix_keys_def)
  have price: "Pricing_PriceFor ord model p =
      (if best \<noteq> '''' then (case gm_get (pr_models p) best of Some mp \<Rightarrow> mp | None \<Rightarrow> ModelPrice_zero, True) else (pr_def p, False))"
    using assms(2) by (simp add: Pricing_PriceFor_def best_def Let_def)
  show "Pricing_PriceFor ord model p = (pr_def p, False)" if "prefix_keys (pr_models p) model = {}"
  proof -
    have "best \<notin> prefix_keys (pr_models p) model" using that by simp
    then have "best = ''''" using scan unfolding pk by blast
    then show ?thesis by (simp add: price)
  qed
  show "Pricing_PriceFor ord model p = (mp, True)"
    if k: "k \<in> prefix_keys (pr_models p) model" and longest: "\<forall>k'\<in>prefix_keys (pr_models p) model. length k' \<le> length k"
      and mp: "gm_get (pr_models p) k = Some mp"
  proof -
    have k': "k \<in> set ?keys" "k \<noteq> ''''" "hasPrefix model k" using k unfolding pk by blast+
    then have b: "best \<in> set ?keys" "hasPrefix model best" "best \<noteq> ''''" "length k \<le> length best"
      using scan by blast+
    then have "best \<in> prefix_keys (pr_models p) model" unfolding pk by blast
    then have "length best = length k" using b(4) longest by (simp add: le_antisym)
    then have "best = k" using b(2) k'(3) by (intro hasPrefix_eq)
    then show ?thesis using mp k'(2) by (simp add: price del: map_of_eq_Some_iff)
  qed
qed

section \<open>Exact arithmetic\<close>

lemma Cost_exact:
  assumes "0 \<le> mp_InputUSD mp" "0 \<le> mp_OutputUSD mp" "0 \<le> pt" "0 \<le> ct"
    and "pt * mp_InputUSD mp + ct * mp_OutputUSD mp \<le> int64_max"
  shows "Cost mp pt ct = (pt * mp_InputUSD mp + ct * mp_OutputUSD mp) div 1000000"
proof -
  have "0 \<le> pt * mp_InputUSD mp" "0 \<le> ct * mp_OutputUSD mp" using assms by simp_all
  then have "is_int64 (pt * mp_InputUSD mp)" "is_int64 (ct * mp_OutputUSD mp)"
      "is_int64 (pt * mp_InputUSD mp + ct * mp_OutputUSD mp)"
    using assms(5) by (simp_all add: is_int64_def int64_bounds)
  then show ?thesis
    using \<open>0 \<le> pt * mp_InputUSD mp\<close> \<open>0 \<le> ct * mp_OutputUSD mp\<close>
    by (simp add: Cost_def wrap64_id go_quot_nonneg MicroUSDPerUSD_def)
qed

lemma estimateTokens_four:
  assumes "0 \<le> n" and "n \<le> 2 ^ 53"
  shows "estimateTokens n defaultCharsPerToken = (n + 3) div 4"
proof (cases "n = 0")
  case False
  have "round64 (of_int n / 4) = Fin (of_int n / 4)" using assms by (intro round64_quarter) simp
  moreover have "f64_of_int n = Fin (of_int n)" using assms by (intro f64_of_int_exact) simp
  moreover have "\<lceil>of_int n / 4 :: rat\<rceil> = (n + 3) div 4"
  proof -
    have "(of_int n / 4 :: rat) \<le> of_int ((n + 3) div 4)"
    proof -
      have "n \<le> 4 * ((n + 3) div 4)" by simp
      then have "(of_int n :: rat) \<le> of_int (4 * ((n + 3) div 4))" by (simp only: of_int_le_iff)
      then show ?thesis by simp
    qed
    moreover have "of_int ((n + 3) div 4) - 1 < (of_int n / 4 :: rat)"
    proof -
      have "4 * ((n + 3) div 4 - 1) < n" by simp
      then have "(of_int (4 * ((n + 3) div 4 - 1)) :: rat) < of_int n" by (simp only: of_int_less_iff)
      then show ?thesis by simp
    qed
    ultimately show ?thesis by (simp add: ceiling_eq_iff)
  qed
  moreover have nonneg: "0 \<le> (n + 3) div 4" and "(n + 3) div 4 \<le> n + 3" using assms by linarith+
  moreover from this have "is_int64 ((n + 3) div 4)" using assms by (simp add: is_int64_iff)
  ultimately show ?thesis
    using False assms
    by (simp add: estimateTokens_def Let_def defaultCharsPerToken_def f64_le_def trunc_rat_def)
qed (simp add: estimateTokens_def Let_def)

lemma longest_prefix_key:
  assumes "prefix_keys m model \<noteq> {}"
  obtains k where "k \<in> prefix_keys m model" and "\<forall>k'\<in>prefix_keys m model. length k' \<le> length k"
proof -
  have fin: "finite (length ` prefix_keys m model)" by (simp add: prefix_keys_def)
  then have "Max (length ` prefix_keys m model) \<in> length ` prefix_keys m model" using assms by (intro Max_in) auto
  then obtain k where k: "k \<in> prefix_keys m model" "length k = Max (length ` prefix_keys m model)" by auto
  have "\<forall>k'\<in>prefix_keys m model. length k' \<le> length k"
    unfolding k(2) using fin by (intro ballI Max_ge) auto
  with k(1) show thesis by (rule that)
qed

text \<open>A lookup answers a price of the table or the default.\<close>

lemma PriceFor_source:
  assumes "gm_ok (pr_models p)"
  shows "fst (Pricing_PriceFor ord model p) = pr_def p \<or> (\<exists>k. gm_get (pr_models p) k = Some (fst (Pricing_PriceFor ord model p)))"
proof (cases "gm_get (pr_models p) model")
  case None
  show ?thesis
  proof (cases "prefix_keys (pr_models p) model = {}")
    case True
    then show ?thesis using PriceFor_cases(1) [OF assms None] by simp
  next
    case False
    then obtain k where k: "k \<in> prefix_keys (pr_models p) model" "\<forall>k'\<in>prefix_keys (pr_models p) model. length k' \<le> length k"
      by (rule longest_prefix_key)
    then obtain mp where mp: "gm_get (pr_models p) k = Some mp"
      by (cases "gm_get (pr_models p) k") (auto simp: prefix_keys_def gm_get_None_iff)
    then have "Pricing_PriceFor ord model p = (mp, True)" by (rule PriceFor_cases(2) [OF assms None k])
    then show ?thesis using mp by auto
  qed
next
  case (Some mp)
  then show ?thesis by (auto simp: Pricing_PriceFor_def)
qed

lemma round64_int_between:
  assumes "0 \<le> x" and "x \<le> 2 ^ 52"
  obtains y where "round64 x = Fin y" and "of_int \<lfloor>x\<rfloor> \<le> y" and "y \<le> of_int \<lceil>x\<rceil>"
proof -
  have f: "0 \<le> \<lfloor>x\<rfloor>" "\<lceil>x\<rceil> \<le> 2 ^ 52" using assms by (simp_all add: ceiling_le_iff)
  have "\<lfloor>x\<rfloor> \<le> \<lceil>x\<rceil>" by (simp add: floor_le_ceiling)
  then have "round64 (of_int \<lfloor>x\<rfloor>) = Fin (of_int \<lfloor>x\<rfloor>)" "round64 (of_int \<lceil>x\<rceil>) = Fin (of_int \<lceil>x\<rceil>)"
    using f by (simp_all add: round64_int)
  then show thesis
    by (rule round64_between [where x = x]) (use that in \<open>simp_all add: of_int_floor_le le_of_int_ceiling\<close>)
qed

section \<open>Properties\<close>

text \<open>
  C16. Price lookup is deterministic: whatever the order of the map iteration, a model resolves to its
  exact key, else to the longest configured nonempty key that is a prefix of it, else to the default
  (and only then is \<^verbatim>\<open>ok\<close> false).
\<close>

theorem price_for_longest_prefix:
  assumes "gm_ok (pr_models p)"
  shows "(\<forall>mp. gm_get (pr_models p) model = Some mp \<longrightarrow> Pricing_PriceFor ord model p = (mp, True)) \<and>
    (gm_get (pr_models p) model = None \<and> prefix_keys (pr_models p) model = {} \<longrightarrow>
       Pricing_PriceFor ord model p = (pr_def p, False)) \<and>
    (\<forall>k mp. gm_get (pr_models p) model = None \<and> k \<in> prefix_keys (pr_models p) model \<and>
       (\<forall>k'\<in>prefix_keys (pr_models p) model. length k' \<le> length k) \<and> gm_get (pr_models p) k = Some mp \<longrightarrow>
       Pricing_PriceFor ord model p = (mp, True)) \<and>
    Pricing_PriceFor ord model p = Pricing_PriceFor ord' model p"
proof (intro conjI allI impI)
  fix mp assume "gm_get (pr_models p) model = Some mp"
  then show "Pricing_PriceFor ord model p = (mp, True)" by (simp add: Pricing_PriceFor_def del: map_of_eq_Some_iff)
next
  show "Pricing_PriceFor ord model p = Pricing_PriceFor ord' model p"
  proof (cases "gm_get (pr_models p) model")
    case None
    show ?thesis
    proof (cases "prefix_keys (pr_models p) model = {}")
      case True
      then show ?thesis by (simp only: PriceFor_cases(1) [OF assms None True])
    next
      case False
      then obtain k where k: "k \<in> prefix_keys (pr_models p) model" "\<forall>k'\<in>prefix_keys (pr_models p) model. length k' \<le> length k"
        by (rule longest_prefix_key)
      then have "k \<in> set (gm_keys (pr_models p))" by (simp add: prefix_keys_def)
      then obtain mp where mp: "gm_get (pr_models p) k = Some mp"
        using gm_get_None_iff [of "pr_models p" k] by blast
      show ?thesis by (simp only: PriceFor_cases(2) [OF assms None k mp])
    qed
  qed (simp add: Pricing_PriceFor_def)
qed (use PriceFor_cases [OF assms] in blast)+

definition example_table :: Pricing where
  "example_table = Build (Some [(''gpt-4'', \<lparr>mp_InputUSD = 30000000, mp_OutputUSD = 60000000\<rparr>),
      (''gpt-4o'', \<lparr>mp_InputUSD = 2500000, mp_OutputUSD = 10000000\<rparr>)]) \<lparr>mp_InputUSD = 1000000, mp_OutputUSD = 2000000\<rparr> 0 (Fin 4)"

theorem price_for_longest_prefix_witness:
  "Pricing_PriceFor in_reverse ''gpt-4o-mini'' example_table = (\<lparr>mp_InputUSD = 2500000, mp_OutputUSD = 10000000\<rparr>, True) \<and>
   Pricing_PriceFor in_reverse ''gpt-4o-mini'' example_table = Pricing_PriceFor in_order ''gpt-4o-mini'' example_table"
proof -
  have "gm_ok (pr_models example_table)" by (simp add: example_table_def Build_def Let_def)
  note this = price_for_longest_prefix [OF this, of "''gpt-4o-mini''" in_reverse in_order]
  moreover have "Pricing_PriceFor in_order ''gpt-4o-mini'' example_table = (\<lparr>mp_InputUSD = 2500000, mp_OutputUSD = 10000000\<rparr>, True)"
    by (simp add: Pricing_PriceFor_def example_table_def Build_def hasPrefix_def Let_def)
  ultimately show ?thesis by metis
qed

text \<open>
  Costs are exact: for prices within the sanity cap and up to nine billion tokens the 64-bit
  computation does not overflow and the cost is the exact sum divided by a million, rounded down; it is
  never negative.
\<close>

theorem cost_is_exact:
  assumes "0 \<le> mp_InputUSD mp" "mp_InputUSD mp \<le> 1000000000" "0 \<le> mp_OutputUSD mp" "mp_OutputUSD mp \<le> 1000000000"
    and "0 \<le> pt" "0 \<le> ct" "pt + ct \<le> 9000000000"
  shows "Cost mp pt ct = (pt * mp_InputUSD mp + ct * mp_OutputUSD mp) div 1000000 \<and> 0 \<le> Cost mp pt ct"
proof -
  have "pt * mp_InputUSD mp + ct * mp_OutputUSD mp \<le> pt * 1000000000 + ct * 1000000000"
    using assms by (intro add_mono mult_left_mono) simp_all
  also have "\<dots> \<le> int64_max" using assms(7) by (simp add: int64_bounds)
  finally have "Cost mp pt ct = (pt * mp_InputUSD mp + ct * mp_OutputUSD mp) div 1000000"
    using assms by (intro Cost_exact) simp_all
  moreover have "0 \<le> pt * mp_InputUSD mp + ct * mp_OutputUSD mp" using assms by simp
  ultimately show ?thesis by (simp add: pos_imp_zdiv_nonneg_iff)
qed

theorem cost_is_exact_witness: "Cost \<lparr>mp_InputUSD = 2500000, mp_OutputUSD = 10000000\<rparr> 1000 500 = 7500"
  using cost_is_exact [of "\<lparr>mp_InputUSD = 2500000, mp_OutputUSD = 10000000\<rparr>" 1000 500] by simp

lemma toMicro_bounds:
  assumes "toMicroUSDPer1M v = Some m"
  obtains x where "v = Fin x" "0 \<le> x" "x \<le> 1000" "\<lfloor>x * 1000000\<rfloor> \<le> m" "m \<le> \<lceil>x * 1000000\<rceil>" "0 \<le> m" "m \<le> 1000000000"
proof -
  obtain x where v: "v = Fin x" and x: "0 \<le> x" "x \<le> 1000"
    using assms by (cases v) (auto simp: toMicroUSDPer1M_def maxUSDPer1M_def split: if_splits)
  let ?x = "x * 1000000"
  have b: "0 \<le> ?x" "?x \<le> 1000000000" using x by simp_all
  then have "?x \<le> 2 ^ 52" by (simp add: order_trans)
  with b(1) obtain y where y: "round64 ?x = Fin y" "of_int \<lfloor>?x\<rfloor> \<le> y" "y \<le> of_int \<lceil>?x\<rceil>"
    by (rule round64_int_between)
  have cb: "0 \<le> \<lfloor>?x\<rfloor>" "\<lceil>?x\<rceil> \<le> 1000000000" using b by (simp_all add: ceiling_le_iff)
  then have "0 \<le> y" using y(2) by (metis of_int_0_le_iff order_trans)
  then have r: "round_away y = \<lfloor>y + 1 / 2\<rfloor>" by (simp add: round_away_def)
  have lo: "\<lfloor>?x\<rfloor> \<le> round_away y" unfolding r using y(2) by (simp add: le_floor_iff)
  have hi: "round_away y \<le> \<lceil>?x\<rceil>" unfolding r using y(3) by (simp add: floor_le_iff)
  have nn: "0 \<le> round_away y" and le: "round_away y \<le> 1000000000" using lo hi cb by linarith+
  then have "is_int64 (round_away y)" by (simp add: is_int64_iff)
  then have "m = round_away y"
    using assms x y(1) nn
    by (simp add: toMicroUSDPer1M_def v maxUSDPer1M_def MicroUSDPerUSD_def f64_of_int_exact trunc_rat_def)
  then show thesis using v x lo hi nn le by (intro that) simp_all
qed

text \<open>
  Conversion of a price: \<^verbatim>\<open>toMicroUSDPer1M\<close> accepts exactly the finite prices
  from 0 to 1000 USD per million tokens, and the result is one of the two integers around the exact
  number of micro-dollars, so every price in a table is between 0 and the sanity cap of a thousand
  dollars, as the exactness of costs needs.
\<close>

theorem price_conversion:
  "(toMicroUSDPer1M v \<noteq> None \<longleftrightarrow> (\<exists>x. v = Fin x \<and> 0 \<le> x \<and> x \<le> 1000)) \<and>
   (\<forall>m. toMicroUSDPer1M v = Some m \<longrightarrow> 0 \<le> m \<and> m \<le> 1000000000 \<and>
      (\<exists>x. v = Fin x \<and> \<lfloor>x * 1000000\<rfloor> \<le> m \<and> m \<le> \<lceil>x * 1000000\<rceil>))"
proof (intro conjI allI impI)
  show "toMicroUSDPer1M v \<noteq> None \<longleftrightarrow> (\<exists>x. v = Fin x \<and> 0 \<le> x \<and> x \<le> 1000)"
    by (cases v) (auto simp: toMicroUSDPer1M_def maxUSDPer1M_def)
qed (metis toMicro_bounds)+

theorem price_conversion_witness: "\<exists>m. toMicroUSDPer1M (Fin (5 / 2)) = Some m \<and> 2500000 \<le> m \<and> m \<le> 2500000"
proof -
  have "toMicroUSDPer1M (Fin (5 / 2)) \<noteq> None" by (simp add: toMicroUSDPer1M_def maxUSDPer1M_def)
  then obtain m where m: "toMicroUSDPer1M (Fin (5 / 2)) = Some m" by blast
  then have "\<exists>x. Fin (5 / 2) = Fin x \<and> \<lfloor>x * 1000000\<rfloor> \<le> m \<and> m \<le> \<lceil>x * 1000000\<rceil>"
    using price_conversion [of "Fin (5 / 2)"] by blast
  then have "\<lfloor>5 / 2 * 1000000 :: rat\<rfloor> \<le> m \<and> m \<le> \<lceil>5 / 2 * 1000000 :: rat\<rceil>"
    unfolding float64.inject by blast
  then show ?thesis using m by simp
qed

end
