(* ===== verification/Price_Registry.thy ===== *)
theory Price_Registry
  imports Price_Table
begin

text \<open>
  The owner of the price table that is served (\<^verbatim>\<open>pkg/pricing/registry.go\<close>)
  and its configuration (the first part of \<^verbatim>\<open>fetcher.go\<close>). Every critical
  section under \<^verbatim>\<open>mu\<close> is one definition. The network is outside the model: what
  \<^verbatim>\<open>FetchModels\<close> returned is an argument, as are the clock, the context of the call and
  the order of map iterations. A nil \<^verbatim>\<open>*Pricing\<close> is \<open>None\<close>, and a
  nil-pointer panic is the outcome \<open>Panic\<close>.

  A refresh holds \<^verbatim>\<open>refreshMu\<close> for its whole duration but \<^verbatim>\<open>mu\<close>
  only in its critical sections, so \<^verbatim>\<open>Replace\<close>, \<^verbatim>\<open>ReplaceLive\<close>
  and \<^verbatim>\<open>SetOnSync\<close> can fall between them: \<open>registry_step\<close> is the relation
  with every such interleaving, and \<open>Registry_refresh\<close> its uninterrupted run.
\<close>

section \<open>Definitions\<close>

type_synonym models = "(string, ModelPrice) gomap"

datatype 'a outcome = Panic | Ret 'a

record Config =
  cf_PricingPath :: string
  cf_Endpoint :: string
  cf_APIKey :: string
  cf_UserAgent :: string
  cf_RefreshInterval :: duration
  cf_StartupTimeout :: duration
  cf_HTTPTimeout :: duration
  cf_BackoffBase :: duration
  cf_BackoffMax :: duration
  cf_StaleAfter :: duration
  cf_HardFailOnEmpty :: bool
  cf_MaxBodyBytes :: int

definition defaultEndpoint :: string where
  "defaultEndpoint = ''https://openrouter.ai/api/v1/models''"

definition defaultUserAgent :: string where
  "defaultUserAgent = ''finops-proxy/1.0 (openrouter-fetcher)''"

definition DefaultConfig :: Config where
  "DefaultConfig =
     \<lparr>cf_PricingPath = ''config/pricing.json'', cf_Endpoint = defaultEndpoint, cf_APIKey = '''',
      cf_UserAgent = defaultUserAgent, cf_RefreshInterval = 6 * Hour, cf_StartupTimeout = 3 * Second,
      cf_HTTPTimeout = 30 * Second, cf_BackoffBase = 10 * Second, cf_BackoffMax = 5 * Minute,
      cf_StaleAfter = 24 * Hour, cf_HardFailOnEmpty = True, cf_MaxBodyBytes = 8 * 2 ^ 20\<rparr>"

definition normalizeConfig :: "Config \<Rightarrow> Config" where
  "normalizeConfig cfg =
     (let cfg = (if cf_PricingPath cfg = '''' then cfg\<lparr>cf_PricingPath := ''config/pricing.json''\<rparr> else cfg);
          cfg = (if cf_UserAgent cfg = '''' then cfg\<lparr>cf_UserAgent := defaultUserAgent\<rparr> else cfg);
          cfg = (if cf_StartupTimeout cfg \<le> 0 then cfg\<lparr>cf_StartupTimeout := 3 * Second\<rparr> else cfg);
          cfg = (if cf_HTTPTimeout cfg \<le> 0 then cfg\<lparr>cf_HTTPTimeout := 30 * Second\<rparr> else cfg);
          cfg = (if cf_BackoffBase cfg \<le> 0 then cfg\<lparr>cf_BackoffBase := 10 * Second\<rparr> else cfg);
          cfg = (if cf_BackoffMax cfg \<le> 0 then cfg\<lparr>cf_BackoffMax := 5 * Minute\<rparr> else cfg);
          cfg = (if cf_StaleAfter cfg \<le> 0 then cfg\<lparr>cf_StaleAfter := 24 * Hour\<rparr> else cfg);
          cfg = (if cf_MaxBodyBytes cfg \<le> 0 then cfg\<lparr>cf_MaxBodyBytes := 8 * 2 ^ 20\<rparr> else cfg)
      in cfg)"

record Fetcher =
  ft_cfg :: Config

definition NewFetcher :: "Config \<Rightarrow> Fetcher option" where
  "NewFetcher cfg = (if cf_Endpoint cfg = '''' then None else Some \<lparr>ft_cfg = normalizeConfig cfg\<rparr>)"

definition ErrEmptyTable :: error where
  "ErrEmptyTable = ''pricing: fetch succeeded but produced no priced models''"

datatype SourceKind = SourceStatic | SourceLive | SourceStale

type_synonym 'c onSync = "'c \<Rightarrow> models \<Rightarrow> Pricing option \<times> error option"

record 'c Registry =
  rg_cur :: "Pricing option"
  rg_base :: "Pricing option"
  rg_fetcher :: "Fetcher option"
  rg_cfg :: Config
  rg_onSync :: "'c onSync option"
  rg_kind :: SourceKind
  rg_lastSync :: time
  rg_lastErr :: "error option"
  rg_fails :: int

definition NewRegistry :: "Pricing option \<Rightarrow> Fetcher option \<Rightarrow> Config \<Rightarrow> 'c Registry" where
  "NewRegistry base fetcher cfg =
     \<lparr>rg_cur = base, rg_base = base, rg_fetcher = fetcher, rg_cfg = normalizeConfig cfg, rg_onSync = None,
      rg_kind = SourceStatic, rg_lastSync = 0, rg_lastErr = None, rg_fails = 0\<rparr>"

definition Registry_LastRefresh :: "'c Registry \<Rightarrow> time \<times> error option" where
  "Registry_LastRefresh r = (rg_lastSync r, rg_lastErr r)"

definition Registry_SourceKind :: "'c Registry \<Rightarrow> SourceKind" where
  "Registry_SourceKind r = rg_kind r"

definition Registry_SetOnSync :: "'c onSync option \<Rightarrow> 'c Registry \<Rightarrow> 'c Registry" where
  "Registry_SetOnSync fn r = r\<lparr>rg_onSync := fn\<rparr>"

definition Registry_Replace :: "Pricing option \<Rightarrow> 'c Registry \<Rightarrow> 'c Registry" where
  "Registry_Replace tbl r = (if tbl \<noteq> None then r\<lparr>rg_cur := tbl\<rparr> else r)"

definition Registry_ReplaceLive :: "Pricing option \<Rightarrow> time \<Rightarrow> 'c Registry \<Rightarrow> 'c Registry" where
  "Registry_ReplaceLive tbl lastSync r =
     (let r = (if tbl \<noteq> None then r\<lparr>rg_cur := tbl\<rparr> else r)
      in r\<lparr>rg_lastSync := lastSync, rg_lastErr := None, rg_fails := 0, rg_kind := SourceLive\<rparr>)"

definition Registry_Snapshot :: "'c Registry \<Rightarrow> Pricing option" where
  "Registry_Snapshot r = rg_cur r"

text \<open>The reads delegate to the current table; on a nil table the delegate dereferences nil.\<close>

definition Registry_PriceFor :: "string range_order \<Rightarrow> string \<Rightarrow> 'c Registry \<Rightarrow> (ModelPrice \<times> bool) outcome" where
  "Registry_PriceFor ord model r =
     (case rg_cur r of None \<Rightarrow> Panic | Some p \<Rightarrow> Ret (Pricing_PriceFor ord model p))"

definition Registry_EstimatePromptTokens :: "string \<Rightarrow> 'c Registry \<Rightarrow> int outcome" where
  "Registry_EstimatePromptTokens body r =
     (case rg_cur r of None \<Rightarrow> Panic | Some p \<Rightarrow> Ret (Pricing_EstimatePromptTokens body p))"

definition Registry_SavedCost :: "string range_order \<Rightarrow> string \<Rightarrow> 'c Registry \<Rightarrow> int outcome" where
  "Registry_SavedCost ord body r =
     (case rg_cur r of None \<Rightarrow> Panic | Some p \<Rightarrow> Ret (Pricing_SavedCost ord body p))"

definition Registry_AssumedCompletionTokens :: "'c Registry \<Rightarrow> int outcome" where
  "Registry_AssumedCompletionTokens r =
     (case rg_cur r of None \<Rightarrow> Panic | Some p \<Rightarrow> Ret (Pricing_AssumedCompletionTokens p))"

definition Registry_bootstrapped :: "'c Registry \<Rightarrow> bool" where
  "Registry_bootstrapped r \<longleftrightarrow> \<not> time_IsZero (rg_lastSync r)"

definition Registry_refreshFailed :: "error \<Rightarrow> 'c Registry \<Rightarrow> 'c Registry" where
  "Registry_refreshFailed err r =
     (let r = r\<lparr>rg_lastErr := Some err, rg_fails := wrap64 (rg_fails r + 1)\<rparr>
      in if rg_kind r \<noteq> SourceStatic then r\<lparr>rg_kind := SourceStale\<rparr> else r)"

text \<open>The two iteration orders are those of the loops over \<^verbatim>\<open>base.models\<close> and
  \<^verbatim>\<open>models\<close>.\<close>

definition Registry_merge :: "string range_order \<times> string range_order \<Rightarrow> models \<Rightarrow> 'c Registry \<Rightarrow> Pricing outcome" where
  "Registry_merge ords models r =
     (case rg_base r of
        None \<Rightarrow> Panic
      | Some base \<Rightarrow>
          let merged = fold (\<lambda>(k, v) m. gm_set m k v) (range_entries (fst ords) (pr_models base)) [];
              merged = fold (\<lambda>(k, v) m. gm_set m k v) (range_entries (snd ords) models) merged
          in Ret \<lparr>pr_assumedCompletionTokens = pr_assumedCompletionTokens base,
                  pr_PromptEstimationCharsPerToken = pr_PromptEstimationCharsPerToken base,
                  pr_models = merged, pr_def = pr_def base\<rparr>)"

text \<open>The sections of \<^verbatim>\<open>refresh\<close>: the one without a fetcher, the one after the
  fetch (which reads the hook), and the one that builds and swaps in the table.\<close>

definition errNoFetcher :: error where
  "errNoFetcher = ''pricing: no network fetcher configured''"

definition refresh_unconfigured :: "'c Registry \<Rightarrow> 'c Registry" where
  "refresh_unconfigured r = r\<lparr>rg_lastErr := Some errNoFetcher, rg_fails := wrap64 (rg_fails r + 1)\<rparr>"

definition refresh_fetched :: "error + models \<Rightarrow> 'c Registry \<Rightarrow> error + ('c onSync option \<times> models)" where
  "refresh_fetched fetched r =
     (case fetched of
        Inl err \<Rightarrow> Inl err
      | Inr models \<Rightarrow> if gm_len models = 0 then Inl ErrEmptyTable else Inr (rg_onSync r, models))"

definition refresh_swap :: "Pricing option \<Rightarrow> time \<Rightarrow> 'c Registry \<Rightarrow> 'c Registry" where
  "refresh_swap tbl now r =
     r\<lparr>rg_cur := tbl, rg_lastSync := now, rg_lastErr := None, rg_fails := 0, rg_kind := SourceLive\<rparr>"

definition refresh_build ::
    "string range_order \<times> string range_order \<Rightarrow> 'c \<Rightarrow> 'c onSync option \<Rightarrow> models \<Rightarrow> 'c Registry \<Rightarrow>
     (error + Pricing option) outcome" where
  "refresh_build ords ctx onSync models r =
     (case onSync of
        Some f \<Rightarrow> (case f ctx models of (_, Some err) \<Rightarrow> Ret (Inl err) | (tbl, None) \<Rightarrow> Ret (Inr tbl))
      | None \<Rightarrow> (case Registry_merge ords models r of Panic \<Rightarrow> Panic | Ret tbl \<Rightarrow> Ret (Inr (Some tbl))))"

definition refresh_commit :: "error + Pricing option \<Rightarrow> time \<Rightarrow> 'c Registry \<Rightarrow> error option \<times> 'c Registry" where
  "refresh_commit res now r =
     (case res of
        Inl err \<Rightarrow> (Some err, Registry_refreshFailed err r)
      | Inr tbl \<Rightarrow> (None, refresh_swap tbl now r))"

definition Registry_refresh ::
    "string range_order \<times> string range_order \<Rightarrow> 'c \<Rightarrow> error + models \<Rightarrow> time \<Rightarrow> 'c Registry \<Rightarrow>
     (error option \<times> 'c Registry) outcome" where
  "Registry_refresh ords ctx fetched now r =
     (if rg_fetcher r = None then Ret (Some errNoFetcher, refresh_unconfigured r)
      else case refresh_fetched fetched r of
             Inl err \<Rightarrow> Ret (Some err, Registry_refreshFailed err r)
           | Inr (onSync, models) \<Rightarrow>
               (case refresh_build ords ctx onSync models r of
                  Panic \<Rightarrow> Panic
                | Ret res \<Rightarrow> Ret (refresh_commit res now r)))"

definition Registry_RefreshNow where
  "Registry_RefreshNow = Registry_refresh"

text \<open>The loop that doubles the backoff, and the delay before the next attempt.\<close>

function backoff_loop :: "int \<Rightarrow> int \<Rightarrow> duration \<Rightarrow> duration \<Rightarrow> duration" where
  "backoff_loop i fails mx backoff =
     (if i < fails \<and> backoff < mx then backoff_loop (i + 1) fails mx (wrap64 (backoff * 2)) else backoff)"
  by auto
termination by (relation "measure (\<lambda>(i, fails, _). nat (fails - i))") auto

declare backoff_loop.simps [simp del]

definition Registry_nextDelay :: "'c Registry \<Rightarrow> duration" where
  "Registry_nextDelay r =
     (let cfg = rg_cfg r; fails = rg_fails r
      in if fails \<le> 0 then cf_RefreshInterval cfg
         else let backoff = backoff_loop 1 fails (cf_BackoffMax cfg) (cf_BackoffBase cfg);
                  backoff = (if backoff > cf_BackoffMax cfg then cf_BackoffMax cfg else backoff)
              in if backoff < cf_RefreshInterval cfg then backoff else cf_RefreshInterval cfg)"

text \<open>A nil receiver is \<open>None\<close>. A failure of the startup fetch is only logged.\<close>

definition Registry_Bootstrap ::
    "string range_order \<times> string range_order \<Rightarrow> 'c \<Rightarrow> error + models \<Rightarrow> time \<Rightarrow> 'c Registry option \<Rightarrow>
     'c Registry option outcome" where
  "Registry_Bootstrap ords ctx fetched now r =
     (case r of
        None \<Rightarrow> Ret None
      | Some reg \<Rightarrow>
          if rg_fetcher reg = None then Ret (Some reg)
          else (case Registry_refresh ords ctx fetched now reg of
                  Panic \<Rightarrow> Panic
                | Ret (_, reg') \<Rightarrow> Ret (Some reg')))"

text \<open>Whether \<^verbatim>\<open>Start\<close> launches the background goroutine.\<close>

definition Registry_Start :: "'c Registry option \<Rightarrow> bool" where
  "Registry_Start r =
     (case r of None \<Rightarrow> False | Some reg \<Rightarrow> \<not> (rg_fetcher reg = None \<or> cf_RefreshInterval (rg_cfg reg) \<le> 0))"

text \<open>
  The background goroutine. What wakes each \<^verbatim>\<open>select\<close> is an event; a timer event
  carries what the refresh it starts meets. The result lists the delays the timer was armed with and
  whether the goroutine has returned; when the events run out it is still waiting.
\<close>

datatype 'c attempt = Attempt (at_ords: "string range_order \<times> string range_order") (at_ctx: 'c)
  (at_fetched: "error + models") (at_now: time)

datatype 'c loop_event = CtxDone | StopClosed | TimerFired "'c attempt"

definition loop_refresh :: "'c attempt \<Rightarrow> 'c Registry \<Rightarrow> 'c Registry outcome" where
  "loop_refresh a r =
     (case Registry_refresh (at_ords a) (at_ctx a) (at_fetched a) (at_now a) r of
        Panic \<Rightarrow> Panic
      | Ret (_, r') \<Rightarrow> Ret r')"

fun loop_select :: "'c loop_event list \<Rightarrow> 'c Registry \<Rightarrow> (duration list \<times> bool \<times> 'c Registry) outcome" where
  "loop_select [] r = Ret ([Registry_nextDelay r], False, r)"
| "loop_select (CtxDone # es) r = Ret ([Registry_nextDelay r], True, r)"
| "loop_select (StopClosed # es) r = Ret ([Registry_nextDelay r], True, r)"
| "loop_select (TimerFired a # es) r =
     (case loop_refresh a r of
        Panic \<Rightarrow> Panic
      | Ret r' \<Rightarrow>
          (case loop_select es r' of
             Panic \<Rightarrow> Panic
           | Ret (ds, returned, r'') \<Rightarrow> Ret (Registry_nextDelay r # ds, returned, r'')))"

definition Registry_loop :: "'c attempt \<Rightarrow> 'c loop_event list \<Rightarrow> 'c Registry \<Rightarrow> (duration list \<times> bool \<times> 'c Registry) outcome" where
  "Registry_loop first es r =
     (case (if Registry_bootstrapped r then Ret r else loop_refresh first r) of
        Panic \<Rightarrow> Panic
      | Ret r' \<Rightarrow> loop_select es r')"

section \<open>Interleavings\<close>

text \<open>What the holder of \<^verbatim>\<open>refreshMu\<close> is doing between its critical sections.\<close>

datatype 'c activity = Idle | Fetching 'c | Building 'c "'c onSync option" models

text \<open>The steps any number of goroutines can take. \<open>hooks\<close> are the functions the program passes to
  \<^verbatim>\<open>SetOnSync\<close>, which installs whatever it is given.\<close>

inductive registry_step :: "'c onSync set \<Rightarrow> 'c Registry \<times> 'c activity \<Rightarrow> 'c Registry \<times> 'c activity \<Rightarrow> bool"
  for hooks where
  unconfigured: "rg_fetcher r = None \<Longrightarrow> registry_step hooks (r, Idle) (refresh_unconfigured r, Idle)"
| start: "rg_fetcher r \<noteq> None \<Longrightarrow> registry_step hooks (r, Idle) (r, Fetching ctx)"
| fetch_failed: "refresh_fetched fetched r = Inl err \<Longrightarrow>
    registry_step hooks (r, Fetching ctx) (Registry_refreshFailed err r, Idle)"
| fetched: "refresh_fetched fetched r = Inr (onSync, models) \<Longrightarrow> gm_ok models \<Longrightarrow>
    registry_step hooks (r, Fetching ctx) (r, Building ctx onSync models)"
| commit: "refresh_build ords ctx onSync models r = Ret res \<Longrightarrow>
    registry_step hooks (r, Building ctx onSync models) (snd (refresh_commit res now r), Idle)"
| set_on_sync: "set_option fn \<subseteq> hooks \<Longrightarrow> registry_step hooks (r, act) (Registry_SetOnSync fn r, act)"
| replace: "registry_step hooks (r, act) (Registry_Replace tbl r, act)"
| replace_live: "registry_step hooks (r, act) (Registry_ReplaceLive tbl lastSync r, act)"

inductive registry_reach :: "'c onSync set \<Rightarrow> Pricing \<Rightarrow> Fetcher option \<Rightarrow> Config \<Rightarrow> 'c Registry \<times> 'c activity \<Rightarrow> bool"
  for hooks base fetcher cfg where
  init: "registry_reach hooks base fetcher cfg (NewRegistry (Some base) fetcher cfg, Idle)"
| step: "registry_reach hooks base fetcher cfg s \<Longrightarrow> registry_step hooks s s' \<Longrightarrow> registry_reach hooks base fetcher cfg s'"

inductive_cases registry_stepE: "registry_step hooks s s'"

lemmas registry_section_defs = refresh_unconfigured_def Registry_refreshFailed_def refresh_commit_def refresh_swap_def
  Registry_SetOnSync_def Registry_Replace_def Registry_ReplaceLive_def Let_def

text \<open>Every section keeps the static fields, and no section goes back to the static kind. A nil table
  comes from nowhere but a hook that returns neither a table nor an error.\<close>

definition hook_ok :: "'c onSync \<Rightarrow> bool" where
  "hook_ok f \<longleftrightarrow> (\<forall>ctx ms. gm_ok ms \<and> ms \<noteq> [] \<and> snd (f ctx ms) = None \<longrightarrow> fst (f ctx ms) \<noteq> None)"

definition registry_ok :: "'c onSync set \<Rightarrow> Pricing \<Rightarrow> Fetcher option \<Rightarrow> Config \<Rightarrow> 'c Registry \<times> 'c activity \<Rightarrow> bool" where
  "registry_ok hooks base fetcher cfg s \<longleftrightarrow>
     (case s of (r, act) \<Rightarrow>
        rg_base r = Some base \<and> rg_fetcher r = fetcher \<and> rg_cfg r = normalizeConfig cfg \<and>
        (fetcher = None \<or> (\<forall>f\<in>hooks. hook_ok f) \<longrightarrow> rg_cur r \<noteq> None) \<and> set_option (rg_onSync r) \<subseteq> hooks \<and>
        (rg_kind r = SourceStatic \<longrightarrow> rg_lastSync r = 0) \<and>
        (rg_kind r = SourceLive \<and> fetcher \<noteq> None \<longrightarrow> rg_lastErr r = None \<and> rg_fails r = 0) \<and>
        (rg_kind r = SourceStale \<longrightarrow> rg_lastErr r \<noteq> None \<and> fetcher \<noteq> None) \<and>
        (case act of Idle \<Rightarrow> True | Fetching _ \<Rightarrow> fetcher \<noteq> None
         | Building _ fn models \<Rightarrow> fetcher \<noteq> None \<and> set_option fn \<subseteq> hooks \<and> gm_ok models \<and> models \<noteq> []))"

lemma refresh_fetched_Inr: "refresh_fetched fetched r = Inr (fn, ms) \<Longrightarrow> fn = rg_onSync r \<and> fetched = Inr ms \<and> ms \<noteq> []"
  by (auto simp: refresh_fetched_def split: sum.splits if_splits)

lemma refresh_build_table:
  assumes "refresh_build ords ctx fn ms r = Ret (Inr tbl)" and "\<forall>f\<in>set_option fn. hook_ok f" "gm_ok ms" "ms \<noteq> []"
  shows "tbl \<noteq> None"
proof (cases fn)
  case (Some f)
  then have "fst (f ctx ms) = tbl" "snd (f ctx ms) = None"
    using assms(1) by (auto simp: refresh_build_def split: option.splits prod.splits)
  then show ?thesis using assms(2-4) Some unfolding hook_ok_def by auto
qed (use assms(1) in \<open>auto simp: refresh_build_def split: outcome.splits\<close>)

lemma registry_step_ok:
  "registry_step hooks s s' \<Longrightarrow> registry_ok hooks base fetcher cfg s \<Longrightarrow> registry_ok hooks base fetcher cfg s'"
proof (induction rule: registry_step.induct)
  case (fetched f r onSync ms ctx)
  then show ?case using refresh_fetched_Inr [OF fetched(1)] by (simp add: registry_ok_def)
next
  case (commit ords ctx fn ms r res now)
  then show ?case
    using refresh_build_table [of ords ctx fn ms r]
    by (cases res) (auto simp: registry_ok_def registry_section_defs)
qed (auto simp: registry_ok_def registry_section_defs split: activity.splits)

lemma registry_reach_ok: "registry_reach hooks base fetcher cfg s \<Longrightarrow> registry_ok hooks base fetcher cfg s"
proof (induction rule: registry_reach.induct)
  case init
  show ?case by (simp add: registry_ok_def NewRegistry_def)
next
  case (step s s')
  then show ?case by (blast intro: registry_step_ok)
qed

lemma registry_step_kind:
  "registry_step hooks s s' \<Longrightarrow> rg_kind (fst s) \<noteq> SourceStatic \<Longrightarrow> rg_kind (fst s') \<noteq> SourceStatic"
  by (induction rule: registry_step.induct) (auto simp: registry_section_defs split: sum.splits)

lemma refresh_build_total: "rg_base r \<noteq> None \<Longrightarrow> refresh_build ords ctx fn ms r \<noteq> Panic"
  by (auto simp: refresh_build_def Registry_merge_def Let_def split: option.splits prod.splits)

section \<open>The merged table\<close>

lemma fold_gm_set_get:
  assumes "distinct (map fst kvs)"
  shows "gm_get (fold (\<lambda>(k, v) m. gm_set m k v) kvs m) k = (case map_of kvs k of Some v \<Rightarrow> Some v | None \<Rightarrow> gm_get m k)"
  using assms
proof (induction kvs arbitrary: m)
  case (Cons kv kvs)
  obtain k' v where kv: "kv = (k', v)" by (cases kv)
  have "map_of kvs k' = None" using Cons(2) kv by (simp add: map_of_eq_None_iff)
  then show ?case using Cons kv by (auto split: option.splits)
qed simp

lemma fold_gm_set_ok: "gm_ok m \<Longrightarrow> gm_ok (fold (\<lambda>(k, v) m. gm_set m k v) kvs m)"
  by (induction kvs arbitrary: m) auto

lemma map_of_range_entries: "gm_ok m \<Longrightarrow> map_of (range_entries ord m) = map_of m"
  by (rule map_of_eqI) (auto simp: set_range_entries)

lemma merge_lookup:
  assumes "gm_ok (pr_models base)" and "gm_ok models" and "rg_base r = Some base" and "Registry_merge ords models r = Ret t"
  shows "gm_ok (pr_models t)"
    and "gm_get (pr_models t) k = (case gm_get models k of Some mp \<Rightarrow> Some mp | None \<Rightarrow> gm_get (pr_models base) k)"
    and "pr_def t = pr_def base"
    and "pr_assumedCompletionTokens t = pr_assumedCompletionTokens base"
    and "pr_PromptEstimationCharsPerToken t = pr_PromptEstimationCharsPerToken base"
proof -
  have t: "t = \<lparr>pr_assumedCompletionTokens = pr_assumedCompletionTokens base,
      pr_PromptEstimationCharsPerToken = pr_PromptEstimationCharsPerToken base,
      pr_models = fold (\<lambda>(k, v) m. gm_set m k v) (range_entries (snd ords) models)
        (fold (\<lambda>(k, v) m. gm_set m k v) (range_entries (fst ords) (pr_models base)) []),
      pr_def = pr_def base\<rparr>"
    using assms(3,4) by (simp add: Registry_merge_def Let_def)
  show "gm_ok (pr_models t)" by (simp add: t fold_gm_set_ok)
  have d: "distinct (map fst (range_entries ord m))" if "gm_ok m" for ord and m :: models
    using that by simp
  show "gm_get (pr_models t) k = (case gm_get models k of Some mp \<Rightarrow> Some mp | None \<Rightarrow> gm_get (pr_models base) k)"
    unfolding t by (simp add: fold_gm_set_get [OF d] map_of_range_entries assms(1,2) split: option.splits)
qed (use assms in \<open>auto simp: Registry_merge_def Let_def\<close>)

section \<open>Backoff\<close>

lemma backoff_loop_spec:
  assumes "0 < b" and "mx \<le> 2 ^ 62" and "i \<le> fails"
  shows "min (backoff_loop i fails mx b) mx = min (b * 2 ^ nat (fails - i)) mx"
  using assms
proof (induction i fails mx b rule: backoff_loop.induct)
  case (1 i fails mx b)
  show ?case
  proof (cases "i < fails \<and> b < mx")
    case True
    then have "is_int64 (b * 2)" using 1(2,3) by (simp add: is_int64_iff)
    then have w: "wrap64 (b * 2) = b * 2" by (rule wrap64_id)
    have e: "nat (fails - i) = Suc (nat (fails - (i + 1)))" using True by linarith
    have "min (backoff_loop (i + 1) fails mx (b * 2)) mx = min (b * 2 * 2 ^ nat (fails - (i + 1))) mx"
      using 1(1) [OF True] 1(2,3) True by (simp add: w)
    then show ?thesis using True by (simp add: backoff_loop.simps [of i] w e mult.assoc)
  next
    case False
    then have stop: "backoff_loop i fails mx b = b" by (subst backoff_loop.simps) auto
    show ?thesis
    proof (cases "i = fails")
      case False
      with \<open>\<not> (i < fails \<and> b < mx)\<close> 1(4) have "mx \<le> b" by simp
      moreover have "b * 1 \<le> b * 2 ^ nat (fails - i)" using 1(2) by (intro mult_left_mono) simp_all
      ultimately have "mx \<le> b * 2 ^ nat (fails - i)" by simp
      with \<open>mx \<le> b\<close> show ?thesis by (simp only: stop min_absorb2)
    qed (use stop in simp)
  qed
qed

lemma normalizeConfig_positive:
  "0 < cf_BackoffBase (normalizeConfig cfg)" "0 < cf_BackoffMax (normalizeConfig cfg)"
  "0 < cf_StartupTimeout (normalizeConfig cfg)" "0 < cf_HTTPTimeout (normalizeConfig cfg)"
  "0 < cf_StaleAfter (normalizeConfig cfg)" "0 < cf_MaxBodyBytes (normalizeConfig cfg)"
  by (simp_all add: normalizeConfig_def Let_def Hour_def Minute_def)

lemma normalized_default: "normalizeConfig DefaultConfig = DefaultConfig"
  by (simp add: normalizeConfig_def DefaultConfig_def defaultUserAgent_def Let_def Hour_def Minute_def Second_def)

lemma normalizeConfig_RefreshInterval [simp]: "cf_RefreshInterval (normalizeConfig cfg) = cf_RefreshInterval cfg"
  by (simp add: normalizeConfig_def Let_def)

text \<open>The delay the comment of \<^verbatim>\<open>nextDelay\<close> describes, over unbounded integers.\<close>

definition backoff_spec :: "Config \<Rightarrow> int \<Rightarrow> duration" where
  "backoff_spec cfg fails =
     (if fails \<le> 0 then cf_RefreshInterval cfg
      else min (min (cf_BackoffBase cfg * 2 ^ nat (fails - 1)) (cf_BackoffMax cfg)) (cf_RefreshInterval cfg))"

lemma nextDelay_spec:
  assumes "0 < cf_BackoffBase (rg_cfg r)" and "cf_BackoffMax (rg_cfg r) \<le> 2 ^ 62"
  shows "Registry_nextDelay r = backoff_spec (rg_cfg r) (rg_fails r)"
proof (cases "rg_fails r \<le> 0")
  case False
  have "(if cf_BackoffMax (rg_cfg r) < x then cf_BackoffMax (rg_cfg r) else x) = min x (cf_BackoffMax (rg_cfg r))" for x
    by simp
  then show ?thesis
    using False backoff_loop_spec [OF assms, of 1 "rg_fails r"]
    by (simp add: Registry_nextDelay_def backoff_spec_def Let_def min_def)
qed (simp add: Registry_nextDelay_def backoff_spec_def)

lemma backoff_spec_bounds:
  assumes "0 < cf_BackoffBase cfg" and "0 < cf_BackoffMax cfg" and "0 < cf_RefreshInterval cfg"
  shows "0 < backoff_spec cfg fails" and "backoff_spec cfg fails \<le> cf_RefreshInterval cfg"
  using assms by (simp_all add: backoff_spec_def)

section \<open>Runs of refreshes\<close>

text \<open>What an attempt would install or fail with; it depends only on the parts of the registry that
  no refresh changes.\<close>

definition attempt_result :: "'c Registry \<Rightarrow> 'c attempt \<Rightarrow> error + Pricing option" where
  "attempt_result r a =
     (case refresh_fetched (at_fetched a) r of
        Inl err \<Rightarrow> Inl err
      | Inr (fn, ms) \<Rightarrow> (case refresh_build (at_ords a) (at_ctx a) fn ms r of Panic \<Rightarrow> Inl '''' | Ret res \<Rightarrow> res))"

fun refresh_run :: "'c attempt list \<Rightarrow> 'c Registry \<Rightarrow> 'c Registry outcome" where
  "refresh_run [] r = Ret r"
| "refresh_run (a # as) r = (case loop_refresh a r of Panic \<Rightarrow> Panic | Ret r' \<Rightarrow> refresh_run as r')"

lemma loop_refresh_eq:
  assumes "rg_fetcher r \<noteq> None" and "rg_base r \<noteq> None"
  shows "loop_refresh a r = Ret (snd (refresh_commit (attempt_result r a) (at_now a) r))"
  using assms refresh_build_total [OF assms(2), of "at_ords a" "at_ctx a"]
  by (auto simp: loop_refresh_def Registry_refresh_def attempt_result_def refresh_commit_def split: sum.splits outcome.splits)

lemma attempt_result_cong:
  assumes "rg_base r = rg_base r'" and "rg_onSync r = rg_onSync r'"
  shows "attempt_result r a = attempt_result r' a"
proof -
  have "Registry_merge ords ms r = Registry_merge ords ms r'" for ords ms
    using assms(1) by (simp add: Registry_merge_def)
  then have "refresh_build ords ctx fn ms r = refresh_build ords ctx fn ms r'" for ords ctx fn ms
    by (simp add: refresh_build_def split: option.split)
  then show ?thesis using assms(2) by (simp add: attempt_result_def refresh_fetched_def split: sum.split)
qed

text \<open>
  The fallback order as a function of the history: the table of the last success (else the seed),
  live if that was the last attempt, stale if failures followed, static if there was no success, and
  as many failures as attempts since the last success.
\<close>

definition run_spec :: "'c Registry \<Rightarrow> 'c attempt list \<Rightarrow> 'c Registry" where
  "run_spec r0 as =
     (let good = filter (\<lambda>a. \<not> isl (attempt_result r0 a)) as;
          failed = takeWhile (\<lambda>a. isl (attempt_result r0 a)) (rev as);
          r = (if good = [] then r0
               else r0\<lparr>rg_cur := projr (attempt_result r0 (last good)), rg_lastSync := at_now (last good),
                       rg_kind := (if failed = [] then SourceLive else SourceStale)\<rparr>)
      in r\<lparr>rg_lastErr := (if failed = [] then None else Some (projl (attempt_result r0 (hd failed)))),
           rg_fails := int (length failed)\<rparr>)"

lemma run_spec_static [simp]:
  "rg_base (run_spec r0 as) = rg_base r0" "rg_onSync (run_spec r0 as) = rg_onSync r0"
  "rg_fetcher (run_spec r0 as) = rg_fetcher r0" "rg_cfg (run_spec r0 as) = rg_cfg r0"
  by (simp_all add: run_spec_def Let_def)

lemma refresh_run_append:
  "refresh_run (as @ bs) r = (case refresh_run as r of Panic \<Rightarrow> Panic | Ret r' \<Rightarrow> refresh_run bs r')"
  by (induction as arbitrary: r) (auto split: outcome.splits)

lemma run_spec_snoc:
  assumes "rg_kind r0 = SourceStatic" and "int (length as) < int64_max"
  shows "snd (refresh_commit (attempt_result r0 a) (at_now a) (run_spec r0 as)) = run_spec r0 (as @ [a])"
proof (cases "attempt_result r0 a")
  case (Inl err)
  let ?failed = "takeWhile (\<lambda>a. isl (attempt_result r0 a)) (rev as)"
  have "length ?failed \<le> length as" by (metis length_rev length_takeWhile_le)
  then have "is_int64 (int (length ?failed) + 1)" using assms(2) by (simp add: is_int64_def int64_bounds)
  then show ?thesis
    using assms(1) Inl by (simp add: refresh_commit_def Registry_refreshFailed_def run_spec_def Let_def wrap64_id)
next
  case (Inr tbl)
  then show ?thesis by (simp add: refresh_commit_def refresh_swap_def run_spec_def Let_def)
qed

lemma refresh_run_spec:
  assumes "rg_kind r0 = SourceStatic" "rg_lastErr r0 = None" "rg_fails r0 = 0" "rg_fetcher r0 \<noteq> None" "rg_base r0 \<noteq> None"
    and "int (length as) \<le> int64_max"
  shows "refresh_run as r0 = Ret (run_spec r0 as)"
  using assms(6)
proof (induction as rule: rev_induct)
  case Nil
  then show ?case using assms by (simp add: run_spec_def)
next
  case (snoc a as)
  then show ?case
    using assms(4,5) run_spec_snoc [OF assms(1), of as a] attempt_result_cong [of "run_spec r0 as" r0 a]
    by (simp add: refresh_run_append loop_refresh_eq)
qed


lemma loop_refresh_cfg:
  assumes "rg_fetcher r \<noteq> None" and "rg_base r \<noteq> None"
  obtains r' where "loop_refresh a r = Ret r'" "rg_fetcher r' = rg_fetcher r" "rg_base r' = rg_base r" "rg_cfg r' = rg_cfg r"
  using loop_refresh_eq [OF assms, of a]
  by (cases "attempt_result r a") (auto simp: registry_section_defs)

text \<open>The goroutine returns at the first event that is not a tick.\<close>

definition is_tick :: "'c loop_event \<Rightarrow> bool" where
  "is_tick e \<longleftrightarrow> e \<noteq> CtxDone \<and> e \<noteq> StopClosed"

lemma is_tick_simps [simp]: "is_tick (TimerFired a)" "\<not> is_tick CtxDone" "\<not> is_tick StopClosed"
  by (simp_all add: is_tick_def)

lemma loop_select_delays:
  assumes "rg_fetcher r \<noteq> None" and "rg_base r \<noteq> None"
    and "0 < cf_BackoffBase (rg_cfg r)" "0 < cf_BackoffMax (rg_cfg r)" "cf_BackoffMax (rg_cfg r) \<le> 2 ^ 62"
      "0 < cf_RefreshInterval (rg_cfg r)"
  shows "\<exists>ds r'. loop_select es r = Ret (ds, \<exists>e\<in>set es. \<not> is_tick e, r') \<and>
    length ds = Suc (length (takeWhile is_tick es)) \<and> (\<forall>d\<in>set ds. 0 < d \<and> d \<le> cf_RefreshInterval (rg_cfg r))"
  using assms
proof (induction es arbitrary: r)
  case Nil
  then show ?case using backoff_spec_bounds [of "rg_cfg r"] by (simp add: nextDelay_spec)
next
  case (Cons e es)
  have d: "0 < Registry_nextDelay r \<and> Registry_nextDelay r \<le> cf_RefreshInterval (rg_cfg r)"
    using Cons.prems backoff_spec_bounds [of "rg_cfg r"] by (simp add: nextDelay_spec)
  show ?case
  proof (cases e)
    case (TimerFired a)
    obtain r' where r': "loop_refresh a r = Ret r'" "rg_fetcher r' = rg_fetcher r" "rg_base r' = rg_base r" "rg_cfg r' = rg_cfg r"
      using Cons.prems(1,2) by (rule loop_refresh_cfg)
    have "\<exists>ds r''. loop_select es r' = Ret (ds, \<exists>e\<in>set es. \<not> is_tick e, r'') \<and>
        length ds = Suc (length (takeWhile is_tick es)) \<and> (\<forall>d\<in>set ds. 0 < d \<and> d \<le> cf_RefreshInterval (rg_cfg r'))"
      using Cons.prems r'(2-4) by (intro Cons.IH) simp_all
    then show ?thesis using TimerFired r'(1,4) d by auto
  qed (use d in auto)
qed

section \<open>Properties\<close>

text \<open>One whole refresh, section by section, over a hook that returns neither a table nor an error.\<close>

lemma nil_hook_reaches:
  assumes "f \<in> hooks" "\<not> hook_ok f"
  shows "\<exists>r. registry_reach hooks base (Some fetcher) cfg (r, Idle) \<and> rg_cur r = None"
proof -
  obtain ctx ms where ms: "gm_ok ms" "ms \<noteq> []" "f ctx ms = (None, None)"
    using assms(2) unfolding hook_ok_def by (metis prod.collapse)
  let ?r = "Registry_SetOnSync (Some f) (NewRegistry (Some base) (Some fetcher) cfg)"
  have r: "rg_fetcher ?r \<noteq> None" "rg_onSync ?r = Some f" by (simp_all add: Registry_SetOnSync_def NewRegistry_def)
  have 1: "registry_reach hooks base (Some fetcher) cfg (?r, Idle)"
    using registry_reach.init by (rule registry_reach.step) (simp add: registry_step.set_on_sync assms(1))
  have 2: "registry_reach hooks base (Some fetcher) cfg (?r, Fetching ctx)"
    using 1 by (rule registry_reach.step) (rule registry_step.start [OF r(1)])
  have "refresh_fetched (Inr ms) ?r = Inr (Some f, ms)" using ms(2) r(2) by (simp add: refresh_fetched_def)
  from registry_reach.step [OF 2 registry_step.fetched [OF this ms(1)]]
  have 3: "registry_reach hooks base (Some fetcher) cfg (?r, Building ctx (Some f) ms)" .
  have "refresh_build (in_order, in_order) ctx (Some f) ms ?r = Ret (Inr None)" using ms(3) by (simp add: refresh_build_def)
  then have "registry_reach hooks base (Some fetcher) cfg (snd (refresh_commit (Inr None) 0 ?r), Idle)"
    by (rule registry_reach.step [OF 3 registry_step.commit])
  then show ?thesis by (intro exI conjI) (assumption, simp add: refresh_commit_def refresh_swap_def)
qed

text \<open>The reads answer from the current table, and dereference nil when there is none.\<close>

lemma registry_reads:
  "(\<exists>p. Registry_Snapshot r = Some p \<and> Registry_PriceFor ord model r = Ret (Pricing_PriceFor ord model p) \<and>
      Registry_EstimatePromptTokens body r = Ret (Pricing_EstimatePromptTokens body p) \<and>
      Registry_SavedCost ord body r = Ret (Pricing_SavedCost ord body p) \<and>
      Registry_AssumedCompletionTokens r = Ret (Pricing_AssumedCompletionTokens p)) \<longleftrightarrow> rg_cur r \<noteq> None"
  by (cases "rg_cur r") (simp_all add: Registry_Snapshot_def Registry_PriceFor_def Registry_EstimatePromptTokens_def
      Registry_SavedCost_def Registry_AssumedCompletionTokens_def)

lemma registry_table_iff:
  "(\<forall>r act. registry_reach hooks base fetcher cfg (r, act) \<longrightarrow> rg_cur r \<noteq> None) \<longleftrightarrow>
    fetcher = None \<or> (\<forall>f\<in>hooks. hook_ok f)"
proof
  assume serves: "\<forall>r act. registry_reach hooks base fetcher cfg (r, act) \<longrightarrow> rg_cur r \<noteq> None"
  show "fetcher = None \<or> (\<forall>f\<in>hooks. hook_ok f)"
  proof (cases fetcher)
    case (Some ft)
    have "hook_ok f" if "f \<in> hooks" for f
      using serves nil_hook_reaches [OF that] unfolding Some by blast
    then show ?thesis by blast
  qed simp
next
  assume hooks: "fetcher = None \<or> (\<forall>f\<in>hooks. hook_ok f)"
  show "\<forall>r act. registry_reach hooks base fetcher cfg (r, act) \<longrightarrow> rg_cur r \<noteq> None"
  proof (intro allI impI)
    fix r act assume "registry_reach hooks base fetcher cfg (r, act)"
    from registry_reach_ok [OF this] hooks show "rg_cur r \<noteq> None" unfolding registry_ok_def prod.case by blast
  qed
qed

lemma fetching_step:
  "case refresh_fetched fetched r of
     Inl err \<Rightarrow> registry_step hooks (r, Fetching ctx) (Registry_refreshFailed err r, Idle)
   | Inr (fn, ms) \<Rightarrow> gm_ok ms \<longrightarrow> registry_step hooks (r, Fetching ctx) (r, Building ctx fn ms)"
  by (auto intro: registry_step.intros split: sum.split)

lemma building_step:
  assumes "registry_reach hooks base fetcher cfg (r, Building ctx fn ms)"
  shows "\<exists>res. refresh_build ords ctx fn ms r = Ret res \<and>
    registry_step hooks (r, Building ctx fn ms) (snd (refresh_commit res now r), Idle)"
proof -
  have "rg_base r \<noteq> None" using registry_reach_ok [OF assms] by (simp add: registry_ok_def)
  then show ?thesis using refresh_build_total registry_step.commit by (metis outcome.exhaust)
qed

text \<open>
  C17. Whether readers can meet a missing table, decided: in every interleaving of refreshes with
  \<^verbatim>\<open>Replace\<close>, \<^verbatim>\<open>ReplaceLive\<close> and \<^verbatim>\<open>SetOnSync\<close> there is a current table
  and each of the four reads returns what that table answers, if and only if no fetcher is configured
  or every hook the program installs answers a non-empty catalog with a table or an error; a hook that returns neither
  is swapped in unchecked, and the next read dereferences nil. A refresh in flight never sticks: a
  finished fetch either ends it with the failure recorded or leads to the build, and the build always
  returns and ends in the commit of what it returned.
\<close>

theorem registry_always_serves:
  fixes hooks :: "'c onSync set"
  shows "((\<forall>r act. registry_reach hooks base fetcher cfg (r, act) \<longrightarrow>
        (\<exists>p. Registry_Snapshot r = Some p \<and> Registry_PriceFor ord model r = Ret (Pricing_PriceFor ord model p) \<and>
          Registry_EstimatePromptTokens body r = Ret (Pricing_EstimatePromptTokens body p) \<and>
          Registry_SavedCost ord body r = Ret (Pricing_SavedCost ord body p) \<and>
          Registry_AssumedCompletionTokens r = Ret (Pricing_AssumedCompletionTokens p)))
      \<longleftrightarrow> fetcher = None \<or> (\<forall>f\<in>hooks. hook_ok f)) \<and>
    (\<forall>r ctx fetched. registry_reach hooks base fetcher cfg (r, Fetching ctx) \<longrightarrow>
      (case refresh_fetched fetched r of
         Inl err \<Rightarrow> registry_step hooks (r, Fetching ctx) (Registry_refreshFailed err r, Idle)
       | Inr (fn, ms) \<Rightarrow> gm_ok ms \<longrightarrow> registry_step hooks (r, Fetching ctx) (r, Building ctx fn ms))) \<and>
    (\<forall>r ctx fn ms ords now. registry_reach hooks base fetcher cfg (r, Building ctx fn ms) \<longrightarrow>
      (\<exists>res. refresh_build ords ctx fn ms r = Ret res \<and>
         registry_step hooks (r, Building ctx fn ms) (snd (refresh_commit res now r), Idle)))"
proof (intro conjI allI impI)
  show "(\<forall>r act. registry_reach hooks base fetcher cfg (r, act) \<longrightarrow>
        (\<exists>p. Registry_Snapshot r = Some p \<and> Registry_PriceFor ord model r = Ret (Pricing_PriceFor ord model p) \<and>
          Registry_EstimatePromptTokens body r = Ret (Pricing_EstimatePromptTokens body p) \<and>
          Registry_SavedCost ord body r = Ret (Pricing_SavedCost ord body p) \<and>
          Registry_AssumedCompletionTokens r = Ret (Pricing_AssumedCompletionTokens p)))
      \<longleftrightarrow> fetcher = None \<or> (\<forall>f\<in>hooks. hook_ok f)"
    unfolding registry_reads by (rule registry_table_iff)
qed (rule fetching_step, rule building_step)

definition example_fetcher :: Fetcher where
  "example_fetcher = \<lparr>ft_cfg = normalizeConfig DefaultConfig\<rparr>"

definition example_models :: models where
  "example_models = [(''gpt-4'', \<lparr>mp_InputUSD = 25000000, mp_OutputUSD = 50000000\<rparr>)]"

definition example_hooks :: "unit onSync set" where
  "example_hooks = {\<lambda>_ _. (Some example_table, None)}"

lemma example_hooks_ok: "\<forall>f\<in>example_hooks. hook_ok f"
  by (simp add: example_hooks_def hook_ok_def)

lemma example_reach:
  defines "r \<equiv> NewRegistry (Some example_table) (Some example_fetcher) DefaultConfig :: unit Registry"
  shows "registry_reach example_hooks example_table (Some example_fetcher) DefaultConfig
    (r\<lparr>rg_onSync := Some (\<lambda>_ _. (Some example_table, None))\<rparr>, Building () None example_models)"
proof -
  let ?fn = "Some (\<lambda>_ _. (Some example_table, None)) :: unit onSync option"
  let ?reach = "registry_reach example_hooks example_table (Some example_fetcher) DefaultConfig"
  have 1: "?reach (r, Idle)"
    unfolding r_def by (rule registry_reach.init)
  have "registry_step example_hooks (r, Idle) (r, Fetching ())"
    by (rule registry_step.start) (simp add: r_def NewRegistry_def)
  from registry_reach.step [OF 1 this] have 2: "?reach (r, Fetching ())" .
  have "refresh_fetched (Inr example_models) r = Inr (None, example_models)"
    by (simp add: refresh_fetched_def r_def NewRegistry_def example_models_def)
  from registry_reach.step [OF 2 registry_step.fetched [OF this]]
  have 3: "?reach (r, Building () None example_models)" by (simp add: example_models_def)
  have "registry_step example_hooks (r, Building () None example_models) (Registry_SetOnSync ?fn r, Building () None example_models)"
    by (rule registry_step.set_on_sync) (simp add: example_hooks_def)
  from registry_reach.step [OF 3 this] show ?thesis by (simp add: Registry_SetOnSync_def)
qed

theorem registry_always_serves_witness:
  "(\<exists>r :: unit Registry. \<exists>act p. act \<noteq> Idle \<and> Registry_PriceFor in_order ''gpt-4'' r = Ret (Pricing_PriceFor in_order ''gpt-4'' p) \<and>
     registry_reach example_hooks example_table (Some example_fetcher) DefaultConfig (r, act)) \<and>
   (\<exists>r :: unit Registry. \<exists>s res. registry_step example_hooks (r, Building () None example_models) (s, Idle) \<and>
     s = snd (refresh_commit res 5 r))"
proof -
  let ?r = "(NewRegistry (Some example_table) (Some example_fetcher) DefaultConfig)
    \<lparr>rg_onSync := Some (\<lambda>_ _. (Some example_table, None))\<rparr> :: unit Registry"
  note w = registry_always_serves [of example_hooks example_table "Some example_fetcher" DefaultConfig in_order "''gpt-4''" "[]"]
  show ?thesis
  proof
    have "\<exists>p. Registry_PriceFor in_order ''gpt-4'' ?r = Ret (Pricing_PriceFor in_order ''gpt-4'' p)"
      using w [THEN conjunct1, THEN iffD2, OF disjI2, OF example_hooks_ok, rule_format, OF example_reach] by blast
    then show "\<exists>r :: unit Registry. \<exists>act p. act \<noteq> Idle \<and>
        Registry_PriceFor in_order ''gpt-4'' r = Ret (Pricing_PriceFor in_order ''gpt-4'' p) \<and>
        registry_reach example_hooks example_table (Some example_fetcher) DefaultConfig (r, act)"
      using example_reach by blast
    show "\<exists>r :: unit Registry. \<exists>s res. registry_step example_hooks (r, Building () None example_models) (s, Idle) \<and>
        s = snd (refresh_commit res 5 r)"
      using w [THEN conjunct2, THEN conjunct2, rule_format, OF example_reach, of "(in_order, in_order)" 5] by blast
  qed
qed

text \<open>
  The source kind is honest, in every interleaving: static means that no synchronisation ever
  succeeded; with a fetcher configured, live means that the last attempt succeeded and stale that it
  failed; and no step leads from a network table back to the static kind.
\<close>

theorem registry_kind_honest:
  fixes r :: "'c Registry"
  assumes "registry_reach hooks base (Some f) cfg (r, act)"
  shows "(Registry_SourceKind r = SourceStatic \<longrightarrow> \<not> Registry_bootstrapped r) \<and>
    (Registry_SourceKind r = SourceLive \<longrightarrow> snd (Registry_LastRefresh r) = None \<and> rg_fails r = 0) \<and>
    (Registry_SourceKind r = SourceStale \<longrightarrow> snd (Registry_LastRefresh r) \<noteq> None) \<and>
    (\<forall>s'. registry_step hooks (r, act) s' \<and> Registry_SourceKind r \<noteq> SourceStatic \<longrightarrow> Registry_SourceKind (fst s') \<noteq> SourceStatic)"
  using registry_reach_ok [OF assms] registry_step_kind [of hooks "(r, act)"]
  unfolding registry_ok_def Registry_SourceKind_def Registry_bootstrapped_def Registry_LastRefresh_def time_IsZero_def
  by auto

theorem registry_kind_honest_witness:
  "\<exists>r :: unit Registry. Registry_SourceKind r = SourceStatic \<and> \<not> Registry_bootstrapped r"
  using registry_kind_honest [OF example_reach]
  by (intro exI [of _ "(NewRegistry (Some example_table) (Some example_fetcher) DefaultConfig)\<lparr>rg_onSync := Some (\<lambda>_ _. (Some example_table, None))\<rparr>"])
    (simp add: NewRegistry_def Registry_SourceKind_def)

text \<open>
  The merged table: whatever the order of the two map iterations, an id of the fetched catalog has
  the fetched price, every other key its static price; the default and the estimation parameters are
  the static ones.
\<close>

theorem merge_overlays:
  assumes "gm_ok (pr_models base)" and "gm_ok models" and "rg_base r = Some base"
  shows "\<exists>t. Registry_merge ords models r = Ret t \<and> gm_ok (pr_models t) \<and>
    (\<forall>k. gm_get (pr_models t) k = (case gm_get models k of Some mp \<Rightarrow> Some mp | None \<Rightarrow> gm_get (pr_models base) k)) \<and>
    (\<forall>k mp ord. gm_get models k = Some mp \<longrightarrow> Pricing_PriceFor ord k t = (mp, True)) \<and>
    Pricing_Default (Some t) = pr_def base \<and>
    Pricing_AssumedCompletionTokens t = pr_assumedCompletionTokens base \<and>
    (\<forall>body. Pricing_EstimatePromptTokens body t = Pricing_EstimatePromptTokens body base)"
proof -
  obtain t where t: "Registry_merge ords models r = Ret t" using assms(3) by (simp add: Registry_merge_def Let_def)
  note m = merge_lookup [OF assms t]
  have "Pricing_PriceFor ord k t = (mp, True)" if "gm_get models k = Some mp" for k mp ord
  proof -
    have "gm_get (pr_models t) k = Some mp" unfolding m(2) that by simp
    then show ?thesis by (simp add: Pricing_PriceFor_def del: map_of_eq_Some_iff)
  qed
  then show ?thesis
    using t m by (intro exI [of _ t]) (simp add: Pricing_Default_def Pricing_AssumedCompletionTokens_def
        Pricing_EstimatePromptTokens_def del: map_of_eq_Some_iff)
qed

theorem merge_overlays_witness:
  "\<exists>t. Registry_merge (in_reverse, in_order) example_models (NewRegistry (Some example_table) None DefaultConfig :: unit Registry) = Ret t \<and>
     Pricing_PriceFor in_order ''gpt-4'' t = (\<lparr>mp_InputUSD = 25000000, mp_OutputUSD = 50000000\<rparr>, True)"
proof -
  have "gm_ok (pr_models example_table)" "gm_ok example_models"
      "rg_base (NewRegistry (Some example_table) None DefaultConfig :: unit Registry) = Some example_table"
    by (simp_all add: example_table_def Build_def Let_def example_models_def NewRegistry_def)
  from merge_overlays [OF this, of "(in_reverse, in_order)"] show ?thesis by (auto simp: example_models_def)
qed

text \<open>
  C18. The fallback order as a function of the history of attempts: after any sequence of refreshes the
  registry serves the table of the last one that succeeded (else the static one), is live, stale or
  static accordingly, reports the time of the last success and the last error, and counts the failures
  since the last success. A failed attempt never changes the table.
\<close>

theorem refresh_history:
  fixes fn :: "'c onSync option"
  assumes "int (length as) \<le> int64_max"
  shows "refresh_run as (Registry_SetOnSync fn (NewRegistry (Some base) (Some f) cfg)) =
    Ret (run_spec (Registry_SetOnSync fn (NewRegistry (Some base) (Some f) cfg)) as)"
  using assms by (intro refresh_run_spec) (simp_all add: Registry_SetOnSync_def NewRegistry_def)

definition example_attempts :: "unit attempt list" where
  "example_attempts = [Attempt (in_order, in_order) () (Inr example_models) 1000,
     Attempt (in_order, in_order) () (Inl ''timeout'') 2000, Attempt (in_order, in_order) () (Inr []) 3000]"

theorem refresh_history_witness:
  "\<exists>r. refresh_run example_attempts (Registry_SetOnSync None (NewRegistry (Some example_table) (Some example_fetcher) DefaultConfig)) = Ret r \<and>
     rg_kind r = SourceStale \<and> rg_fails r = 2 \<and> rg_lastSync r = 1000 \<and> rg_lastErr r = Some ErrEmptyTable \<and>
     Registry_PriceFor in_order ''gpt-4'' r = Ret (\<lparr>mp_InputUSD = 25000000, mp_OutputUSD = 50000000\<rparr>, True)"
proof -
  have "int (length example_attempts) \<le> int64_max" by (simp add: example_attempts_def int64_bounds)
  note h = refresh_history [OF this, of None example_table example_fetcher DefaultConfig]
  show ?thesis
    unfolding h by (simp add: run_spec_def example_attempts_def attempt_result_def refresh_fetched_def refresh_build_def
        Registry_merge_def Registry_SetOnSync_def NewRegistry_def example_models_def example_table_def Build_def Let_def
        Registry_PriceFor_def Pricing_PriceFor_def)
qed

text \<open>
  The delay before the next attempt: with the configuration every constructor normalises, and a
  cap of at most \<open>2 ^ 62\<close> nanoseconds, \<^verbatim>\<open>nextDelay\<close> never overflows and is exactly the
  documented \<open>BackoffBase * 2 ^ (fails - 1)\<close> capped by \<^verbatim>\<open>BackoffMax\<close> and by
  \<^verbatim>\<open>RefreshInterval\<close>; it is positive, so the loop never spins, and does not exceed the
  interval.
\<close>

theorem next_delay_backoff:
  fixes r :: "'c Registry"
  assumes "rg_cfg r = normalizeConfig cfg" and "cf_BackoffMax (normalizeConfig cfg) \<le> 2 ^ 62"
  shows "Registry_nextDelay r = backoff_spec (normalizeConfig cfg) (rg_fails r) \<and>
    (0 < cf_RefreshInterval cfg \<longrightarrow> 0 < Registry_nextDelay r \<and> Registry_nextDelay r \<le> cf_RefreshInterval cfg)"
proof -
  have "Registry_nextDelay r = backoff_spec (normalizeConfig cfg) (rg_fails r)"
    using nextDelay_spec [of r] assms normalizeConfig_positive(1) [of cfg] by simp
  then show ?thesis
    using backoff_spec_bounds [OF normalizeConfig_positive(1,2) [of cfg]] by simp
qed

theorem next_delay_backoff_witness:
  "Registry_nextDelay ((NewRegistry None None DefaultConfig :: unit Registry)\<lparr>rg_fails := 40\<rparr>) = 5 * Minute \<and>
   Registry_nextDelay ((NewRegistry None None DefaultConfig :: unit Registry)\<lparr>rg_fails := 4\<rparr>) = 80 * Second"
proof -
  have mx: "cf_BackoffMax (normalizeConfig DefaultConfig) \<le> 2 ^ 62"
    unfolding normalized_default by (simp add: DefaultConfig_def Minute_def Second_def)
  have cfg: "rg_cfg ((NewRegistry None None DefaultConfig :: unit Registry)\<lparr>rg_fails := n\<rparr>) = normalizeConfig DefaultConfig" for n
    by (simp add: NewRegistry_def)
  have "backoff_spec DefaultConfig 40 = 5 * Minute" "backoff_spec DefaultConfig 4 = 80 * Second"
    by (simp_all add: backoff_spec_def DefaultConfig_def Hour_def Minute_def Second_def)
  then show ?thesis
    using next_delay_backoff [OF cfg mx, of 40] next_delay_backoff [OF cfg mx, of 4] by (simp add: normalized_default)
qed

text \<open>
  The background loop: launched on a registry with a static table, it never panics, performs one
  refresh per timer tick, returns exactly when the context ends or the registry is stopped, and every
  delay it waits is positive and at most the refresh interval. After a successful bootstrap it starts
  without a second fetch.
\<close>

theorem background_loop:
  fixes r :: "'c Registry"
  assumes "Registry_Start (Some r)" and "rg_base r \<noteq> None"
    and "rg_cfg r = normalizeConfig cfg" and "cf_BackoffMax (normalizeConfig cfg) \<le> 2 ^ 62"
  shows "(\<exists>ds r'. Registry_loop first es r = Ret (ds, \<exists>e\<in>set es. \<not> is_tick e, r') \<and>
      length ds = Suc (length (takeWhile is_tick es)) \<and> (\<forall>d\<in>set ds. 0 < d \<and> d \<le> cf_RefreshInterval cfg)) \<and>
    (Registry_bootstrapped r \<longrightarrow> Registry_loop first es r = loop_select es r)"
proof -
  have r: "rg_fetcher r \<noteq> None" "0 < cf_RefreshInterval cfg" using assms(1,3) by (auto simp: Registry_Start_def)
  obtain r1 where r1: "(if Registry_bootstrapped r then Ret r else loop_refresh first r) = Ret r1"
      "rg_fetcher r1 = rg_fetcher r" "rg_base r1 = rg_base r" "rg_cfg r1 = rg_cfg r"
  proof (cases "Registry_bootstrapped r")
    case False
    obtain r' where "loop_refresh first r = Ret r'" "rg_fetcher r' = rg_fetcher r" "rg_base r' = rg_base r" "rg_cfg r' = rg_cfg r"
      using r(1) assms(2) by (rule loop_refresh_cfg)
    with False show thesis by (intro that [of r']) simp_all
  qed (use that in simp)
  have "\<exists>ds r'. loop_select es r1 = Ret (ds, \<exists>e\<in>set es. \<not> is_tick e, r') \<and>
      length ds = Suc (length (takeWhile is_tick es)) \<and> (\<forall>d\<in>set ds. 0 < d \<and> d \<le> cf_RefreshInterval (rg_cfg r1))"
    using r assms r1(2-4) normalizeConfig_positive(1,2) [of cfg] by (intro loop_select_delays) simp_all
  then show ?thesis using r1(1,4) assms(3) by (simp add: Registry_loop_def)
qed

theorem background_loop_witness:
  "\<exists>ds r'. Registry_loop (hd example_attempts) [TimerFired (hd example_attempts), StopClosed]
     (NewRegistry (Some example_table) (Some example_fetcher) DefaultConfig) = Ret (ds, True, r') \<and> length ds = 2"
proof -
  let ?r = "NewRegistry (Some example_table) (Some example_fetcher) DefaultConfig :: unit Registry"
  have "Registry_Start (Some ?r)" "rg_base ?r \<noteq> None" "rg_cfg ?r = normalizeConfig DefaultConfig"
    by (simp_all add: Registry_Start_def NewRegistry_def DefaultConfig_def Hour_def Minute_def Second_def normalizeConfig_def Let_def)
  moreover have "cf_BackoffMax (normalizeConfig DefaultConfig) \<le> 2 ^ 62"
    unfolding normalized_default by (simp add: DefaultConfig_def Minute_def Second_def)
  ultimately show ?thesis
    using background_loop [of ?r DefaultConfig "hd example_attempts" "[TimerFired (hd example_attempts), StopClosed]"] by auto
qed

text \<open>Without a fetcher a failed refresh leaves the kind as it is, so a table that a manual sync made
  live stays live although the last refresh failed.\<close>

lemma live_after_failed_refresh:
  assumes "rg_fetcher r = None"
  shows "\<exists>r'. Registry_refresh ords ctx fetched now (Registry_ReplaceLive tbl t r) = Ret (Some errNoFetcher, r') \<and>
    Registry_SourceKind r' = SourceLive \<and> snd (Registry_LastRefresh r') = Some errNoFetcher"
proof -
  have "rg_fetcher (Registry_ReplaceLive tbl t r) = None" "rg_kind (Registry_ReplaceLive tbl t r) = SourceLive"
    using assms by (simp_all add: Registry_ReplaceLive_def Let_def)
  then show ?thesis
    by (simp add: Registry_refresh_def refresh_unconfigured_def Registry_SourceKind_def Registry_LastRefresh_def)
qed

end
