(* ===== verification/Go_Decimal.thy ===== *)
theory Go_Decimal
  imports Go_Float Go_Strings
begin

text \<open>
  What the program uses of \<^verbatim>\<open>strconv.ParseFloat\<close>: decimal floating-point literals. The
  other forms it accepts (hexadecimal, underscores, infinities) never reach it. The value is the exact
  decimal number rounded once; the exponent stops growing at 10000, as in the library, and a value out
  of range is an error.
\<close>

definition sign_of :: "string \<Rightarrow> string \<times> string" where
  "sign_of s = (case s of c # r \<Rightarrow> if c = CHR ''+'' \<or> c = CHR ''-'' then ([c], r) else ([], s) | [] \<Rightarrow> ([], []))"

definition digits_of :: "string \<Rightarrow> string \<times> string" where
  "digits_of s = (takeWhile json_digit s, dropWhile json_digit s)"

definition digit_value :: "char \<Rightarrow> int" where
  "digit_value c = int (code c - 0x30)"

definition decimal_int :: "string \<Rightarrow> int" where
  "decimal_int ds = fold (\<lambda>c n. n * 10 + digit_value c) ds 0"

definition decimal_exp :: "string \<Rightarrow> int" where
  "decimal_exp ds = fold (\<lambda>c e. if e < 10000 then e * 10 + digit_value c else e) ds 0"

definition pow10 :: "int \<Rightarrow> rat" where
  "pow10 e = (if 0 \<le> e then 10 ^ nat e else 1 / 10 ^ nat (- e))"

definition decimal_value :: "string \<Rightarrow> string \<Rightarrow> string \<Rightarrow> int \<Rightarrow> rat" where
  "decimal_value sg ds fs e = (if sg = ''-'' then - 1 else 1) * of_int (decimal_int (ds @ fs)) * pow10 (e - int (length fs))"

definition in_range :: "float64 \<Rightarrow> float64 option" where
  "in_range v = (if v = PosInf \<or> v = NegInf then None else Some v)"

definition ParseFloat :: "string \<Rightarrow> float64 option" where
  "ParseFloat s =
     (let (sg, s1) = sign_of s; (ds, s2) = digits_of s1;
          (fs, s3) = (case s2 of c # r \<Rightarrow> if c = CHR ''.'' then digits_of r else ([], s2) | [] \<Rightarrow> ([], []))
      in if ds @ fs = [] then None
         else case s3 of
                [] \<Rightarrow> in_range (round64 (decimal_value sg ds fs 0))
              | c # r \<Rightarrow>
                  if c = CHR ''e'' \<or> c = CHR ''E''
                  then let (esg, r1) = sign_of r; (es, r2) = digits_of r1
                       in if es = [] \<or> r2 \<noteq> [] then None
                          else in_range (round64 (decimal_value sg ds fs (if esg = ''-'' then - decimal_exp es else decimal_exp es)))
                  else None)"

text \<open>A JSON number or boolean onto a \<^verbatim>\<open>float64\<close> or a \<^verbatim>\<open>bool\<close>.\<close>

fun store_float :: "float64 store" where
  "store_float (JNum s) old = ParseFloat s"
| "store_float JNull old = Some old"
| "store_float _ old = None"

fun store_bool :: "bool store" where
  "store_bool (JBool b) old = Some b"
| "store_bool JNull old = Some old"
| "store_bool _ old = None"

section \<open>Scanning\<close>

lemma sign_of_append: "fst (sign_of s) @ snd (sign_of s) = s"
  by (simp add: sign_of_def split: list.split)

lemma digits_of_append: "fst (digits_of s) @ snd (digits_of s) = s"
  by (simp add: digits_of_def)

lemma digits_of_digits: "list_all json_digit (fst (digits_of s))"
  by (simp add: digits_of_def list_all_iff) (meson set_takeWhileD)

lemma digits_of_stop: "snd (digits_of s) = c # r \<Longrightarrow> \<not> json_digit c"
  by (simp add: digits_of_def dropWhile_eq_Cons_conv)

lemma digits_of_whole: "list_all json_digit ds \<Longrightarrow> digits_of (ds @ s) = (ds @ fst (digits_of s), snd (digits_of s))"
  by (simp add: digits_of_def list_all_iff)

lemma sign_of_cases: "fst (sign_of s) = [] \<or> fst (sign_of s) = ''+'' \<or> fst (sign_of s) = ''-''"
  by (simp add: sign_of_def split: list.split)

lemma sign_not_digit [simp]: "\<not> json_digit (CHR ''+'')" "\<not> json_digit (CHR ''-'')" "\<not> json_digit (CHR ''.'')"
    "\<not> json_digit (CHR ''e'')" "\<not> json_digit (CHR ''E'')"
  by (simp_all add: json_digit_def between_def code_def)

lemma decimal_int_snoc [simp]: "decimal_int (ds @ [c]) = decimal_int ds * 10 + digit_value c"
  by (simp add: decimal_int_def)

lemma decimal_int_nonneg: "0 \<le> decimal_int ds"
  by (induction ds rule: rev_induct) (simp_all add: decimal_int_def digit_value_def)

lemma pow10_pos [simp]: "0 < pow10 e"
  by (simp add: pow10_def)

end
