(* ===== verification/Catalog_Fetcher.thy ===== *)
theory Catalog_Fetcher
  imports Go_Decimal Price_Registry
begin

text \<open>
  The catalog fetcher (\<^verbatim>\<open>pkg/pricing/fetcher.go\<close>, from \<^verbatim>\<open>FetchResult\<close>
  on): the request, the outcomes of the exchange, the limits on the body, and the parsing of catalog
  prices. The network is an argument: what building the request and \<^verbatim>\<open>client.Do\<close>
  return, a response being its status and the bytes of its body with the error its reading ends in, if
  any, and the text of the error for a body that does not decode. The reason of a skipped model is a value instead of a rendered text.
\<close>

section \<open>Prices\<close>

text \<open>The longest prefix that is a floating-point literal, and the rest.\<close>

definition scan_fraction :: "bool \<Rightarrow> string \<Rightarrow> string \<times> string \<times> bool" where
  "scan_fraction digits s =
     (case s of
        c # r \<Rightarrow>
          if c = CHR ''.''
          then let (fs, r') = digits_of r; digits = (digits \<or> fs \<noteq> [])
               in if fs = [] \<and> \<not> digits then ([], s, digits) else (c # fs, r', digits)
          else ([], s, digits)
      | [] \<Rightarrow> ([], [], digits))"

definition scan_exponent :: "string \<Rightarrow> string \<times> string" where
  "scan_exponent s =
     (case s of
        c # r \<Rightarrow>
          if c = CHR ''e'' \<or> c = CHR ''E''
          then let (sg, r1) = sign_of r; (es, r2) = digits_of r1
               in if es \<noteq> [] then (c # sg @ es, r2) else ([], s)
          else ([], s)
      | [] \<Rightarrow> ([], []))"

definition float_prefix :: "string \<Rightarrow> (string \<times> string) option" where
  "float_prefix s =
     (let (sg, s1) = sign_of s; (ds, s2) = digits_of s1; digits = (ds \<noteq> []);
          (frac, s3, digits) = scan_fraction digits s2
      in if \<not> digits then None
         else let (ex, s4) = scan_exponent s3
              in Some (sg @ ds @ frac @ ex, s4))"

definition splitFloatPrefix :: "string \<Rightarrow> (float64 \<times> string) option" where
  "splitFloatPrefix s =
     (case float_prefix s of
        None \<Rightarrow> None
      | Some (p, rest) \<Rightarrow> (case ParseFloat p of None \<Rightarrow> None | Some v \<Rightarrow> Some (v, rest)))"

definition hasPerMillionScale :: "string \<Rightarrow> bool" where
  "hasPerMillionScale rest =
     (let rest = TrimSpace (TrimPrefix (TrimSpace rest) ''/''); rest = ToLower rest
      in list_ex (HasPrefix rest) [''1m'', ''million'', ''mtokens'', ''mtok'', ''m''])"

definition parsePriceString :: "string \<Rightarrow> float64 option" where
  "parsePriceString s =
     (let s = TrimSpace s
      in if s = '''' then None
         else if s \<in> {''-1'', ''per_request'', ''per_request_limits''} then None
         else let s = TrimPrefix s ''$''; s = filter (\<lambda>c. c \<noteq> CHR '','') s; s = TrimSpace s
              in case splitFloatPrefix s of
                   None \<Rightarrow> None
                 | Some (v, rest) \<Rightarrow> if hasPerMillionScale rest then Some v else Some (f64_mul v (Fin 1000000)))"

definition modelPrice :: "string \<Rightarrow> string \<Rightarrow> ModelPrice option" where
  "modelPrice promptStr completionStr =
     (case parsePriceString promptStr of
        None \<Rightarrow> None
      | Some pUSD \<Rightarrow>
          (case parsePriceString completionStr of
             None \<Rightarrow> None
           | Some cUSD \<Rightarrow>
               (case toMicroUSDPer1M pUSD of
                  None \<Rightarrow> None
                | Some pUS \<Rightarrow>
                    (case toMicroUSDPer1M cUSD of
                       None \<Rightarrow> None
                     | Some cUS \<Rightarrow> Some \<lparr>mp_InputUSD = pUS, mp_OutputUSD = cUS\<rparr>))))"

section \<open>The exchange\<close>

record RefreshError =
  re_Endpoint :: string
  re_Status :: int
  re_Snippet :: string
  re_Err :: "error option"

definition RefreshError_Error :: "RefreshError option \<Rightarrow> error" where
  "RefreshError_Error e =
     (case e of
        None \<Rightarrow> ''pricing: nil refresh error''
      | Some e \<Rightarrow>
          if re_Status e \<noteq> 0 \<and> re_Snippet e \<noteq> ''''
          then ''pricing: refresh '' @ re_Endpoint e @ '': http '' @ Itoa (re_Status e) @ '': '' @ re_Snippet e
          else if re_Status e \<noteq> 0 then ''pricing: refresh '' @ re_Endpoint e @ '': http '' @ Itoa (re_Status e)
          else ''pricing: refresh '' @ re_Endpoint e @ '': '' @ (case re_Err e of None \<Rightarrow> ''<nil>'' | Some err \<Rightarrow> err))"

definition RefreshError_Unwrap :: "RefreshError \<Rightarrow> error option" where
  "RefreshError_Unwrap e = re_Err e"

datatype fetch_error = NoEndpoint | Refresh RefreshError

fun error_text :: "fetch_error \<Rightarrow> error" where
  "error_text NoEndpoint = ''pricing: no catalog endpoint configured''"
| "error_text (Refresh e) = RefreshError_Error (Some e)"

datatype skip_reason = EmptyId | Unpriceable string string

record SkippedModel =
  sk_ID :: string
  sk_Reason :: skip_reason

record FetchResult =
  fr_Models :: models
  fr_Default :: ModelPrice
  fr_Skipped :: "SkippedModel list"
  fr_Updated :: time

type_synonym body_stream = "string \<times> error option"

record catalog_request =
  cq_URL :: string
  cq_Header :: "(string \<times> string) list"

record catalog_response =
  cs_StatusCode :: int
  cs_Body :: body_stream

record exchange =
  ex_NewRequest :: "string \<Rightarrow> error option"
  ex_Do :: "catalog_request \<Rightarrow> error + catalog_response"
  ex_JSONError :: "string \<Rightarrow> error"

definition readSnippet :: "body_stream \<Rightarrow> nat \<Rightarrow> string" where
  "readSnippet r n = TrimSpace (take n (fst r))"

definition snippetFromBody :: "string \<Rightarrow> string" where
  "snippetFromBody b = (let b = (if length b > 512 then take 512 b else b) in TrimSpace b)"

text \<open>A limited reader gives its reader's bytes up to a number of them; with none left it is at its end.\<close>

definition LimitedReader_read :: "body_stream \<Rightarrow> int \<Rightarrow> body_stream" where
  "LimitedReader_read r n = (if n \<le> int (length (fst r)) then (take (nat n) (fst r), None) else r)"

definition readCappedBody :: "body_stream \<Rightarrow> int \<Rightarrow> error + string" where
  "readCappedBody r limit =
     (let limit = (if limit \<le> 0 then 8 * 2 ^ 20 else limit);
          (body, err) = LimitedReader_read r (wrap64 (limit + 1))
      in case err of
           Some err \<Rightarrow> Inl err
         | None \<Rightarrow> if int (length body) > limit then Inl (''catalog response exceeds '' @ Itoa limit @ '' bytes'') else Inr body)"

text \<open>An entry is its id with the pricing strings of prompt and completion.\<close>

type_synonym catalog_entry = "string \<times> string \<times> string"

definition store_pricing :: "(string \<times> string) store" where
  "store_pricing = store_struct
     [(''prompt'', \<lambda>v (p, c). map_option (\<lambda>x. (x, c)) (store_string v p)),
      (''completion'', \<lambda>v (p, c). map_option (\<lambda>x. (p, x)) (store_string v c))]"

definition store_entry :: "catalog_entry store" where
  "store_entry = store_struct
     [(''id'', \<lambda>v (i, pc). map_option (\<lambda>x. (x, pc)) (store_string v i)),
      (''pricing'', \<lambda>v (i, pc). map_option (\<lambda>x. (i, x)) (store_pricing v pc))]"

definition modelsResponse :: "catalog_entry slice store" where
  "modelsResponse = store_struct [(''data'', store_slice ('''', '''', '''') store_entry)]"

fun models_loop :: "catalog_entry list \<Rightarrow> models \<Rightarrow> SkippedModel list option \<Rightarrow> models \<times> SkippedModel list option" where
  "models_loop [] models skipped = (models, skipped)"
| "models_loop ((i, prompt, completion) # es) models skipped =
     (if i = '''' then models_loop es models (map_option (\<lambda>sk. sk @ [\<lparr>sk_ID = '''', sk_Reason = EmptyId\<rparr>]) skipped)
      else case modelPrice prompt completion of
             None \<Rightarrow> models_loop es models
                 (map_option (\<lambda>sk. sk @ [\<lparr>sk_ID = i, sk_Reason = Unpriceable prompt completion\<rparr>]) skipped)
           | Some mp \<Rightarrow> models_loop es (gm_set models i mp) skipped)"

definition catalog_headers :: "Config \<Rightarrow> (string \<times> string) list" where
  "catalog_headers cfg =
     [(''Accept'', ''application/json'')] @
     (if cf_UserAgent cfg \<noteq> '''' then [(''User-Agent'', cf_UserAgent cfg)] else []) @
     (if cf_APIKey cfg \<noteq> '''' then [(''Authorization'', ''Bearer '' @ cf_APIKey cfg)] else [])"

definition fetchModels ::
    "exchange \<Rightarrow> string \<Rightarrow> SkippedModel list option \<Rightarrow> Fetcher \<Rightarrow> fetch_error + (models \<times> SkippedModel list option)" where
  "fetchModels net endpoint skipped f =
     (let cfg = ft_cfg f;
          endpoint = (if endpoint = '''' then cf_Endpoint cfg else endpoint);
          failed = (\<lambda>status snippet err. Inl (Refresh \<lparr>re_Endpoint = endpoint, re_Status = status, re_Snippet = snippet, re_Err = err\<rparr>))
      in if endpoint = '''' then Inl NoEndpoint
         else case ex_NewRequest net endpoint of
                Some err \<Rightarrow> failed 0 '''' (Some err)
              | None \<Rightarrow>
                  (case ex_Do net \<lparr>cq_URL = endpoint, cq_Header = catalog_headers cfg\<rparr> of
                     Inl err \<Rightarrow> failed 0 '''' (Some err)
                   | Inr resp \<Rightarrow>
                       if cs_StatusCode resp < 200 \<or> cs_StatusCode resp > 299
                       then failed (cs_StatusCode resp) (readSnippet (cs_Body resp) 512) None
                       else case readCappedBody (cs_Body resp) (cf_MaxBodyBytes cfg) of
                              Inl err \<Rightarrow> failed (cs_StatusCode resp) '''' (Some err)
                            | Inr body \<Rightarrow>
                                (case unmarshal modelsResponse ([], []) body of
                                   None \<Rightarrow> failed (cs_StatusCode resp) (snippetFromBody body) (Some (ex_JSONError net body))
                                 | Some (entries, _) \<Rightarrow> Inr (models_loop entries [] skipped))))"

definition FetchModels :: "exchange \<Rightarrow> string \<Rightarrow> Fetcher \<Rightarrow> fetch_error + models" where
  "FetchModels net endpoint f = (case fetchModels net endpoint None f of Inl err \<Rightarrow> Inl err | Inr (models, _) \<Rightarrow> Inr models)"

definition Fetch :: "exchange \<Rightarrow> time \<Rightarrow> Fetcher \<Rightarrow> fetch_error + FetchResult" where
  "Fetch net now f =
     (case fetchModels net (cf_Endpoint (ft_cfg f)) (Some []) f of
        Inl err \<Rightarrow> Inl err
      | Inr (models, skipped) \<Rightarrow>
          Inr \<lparr>fr_Models = models, fr_Default = ModelPrice_zero, fr_Skipped = (case skipped of None \<Rightarrow> [] | Some sk \<Rightarrow> sk), fr_Updated = now\<rparr>)"

section \<open>Floating-point literals\<close>

definition digit_string :: "string \<Rightarrow> bool" where
  "digit_string ds \<longleftrightarrow> list_all json_digit ds"

definition is_sign :: "string \<Rightarrow> bool" where
  "is_sign sg \<longleftrightarrow> sg = '''' \<or> sg = ''+'' \<or> sg = ''-''"

definition fraction :: "string \<Rightarrow> bool" where
  "fraction f \<longleftrightarrow> f = [] \<or> (\<exists>ds. f = CHR ''.'' # ds \<and> digit_string ds)"

definition exponent :: "string \<Rightarrow> bool" where
  "exponent e \<longleftrightarrow> e = [] \<or> (\<exists>c sg ds. e = c # sg @ ds \<and> (c = CHR ''e'' \<or> c = CHR ''E'') \<and> is_sign sg \<and> ds \<noteq> [] \<and> digit_string ds)"

text \<open>The grammar of decimal literals: a sign, digits with a point among them, an exponent.\<close>

definition float_literal :: "string \<Rightarrow> bool" where
  "float_literal p \<longleftrightarrow> (\<exists>sg ds f e. p = sg @ ds @ f @ e \<and> is_sign sg \<and> digit_string ds \<and> fraction f \<and> exponent e \<and> ds @ tl f \<noteq> [])"

lemma is_sign_sign_of: "is_sign (fst (sign_of s))"
  using sign_of_cases [of s] by (auto simp: is_sign_def)

lemma digit_string_digits_of: "digit_string (fst (digits_of s))"
  using digits_of_digits by (simp add: digit_string_def)

lemma sign_of_signed:
  assumes "is_sign sg" and "\<forall>c r. s = c # r \<longrightarrow> c \<noteq> CHR ''+'' \<and> c \<noteq> CHR ''-''"
  shows "sign_of (sg @ s) = (sg, s)"
  using assms by (auto simp: is_sign_def sign_of_def split: list.split)

lemma digits_of_stopped: "\<forall>c r. s = c # r \<longrightarrow> \<not> json_digit c \<Longrightarrow> digits_of s = ([], s)"
  by (cases s) (auto simp: digits_of_def)

lemma digits_of_digit_string: "digit_string ds \<Longrightarrow> digits_of (ds @ s) = (ds @ fst (digits_of s), snd (digits_of s))"
  unfolding digit_string_def by (rule digits_of_whole)

lemma digit_string_start: "digit_string ds \<Longrightarrow> ds \<noteq> [] \<Longrightarrow> \<forall>c r. ds @ s = c # r \<longrightarrow> c \<noteq> CHR ''+'' \<and> c \<noteq> CHR ''-''"
  by (cases ds) (auto simp: digit_string_def)

lemma scan_fraction_parts:
  assumes "scan_fraction digits s = (f, r, digits')"
  shows "s = f @ r \<and> fraction f \<and> digits' = (digits \<or> tl f \<noteq> []) \<and> (digits' \<or> f = [])"
  using assms digits_of_append [of "tl s"] digit_string_digits_of [of "tl s"]
  by (cases s) (auto simp: scan_fraction_def fraction_def case_prod_unfold Let_def split: if_splits)

lemma scan_exponent_parts:
  assumes "scan_exponent s = (e, r)"
  shows "s = e @ r \<and> exponent e"
proof (cases s)
  case (Cons c t)
  have "t = fst (sign_of t) @ fst (digits_of (snd (sign_of t))) @ snd (digits_of (snd (sign_of t)))"
    by (simp add: digits_of_append sign_of_append)
  then show ?thesis
    using assms is_sign_sign_of [of t] digit_string_digits_of [of "snd (sign_of t)"]
    by (auto simp: Cons scan_exponent_def exponent_def case_prod_unfold Let_def split: if_splits)
qed (use assms in \<open>simp add: scan_exponent_def exponent_def\<close>)

lemma float_prefix_literal:
  assumes "float_prefix s = Some (p, r)"
  shows "s = p @ r \<and> float_literal p"
proof -
  obtain sg s1 where sg: "sign_of s = (sg, s1)" by (cases "sign_of s")
  obtain ds s2 where ds: "digits_of s1 = (ds, s2)" by (cases "digits_of s1")
  obtain f s3 digits where f: "scan_fraction (ds \<noteq> []) s2 = (f, s3, digits)" by (cases "scan_fraction (ds \<noteq> []) s2")
  obtain e s4 where e: "scan_exponent s3 = (e, s4)" by (cases "scan_exponent s3")
  have "s = sg @ ds @ f @ e @ s4" "is_sign sg" "digit_string ds" "fraction f" "exponent e"
    using sign_of_append [of s] is_sign_sign_of [of s] digits_of_append [of s1] digit_string_digits_of [of s1]
      scan_fraction_parts [OF f] scan_exponent_parts [OF e] by (auto simp: sg ds)
  moreover have "float_prefix s = (if digits then Some (sg @ ds @ f @ e, s4) else None)"
    by (simp add: float_prefix_def sg ds f e)
  then have "p = sg @ ds @ f @ e" "r = s4" "digits" using assms by (simp_all split: if_splits)
  moreover have "digits \<Longrightarrow> ds @ tl f \<noteq> []" using scan_fraction_parts [OF f] by simp
  ultimately show ?thesis by (auto simp: float_literal_def)
qed

text \<open>An exponent that is there is scanned, with the digits that follow it.\<close>

lemma scan_exponent_whole:
  assumes "exponent e" and "e \<noteq> []"
  obtains u r where "scan_exponent (e @ t) = (e @ u, r)"
proof -
  obtain c sg ds where e: "e = c # sg @ ds" "c = CHR ''e'' \<or> c = CHR ''E''" "is_sign sg" "ds \<noteq> []" "digit_string ds"
    using assms by (auto simp: exponent_def)
  have "sign_of (sg @ ds @ t) = (sg, ds @ t)"
    using e digit_string_start [of ds t] by (intro sign_of_signed) auto
  then have "scan_exponent (e @ t) = (e @ fst (digits_of t), snd (digits_of t))"
    using e by (auto simp: scan_exponent_def digits_of_digit_string Let_def)
  then show ?thesis by (rule that)
qed

lemma float_prefix_longest:
  assumes "float_literal q"
  shows "\<exists>u r. float_prefix (q @ t) = Some (q @ u, r)"
proof -
  obtain sg ds f e where q: "q = sg @ ds @ f @ e" "is_sign sg" "digit_string ds" "fraction f" "exponent e" "ds @ tl f \<noteq> []"
    using assms by (auto simp: float_literal_def)
  have "\<forall>c r. ds @ f @ e @ t = c # r \<longrightarrow> c \<noteq> CHR ''+'' \<and> c \<noteq> CHR ''-''"
    using q(3,4,6) by (cases ds) (auto simp: digit_string_def fraction_def)
  then have sign: "sign_of (q @ t) = (sg, ds @ f @ e @ t)"
    using sign_of_signed [OF q(2), of "ds @ f @ e @ t"] q(1) by simp
  have exp_stop: "digits_of (e @ t) = ([], e @ t)" if "e \<noteq> []"
    using q(5) that by (intro digits_of_stopped) (auto simp: exponent_def)
  show ?thesis
  proof (cases "f = []")
    case True
    have digits: "digits_of (ds @ e @ t) = (ds @ fst (digits_of (e @ t)), snd (digits_of (e @ t)))"
      by (rule digits_of_digit_string [OF q(3)])
    show ?thesis
    proof (cases "e = []")
      case True
      then show ?thesis
        using \<open>f = []\<close> q sign digits
        by (cases "scan_fraction True (snd (digits_of t))")
          (auto simp: float_prefix_def case_prod_unfold Let_def scan_fraction_def split: if_splits list.splits)
    next
      case False
      then have "scan_fraction True (e @ t) = ([], e @ t, True)"
        using q(5) by (auto simp: scan_fraction_def exponent_def)
      moreover obtain u r where "scan_exponent (e @ t) = (e @ u, r)"
        by (rule scan_exponent_whole [OF q(5) False])
      ultimately show ?thesis
        using \<open>f = []\<close> q sign digits exp_stop [OF False] by (auto simp: float_prefix_def case_prod_unfold Let_def)
    qed
  next
    case False
    then obtain fs where fs: "f = CHR ''.'' # fs" "digit_string fs" using q(4) by (auto simp: fraction_def)
    have digits: "digits_of (ds @ f @ e @ t) = (ds, f @ e @ t)"
      using digits_of_digit_string [OF q(3), of "f @ e @ t"] by (simp add: digits_of_stopped fs(1))
    have frac: "scan_fraction (ds \<noteq> []) (f @ e @ t) = (f @ fst (digits_of (e @ t)), snd (digits_of (e @ t)), True)"
      using q(6) fs by (auto simp: scan_fraction_def digits_of_digit_string Let_def)
    show ?thesis
    proof (cases "e = []")
      case True
      then show ?thesis using q(1) sign digits frac by (auto simp: float_prefix_def case_prod_unfold Let_def)
    next
      case e: False
      obtain u r where "scan_exponent (e @ t) = (e @ u, r)"
        by (rule scan_exponent_whole [OF q(5) e])
      then show ?thesis
        using q(1) sign digits frac exp_stop [OF e] by (auto simp: float_prefix_def case_prod_unfold Let_def)
    qed
  qed
qed

text \<open>Parsing a literal fails only for a value out of range.\<close>

lemma ParseFloat_literal:
  assumes "float_literal p"
  shows "\<exists>x. ParseFloat p = in_range (round64 x)"
proof -
  obtain sg ds f e where p: "p = sg @ ds @ f @ e" "is_sign sg" "digit_string ds" "fraction f" "exponent e" "ds @ tl f \<noteq> []"
    using assms by (auto simp: float_literal_def)
  have "\<forall>c r. ds @ f @ e = c # r \<longrightarrow> c \<noteq> CHR ''+'' \<and> c \<noteq> CHR ''-''"
    using p(3,4,6) by (cases ds) (auto simp: digit_string_def fraction_def)
  then have sign: "sign_of p = (sg, ds @ f @ e)" using sign_of_signed [OF p(2)] p(1) by simp
  have stop: "digits_of e = ([], e)"
    using p(5) by (intro digits_of_stopped) (auto simp: exponent_def)
  have "digits_of (f @ e) = ([], f @ e)"
  proof (cases "f = []")
    case False
    then show ?thesis using p(4) by (auto simp: fraction_def digits_of_stopped)
  qed (simp add: stop)
  then have digits: "digits_of (ds @ f @ e) = (ds, f @ e)" by (simp add: digits_of_digit_string [OF p(3)])
  have whole: "digits_of ds = (ds, [])" if "digit_string ds" for ds
    using digits_of_digit_string [OF that, of "[]"] by (simp add: digits_of_stopped)
  have frac: "(case f @ e of c # r \<Rightarrow> if c = CHR ''.'' then digits_of r else ([], f @ e) | [] \<Rightarrow> ([], [])) = (tl f, e)"
    using p(4,5) stop by (auto simp: fraction_def digits_of_digit_string exponent_def whole)
  have eq: "ParseFloat p = (case e of
      [] \<Rightarrow> in_range (round64 (decimal_value sg ds (tl f) 0))
    | c # r \<Rightarrow>
        if c = CHR ''e'' \<or> c = CHR ''E''
        then let (esg, r1) = sign_of r; (es, r2) = digits_of r1
             in if es = [] \<or> r2 \<noteq> [] then None
                else in_range (round64 (decimal_value sg ds (tl f) (if esg = ''-'' then - decimal_exp es else decimal_exp es)))
        else None)"
    using p(6) by (simp add: ParseFloat_def sign digits frac) blast
  show ?thesis
  proof (cases "e = []")
    case True
    then show ?thesis by (auto simp: eq)
  next
    case False
    then obtain c sg' es where e: "e = c # sg' @ es" "c = CHR ''e'' \<or> c = CHR ''E''" "is_sign sg'" "es \<noteq> []" "digit_string es"
      using p(5) by (auto simp: exponent_def)
    have "sign_of (sg' @ es) = (sg', es)" "digits_of es = (es, [])"
      using e digit_string_start [of es "[]"] digits_of_digit_string [of es "[]"]
      by (auto simp: digits_of_stopped intro!: sign_of_signed)
    then show ?thesis using e by (auto simp: eq Let_def)
  qed
qed

section \<open>The entries of a catalog\<close>

text \<open>An entry with an id and two usable prices has a price; a skipped one has a reason.\<close>

fun entry_price :: "catalog_entry \<Rightarrow> ModelPrice option" where
  "entry_price (i, p, c) = (if i = '''' then None else modelPrice p c)"

fun skip_entry :: "catalog_entry \<Rightarrow> SkippedModel" where
  "skip_entry (i, p, c) = \<lparr>sk_ID = i, sk_Reason = (if i = '''' then EmptyId else Unpriceable p c)\<rparr>"

definition last_price :: "catalog_entry list \<Rightarrow> string \<Rightarrow> ModelPrice option" where
  "last_price es k = Option.bind (find (\<lambda>e. fst e = k \<and> entry_price e \<noteq> None) (rev es)) entry_price"

lemma last_price_snoc:
  "last_price (es @ [e]) k = (if fst e = k \<and> entry_price e \<noteq> None then entry_price e else last_price es k)"
  by (cases "entry_price e") (simp_all add: last_price_def)

lemma models_loop_append:
  "models_loop (es @ es') models skipped = (case models_loop es models skipped of (m, s) \<Rightarrow> models_loop es' m s)"
  by (induction es models skipped rule: models_loop.induct) (auto split: option.splits)

lemma models_loop_spec:
  assumes "models_loop es [] skipped = (m, s)"
  shows "gm_ok m \<and> (\<forall>k. gm_get m k = last_price es k) \<and>
    s = map_option (\<lambda>sk. sk @ map skip_entry (filter (\<lambda>e. entry_price e = None) es)) skipped"
  using assms
proof (induction es arbitrary: m s rule: rev_induct)
  case Nil
  then show ?case by (cases skipped) (auto simp: last_price_def)
next
  case (snoc e es)
  obtain m1 s1 where l: "models_loop es [] skipped = (m1, s1)" by (cases "models_loop es [] skipped")
  obtain i p c where e: "e = (i, p, c)" by (cases e)
  from snoc.IH [OF l] have IH: "gm_ok m1" "\<And>k. gm_get m1 k = last_price es k"
    "s1 = map_option (\<lambda>sk. sk @ map skip_entry (filter (\<lambda>e. entry_price e = None) es)) skipped" by blast+
  have s: "models_loop [e] m1 s1 = (m, s)" using snoc.prems by (simp add: models_loop_append l)
  show ?case
  proof (cases "entry_price e")
    case None
    then have "m = m1" "s = map_option (\<lambda>sk. sk @ [skip_entry e]) s1" using s by (auto simp: e split: if_splits)
    then show ?thesis using IH None by (cases skipped) (auto simp: last_price_snoc)
  next
    case (Some mp)
    then have "m = gm_set m1 i mp" "s = s1" using s by (auto simp: e split: if_splits)
    then show ?thesis using IH Some by (cases skipped) (auto simp: last_price_snoc e)
  qed
qed

lemma modelPrice_bounds:
  assumes "modelPrice p c = Some mp"
  shows "0 \<le> mp_InputUSD mp \<and> mp_InputUSD mp \<le> 1000000000 \<and> 0 \<le> mp_OutputUSD mp \<and> mp_OutputUSD mp \<le> 1000000000"
proof -
  obtain v w i j where "toMicroUSDPer1M v = Some i" "toMicroUSDPer1M w = Some j" "mp = \<lparr>mp_InputUSD = i, mp_OutputUSD = j\<rparr>"
    using assms by (auto simp: modelPrice_def split: option.splits)
  then show ?thesis by (auto elim: toMicro_bounds)
qed

lemma last_price_bounds:
  assumes "last_price es k = Some mp"
  shows "k \<noteq> '''' \<and> 0 \<le> mp_InputUSD mp \<and> mp_InputUSD mp \<le> 1000000000 \<and> 0 \<le> mp_OutputUSD mp \<and> mp_OutputUSD mp \<le> 1000000000"
proof -
  obtain e where "find (\<lambda>e. fst e = k \<and> entry_price e \<noteq> None) (rev es) = Some e" "entry_price e = Some mp"
    using assms by (auto simp: last_price_def split: bind_splits)
  moreover from this(1) have "fst e = k" by (auto simp: find_Some_iff)
  ultimately show ?thesis using modelPrice_bounds by (cases e) (auto split: if_splits)
qed

section \<open>Properties\<close>

text \<open>
  \<^verbatim>\<open>splitFloatPrefix\<close> is the longest match of the grammar of decimal literals: it
  succeeds exactly when some prefix of the text is a literal and the longest such prefix has a value in
  range, and returns that value with exactly the rest of the text. (Out of range is the only failure of
  a literal.)
\<close>

theorem float_prefix_is_longest:
  "splitFloatPrefix s = Some (v, rest) \<longleftrightarrow>
     (\<exists>p. s = p @ rest \<and> float_literal p \<and> ParseFloat p = Some v \<and>
       (\<forall>p' rest'. s = p' @ rest' \<and> float_literal p' \<longrightarrow> length p' \<le> length p))"
proof -
  have longest: "length p' \<le> length p" if "float_prefix s = Some (p, r)" "s = p' @ r'" "float_literal p'" for p r p' r'
    using float_prefix_longest [OF that(3), of r'] that(1,2) by auto
  show ?thesis
  proof
    assume "splitFloatPrefix s = Some (v, rest)"
    then obtain p where p: "float_prefix s = Some (p, rest)" "ParseFloat p = Some v"
      by (auto simp: splitFloatPrefix_def split: option.splits)
    then show "\<exists>p. s = p @ rest \<and> float_literal p \<and> ParseFloat p = Some v \<and>
       (\<forall>p' rest'. s = p' @ rest' \<and> float_literal p' \<longrightarrow> length p' \<le> length p)"
      using float_prefix_literal [OF p(1)] longest [OF p(1)] by blast
  next
    assume "\<exists>p. s = p @ rest \<and> float_literal p \<and> ParseFloat p = Some v \<and>
       (\<forall>p' rest'. s = p' @ rest' \<and> float_literal p' \<longrightarrow> length p' \<le> length p)"
    then obtain p where p: "s = p @ rest" "float_literal p" "ParseFloat p = Some v"
        "\<And>p' rest'. s = p' @ rest' \<Longrightarrow> float_literal p' \<Longrightarrow> length p' \<le> length p" by blast
    obtain u r where f: "float_prefix s = Some (p @ u, r)" using float_prefix_longest [OF p(2), of rest] p(1) by auto
    then have "length (p @ u) \<le> length p" using float_prefix_literal [OF f] by (intro p(4)) auto
    then have "u = []" by simp
    then show "splitFloatPrefix s = Some (v, rest)"
      using f float_prefix_literal [OF f] p(1,3) by (simp add: splitFloatPrefix_def)
  qed
qed

theorem float_prefix_is_longest_witness:
  "\<exists>p. ''1.5e/M'' = p @ ''e/M'' \<and> float_literal p \<and> ParseFloat p = Some (Fin (3 / 2))"
proof -
  have "splitFloatPrefix ''1.5e/M'' = Some (Fin (3 / 2), ''e/M'')" by code_simp
  then show ?thesis using float_prefix_is_longest [of "''1.5e/M''" "Fin (3 / 2)" "''e/M''"] by blast
qed

text \<open>The exchange a fetch performs, in the order of its stages.\<close>

definition catalog_url :: "Fetcher \<Rightarrow> string \<Rightarrow> string" where
  "catalog_url f endpoint = (if endpoint = '''' then cf_Endpoint (ft_cfg f) else endpoint)"

definition catalog_body :: "exchange \<Rightarrow> Fetcher \<Rightarrow> string \<Rightarrow> error + (int \<times> body_stream)" where
  "catalog_body net f url =
     (case ex_NewRequest net url of
        Some err \<Rightarrow> Inl err
      | None \<Rightarrow> map_sum id (\<lambda>resp. (cs_StatusCode resp, cs_Body resp))
          (ex_Do net \<lparr>cq_URL = url, cq_Header = catalog_headers (ft_cfg f)\<rparr>))"

lemma fetchModels_stages:
  "fetchModels net endpoint skipped f =
     (if catalog_url f endpoint = '''' then Inl NoEndpoint
      else let failed = (\<lambda>status snippet err. Inl (Refresh
             \<lparr>re_Endpoint = catalog_url f endpoint, re_Status = status, re_Snippet = snippet, re_Err = err\<rparr>))
           in case catalog_body net f (catalog_url f endpoint) of
             Inl err \<Rightarrow> failed 0 '''' (Some err)
           | Inr (status, stream) \<Rightarrow>
               if status < 200 \<or> status > 299 then failed status (readSnippet stream 512) None
               else case readCappedBody stream (cf_MaxBodyBytes (ft_cfg f)) of
                      Inl err \<Rightarrow> failed status '''' (Some err)
                    | Inr body \<Rightarrow>
                        (case unmarshal modelsResponse ([], []) body of
                           None \<Rightarrow> failed status (snippetFromBody body) (Some (ex_JSONError net body))
                         | Some (entries, _) \<Rightarrow> Inr (models_loop entries [] skipped)))"
  by (auto simp: fetchModels_def catalog_url_def catalog_body_def Let_def split: option.split sum.split)

text \<open>With the largest limit the sum wraps around and nothing is read.\<close>

lemma readCappedBody_Inr:
  assumes "0 < limit" "limit \<le> int64_max"
  shows "readCappedBody (b, err) limit = Inr body \<longleftrightarrow>
    (if limit = int64_max then body = '''' else body = b \<and> err = None \<and> int (length b) \<le> limit)"
proof (cases "limit = int64_max")
  case True
  then have "wrap64 (limit + 1) \<le> 0" by (simp add: wrap64_def int64_bounds)
  then show ?thesis using assms True by (auto simp: readCappedBody_def LimitedReader_read_def Let_def int64_bounds)
next
  case False
  then have "wrap64 (limit + 1) = limit + 1" using assms by (intro wrap64_id) (simp add: is_int64_def int64_bounds)
  then show ?thesis
    using assms False by (auto simp: readCappedBody_def LimitedReader_read_def Let_def split: option.splits)
qed

lemma models_of_nothing: "unmarshal modelsResponse ([], []) '''' = None"
  by code_simp

text \<open>
  C25. A fetch of the catalog yields a table exactly when an endpoint is known, the exchange gives a
  response with a 2xx status, its body ends without an error within the limit and decodes, and the
  limit is below the largest 64-bit integer, for which the one byte more that is allowed to be read
  wraps around and no body is read at all. The
  table then has for every id the price of the last entry that has that id and two usable prices, and
  nothing else, every price between 0 and 1000 dollars per million tokens; a bad entry never fails the
  fetch, and the diagnostics list exactly the dropped entries in order. Otherwise the error names the
  endpoint and tells a request without any response (status 0) from one with.
\<close>

theorem fetch_exact:
  assumes "0 < cf_MaxBodyBytes (ft_cfg f)" "cf_MaxBodyBytes (ft_cfg f) \<le> int64_max" and "catalog_url f endpoint \<noteq> ''''"
    and "\<And>st b. catalog_body net f (catalog_url f endpoint) = Inr (st, b) \<Longrightarrow> st \<noteq> 0"
  defines "got \<equiv> catalog_body net f (catalog_url f endpoint)"
  shows "(\<forall>m. FetchModels net endpoint f = Inr m \<longrightarrow> cf_MaxBodyBytes (ft_cfg f) < int64_max \<and>
      (\<exists>st b entries stale. got = Inr (st, b, None) \<and> 200 \<le> st \<and> st \<le> 299 \<and> int (length b) \<le> cf_MaxBodyBytes (ft_cfg f) \<and>
         unmarshal modelsResponse ([], []) b = Some (entries, stale) \<and>
         gm_ok m \<and> (\<forall>k. gm_get m k = last_price entries k) \<and>
         (\<forall>k mp. gm_get m k = Some mp \<longrightarrow> k \<noteq> '''' \<and> 0 \<le> mp_InputUSD mp \<and> mp_InputUSD mp \<le> 1000000000 \<and>
            0 \<le> mp_OutputUSD mp \<and> mp_OutputUSD mp \<le> 1000000000))) \<and>
    (\<forall>st b entries stale. got = Inr (st, b, None) \<and> 200 \<le> st \<and> st \<le> 299 \<and> int (length b) \<le> cf_MaxBodyBytes (ft_cfg f) \<and>
         cf_MaxBodyBytes (ft_cfg f) < int64_max \<and> unmarshal modelsResponse ([], []) b = Some (entries, stale) \<longrightarrow>
       (\<exists>m. FetchModels net endpoint f = Inr m \<and>
         fetchModels net endpoint (Some []) f = Inr (m, Some (map skip_entry (filter (\<lambda>e. entry_price e = None) entries))))) \<and>
    (\<forall>err. FetchModels net endpoint f = Inl err \<longrightarrow>
       (\<exists>e. err = Refresh e \<and> re_Endpoint e = catalog_url f endpoint \<and> (re_Status e = 0 \<longleftrightarrow> (\<exists>x. got = Inl x))))"
proof (intro conjI allI impI)
  fix m
  assume "FetchModels net endpoint f = Inr m"
  then obtain s where "fetchModels net endpoint None f = Inr (m, s)"
    by (auto simp: FetchModels_def split: sum.splits)
  then obtain st stream body entries stale where run: "got = Inr (st, stream)" "200 \<le> st" "st \<le> 299"
      "readCappedBody stream (cf_MaxBodyBytes (ft_cfg f)) = Inr body"
      "unmarshal modelsResponse ([], []) body = Some (entries, stale)" "models_loop entries [] None = (m, s)"
    using assms(3)
    by (auto simp: fetchModels_stages got_def [symmetric] Let_def split: sum.splits if_splits option.splits)
  obtain b berr where stream: "stream = (b, berr)" by (cases stream)
  have "body \<noteq> ''''" using run(5) models_of_nothing by auto
  then have body: "cf_MaxBodyBytes (ft_cfg f) \<noteq> int64_max" "body = b" "berr = None" "int (length b) \<le> cf_MaxBodyBytes (ft_cfg f)"
    using run(4) unfolding stream readCappedBody_Inr [OF assms(1,2)] by (simp_all split: if_splits)
  then show "cf_MaxBodyBytes (ft_cfg f) < int64_max" using assms(2) by simp
  have *: "got = Inr (st, b, None)" "200 \<le> st" "st \<le> 299" "int (length b) \<le> cf_MaxBodyBytes (ft_cfg f)"
      "unmarshal modelsResponse ([], []) b = Some (entries, stale)" "models_loop entries [] None = (m, s)"
    using run body stream by simp_all
  with models_loop_spec [OF *(6)] show "\<exists>st b entries stale. got = Inr (st, b, None) \<and> 200 \<le> st \<and> st \<le> 299 \<and>
      int (length b) \<le> cf_MaxBodyBytes (ft_cfg f) \<and> unmarshal modelsResponse ([], []) b = Some (entries, stale) \<and>
      gm_ok m \<and> (\<forall>k. gm_get m k = last_price entries k) \<and>
      (\<forall>k mp. gm_get m k = Some mp \<longrightarrow> k \<noteq> '''' \<and> 0 \<le> mp_InputUSD mp \<and> mp_InputUSD mp \<le> 1000000000 \<and>
         0 \<le> mp_OutputUSD mp \<and> mp_OutputUSD mp \<le> 1000000000)"
    using last_price_bounds by metis
next
  fix st b entries stale
  assume *: "got = Inr (st, b, None) \<and> 200 \<le> st \<and> st \<le> 299 \<and> int (length b) \<le> cf_MaxBodyBytes (ft_cfg f) \<and>
         cf_MaxBodyBytes (ft_cfg f) < int64_max \<and> unmarshal modelsResponse ([], []) b = Some (entries, stale)"
  then have cap: "readCappedBody (b, None) (cf_MaxBodyBytes (ft_cfg f)) = Inr b" by (simp add: readCappedBody_Inr [OF assms(1,2)])
  have run: "fetchModels net endpoint skipped f = Inr (models_loop entries [] skipped)" for skipped
    using * assms(3) cap by (simp add: fetchModels_stages got_def [symmetric] Let_def)
  obtain m s where l: "models_loop entries [] None = (m, s)" by (cases "models_loop entries [] None")
  obtain m' s' where l': "models_loop entries [] (Some []) = (m', s')" by (cases "models_loop entries [] (Some [])")
  have "fst (models_loop es ms (Some sk)) = fst (models_loop es ms None)" for es ms sk
    by (induction es ms "Some sk" arbitrary: sk rule: models_loop.induct) (auto split: option.split)
  then have "m' = m" using l l' by (metis fst_conv)
  with models_loop_spec [OF l'] l' run show "\<exists>m. FetchModels net endpoint f = Inr m \<and>
         fetchModels net endpoint (Some []) f = Inr (m, Some (map skip_entry (filter (\<lambda>e. entry_price e = None) entries)))"
    using l by (simp add: FetchModels_def)
next
  fix err
  assume "FetchModels net endpoint f = Inl err"
  then have "fetchModels net endpoint None f = Inl err" by (auto simp: FetchModels_def split: sum.splits)
  then show "\<exists>e. err = Refresh e \<and> re_Endpoint e = catalog_url f endpoint \<and> (re_Status e = 0 \<longleftrightarrow> (\<exists>x. got = Inl x))"
    using assms(3,4) by (auto simp: fetchModels_stages got_def Let_def split: sum.splits if_splits option.splits)
qed

definition example_exchange :: exchange where
  "example_exchange =
     \<lparr>ex_NewRequest = (\<lambda>url. None),
      ex_Do = (\<lambda>req. Inr \<lparr>cs_StatusCode = 200,
        cs_Body = (quoted ''{`data`:[{`id`:`a`,`pricing`:{`prompt`:`-1`,`completion`:`-1`}},{`pricing`:{}},{`id`:`b`}]}'', None)\<rparr>),
      ex_JSONError = (\<lambda>body. ''json'')\<rparr>"

definition example_catalog_fetcher :: Fetcher where
  "example_catalog_fetcher = \<lparr>ft_cfg = DefaultConfig\<lparr>cf_MaxBodyBytes := 200\<rparr>\<rparr>"

theorem fetch_exact_witness:
  "\<exists>m. FetchModels example_exchange '''' example_catalog_fetcher = Inr m \<and>
     fetchModels example_exchange '''' (Some []) example_catalog_fetcher =
       Inr (m, Some [\<lparr>sk_ID = ''a'', sk_Reason = Unpriceable ''-1'' ''-1''\<rparr>, \<lparr>sk_ID = '''', sk_Reason = EmptyId\<rparr>,
         \<lparr>sk_ID = ''b'', sk_Reason = Unpriceable '''' ''''\<rparr>])"
proof -
  let ?b = "quoted ''{`data`:[{`id`:`a`,`pricing`:{`prompt`:`-1`,`completion`:`-1`}},{`pricing`:{}},{`id`:`b`}]}''"
  let ?es = "[(''a'', ''-1'', ''-1''), ('''', '''', ''''), (''b'', '''', '''')]"
  have u: "catalog_url example_catalog_fetcher '''' \<noteq> ''''"
    by (simp add: catalog_url_def example_catalog_fetcher_def DefaultConfig_def defaultEndpoint_def)
  have got: "catalog_body example_exchange example_catalog_fetcher (catalog_url example_catalog_fetcher '''') = Inr (200, ?b, None)"
    by (simp add: catalog_body_def example_exchange_def)
  have cap: "cf_MaxBodyBytes (ft_cfg example_catalog_fetcher) = 200" by (simp add: example_catalog_fetcher_def)
  have len: "int (length ?b) \<le> 200" by code_simp
  have dec: "unmarshal modelsResponse ([], []) ?b = Some (?es, [])" by code_simp
  have skip: "map skip_entry (filter (\<lambda>e. entry_price e = None) ?es) = [\<lparr>sk_ID = ''a'', sk_Reason = Unpriceable ''-1'' ''-1''\<rparr>,
      \<lparr>sk_ID = '''', sk_Reason = EmptyId\<rparr>, \<lparr>sk_ID = ''b'', sk_Reason = Unpriceable '''' ''''\<rparr>]" by code_simp
  have "0 < cf_MaxBodyBytes (ft_cfg example_catalog_fetcher)" "cf_MaxBodyBytes (ft_cfg example_catalog_fetcher) \<le> int64_max"
    by (simp_all add: cap int64_bounds)
  moreover have "st \<noteq> 0" if "catalog_body example_exchange example_catalog_fetcher (catalog_url example_catalog_fetcher '''') = Inr (st, b)" for st b
    using that got by simp
  ultimately have "\<forall>st b entries stale. catalog_body example_exchange example_catalog_fetcher (catalog_url example_catalog_fetcher '''') = Inr (st, b, None) \<and>
       200 \<le> st \<and> st \<le> 299 \<and> int (length b) \<le> cf_MaxBodyBytes (ft_cfg example_catalog_fetcher) \<and>
       cf_MaxBodyBytes (ft_cfg example_catalog_fetcher) < int64_max \<and> unmarshal modelsResponse ([], []) b = Some (entries, stale) \<longrightarrow>
     (\<exists>m. FetchModels example_exchange '''' example_catalog_fetcher = Inr m \<and>
       fetchModels example_exchange '''' (Some []) example_catalog_fetcher =
         Inr (m, Some (map skip_entry (filter (\<lambda>e. entry_price e = None) entries))))"
    using fetch_exact [of example_catalog_fetcher "''''" example_exchange] u by blast
  moreover have "cf_MaxBodyBytes (ft_cfg example_catalog_fetcher) < int64_max" by (simp add: cap int64_bounds)
  ultimately show ?thesis using got len dec cap skip by fastforce
qed

end
