(* ===== verification/Static_Prices.thy ===== *)
theory Static_Prices
  imports Go_Decimal Catalog_Fetcher
begin

text \<open>
  The static price file (\<^verbatim>\<open>pkg/pricing/load.go\<close>): decoding, validation and conversion to
  integer micro-dollars. The contents of the file, or the error of reading it, are an argument, and so
  are the iteration order of the decoded map and the texts of the errors of
  \<^verbatim>\<open>encoding/json\<close>. An error is a value that says what the rendered text says.
\<close>

section \<open>Definitions\<close>

text \<open>A map: every member is decoded into a new element and stored under its key.\<close>

fun store_map_members :: "'a \<Rightarrow> 'a store \<Rightarrow> (string \<times> json) list \<Rightarrow> (string, 'a) gomap \<Rightarrow> (string, 'a) gomap option" where
  "store_map_members zero f [] m = Some m"
| "store_map_members zero f ((k, v) # ms) m =
     (case f v zero of None \<Rightarrow> None | Some x \<Rightarrow> store_map_members zero f ms (gm_set m k x))"

fun store_map :: "'a \<Rightarrow> 'a store \<Rightarrow> (string, 'a) gomap store" where
  "store_map zero f (JObj ms) old = store_map_members zero f ms old"
| "store_map zero f JNull old = Some []"
| "store_map zero f _ old = None"

record priceJSON =
  pj_InputUSD :: "float64 option"
  pj_OutputUSD :: "float64 option"

definition priceJSON_zero :: priceJSON where
  "priceJSON_zero = \<lparr>pj_InputUSD = None, pj_OutputUSD = None\<rparr>"

record estimationJSON =
  ej_AssumedCompletionTokens :: "int option"
  ej_PromptEstimationCharsPerToken :: "float64 option"

record pricingJSON =
  pg_Version :: "int option"
  pg_Currency :: string
  pg_PerMillionTokens :: "bool option"
  pg_Estimation :: estimationJSON
  pg_Default :: "priceJSON option"
  pg_Models :: "(string, priceJSON) gomap"

definition pricingJSON_zero :: pricingJSON where
  "pricingJSON_zero =
     \<lparr>pg_Version = None, pg_Currency = '''', pg_PerMillionTokens = None,
      pg_Estimation = \<lparr>ej_AssumedCompletionTokens = None, ej_PromptEstimationCharsPerToken = None\<rparr>,
      pg_Default = None, pg_Models = []\<rparr>"

definition store_price :: "priceJSON store" where
  "store_price = store_struct
     [(''input_usd_per_1m'', \<lambda>v p. map_option (\<lambda>x. p\<lparr>pj_InputUSD := x\<rparr>) (store_ptr (Fin 0) store_float v (pj_InputUSD p))),
      (''output_usd_per_1m'', \<lambda>v p. map_option (\<lambda>x. p\<lparr>pj_OutputUSD := x\<rparr>) (store_ptr (Fin 0) store_float v (pj_OutputUSD p)))]"

definition store_estimation :: "estimationJSON store" where
  "store_estimation = store_struct
     [(''assumed_completion_tokens'', \<lambda>v e. map_option (\<lambda>x. e\<lparr>ej_AssumedCompletionTokens := x\<rparr>)
         (store_ptr 0 store_int64 v (ej_AssumedCompletionTokens e))),
      (''prompt_estimation_chars_per_token'', \<lambda>v e. map_option (\<lambda>x. e\<lparr>ej_PromptEstimationCharsPerToken := x\<rparr>)
         (store_ptr (Fin 0) store_float v (ej_PromptEstimationCharsPerToken e)))]"

definition store_document :: "pricingJSON store" where
  "store_document = store_struct
     [(''version'', \<lambda>v d. map_option (\<lambda>x. d\<lparr>pg_Version := x\<rparr>) (store_ptr 0 store_int64 v (pg_Version d))),
      (''currency'', \<lambda>v d. map_option (\<lambda>x. d\<lparr>pg_Currency := x\<rparr>) (store_string v (pg_Currency d))),
      (''per_million_tokens'', \<lambda>v d. map_option (\<lambda>x. d\<lparr>pg_PerMillionTokens := x\<rparr>)
         (store_ptr False store_bool v (pg_PerMillionTokens d))),
      (''estimation'', \<lambda>v d. map_option (\<lambda>x. d\<lparr>pg_Estimation := x\<rparr>) (store_estimation v (pg_Estimation d))),
      (''default'', \<lambda>v d. map_option (\<lambda>x. d\<lparr>pg_Default := x\<rparr>) (store_ptr priceJSON_zero store_price v (pg_Default d))),
      (''models'', \<lambda>v d. map_option (\<lambda>x. d\<lparr>pg_Models := x\<rparr>) (store_map priceJSON_zero store_price v (pg_Models d)))]"

datatype dollar_fault = Missing | NotFinite | Negative | AboveCap

datatype load_error =
  ReadError error
| DecodeError
| UnsupportedVersion int
| WrongCurrency string
| NotPerMillion
| NoDefault
| NegativeTokens int
| InvalidCharsPerToken float64
| EmptyModelKey
| BadDollar string dollar_fault

definition normalizeDollar :: "float64 option \<Rightarrow> string \<Rightarrow> load_error + int" where
  "normalizeDollar v what =
     (case v of
        None \<Rightarrow> Inl (BadDollar what Missing)
      | Some f \<Rightarrow>
          (case toMicroUSDPer1M f of
             Some usd \<Rightarrow> Inr usd
           | None \<Rightarrow>
               if f = NaN \<or> f = PosInf \<or> f = NegInf then Inl (BadDollar what NotFinite)
               else if f64_lt f (Fin 0) then Inl (BadDollar what Negative)
               else Inl (BadDollar what AboveCap)))"

definition normalizePrice :: "priceJSON \<Rightarrow> string \<Rightarrow> load_error + ModelPrice" where
  "normalizePrice m what =
     (case normalizeDollar (pj_InputUSD m) (what @ '' input_usd_per_1m'') of
        Inl err \<Rightarrow> Inl err
      | Inr i \<Rightarrow>
          (case normalizeDollar (pj_OutputUSD m) (what @ '' output_usd_per_1m'') of
             Inl err \<Rightarrow> Inl err
           | Inr out \<Rightarrow> Inr \<lparr>mp_InputUSD = i, mp_OutputUSD = out\<rparr>))"

fun load_models :: "(string \<times> priceJSON) list \<Rightarrow> models \<Rightarrow> load_error + models" where
  "load_models [] models = Inr models"
| "load_models ((key, m) # ms) models =
     (if key = '''' then Inl EmptyModelKey
      else case normalizePrice m (''model '' @ key) of
             Inl err \<Rightarrow> Inl err
           | Inr mp \<Rightarrow> load_models ms (gm_set models key mp))"

text \<open>The checks on the decoded document, in the order of the source.\<close>

definition check_header :: "pricingJSON \<Rightarrow> load_error option" where
  "check_header raw =
     (if pg_Version raw \<noteq> None \<and> pg_Version raw \<noteq> Some 1 then Some (UnsupportedVersion (the (pg_Version raw)))
      else if pg_Currency raw \<noteq> ''USD'' then Some (WrongCurrency (pg_Currency raw))
      else if pg_PerMillionTokens raw \<noteq> Some True then Some NotPerMillion
      else if pg_Default raw = None then Some NoDefault
      else None)"

definition load_estimation :: "estimationJSON \<Rightarrow> load_error + (int \<times> float64)" where
  "load_estimation e =
     (let assumed = (case ej_AssumedCompletionTokens e of
            None \<Rightarrow> Inr 0
          | Some n \<Rightarrow> if n < 0 then Inl (NegativeTokens n) else Inr n)
      in case assumed of
           Inl err \<Rightarrow> Inl err
         | Inr n \<Rightarrow>
             (case ej_PromptEstimationCharsPerToken e of
                None \<Rightarrow> Inr (n, defaultCharsPerToken)
              | Some f \<Rightarrow>
                  if f = NaN \<or> f = PosInf \<or> f = NegInf \<or> f64_le f (Fin 0) then Inl (InvalidCharsPerToken f)
                  else Inr (n, f)))"

definition load_document :: "string range_order \<Rightarrow> pricingJSON \<Rightarrow> load_error + Pricing" where
  "load_document ord raw =
     (case check_header raw of
        Some err \<Rightarrow> Inl err
      | None \<Rightarrow>
          (case load_estimation (pg_Estimation raw) of
             Inl err \<Rightarrow> Inl err
           | Inr (assumed, chars) \<Rightarrow>
               (case normalizePrice (the (pg_Default raw)) ''default'' of
                  Inl err \<Rightarrow> Inl err
                | Inr def \<Rightarrow>
                    (case load_models (range_entries ord (pg_Models raw)) [] of
                       Inl err \<Rightarrow> Inl err
                     | Inr models \<Rightarrow>
                         Inr \<lparr>pr_assumedCompletionTokens = assumed, pr_PromptEstimationCharsPerToken = chars,
                              pr_models = models, pr_def = def\<rparr>))))"

definition Load :: "string range_order \<Rightarrow> error + string \<Rightarrow> load_error + Pricing" where
  "Load ord content =
     (case content of
        Inl err \<Rightarrow> Inl (ReadError err)
      | Inr data \<Rightarrow>
          (case unmarshal store_document pricingJSON_zero data of
             None \<Rightarrow> Inl DecodeError
           | Some raw \<Rightarrow> load_document ord raw))"

section \<open>What a valid document is\<close>

text \<open>A price between 0 and 1000 dollars per million tokens, in integer micro-dollars.\<close>

definition price_ok :: "ModelPrice \<Rightarrow> bool" where
  "price_ok mp \<longleftrightarrow> 0 \<le> mp_InputUSD mp \<and> mp_InputUSD mp \<le> 1000000000 \<and> 0 \<le> mp_OutputUSD mp \<and> mp_OutputUSD mp \<le> 1000000000"

definition dollar_ok :: "float64 option \<Rightarrow> bool" where
  "dollar_ok v \<longleftrightarrow> (\<exists>x. v = Some (Fin x) \<and> 0 \<le> x \<and> x \<le> 1000)"

definition entry_ok :: "priceJSON \<Rightarrow> bool" where
  "entry_ok m \<longleftrightarrow> dollar_ok (pj_InputUSD m) \<and> dollar_ok (pj_OutputUSD m)"

definition converted :: "priceJSON \<Rightarrow> ModelPrice" where
  "converted m = \<lparr>mp_InputUSD = the (toMicroUSDPer1M (the (pj_InputUSD m))), mp_OutputUSD = the (toMicroUSDPer1M (the (pj_OutputUSD m)))\<rparr>"

definition estimation_ok :: "estimationJSON \<Rightarrow> bool" where
  "estimation_ok e \<longleftrightarrow> (\<forall>n. ej_AssumedCompletionTokens e = Some n \<longrightarrow> 0 \<le> n) \<and>
     (\<forall>f. ej_PromptEstimationCharsPerToken e = Some f \<longrightarrow> (\<exists>x. f = Fin x \<and> 0 < x))"

definition document_ok :: "pricingJSON \<Rightarrow> bool" where
  "document_ok raw \<longleftrightarrow> pg_Version raw \<in> {None, Some 1} \<and> pg_Currency raw = ''USD'' \<and> pg_PerMillionTokens raw = Some True \<and>
     estimation_ok (pg_Estimation raw) \<and> (\<exists>m. pg_Default raw = Some m \<and> entry_ok m) \<and>
     (\<forall>(k, m)\<in>set (pg_Models raw). k \<noteq> '''' \<and> entry_ok m)"

lemma toMicro_Some_iff: "toMicroUSDPer1M v \<noteq> None \<longleftrightarrow> (\<exists>x. v = Fin x \<and> 0 \<le> x \<and> x \<le> 1000)"
  by (cases v) (auto simp: toMicroUSDPer1M_def maxUSDPer1M_def)

lemma normalizeDollar_cases:
  "dollar_ok v \<Longrightarrow> normalizeDollar v what = Inr (the (toMicroUSDPer1M (the v)))"
  "\<not> dollar_ok v \<Longrightarrow> \<exists>err. normalizeDollar v what = Inl err"
  using toMicro_Some_iff [of "the v"] by (auto simp: normalizeDollar_def dollar_ok_def split: option.split)

lemma normalizePrice_cases:
  "entry_ok m \<Longrightarrow> normalizePrice m what = Inr (converted m)"
  "\<not> entry_ok m \<Longrightarrow> \<exists>err. normalizePrice m what = Inl err"
  using normalizeDollar_cases [of "pj_InputUSD m" "what @ '' input_usd_per_1m''"]
    normalizeDollar_cases [of "pj_OutputUSD m" "what @ '' output_usd_per_1m''"]
  by (cases "dollar_ok (pj_InputUSD m)"; cases "dollar_ok (pj_OutputUSD m)"; force simp: normalizePrice_def entry_ok_def converted_def)+

lemma dollar_bounds:
  assumes "dollar_ok v"
  shows "0 \<le> the (toMicroUSDPer1M (the v)) \<and> the (toMicroUSDPer1M (the v)) \<le> 1000000000"
proof -
  obtain m where "toMicroUSDPer1M (the v) = Some m" using assms toMicro_Some_iff [of "the v"] by (auto simp: dollar_ok_def)
  then show ?thesis by (auto elim: toMicro_bounds)
qed

lemma converted_ok: "entry_ok m \<Longrightarrow> price_ok (converted m)"
  using dollar_bounds [of "pj_InputUSD m"] dollar_bounds [of "pj_OutputUSD m"]
  by (simp add: entry_ok_def converted_def price_ok_def)

lemma load_models_ok:
  assumes "\<forall>(k, m)\<in>set ms. k \<noteq> '''' \<and> entry_ok m"
  shows "load_models ms acc = Inr (fold (\<lambda>(k, m) acc. gm_set acc k (converted m)) ms acc)"
  using assms by (induction ms acc rule: load_models.induct) (auto simp: normalizePrice_cases(1))

lemma load_models_bad:
  assumes "(k, m) \<in> set ms" and "k = '''' \<or> \<not> entry_ok m"
  shows "\<exists>err. load_models ms acc = Inl err"
  using assms(1)
proof (induction ms acc rule: load_models.induct)
  case (2 key m' ms models)
  show ?case
  proof (cases "key = '''' \<or> \<not> entry_ok m'")
    case True
    then show ?thesis using normalizePrice_cases(2) [of m' "''model '' @ key"] by auto
  next
    case False
    then show ?thesis using 2 assms(2) by (auto simp: normalizePrice_cases(1))
  qed
qed simp

lemma load_estimation_cases:
  "estimation_ok e \<Longrightarrow> load_estimation e = Inr (case ej_AssumedCompletionTokens e of None \<Rightarrow> 0 | Some n \<Rightarrow> n,
     case ej_PromptEstimationCharsPerToken e of None \<Rightarrow> defaultCharsPerToken | Some f \<Rightarrow> f)"
  "\<not> estimation_ok e \<Longrightarrow> \<exists>err. load_estimation e = Inl err"
proof -
  have bad: "f = NaN \<or> f = PosInf \<or> f = NegInf \<or> f64_le f (Fin 0) \<longleftrightarrow> \<not> (\<exists>x. f = Fin x \<and> 0 < x)" for f
    by (cases f) (auto simp: f64_le_def)
  show "estimation_ok e \<Longrightarrow> load_estimation e = Inr (case ej_AssumedCompletionTokens e of None \<Rightarrow> 0 | Some n \<Rightarrow> n,
     case ej_PromptEstimationCharsPerToken e of None \<Rightarrow> defaultCharsPerToken | Some f \<Rightarrow> f)"
    "\<not> estimation_ok e \<Longrightarrow> \<exists>err. load_estimation e = Inl err"
    unfolding load_estimation_def Let_def estimation_ok_def bad
    by (cases "ej_AssumedCompletionTokens e"; cases "ej_PromptEstimationCharsPerToken e"; force)+
qed

text \<open>The lookups of the loaded table do not depend on the order of the iteration.\<close>

lemma converted_lookup:
  assumes "distinct (map fst ms)"
  shows "gm_get (fold (\<lambda>(k, m) acc. gm_set acc k (converted m)) ms acc) k =
    (case map_of ms k of Some m \<Rightarrow> Some (converted m) | None \<Rightarrow> gm_get acc k)"
  using assms
proof (induction ms arbitrary: acc)
  case (Cons km ms)
  obtain k' m where km: "km = (k', m)" by (cases km)
  have "map_of ms k' = None" using Cons.prems km by (simp add: map_of_eq_None_iff)
  then show ?case using Cons km by (auto split: option.splits)
qed simp

lemma converted_gm_ok: "gm_ok acc \<Longrightarrow> gm_ok (fold (\<lambda>(k, m) acc. gm_set acc k (converted m)) ms acc)"
  by (induction ms arbitrary: acc) auto

definition well_priced :: "Pricing \<Rightarrow> bool" where
  "well_priced p \<longleftrightarrow> gm_ok (pr_models p) \<and> price_ok (pr_def p) \<and> (\<forall>k mp. gm_get (pr_models p) k = Some mp \<longrightarrow> price_ok mp)"

lemma load_document_ok:
  assumes "document_ok raw" and "gm_ok (pg_Models raw)"
  obtains p where "load_document ord raw = Inr p" and "gm_ok (pr_models p)" and "pr_def p = converted (the (pg_Default raw))"
    and "\<And>k. gm_get (pr_models p) k = map_option converted (gm_get (pg_Models raw) k)"
    and "pr_assumedCompletionTokens p = (case ej_AssumedCompletionTokens (pg_Estimation raw) of None \<Rightarrow> 0 | Some n \<Rightarrow> n)"
    and "pr_PromptEstimationCharsPerToken p = (case ej_PromptEstimationCharsPerToken (pg_Estimation raw) of None \<Rightarrow> defaultCharsPerToken | Some f \<Rightarrow> f)"
proof -
  let ?ms = "range_entries ord (pg_Models raw)"
  have "\<forall>(k, m)\<in>set ?ms. k \<noteq> '''' \<and> entry_ok m"
    using assms by (simp add: set_range_entries document_ok_def)
  then have models: "load_models ?ms [] = Inr (fold (\<lambda>(k, m) acc. gm_set acc k (converted m)) ?ms [])"
    by (rule load_models_ok)
  obtain m where m: "pg_Default raw = Some m" "entry_ok m" using assms(1) by (auto simp: document_ok_def)
  have "check_header raw = None" using assms(1) by (auto simp: check_header_def document_ok_def)
  moreover have "estimation_ok (pg_Estimation raw)" using assms(1) by (simp add: document_ok_def)
  ultimately have p: "load_document ord raw = Inr \<lparr>
      pr_assumedCompletionTokens = (case ej_AssumedCompletionTokens (pg_Estimation raw) of None \<Rightarrow> 0 | Some n \<Rightarrow> n),
      pr_PromptEstimationCharsPerToken = (case ej_PromptEstimationCharsPerToken (pg_Estimation raw) of None \<Rightarrow> defaultCharsPerToken | Some f \<Rightarrow> f),
      pr_models = fold (\<lambda>(k, m) acc. gm_set acc k (converted m)) ?ms [], pr_def = converted m\<rparr>"
    using m models by (simp add: load_document_def load_estimation_cases(1) normalizePrice_cases(1))
  have "gm_get (fold (\<lambda>(k, m) acc. gm_set acc k (converted m)) ?ms []) k = map_option converted (gm_get (pg_Models raw) k)" for k
    using assms(2) by (simp add: converted_lookup map_of_range_entries split: option.split)
  then show thesis using m by (intro that [OF p]) (simp_all add: converted_gm_ok)
qed

lemma load_document_bad:
  assumes "\<not> document_ok raw" and "gm_ok (pg_Models raw)"
  shows "\<exists>err. load_document ord raw = Inl err"
proof (rule ccontr)
  assume "\<nexists>err. load_document ord raw = Inl err"
  then obtain p where p: "load_document ord raw = Inr p" by (cases "load_document ord raw") auto
  then have header: "check_header raw = None" by (auto simp: load_document_def split: option.splits)
  then obtain m where m: "pg_Default raw = Some m" by (auto simp: check_header_def split: if_splits)
  have est: "estimation_ok (pg_Estimation raw)"
    using p header load_estimation_cases(2) by (force simp: load_document_def)
  have def_ok: "entry_ok m" using p header m est normalizePrice_cases(2) [of m "''default''"]
    by (force simp: load_document_def load_estimation_cases(1))
  have "\<forall>(k, m)\<in>set (range_entries ord (pg_Models raw)). k \<noteq> '''' \<and> entry_ok m"
  proof (rule ccontr)
    assume "\<not> ?thesis"
    then obtain k m' where "(k, m') \<in> set (range_entries ord (pg_Models raw))" "k = '''' \<or> \<not> entry_ok m'" by auto
    from load_models_bad [OF this, of "[]"] show False
      using p header m est def_ok by (auto simp: load_document_def load_estimation_cases(1) normalizePrice_cases(1))
  qed
  then have "document_ok raw"
    using header m est def_ok assms(2) by (auto simp: document_ok_def check_header_def set_range_entries split: if_splits)
  then show False using assms(1) by simp
qed

text \<open>Decoding keeps the keys of the models distinct.\<close>

lemma store_map_members_ok:
  "store_map_members zero f ms m = Some m' \<Longrightarrow> gm_ok m \<Longrightarrow> gm_ok m'"
  by (induction ms m rule: store_map_members.induct) (auto split: option.splits)

lemma find_field_mem: "find_field fs k = Some f \<Longrightarrow> \<exists>n. (n, f) \<in> set fs"
  by (auto simp: find_field_def dest!: map_of_SomeD split: option.splits)

lemma store_members_inv:
  assumes "\<And>n f v old new. (n, f) \<in> set fs \<Longrightarrow> P old \<Longrightarrow> f v old = Some new \<Longrightarrow> P new"
    and "P old" and "store_members fs ms old = Some new"
  shows "P new"
  using assms(2,3)
proof (induction ms arbitrary: old)
  case (Cons m ms)
  obtain k v where m: "m = (k, v)" by (cases m)
  show ?case
  proof (cases "find_field fs k")
    case None
    then show ?thesis using Cons by (simp add: m)
  next
    case (Some f)
    then obtain mid where mid: "f v old = Some mid" "store_members fs ms mid = Some new"
      using Cons.prems(2) by (auto simp: m split: option.splits)
    obtain n where "(n, f) \<in> set fs" using find_field_mem [OF Some] by blast
    then have "P mid" using assms(1) Cons.prems(1) mid(1) by blast
    then show ?thesis using Cons.IH mid(2) by blast
  qed
qed simp

lemma store_document_ok:
  assumes "store_document v old = Some raw" and "gm_ok (pg_Models old)"
  shows "gm_ok (pg_Models raw)"
proof (cases v)
  case (JObj ms)
  have map_ok: "gm_ok m'" if "store_map priceJSON_zero store_price v m = Some m'" "gm_ok m" for v m m'
    using that store_map_members_ok by (cases v) (auto split: if_splits)
  show ?thesis
    using assms unfolding JObj store_document_def store_struct.simps
    by (elim store_members_inv [rotated 2, where P = "\<lambda>d. gm_ok (pg_Models d)"]) (auto simp: map_ok)
qed (use assms in \<open>auto simp: store_document_def\<close>)

lemma decode_ok: "unmarshal store_document pricingJSON_zero data = Some raw \<Longrightarrow> gm_ok (pg_Models raw)"
  by (auto simp: unmarshal_def pricingJSON_zero_def split: option.splits dest!: store_document_ok)

section \<open>The tables that are served\<close>

lemma well_priced_PriceFor: "well_priced p \<Longrightarrow> price_ok (fst (Pricing_PriceFor ord model p))"
  using PriceFor_source [of p ord model] by (auto simp: well_priced_def)

lemma fetched_prices_ok:
  assumes "FetchModels net endpoint f = Inr m"
  shows "gm_ok m \<and> (\<forall>k mp. gm_get m k = Some mp \<longrightarrow> price_ok mp)"
proof -
  obtain s where "fetchModels net endpoint None f = Inr (m, s)"
    using assms by (auto simp: FetchModels_def split: sum.splits)
  then obtain es where "models_loop es [] None = (m, s)"
    by (auto simp: fetchModels_stages Let_def split: if_splits sum.splits prod.splits option.splits)
  then show ?thesis using models_loop_spec [of es None m s] last_price_bounds by (auto simp: price_ok_def)
qed

lemma merge_well_priced:
  assumes "Registry_merge ords ms r = Ret t" and "rg_base r = Some base" and "well_priced base"
    and "gm_ok ms \<and> (\<forall>k mp. gm_get ms k = Some mp \<longrightarrow> price_ok mp)"
  shows "well_priced t"
proof -
  have ok: "gm_ok (pr_models base)" "gm_ok ms" using assms(3,4) by (simp_all add: well_priced_def)
  note m = merge_lookup [OF ok assms(2,1)]
  show ?thesis unfolding well_priced_def m(3)
    using m(1) assms(3,4) by (auto simp: m(2) well_priced_def split: option.splits)
qed

lemma Load_well_priced:
  assumes "Load ord content = Inr p"
  shows "well_priced p"
proof -
  obtain data raw where raw: "unmarshal store_document pricingJSON_zero data = Some raw" "load_document ord raw = Inr p"
    using assms by (auto simp: Load_def split: sum.splits option.splits)
  have ok: "gm_ok (pg_Models raw)" by (rule decode_ok [OF raw(1)])
  have doc: "document_ok raw" using load_document_bad [OF _ ok, of ord] raw(2) by force
  have models: "price_ok (converted m)" if "gm_get (pg_Models raw) k = Some m" for k m
    using doc map_of_SomeD [OF that] by (auto simp: document_ok_def intro!: converted_ok)
  have default: "price_ok (converted (the (pg_Default raw)))"
    using doc by (auto simp: document_ok_def intro!: converted_ok)
  obtain p' where p': "load_document ord raw = Inr p'" "gm_ok (pr_models p')" "pr_def p' = converted (the (pg_Default raw))"
      "\<And>k. gm_get (pr_models p') k = map_option converted (gm_get (pg_Models raw) k)"
    by (rule load_document_ok [OF doc ok, of ord]) blast
  then show ?thesis using raw(2) models default by (auto simp: well_priced_def)
qed

section \<open>Properties\<close>

text \<open>
  Loading the static price file: a file is accepted exactly when it decodes into a valid document
  (version 1 or none, US dollars per million tokens, a default, every price given and between 0 and
  1000 dollars, no empty model name, no negative token count, a positive characters-per-token ratio).
  The table then has exactly the file's models with their converted prices, in whatever order the
  decoded map is walked; otherwise the load fails and no table exists.
\<close>

theorem load_exact:
  "case Load ord content of
     Inr p \<Rightarrow> (\<exists>data raw. content = Inr data \<and> unmarshal store_document pricingJSON_zero data = Some raw \<and> document_ok raw \<and>
       well_priced p \<and> pr_def p = converted (the (pg_Default raw)) \<and>
       (\<forall>k. gm_get (pr_models p) k = map_option converted (gm_get (pg_Models raw) k)))
   | Inl err \<Rightarrow> \<not> (\<exists>data raw. content = Inr data \<and> unmarshal store_document pricingJSON_zero data = Some raw \<and> document_ok raw)"
proof (cases "\<exists>data raw. content = Inr data \<and> unmarshal store_document pricingJSON_zero data = Some raw")
  case True
  then obtain data raw where raw: "content = Inr data" "unmarshal store_document pricingJSON_zero data = Some raw" by blast
  have ok: "gm_ok (pg_Models raw)" by (rule decode_ok [OF raw(2)])
  show ?thesis
  proof (cases "document_ok raw")
    case doc: True
    obtain p where p: "load_document ord raw = Inr p" "pr_def p = converted (the (pg_Default raw))"
        "\<And>k. gm_get (pr_models p) k = map_option converted (gm_get (pg_Models raw) k)"
      by (rule load_document_ok [OF doc ok, of ord]) blast
    then have "Load ord content = Inr p" using raw by (simp add: Load_def)
    then show ?thesis using raw doc p(2,3) Load_well_priced by simp
  next
    case False
    then obtain err where "load_document ord raw = Inl err" using load_document_bad [OF False ok] by blast
    then show ?thesis using raw False by (simp add: Load_def)
  qed
next
  case False
  then obtain err where "Load ord content = Inl err" by (cases content) (auto simp: Load_def split: option.splits)
  then show ?thesis using False by auto
qed

text \<open>
  C26. Prices stay sane end to end: when the static file loads and the registry runs over it with any
  sequence of catalog fetches, whatever the network answers, a table is served after every refresh, all
  its prices are between 0 and 1000 dollars per million tokens, and the cost of up to nine billion
  tokens of any model is the exact amount rounded down, free of overflow.
\<close>

theorem prices_always_sane:
  assumes "Load ord0 content = Inr base" and "NewFetcher cfg = Some f" and "int (length xs) \<le> int64_max"
  shows "\<exists>r t. refresh_run (map (\<lambda>(net, ords, now). Attempt ords () (map_sum error_text id (FetchModels net '''' f)) now) xs)
      (NewRegistry (Some base) (Some f) cfg) = Ret r \<and> rg_cur r = Some t \<and> well_priced t \<and>
    (\<forall>ord model promptTok completionTok. 0 \<le> promptTok \<and> 0 \<le> completionTok \<and> promptTok + completionTok \<le> 9000000000 \<longrightarrow>
       (let mp = fst (Pricing_PriceFor ord model t) in
        Cost mp promptTok completionTok = (promptTok * mp_InputUSD mp + completionTok * mp_OutputUSD mp) div 1000000))"
proof -
  let ?as = "map (\<lambda>(net, ords, now). Attempt ords () (map_sum error_text id (FetchModels net '''' f)) now) xs"
  let ?r0 = "NewRegistry (Some base) (Some f) cfg :: unit Registry"
  have base: "well_priced base" by (rule Load_well_priced [OF assms(1)])
  have run: "refresh_run ?as ?r0 = Ret (run_spec ?r0 ?as)"
    using assms(3) by (intro refresh_run_spec) (simp_all add: NewRegistry_def)
  have attempt: "\<exists>t. tbl = Some t \<and> well_priced t" if a: "a \<in> set ?as" "attempt_result ?r0 a = Inr tbl" for a tbl
  proof -
    obtain net where net: "at_fetched a = map_sum error_text id (FetchModels net '''' f)" using a(1) by auto
    obtain m t where m: "FetchModels net '''' f = Inr m" and t: "Registry_merge (at_ords a) m ?r0 = Ret t" "tbl = Some t"
      using a(2) net
      by (cases "FetchModels net '''' f")
        (auto simp: attempt_result_def refresh_fetched_def refresh_build_def NewRegistry_def split: if_splits outcome.splits)
    have "well_priced t"
      using merge_well_priced [OF t(1), of base] base fetched_prices_ok [OF m] by (simp add: NewRegistry_def)
    then show ?thesis using t(2) by blast
  qed
  have "\<exists>t. rg_cur (run_spec ?r0 ?as) = Some t \<and> well_priced t"
  proof (cases "filter (\<lambda>a. \<not> isl (attempt_result ?r0 a)) ?as = []")
    case True
    then show ?thesis using base by (simp add: run_spec_def Let_def NewRegistry_def)
  next
    case False
    let ?l = "last (filter (\<lambda>a. \<not> isl (attempt_result ?r0 a)) ?as)"
    have "?l \<in> set (filter (\<lambda>a. \<not> isl (attempt_result ?r0 a)) ?as)" using False by (rule last_in_set)
    then have "?l \<in> set ?as" "attempt_result ?r0 ?l = Inr (projr (attempt_result ?r0 ?l))" by (simp_all add: sum.collapse(2))
    then show ?thesis using attempt False by (simp add: run_spec_def Let_def)
  qed
  then obtain t where t: "rg_cur (run_spec ?r0 ?as) = Some t" "well_priced t" by blast
  have "Cost mp p c = (p * mp_InputUSD mp + c * mp_OutputUSD mp) div 1000000"
    if "0 \<le> p \<and> 0 \<le> c \<and> p + c \<le> 9000000000" "mp = fst (Pricing_PriceFor ord model t)" for ord model p c mp
    using that well_priced_PriceFor [OF t(2), of ord model] cost_is_exact [of mp p c] by (simp add: price_ok_def)
  then show ?thesis using run t by (auto simp: Let_def)
qed

definition example_file :: string where
  "example_file = quoted ''{`currency`:`USD`,`per_million_tokens`:true,`default`:{`input_usd_per_1m`:0,`output_usd_per_1m`:0}}''"

lemma example_file_loads: "\<exists>base. Load in_order (Inr example_file) = Inr base"
proof -
  let ?d = "pricingJSON_zero\<lparr>pg_Currency := ''USD'',
      pg_PerMillionTokens := Some True, pg_Default := Some \<lparr>pj_InputUSD = Some (Fin 0), pj_OutputUSD = Some (Fin 0)\<rparr>\<rparr>"
  have dec: "unmarshal store_document pricingJSON_zero example_file = Some ?d"
    by code_simp
  have "document_ok ?d"
    by (simp add: document_ok_def estimation_ok_def entry_ok_def dollar_ok_def pricingJSON_zero_def)
  then obtain p where "load_document in_order ?d = Inr p"
    by (rule load_document_ok [of _ in_order]) (simp add: pricingJSON_zero_def)
  then show ?thesis by (simp add: Load_def dec)
qed

theorem prices_always_sane_witness:
  "\<exists>base f r t. Load in_order (Inr example_file) = Inr base \<and> NewFetcher DefaultConfig = Some f \<and>
     refresh_run [Attempt (in_order, in_order) () (map_sum error_text id (FetchModels example_exchange '''' f)) 1000] (NewRegistry (Some base) (Some f) DefaultConfig) = Ret r \<and>
     rg_cur r = Some t \<and> well_priced t \<and>
     Cost (fst (Pricing_PriceFor in_order ''gpt'' t)) 1000 500 =
       (1000 * mp_InputUSD (fst (Pricing_PriceFor in_order ''gpt'' t)) + 500 * mp_OutputUSD (fst (Pricing_PriceFor in_order ''gpt'' t))) div 1000000"
proof -
  obtain base where base: "Load in_order (Inr example_file) = Inr base" using example_file_loads by blast
  obtain f where f: "NewFetcher DefaultConfig = Some f" by (simp add: NewFetcher_def DefaultConfig_def defaultEndpoint_def)
  show ?thesis
    using prices_always_sane [OF base f, of "[(example_exchange, (in_order, in_order), 1000)]"] base f
    by (auto simp: Let_def int64_max_def)
qed

end
