(* ===== verification/Go_SHA256.thy ===== *)
theory Go_SHA256
  imports Go_Prelude "HOL-Library.Word"
begin

text \<open>
  What the program uses of packages \<^verbatim>\<open>crypto/sha256\<close> and
  \<^verbatim>\<open>encoding/hex\<close>: the lowercase hexadecimal SHA-256 digest of a byte string,
  which is the fingerprint of a request body and the stored form of an API key. The block function
  keeps the sixteen message words that the next rounds need instead of the whole schedule. A digest is
  64 lowercase hexadecimal digits (\<open>sha256_hex_digits\<close>).
\<close>

unbundle bit_operations_syntax

type_synonym w32 = "32 word"

definition rotr :: "nat \<Rightarrow> w32 \<Rightarrow> w32" where
  "rotr n x = drop_bit n x OR push_bit (32 - n) x"

text \<open>
  The constants are the first 32 bits of the fractional parts of the cube roots of the first 64 primes,
  and the initial state those of the square roots of the first eight. An integer root is found bit by
  bit.
\<close>

fun iroot_bits :: "nat \<Rightarrow> int \<Rightarrow> nat \<Rightarrow> int \<Rightarrow> int" where
  "iroot_bits k n 0 x = x"
| "iroot_bits k n (Suc b) x = iroot_bits k n b (if (x + 2 ^ b) ^ k \<le> n then x + 2 ^ b else x)"

definition sha_primes :: "int list" where
  "sha_primes = filter (\<lambda>n. list_all (\<lambda>d. n mod d \<noteq> 0) [2..n - 1]) [2..311]"

definition sha_k :: "w32 list" where
  "sha_k = map (\<lambda>p. of_int (iroot_bits 3 (p * 2 ^ 96) 36 0)) sha_primes"

definition sha_init :: "w32 list" where
  "sha_init = map (\<lambda>p. of_int (iroot_bits 2 (p * 2 ^ 64) 36 0)) (take 8 sha_primes)"

text \<open>One round for each constant; \<open>w\<close> holds the next sixteen words of the schedule.\<close>

fun sha_rounds :: "w32 list \<Rightarrow> w32 list \<Rightarrow> w32 list \<Rightarrow> w32 list" where
  "sha_rounds [] w s = s"
| "sha_rounds (k # ks) w [a, b, c, d, e, f, g, h] =
     (let t1 = h + (rotr 6 e XOR rotr 11 e XOR rotr 25 e) + ((e AND f) XOR (NOT e AND g)) + k + w ! 0;
          t2 = (rotr 2 a XOR rotr 13 a XOR rotr 22 a) + ((a AND b) XOR (a AND c) XOR (b AND c));
          x = w ! 1; y = w ! 14;
          new = (rotr 17 y XOR rotr 19 y XOR drop_bit 10 y) + w ! 9 + (rotr 7 x XOR rotr 18 x XOR drop_bit 3 x) + w ! 0
      in sha_rounds ks (tl w @ [new]) [t1 + t2, a, b, c, d + t1, e, f, g])"
| "sha_rounds (k # ks) w s = s"

definition sha_block :: "w32 list \<Rightarrow> w32 list \<Rightarrow> w32 list" where
  "sha_block w s = map2 (+) s (sha_rounds sha_k w s)"

definition word_of_bytes :: "char \<Rightarrow> char \<Rightarrow> char \<Rightarrow> char \<Rightarrow> w32" where
  "word_of_bytes a b c d = ((of_char a * 256 + of_char b) * 256 + of_char c) * 256 + of_char d"

fun bytes_words :: "char list \<Rightarrow> w32 list" where
  "bytes_words (a # b # c # d # bs) = word_of_bytes a b c d # bytes_words bs"
| "bytes_words _ = []"

fun sha_blocks :: "nat \<Rightarrow> w32 list \<Rightarrow> w32 list \<Rightarrow> w32 list" where
  "sha_blocks 0 w s = s"
| "sha_blocks (Suc n) w s = sha_blocks n (drop 16 w) (sha_block (take 16 w) s)"

definition big_endian :: "nat \<Rightarrow> int \<Rightarrow> char list" where
  "big_endian n x = map (\<lambda>i. char_of (x div 256 ^ i mod 256)) (rev [0..<n])"

definition sha_pad :: "char list \<Rightarrow> char list" where
  "sha_pad m = m @ [char_of (128 :: nat)] @ replicate ((119 - length m mod 64) mod 64) (char_of (0 :: nat)) @
     big_endian 8 (8 * int (length m))"

definition sha256_words :: "string \<Rightarrow> w32 list" where
  "sha256_words m = (let p = bytes_words (sha_pad m) in sha_blocks (length p div 16) p sha_init)"

definition hex_digit :: "int \<Rightarrow> char" where
  "hex_digit n = char_of (if n < 10 then 48 + n else 87 + n)"

definition hex_word :: "w32 \<Rightarrow> string" where
  "hex_word x = map (\<lambda>i. hex_digit (uint x div 16 ^ i mod 16)) (rev [0..<8])"

definition sha256_hex :: "string \<Rightarrow> string" where
  "sha256_hex m = concat (map hex_word (sha256_words m))"

section \<open>Shape\<close>

lemma length_sha_rounds: "length s = 8 \<Longrightarrow> length (sha_rounds ks w s) = 8"
  by (induction ks w s rule: sha_rounds.induct) (auto simp: Let_def)

lemma length_sha_blocks: "length s = 8 \<Longrightarrow> length (sha_blocks n w s) = 8"
  by (induction n arbitrary: w s) (simp_all add: sha_block_def length_sha_rounds)

lemma length_sha_init: "length sha_init = 8"
proof -
  let ?prime = "\<lambda>n. list_all (\<lambda>d. n mod d \<noteq> 0) [2..n - 1] :: bool"
  have "[2..311] = [2..19] @ [20..311 :: int]" using upto_split1 [of 2 20 311] by (simp del: upto_rec_numeral)
  moreover have "length (filter ?prime [2..19]) = 8" by code_simp
  ultimately have "8 \<le> length sha_primes" by (simp only: sha_primes_def filter_append length_append)
  then show ?thesis by (simp add: sha_init_def)
qed

lemma length_sha256_words: "length (sha256_words m) = 8"
  by (simp add: sha256_words_def Let_def length_sha_blocks length_sha_init)

lemma length_sha_pad: "length (sha_pad m) mod 64 = 0"
proof -
  define r where "r = length m mod 64"
  have "(r + 1 + (119 - r) mod 64 + 8) mod 64 = 0"
  proof (cases "r \<le> 55")
    case True
    then have "119 - r = 55 - r + 64" by simp
    then have "(119 - r) mod 64 = 55 - r" by (simp only: mod_add_self2) simp
    then show ?thesis using True by simp
  next
    case False
    moreover have "r < 64" by (simp add: r_def)
    ultimately have "r + 1 + (119 - r) mod 64 + 8 = 128" by simp
    then show ?thesis by simp
  qed
  moreover have "length (sha_pad m) = length m + (1 + (119 - r) mod 64 + 8)"
    by (simp add: sha_pad_def big_endian_def r_def)
  ultimately show ?thesis by (metis add.assoc mod_add_left_eq r_def)
qed

definition hex_digits :: "char set" where
  "hex_digits = set ''0123456789abcdef''"

lemma hex_digit_in: "0 \<le> n \<Longrightarrow> n < 16 \<Longrightarrow> hex_digit n \<in> hex_digits"
proof -
  assume "0 \<le> n" "n < 16"
  then have "n \<in> set [0..15]" by simp
  moreover have "\<forall>n\<in>set [0..15]. hex_digit n \<in> hex_digits" by code_simp
  ultimately show ?thesis by blast
qed

lemma sha256_hex_digits: "length (sha256_hex m) = 64" "set (sha256_hex m) \<subseteq> hex_digits"
proof -
  obtain a b c d e f g h where w: "sha256_words m = [a, b, c, d, e, f, g, h]"
    using length_sha256_words [of m] by (auto simp: eval_nat_numeral length_Suc_conv)
  have "length (hex_word x) = 8" for x by (simp add: hex_word_def)
  then show "length (sha256_hex m) = 64" by (simp add: sha256_hex_def w)
  show "set (sha256_hex m) \<subseteq> hex_digits"
    by (auto simp: sha256_hex_def hex_word_def intro!: hex_digit_in)
qed

end
