(* ===== verification/Proxy_Store.thy ===== *)
theory Proxy_Store
  imports Go_Map Go_SHA256 "HOL-Library.Multiset"
begin

text \<open>
  Callers and their keys (\<^verbatim>\<open>pkg/proxy/caller.go\<close>), the records and seams of the
  persistence layer (\<^verbatim>\<open>store.go\<close>) and the in-memory reference store
  (\<^verbatim>\<open>internal/store/memory/memory.go\<close>). Two of the seams are locales:
  \<open>caller_store\<close>, on which authentication rests, and \<open>budget_ledger\<close>, on which the
  budget gates rest; the memory store interprets both. Every operation of the memory store holds its
  mutex throughout and is one step; none of them can fail except the lookup of a key.
\<close>

section \<open>Definitions\<close>

definition APIKeyHeader :: string where "APIKeyHeader = ''X-FinOps-API-Key''"

datatype proxy_error = ErrInvalidKey | OtherError string

record Caller =
  cl_ID :: string
  cl_Name :: string
  cl_MonthlyBudgetMicro :: int
  cl_DailyBudgetMicro :: int

definition Caller_zero :: Caller where
  "Caller_zero = \<lparr>cl_ID = '''', cl_Name = '''', cl_MonthlyBudgetMicro = 0, cl_DailyBudgetMicro = 0\<rparr>"

definition HashAPIKey :: "string \<Rightarrow> string" where
  "HashAPIKey raw = sha256_hex raw"

text \<open>
  An authenticator over a store whose lookup is \<open>callerByKeyHash\<close>. The dummy comparison on the
  miss path has no effect but its duration.
\<close>

definition Authenticate :: "(string \<Rightarrow> proxy_error + Caller) \<Rightarrow> string \<Rightarrow> proxy_error + Caller" where
  "Authenticate callerByKeyHash rawKey =
     (if rawKey = '''' then Inl ErrInvalidKey
      else case callerByKeyHash (HashAPIKey rawKey) of
             Inl err \<Rightarrow> Inl ErrInvalidKey
           | Inr c \<Rightarrow> Inr c)"

definition Noop_Authenticate :: "string \<Rightarrow> proxy_error + Caller" where
  "Noop_Authenticate rawKey = Inr Caller_zero"

record RequestRecord =
  rr_AgentID :: string
  rr_KeyID :: string
  rr_ProjectName :: string
  rr_Model :: string
  rr_PromptTokens :: int
  rr_CompletionTokens :: int
  rr_CostUSD :: int
  rr_IsLoopBlocked :: bool
  rr_Timestamp :: int

record SettingsRow =
  st_LoopThresholdCount :: int
  st_CostAlertThresholdMicro :: int

definition SettingsRow_zero :: SettingsRow where
  "SettingsRow_zero = \<lparr>st_LoopThresholdCount = 0, st_CostAlertThresholdMicro = 0\<rparr>"

definition DefaultLoopThreshold :: int where "DefaultLoopThreshold = 2"

record KeyStore =
  ks_m :: "(string, Caller) gomap"

definition NewKeyStore :: KeyStore where
  "NewKeyStore = \<lparr>ks_m = []\<rparr>"

definition KeyStore_Set :: "string \<Rightarrow> Caller \<Rightarrow> KeyStore \<Rightarrow> KeyStore" where
  "KeyStore_Set hash c k = k\<lparr>ks_m := gm_set (ks_m k) hash c\<rparr>"

definition KeyStore_CallerByKeyHash :: "string \<Rightarrow> KeyStore \<Rightarrow> proxy_error + Caller" where
  "KeyStore_CallerByKeyHash hash k =
     (case gm_get (ks_m k) hash of None \<Rightarrow> Inl ErrInvalidKey | Some c \<Rightarrow> Inr c)"

record Store =
  ms_logs :: "RequestRecord list"
  ms_settings :: SettingsRow
  ms_haveSet :: bool
  ms_callers :: KeyStore

definition New :: Store where
  "New = \<lparr>ms_logs = [], ms_settings = SettingsRow_zero, ms_haveSet = False, ms_callers = NewKeyStore\<rparr>"

definition Store_Set :: "string \<Rightarrow> Caller \<Rightarrow> Store \<Rightarrow> Store" where
  "Store_Set hash c s = s\<lparr>ms_callers := KeyStore_Set hash c (ms_callers s)\<rparr>"

definition Store_SetCaller :: "string \<Rightarrow> Caller \<Rightarrow> Store \<Rightarrow> Store" where
  "Store_SetCaller hash c s = Store_Set hash c s"

definition Store_CallerByKeyHash :: "string \<Rightarrow> Store \<Rightarrow> proxy_error + Caller" where
  "Store_CallerByKeyHash hash s = KeyStore_CallerByKeyHash hash (ms_callers s)"

definition Store_LogRequest :: "RequestRecord \<Rightarrow> Store \<Rightarrow> Store" where
  "Store_LogRequest r s = s\<lparr>ms_logs := ms_logs s @ [r]\<rparr>"

fun sum_since_loop :: "int \<Rightarrow> RequestRecord list \<Rightarrow> int \<Rightarrow> int" where
  "sum_since_loop since [] acc = acc"
| "sum_since_loop since (r # rs) acc =
     (if rr_IsLoopBlocked r \<or> rr_Timestamp r < since then sum_since_loop since rs acc
      else sum_since_loop since rs (wrap64 (acc + rr_CostUSD r)))"

definition Store_SumActualCostSince :: "int \<Rightarrow> Store \<Rightarrow> int" where
  "Store_SumActualCostSince since s = sum_since_loop since (ms_logs s) 0"

fun sum_key_since_loop :: "string \<Rightarrow> int \<Rightarrow> RequestRecord list \<Rightarrow> int \<Rightarrow> int" where
  "sum_key_since_loop keyID since [] acc = acc"
| "sum_key_since_loop keyID since (r # rs) acc =
     (if rr_IsLoopBlocked r \<or> rr_Timestamp r < since \<or> rr_KeyID r \<noteq> keyID then sum_key_since_loop keyID since rs acc
      else sum_key_since_loop keyID since rs (wrap64 (acc + rr_CostUSD r)))"

definition Store_SumActualCostForKeySince :: "string \<Rightarrow> int \<Rightarrow> Store \<Rightarrow> int" where
  "Store_SumActualCostForKeySince keyID since s = sum_key_since_loop keyID since (ms_logs s) 0"

definition Store_GetSettings :: "Store \<Rightarrow> SettingsRow" where
  "Store_GetSettings s =
     (if \<not> ms_haveSet s
      then \<lparr>st_LoopThresholdCount = DefaultLoopThreshold, st_CostAlertThresholdMicro = 0\<rparr>
      else ms_settings s)"

definition Store_UpdateSettings :: "SettingsRow \<Rightarrow> Store \<Rightarrow> Store" where
  "Store_UpdateSettings row s = s\<lparr>ms_settings := row, ms_haveSet := True\<rparr>"

definition Store_Logs :: "Store \<Rightarrow> RequestRecord list" where
  "Store_Logs s = ms_logs s"

section \<open>The seam of authentication\<close>

text \<open>
  A store of callers: what is set under a hash is found there, other hashes are not touched, and an
  unknown hash is \<^verbatim>\<open>ErrInvalidKey\<close>.
\<close>

locale caller_store =
  fixes set_key :: "string \<Rightarrow> Caller \<Rightarrow> 's \<Rightarrow> 's"
    and by_hash :: "string \<Rightarrow> 's \<Rightarrow> proxy_error + Caller"
    and fresh :: 's
  assumes by_hash_set: "by_hash h (set_key h' c s) = (if h = h' then Inr c else by_hash h s)"
    and by_hash_fresh: "by_hash h fresh = Inl ErrInvalidKey"
begin

text \<open>A store seeded with raw keys, as the keys file is loaded.\<close>

definition seeded :: "(string \<times> Caller) list \<Rightarrow> 's" where
  "seeded ks = fold (\<lambda>(key, c). set_key (HashAPIKey key) c) ks fresh"

lemma by_hash_seeded:
  "by_hash h (seeded ks) = (case find (\<lambda>(key, _). HashAPIKey key = h) (rev ks) of
     None \<Rightarrow> Inl ErrInvalidKey | Some (_, c) \<Rightarrow> Inr c)"
proof (induction ks rule: rev_induct)
  case Nil
  show ?case by (simp add: seeded_def by_hash_fresh)
next
  case (snoc k ks)
  have "seeded (ks @ [k]) = set_key (HashAPIKey (fst k)) (snd k) (seeded ks)"
    by (simp add: seeded_def case_prod_unfold)
  then show ?case using snoc by (cases k) (auto simp: by_hash_set)
qed

text \<open>Authentication accepts a key exactly when its hash is the hash of a seeded key, with the caller
  bound last; every failure is the same error.\<close>

lemma authenticate_seeded:
  "Authenticate (\<lambda>h. by_hash h (seeded ks)) raw =
     (if raw = '''' then Inl ErrInvalidKey
      else case find (\<lambda>(key, _). HashAPIKey key = HashAPIKey raw) (rev ks) of
             None \<Rightarrow> Inl ErrInvalidKey | Some (_, c) \<Rightarrow> Inr c)"
  by (auto simp: Authenticate_def by_hash_seeded split: option.splits sum.splits)

end

lemma Authenticate_error: "Authenticate f raw = Inl e \<Longrightarrow> e = ErrInvalidKey"
  by (auto simp: Authenticate_def split: if_splits sum.splits)

interpretation key_store: caller_store KeyStore_Set KeyStore_CallerByKeyHash NewKeyStore
  by unfold_locales (auto simp: KeyStore_Set_def KeyStore_CallerByKeyHash_def NewKeyStore_def)

interpretation memory_callers: caller_store Store_Set Store_CallerByKeyHash New
  by unfold_locales (auto simp: Store_Set_def Store_CallerByKeyHash_def New_def key_store.by_hash_set key_store.by_hash_fresh)

section \<open>The seam of the budget gates\<close>

text \<open>What a record adds to the sums: its cost when it was forwarded and is recent enough.\<close>

definition actual_cost :: "int \<Rightarrow> RequestRecord \<Rightarrow> int" where
  "actual_cost since r = (if rr_IsLoopBlocked r \<or> rr_Timestamp r < since then 0 else rr_CostUSD r)"

definition key_cost :: "string \<Rightarrow> int \<Rightarrow> RequestRecord \<Rightarrow> int" where
  "key_cost keyID since r = (if rr_KeyID r = keyID then actual_cost since r else 0)"

locale budget_ledger =
  fixes log_request :: "RequestRecord \<Rightarrow> 's \<Rightarrow> 's"
    and sum_since :: "int \<Rightarrow> 's \<Rightarrow> int"
    and sum_key_since :: "string \<Rightarrow> int \<Rightarrow> 's \<Rightarrow> int"
    and empty :: 's
  assumes sum_empty: "sum_since since empty = 0" "sum_key_since keyID since empty = 0"
    and sum_log: "sum_since since (log_request r s) = wrap64 (sum_since since s + actual_cost since r)"
      "sum_key_since keyID since (log_request r s) = wrap64 (sum_key_since keyID since s + key_cost keyID since r)"
begin

definition logged :: "RequestRecord list \<Rightarrow> 's" where
  "logged rs = fold log_request rs empty"

lemma logged_sums:
  "sum_since since (logged rs) = wrap64 (\<Sum>r\<leftarrow>rs. actual_cost since r)"
  "sum_key_since keyID since (logged rs) = wrap64 (\<Sum>r\<leftarrow>rs. key_cost keyID since r)"
proof (induction rs rule: rev_induct)
  case (snoc r rs)
  case 1
  show ?case using snoc(1) by (simp add: logged_def sum_log)
next
  case (snoc r rs)
  case 2
  show ?case using snoc(2) by (simp add: logged_def sum_log)
qed (simp_all add: logged_def sum_empty wrap64_id is_int64_iff)

text \<open>Without overflow the sums are exact.\<close>

lemma logged_sums_exact:
  assumes "\<forall>r\<in>set rs. 0 \<le> rr_CostUSD r" and "(\<Sum>r\<leftarrow>rs. actual_cost since r) \<le> int64_max"
  shows "sum_since since (logged rs) = (\<Sum>r\<leftarrow>rs. actual_cost since r)"
    and "sum_key_since keyID since (logged rs) = (\<Sum>r\<leftarrow>rs. key_cost keyID since r)"
proof -
  have "0 \<le> (\<Sum>r\<leftarrow>rs. key_cost keyID since r)" "(\<Sum>r\<leftarrow>rs. key_cost keyID since r) \<le> (\<Sum>r\<leftarrow>rs. actual_cost since r)"
    using assms(1) by (auto simp: key_cost_def actual_cost_def intro!: sum_list_nonneg sum_list_mono)
  then have "is_int64 (\<Sum>r\<leftarrow>rs. key_cost keyID since r)" "is_int64 (\<Sum>r\<leftarrow>rs. actual_cost since r)"
    using assms(2) by (simp_all add: is_int64_def int64_bounds)
  then show "sum_since since (logged rs) = (\<Sum>r\<leftarrow>rs. actual_cost since r)"
      "sum_key_since keyID since (logged rs) = (\<Sum>r\<leftarrow>rs. key_cost keyID since r)"
    by (simp_all add: logged_sums wrap64_id)
qed

text \<open>The order in which concurrent requests are logged does not matter.\<close>

lemma logged_order:
  assumes "mset rs = mset rs'"
  shows "sum_since since (logged rs) = sum_since since (logged rs')"
    and "sum_key_since keyID since (logged rs) = sum_key_since keyID since (logged rs')"
proof -
  have "(\<Sum>r\<leftarrow>rs. f r) = (\<Sum>r\<leftarrow>rs'. f r)" for f :: "RequestRecord \<Rightarrow> int"
    using assms by (metis mset_map sum_mset_sum_list)
  then show "sum_since since (logged rs) = sum_since since (logged rs')"
      "sum_key_since keyID since (logged rs) = sum_key_since keyID since (logged rs')"
    by (simp_all add: logged_sums)
qed

end

lemma sum_since_loop_append:
  "sum_since_loop since (rs @ [r]) t =
     (if rr_IsLoopBlocked r \<or> rr_Timestamp r < since then sum_since_loop since rs t
      else wrap64 (sum_since_loop since rs t + rr_CostUSD r))"
  by (induction rs arbitrary: t) auto

lemma sum_key_since_loop_append:
  "sum_key_since_loop k since (rs @ [r]) t =
     (if rr_IsLoopBlocked r \<or> rr_Timestamp r < since \<or> rr_KeyID r \<noteq> k then sum_key_since_loop k since rs t
      else wrap64 (sum_key_since_loop k since rs t + rr_CostUSD r))"
  by (induction rs arbitrary: t) auto

lemma sum_loops_wrap:
  "wrap64 t = t \<Longrightarrow> wrap64 (sum_since_loop since rs t) = sum_since_loop since rs t"
  "wrap64 t = t \<Longrightarrow> wrap64 (sum_key_since_loop k since rs t) = sum_key_since_loop k since rs t"
  by (induction rs arbitrary: t) auto

interpretation memory_ledger: budget_ledger Store_LogRequest Store_SumActualCostSince Store_SumActualCostForKeySince New
  by unfold_locales
    (simp_all add: Store_SumActualCostSince_def Store_SumActualCostForKeySince_def Store_LogRequest_def New_def
      sum_since_loop_append sum_key_since_loop_append actual_cost_def key_cost_def sum_loops_wrap wrap64_id is_int64_iff)

lemma logged_Logs: "Store_Logs (memory_ledger.logged rs) = rs"
proof -
  have "Store_Logs (fold Store_LogRequest rs s) = Store_Logs s @ rs" for s
    by (induction rs arbitrary: s) (simp_all add: Store_LogRequest_def Store_Logs_def)
  then show ?thesis unfolding memory_ledger.logged_def by (simp add: Store_Logs_def New_def)
qed

text \<open>The global sum splits into the sums of the callers.\<close>

lemma actual_cost_split:
  assumes "set (map rr_KeyID rs) \<subseteq> K" and "finite K"
  shows "(\<Sum>r\<leftarrow>rs. actual_cost since r) = (\<Sum>k\<in>K. \<Sum>r\<leftarrow>rs. key_cost k since r)"
  using assms
proof (induction rs)
  case (Cons r rs)
  have "(\<Sum>k\<in>K. key_cost k since r) = actual_cost since r"
    using Cons.prems by (simp add: key_cost_def sum.delta)
  then show ?case using Cons by (simp add: sum.distrib)
qed simp

lemma settings_roundtrip:
  "Store_GetSettings (Store_UpdateSettings row s) = row" "Store_GetSettings (Store_LogRequest r s) = Store_GetSettings s"
  "Store_GetSettings (Store_Set h c s) = Store_GetSettings s"
  by (simp_all add: Store_GetSettings_def Store_UpdateSettings_def Store_LogRequest_def Store_Set_def)

section \<open>Properties\<close>

text \<open>
  C20. The budget ledger of the memory store: after any sequence of logged requests with nonnegative
  costs whose sum fits in 64 bits, the spend of a caller since an instant is the exact sum of the costs
  of its forwarded requests from then on, blocked requests count for nothing, the global spend is the
  sum over the callers, and the order in which concurrent requests were logged does not matter.
\<close>

theorem memory_ledger_exact:
  fixes rs :: "RequestRecord list"
  defines "s \<equiv> fold Store_LogRequest rs New"
  assumes "\<forall>r\<in>set rs. 0 \<le> rr_CostUSD r" and "(\<Sum>r\<leftarrow>rs. rr_CostUSD r) \<le> int64_max"
  shows "Store_SumActualCostForKeySince keyID since s =
      (\<Sum>r\<leftarrow>filter (\<lambda>r. \<not> rr_IsLoopBlocked r \<and> since \<le> rr_Timestamp r \<and> rr_KeyID r = keyID) rs. rr_CostUSD r) \<and>
    Store_SumActualCostSince since s = (\<Sum>k\<in>set (map rr_KeyID rs). Store_SumActualCostForKeySince k since s) \<and>
    Store_Logs s = rs \<and>
    (\<forall>rs'. mset rs' = mset rs \<longrightarrow>
       Store_SumActualCostForKeySince keyID since (fold Store_LogRequest rs' New) = Store_SumActualCostForKeySince keyID since s)"
proof -
  have le: "(\<Sum>r\<leftarrow>rs. actual_cost since r) \<le> int64_max"
  proof -
    have "(\<Sum>r\<leftarrow>rs. actual_cost since r) \<le> (\<Sum>r\<leftarrow>rs. rr_CostUSD r)"
      using assms(2) by (intro sum_list_mono) (auto simp: actual_cost_def)
    then show ?thesis using assms(3) by simp
  qed
  have L: "fold Store_LogRequest xs New = memory_ledger.logged xs" for xs
    by (simp only: memory_ledger.logged_def)
  note sums = memory_ledger.logged_sums_exact [OF assms(2) le, folded L, folded s_def]
  have "(\<Sum>r\<leftarrow>rs. key_cost keyID since r) =
      (\<Sum>r\<leftarrow>filter (\<lambda>r. \<not> rr_IsLoopBlocked r \<and> since \<le> rr_Timestamp r \<and> rr_KeyID r = keyID) rs. rr_CostUSD r)"
    by (induction rs) (auto simp: key_cost_def actual_cost_def)
  moreover have "Store_SumActualCostSince since s = (\<Sum>k\<in>set (map rr_KeyID rs). Store_SumActualCostForKeySince k since s)"
    unfolding sums by (rule actual_cost_split) simp_all
  moreover have "Store_Logs s = rs" unfolding s_def L by (rule logged_Logs)
  moreover have "Store_SumActualCostForKeySince keyID since (fold Store_LogRequest rs' New) = Store_SumActualCostForKeySince keyID since s"
    if "mset rs' = mset rs" for rs' unfolding s_def L by (rule memory_ledger.logged_order(2) [OF that])
  ultimately show ?thesis using sums(2) [of keyID] by metis
qed

definition example_record :: "string \<Rightarrow> int \<Rightarrow> bool \<Rightarrow> int \<Rightarrow> RequestRecord" where
  "example_record key cost blocked ts =
     \<lparr>rr_AgentID = ''a'', rr_KeyID = key, rr_ProjectName = '''', rr_Model = ''gpt-4'', rr_PromptTokens = 1,
      rr_CompletionTokens = 1, rr_CostUSD = cost, rr_IsLoopBlocked = blocked, rr_Timestamp = ts\<rparr>"

theorem memory_ledger_exact_witness:
  "Store_SumActualCostForKeySince ''k'' 100 (fold Store_LogRequest
     [example_record ''k'' 5 False 99, example_record ''k'' 7 False 100, example_record ''k'' 9 True 101,
      example_record ''j'' 11 False 102, example_record ''k'' 13 False 103] New) = 20"
  using memory_ledger_exact [of "[example_record ''k'' 5 False 99, example_record ''k'' 7 False 100, example_record ''k'' 9 True 101,
      example_record ''j'' 11 False 102, example_record ''k'' 13 False 103]" "''k''" 100]
  by (simp add: example_record_def int64_bounds)

end
