(* ===== verification/SQLite_Store.thy ===== *)
theory SQLite_Store
  imports Proxy_Store Price_Registry Go_Strings
begin

text \<open>
  The SQLite store (\<^verbatim>\<open>internal/store/sqlite/sqlite.go\<close>). The database engine with its
  object mapper is not part of the repository: it is the record \<open>gorm\<close> of the calls the store
  makes, an argument of every operation, and \<open>sql_engine\<close> states what is documented of them as
  hypotheses on the rows of the three tables. A nil handle is \<open>None\<close>, and using it panics. Every
  operation holds the store's mutex throughout and is one step.
\<close>

section \<open>Definitions\<close>

record requestLog =
  rl_ID :: int
  rl_AgentID :: string
  rl_KeyID :: string
  rl_ProjectName :: string
  rl_Model :: string
  rl_PromptTokens :: int
  rl_CompletionTokens :: int
  rl_CostUSD :: int
  rl_IsLoopBlocked :: bool
  rl_Timestamp :: int

record settings =
  se_ID :: int
  se_LoopThresholdCount :: int
  se_CostAlertThresholdMicro :: int
  se_UpdatedAt :: int

text \<open>What the tags of the fields make of a row that is created: a zero value becomes the default.\<close>

definition settings_defaults :: "settings \<Rightarrow> settings" where
  "settings_defaults row =
     row\<lparr>se_LoopThresholdCount := if se_LoopThresholdCount row = 0 then 2 else se_LoopThresholdCount row\<rparr>"

record modelPrice_row =
  mr_Model :: string
  mr_Provider :: string
  mr_InputMicroUSD :: int
  mr_OutputMicroUSD :: int
  mr_Source :: string
  mr_UpdatedAt :: int

record PriceRow =
  pw_Model :: string
  pw_Provider :: string
  pw_InputMicroUSD :: int
  pw_OutputMicroUSD :: int
  pw_Source :: string

definition PriceSourceSeed :: string where "PriceSourceSeed = ''seed''"

datatype sql_value = SqlText string | SqlInt int

datatype first_error = ErrRecordNotFound | QueryError error

text \<open>
  The calls of the object mapper: opening a database and executing a statement, inserting a log row,
  scanning a number from a query, reading, creating and upserting the settings row, inserting price rows
  whose model is not there yet, and listing them in the order of a clause.
\<close>

record 'g gorm =
  gm_MkdirAll :: "string \<Rightarrow> error option"
  gm_Open :: "string \<Rightarrow> error + 'g"
  gm_DB :: "'g \<Rightarrow> error option"
  gm_Exec :: "string \<Rightarrow> 'g \<Rightarrow> error option \<times> 'g"
  gm_AutoMigrate :: "'g \<Rightarrow> error option \<times> 'g"
  gm_CreateLog :: "requestLog \<Rightarrow> 'g \<Rightarrow> error option \<times> 'g"
  gm_Scan :: "string \<Rightarrow> sql_value list \<Rightarrow> 'g \<Rightarrow> error + int"
  gm_FirstSettings :: "int \<Rightarrow> 'g \<Rightarrow> first_error + settings"
  gm_CreateSettings :: "settings \<Rightarrow> 'g \<Rightarrow> error option \<times> 'g"
  gm_UpsertSettings :: "string list \<Rightarrow> settings \<Rightarrow> 'g \<Rightarrow> error option \<times> 'g"
  gm_InsertPrices :: "modelPrice_row list \<Rightarrow> 'g \<Rightarrow> error option \<times> 'g"
  gm_FindPrices :: "string \<Rightarrow> 'g \<Rightarrow> error + modelPrice_row list"
  gm_Close :: "'g \<Rightarrow> error option"
  gm_Quote :: "string \<Rightarrow> string"

record 'g DB =
  db_gorm :: "'g option"

text \<open>\<^verbatim>\<open>filepath.Dir\<close> is an argument; a statement that fails ends the opening with its error.\<close>

fun exec_all :: "('g \<Rightarrow> error option \<times> 'g) list \<Rightarrow> 'g \<Rightarrow> error + 'g" where
  "exec_all [] g = Inr g"
| "exec_all (s # ss) g = (case s g of (Some err, g) \<Rightarrow> Inl err | (None, g) \<Rightarrow> exec_all ss g)"

definition exec_error :: "string \<Rightarrow> ('g \<Rightarrow> error option \<times> 'g) \<Rightarrow> 'g \<Rightarrow> error option \<times> 'g" where
  "exec_error what s g = (case s g of (None, g) \<Rightarrow> (None, g) | (Some err, g) \<Rightarrow> (Some (what @ err), g))"

definition open_statements :: "'g gorm \<Rightarrow> string \<Rightarrow> ('g \<Rightarrow> error option \<times> 'g) list" where
  "open_statements G path =
     (let failed = ''sqlite: open '' @ path @ '': '';
          pragma = (\<lambda>p. exec_error (failed @ p @ '': '') (gm_Exec G p));
          index = (\<lambda>p. exec_error (failed @ ''create index: '') (gm_Exec G p))
      in [pragma ''PRAGMA journal_mode = WAL'', pragma ''PRAGMA synchronous = NORMAL'', pragma ''PRAGMA busy_timeout = 5000'',
          exec_error (failed @ ''migrate: '') (gm_AutoMigrate G),
          index ''CREATE INDEX IF NOT EXISTS idx_request_logs_actual_time ON request_logs(is_loop_blocked, timestamp)'',
          index ''CREATE INDEX IF NOT EXISTS idx_request_logs_key_actual_time ON request_logs(key_id, is_loop_blocked, timestamp)'',
          index ''CREATE INDEX IF NOT EXISTS idx_model_prices_provider ON model_prices(provider)''])"

definition SQLite_Open :: "'g gorm \<Rightarrow> (string \<Rightarrow> string) \<Rightarrow> string \<Rightarrow> error + 'g DB" where
  "SQLite_Open G filepath_Dir path =
     (let path = (if path = '''' then ''finops.db'' else path); dir = filepath_Dir path;
          failed = ''sqlite: open '' @ path @ '': ''
      in case (if dir \<noteq> ''.'' then gm_MkdirAll G dir else None) of
           Some err \<Rightarrow> Inl (failed @ ''create parent dir: '' @ err)
         | None \<Rightarrow>
             (case gm_Open G path of
                Inl err \<Rightarrow> Inl (failed @ err)
              | Inr g \<Rightarrow>
                  (case gm_DB G g of
                     Some err \<Rightarrow> Inl (failed @ err)
                   | None \<Rightarrow>
                       (case exec_all (open_statements G path) g of
                          Inl err \<Rightarrow> Inl err
                        | Inr g \<Rightarrow> Inr \<lparr>db_gorm = Some g\<rparr>))))"

definition log_row :: "RequestRecord \<Rightarrow> requestLog" where
  "log_row r =
     \<lparr>rl_ID = 0, rl_AgentID = rr_AgentID r, rl_KeyID = rr_KeyID r, rl_ProjectName = rr_ProjectName r,
      rl_Model = rr_Model r, rl_PromptTokens = rr_PromptTokens r, rl_CompletionTokens = rr_CompletionTokens r,
      rl_CostUSD = rr_CostUSD r, rl_IsLoopBlocked = rr_IsLoopBlocked r, rl_Timestamp = rr_Timestamp r\<rparr>"

text \<open>A statement on the handle that changes the database, and its error text.\<close>

definition db_write :: "('g \<Rightarrow> error option \<times> 'g) \<Rightarrow> string \<Rightarrow> 'g DB \<Rightarrow> (error option \<times> 'g DB) outcome" where
  "db_write stmt what d =
     (case db_gorm d of
        None \<Rightarrow> Panic
      | Some g \<Rightarrow>
          (case stmt g of
             (None, g) \<Rightarrow> Ret (None, d\<lparr>db_gorm := Some g\<rparr>)
           | (Some err, g) \<Rightarrow> Ret (Some (what @ err), d\<lparr>db_gorm := Some g\<rparr>)))"

definition SQLite_LogRequest :: "'g gorm \<Rightarrow> RequestRecord \<Rightarrow> 'g DB \<Rightarrow> (error option \<times> 'g DB) outcome" where
  "SQLite_LogRequest G r d = db_write (gm_CreateLog G (log_row r)) ''sqlite: log request: '' d"

text \<open>The texts of the two queries, with the line breaks and tabs of the source.\<close>

definition sql_break :: string where "sql_break = [CHR 0x0A, CHR 0x09, CHR 0x09]"

definition sum_all_sql :: string where
  "sum_all_sql =
     sql_break @ ''SELECT COALESCE(SUM(cost_usd), 0)'' @
     sql_break @ ''FROM request_logs'' @
     sql_break @ ''WHERE is_loop_blocked = 0 AND timestamp >= ?''"

definition sum_key_sql :: string where
  "sum_key_sql =
     sql_break @ ''SELECT COALESCE(SUM(cost_usd), 0)'' @
     sql_break @ ''FROM request_logs'' @
     sql_break @ ''WHERE key_id = ? AND is_loop_blocked = 0 AND timestamp >= ?''"

definition SQLite_SumActualCostSince :: "'g gorm \<Rightarrow> int \<Rightarrow> 'g DB \<Rightarrow> (error + int) outcome" where
  "SQLite_SumActualCostSince G since d =
     (case db_gorm d of
        None \<Rightarrow> Panic
      | Some g \<Rightarrow>
          (case gm_Scan G sum_all_sql [SqlInt since] g of
             Inl err \<Rightarrow> Ret (Inl (''sqlite: sum actual cost since '' @ Itoa since @ '': '' @ err))
           | Inr n \<Rightarrow> Ret (Inr n)))"

definition SQLite_SumActualCostForKeySince :: "'g gorm \<Rightarrow> string \<Rightarrow> int \<Rightarrow> 'g DB \<Rightarrow> (error + int) outcome" where
  "SQLite_SumActualCostForKeySince G keyID since d =
     (case db_gorm d of
        None \<Rightarrow> Panic
      | Some g \<Rightarrow>
          (case gm_Scan G sum_key_sql [SqlText keyID, SqlInt since] g of
             Inl err \<Rightarrow> Ret (Inl (''sqlite: sum actual cost since '' @ Itoa since @ '' for key '' @ gm_Quote G keyID @ '': '' @ err))
           | Inr n \<Rightarrow> Ret (Inr n)))"

definition settings_row :: "settings \<Rightarrow> SettingsRow" where
  "settings_row row = \<lparr>st_LoopThresholdCount = se_LoopThresholdCount row, st_CostAlertThresholdMicro = se_CostAlertThresholdMicro row\<rparr>"

definition SQLite_GetSettings :: "'g gorm \<Rightarrow> int \<Rightarrow> 'g DB \<Rightarrow> ((error + SettingsRow) \<times> 'g DB) outcome" where
  "SQLite_GetSettings G now d =
     (case db_gorm d of
        None \<Rightarrow> Panic
      | Some g \<Rightarrow>
          (case gm_FirstSettings G 1 g of
             Inr row \<Rightarrow> Ret (Inr (settings_row row), d)
           | Inl (QueryError err) \<Rightarrow> Ret (Inl (''sqlite: get settings: '' @ err), d)
           | Inl ErrRecordNotFound \<Rightarrow>
               (let seed = \<lparr>se_ID = 1, se_LoopThresholdCount = DefaultLoopThreshold, se_CostAlertThresholdMicro = 0, se_UpdatedAt = now\<rparr>
                in case gm_CreateSettings G (settings_defaults seed) g of
                     (Some err, g) \<Rightarrow> Ret (Inl (''sqlite: seed settings: '' @ err), d\<lparr>db_gorm := Some g\<rparr>)
                   | (None, g) \<Rightarrow> Ret (Inr (settings_row (settings_defaults seed)), d\<lparr>db_gorm := Some g\<rparr>))))"

definition SQLite_UpdateSettings :: "'g gorm \<Rightarrow> int \<Rightarrow> SettingsRow \<Rightarrow> 'g DB \<Rightarrow> (error option \<times> 'g DB) outcome" where
  "SQLite_UpdateSettings G now s d =
     (let row = \<lparr>se_ID = 1, se_LoopThresholdCount = st_LoopThresholdCount s,
                 se_CostAlertThresholdMicro = st_CostAlertThresholdMicro s, se_UpdatedAt = now\<rparr>
      in db_write (gm_UpsertSettings G [''loop_threshold_count'', ''cost_alert_threshold_micro'', ''updated_at''] (settings_defaults row))
           ''sqlite: update settings: '' d)"

definition price_row :: "int \<Rightarrow> PriceRow \<Rightarrow> modelPrice_row" where
  "price_row now r =
     \<lparr>mr_Model = pw_Model r, mr_Provider = pw_Provider r, mr_InputMicroUSD = pw_InputMicroUSD r,
      mr_OutputMicroUSD = pw_OutputMicroUSD r, mr_Source = pw_Source r, mr_UpdatedAt = now\<rparr>"

definition SQLite_SeedModelPrices :: "'g gorm \<Rightarrow> int \<Rightarrow> PriceRow list \<Rightarrow> 'g DB \<Rightarrow> (error option \<times> 'g DB) outcome" where
  "SQLite_SeedModelPrices G now rows d =
     (if rows = [] then Ret (None, d)
      else db_write (gm_InsertPrices G (map (price_row now) rows)) ''sqlite: seed model prices: '' d)"

definition SQLite_ListModelPrices :: "'g gorm \<Rightarrow> 'g DB \<Rightarrow> (error + PriceRow list) outcome" where
  "SQLite_ListModelPrices G d =
     (case db_gorm d of
        None \<Rightarrow> Panic
      | Some g \<Rightarrow>
          (case gm_FindPrices G ''model COLLATE NOCASE'' g of
             Inl err \<Rightarrow> Ret (Inl (''sqlite: list model prices: '' @ err))
           | Inr rows \<Rightarrow>
               Ret (Inr (map (\<lambda>r. \<lparr>pw_Model = mr_Model r, pw_Provider = mr_Provider r, pw_InputMicroUSD = mr_InputMicroUSD r,
                                   pw_OutputMicroUSD = mr_OutputMicroUSD r, pw_Source = mr_Source r\<rparr>) rows))))"

definition SQLite_Close :: "'g gorm \<Rightarrow> 'g DB \<Rightarrow> error option \<times> 'g DB" where
  "SQLite_Close G d =
     (case db_gorm d of
        None \<Rightarrow> (None, d)
      | Some g \<Rightarrow>
          (case gm_DB G g of
             Some err \<Rightarrow> (Some (''sqlite: close: '' @ err), d)
           | None \<Rightarrow> (map_option (\<lambda>err. ''sqlite: close: '' @ err) (gm_Close G g), d\<lparr>db_gorm := None\<rparr>)))"

section \<open>What is documented of the engine\<close>

record tables =
  tb_logs :: "requestLog list"
  tb_settings :: "settings option"
  tb_prices :: "modelPrice_row list"

text \<open>
  The language of the queries, as SQL documents it: words, numbers and symbols between white space; the
  sum of a column, with a number in place of the null of an empty sum, over the rows of a table that meet
  every comparison of a conjunction. A comparison relates columns, numbers and the parameters, which are
  numbered from left to right. A text of any other form has no meaning here.
\<close>

definition sql_word :: "char \<Rightarrow> bool" where
  "sql_word c \<longleftrightarrow> between 0x41 0x5A c \<or> between 0x61 0x7A c \<or> between 0x30 0x39 c \<or> c = CHR ''_''"

definition sql_operator :: "char \<Rightarrow> bool" where
  "sql_operator c \<longleftrightarrow> c \<in> set ''<>=!''"

definition sql_space :: "char \<Rightarrow> bool" where
  "sql_space c \<longleftrightarrow> c = CHR '' '' \<or> c = CHR 0x09 \<or> c = CHR 0x0A"

fun sql_tokens :: "string \<Rightarrow> string list" where
  "sql_tokens [] = []"
| "sql_tokens (c # s) =
     (if sql_space c then sql_tokens s
      else case (s, sql_tokens s) of
             (d # _, t # ts) \<Rightarrow>
               if sql_word c \<and> sql_word d \<or> sql_operator c \<and> sql_operator d then (c # t) # ts else [c] # t # ts
           | (_, ts) \<Rightarrow> [c] # ts)"

datatype sql_operand = Column string | Number int | Param nat

type_synonym sql_comparison = "sql_operand \<times> string \<times> sql_operand"

record sql_query =
  sq_Column :: string
  sq_Default :: int
  sq_Table :: string
  sq_Where :: "sql_comparison list"

definition sql_operand_of :: "nat \<Rightarrow> string \<Rightarrow> sql_operand \<times> nat" where
  "sql_operand_of n tok =
     (if tok = ''?'' then (Param n, Suc n)
      else case digits_value tok 0 of Some i \<Rightarrow> (Number i, n) | None \<Rightarrow> (Column tok, n))"

definition sql_comparison_of :: "nat \<Rightarrow> string \<Rightarrow> string \<Rightarrow> string \<Rightarrow> sql_comparison \<times> nat" where
  "sql_comparison_of n a op b =
     (let (x, n) = sql_operand_of n a; (y, n) = sql_operand_of n b in ((x, op, y), n))"

fun sql_where_of :: "nat \<Rightarrow> string list \<Rightarrow> sql_comparison list option" where
  "sql_where_of n [a, op, b] = Some [fst (sql_comparison_of n a op b)]"
| "sql_where_of n (a # op # b # con # toks) =
     (if con = ''AND''
      then map_option (Cons (fst (sql_comparison_of n a op b))) (sql_where_of (snd (sql_comparison_of n a op b)) toks)
      else None)"
| "sql_where_of n _ = None"

definition sql_parse :: "string \<Rightarrow> sql_query option" where
  "sql_parse s =
     (let toks = sql_tokens s
      in if length toks > 12 \<and> take 5 toks = [''SELECT'', ''COALESCE'', ''('', ''SUM'', ''(''] \<and>
            take 2 (drop 6 toks) = ['')'', '',''] \<and> take 2 (drop 9 toks) = ['')'', ''FROM''] \<and> toks ! 12 = ''WHERE''
         then case (digits_value (toks ! 8) 0, sql_where_of 0 (drop 13 toks)) of
                (Some d, Some conds) \<Rightarrow>
                  Some \<lparr>sq_Column = toks ! 5, sq_Default = d, sq_Table = toks ! 11, sq_Where = conds\<rparr>
              | _ \<Rightarrow> None
         else None)"

text \<open>The table and the columns of the request log, after the tags of the fields; a truth value is 0 or 1.\<close>

definition request_logs_columns :: "requestLog \<Rightarrow> (string \<times> sql_value) list" where
  "request_logs_columns r =
     [(''id'', SqlInt (rl_ID r)), (''agent_id'', SqlText (rl_AgentID r)), (''key_id'', SqlText (rl_KeyID r)),
      (''project_name'', SqlText (rl_ProjectName r)), (''model'', SqlText (rl_Model r)),
      (''prompt_tokens'', SqlInt (rl_PromptTokens r)), (''completion_tokens'', SqlInt (rl_CompletionTokens r)),
      (''cost_usd'', SqlInt (rl_CostUSD r)), (''is_loop_blocked'', SqlInt (if rl_IsLoopBlocked r then 1 else 0)),
      (''timestamp'', SqlInt (rl_Timestamp r))]"

fun sql_operand_value :: "(string \<times> sql_value) list \<Rightarrow> sql_value list \<Rightarrow> sql_operand \<Rightarrow> sql_value option" where
  "sql_operand_value cols args (Column name) = map_of cols name"
| "sql_operand_value cols args (Number i) = Some (SqlInt i)"
| "sql_operand_value cols args (Param n) = (if n < length args then Some (args ! n) else None)"

fun sql_compare :: "string \<Rightarrow> sql_value \<Rightarrow> sql_value \<Rightarrow> bool option" where
  "sql_compare op (SqlInt a) (SqlInt b) =
     map_of [(''='', a = b), (''<>'', a \<noteq> b), (''<'', a < b), (''<='', a \<le> b), (''>'', b < a), (''>='', b \<le> a)] op"
| "sql_compare op (SqlText a) (SqlText b) = map_of [(''='', a = b), (''<>'', a \<noteq> b)] op"
| "sql_compare op _ _ = None"

fun sql_where :: "(string \<times> sql_value) list \<Rightarrow> sql_value list \<Rightarrow> sql_comparison list \<Rightarrow> bool option" where
  "sql_where cols args [] = Some True"
| "sql_where cols args ((x, op, y) # cs) =
     (case (sql_operand_value cols args x, sql_operand_value cols args y) of
        (Some a, Some b) \<Rightarrow>
          (case (sql_compare op a b, sql_where cols args cs) of (Some p, Some q) \<Rightarrow> Some (p \<and> q) | _ \<Rightarrow> None)
      | _ \<Rightarrow> None)"

fun sql_select :: "sql_query \<Rightarrow> sql_value list \<Rightarrow> requestLog list \<Rightarrow> int list option" where
  "sql_select q args [] = Some []"
| "sql_select q args (r # rs) =
     (case (sql_where (request_logs_columns r) args (sq_Where q), map_of (request_logs_columns r) (sq_Column q), sql_select q args rs) of
        (Some p, Some (SqlInt v), Some vs) \<Rightarrow> Some (if p then v # vs else vs)
      | _ \<Rightarrow> None)"

definition sql_sum :: "string \<Rightarrow> sql_value list \<Rightarrow> requestLog list \<Rightarrow> int option" where
  "sql_sum sql args rows =
     (case sql_parse sql of
        Some q \<Rightarrow>
          if sq_Table q = ''request_logs''
          then map_option (\<lambda>vs. if vs = [] then sq_Default q else sum_list vs) (sql_select q args rows)
          else None
      | None \<Rightarrow> None)"

text \<open>What the store's own queries select.\<close>

definition actual_rows :: "(requestLog \<Rightarrow> bool) \<Rightarrow> int \<Rightarrow> requestLog list \<Rightarrow> requestLog list" where
  "actual_rows P since rows = filter (\<lambda>r. P r \<and> \<not> rl_IsLoopBlocked r \<and> since \<le> rl_Timestamp r) rows"

lemma parse_sum_all:
  "sql_parse sum_all_sql = Some \<lparr>sq_Column = ''cost_usd'', sq_Default = 0, sq_Table = ''request_logs'',
     sq_Where = [(Column ''is_loop_blocked'', ''='', Number 0), (Column ''timestamp'', ''>='', Param 0)]\<rparr>"
  by code_simp

lemma parse_sum_key:
  "sql_parse sum_key_sql = Some \<lparr>sq_Column = ''cost_usd'', sq_Default = 0, sq_Table = ''request_logs'',
     sq_Where = [(Column ''key_id'', ''='', Param 0), (Column ''is_loop_blocked'', ''='', Number 0),
       (Column ''timestamp'', ''>='', Param 1)]\<rparr>"
  by code_simp

lemma request_logs_lookup:
  "map_of (request_logs_columns r) ''cost_usd'' = Some (SqlInt (rl_CostUSD r))"
  "map_of (request_logs_columns r) ''key_id'' = Some (SqlText (rl_KeyID r))"
  "map_of (request_logs_columns r) ''is_loop_blocked'' = Some (SqlInt (if rl_IsLoopBlocked r then 1 else 0))"
  "map_of (request_logs_columns r) ''timestamp'' = Some (SqlInt (rl_Timestamp r))"
  by (simp_all add: request_logs_columns_def)

lemma sql_select_actual:
  assumes "sq_Column q = ''cost_usd''"
    and "\<And>r. sql_where (request_logs_columns r) args (sq_Where q) = Some (P r \<and> \<not> rl_IsLoopBlocked r \<and> since \<le> rl_Timestamp r)"
  shows "sql_select q args rows = Some (map rl_CostUSD (actual_rows P since rows))"
  by (induction rows) (simp_all add: assms request_logs_lookup actual_rows_def)

lemma sql_sum_all:
  "sql_sum sum_all_sql [SqlInt since] rows = Some (\<Sum>r\<leftarrow>actual_rows (\<lambda>_. True) since rows. rl_CostUSD r)"
  unfolding sql_sum_def parse_sum_all
  by (subst option.case, subst sql_select_actual [where P = "\<lambda>_. True" and since = since])
    (simp_all add: request_logs_lookup)

lemma sql_sum_key:
  "sql_sum sum_key_sql [SqlText key, SqlInt since] rows =
     Some (\<Sum>r\<leftarrow>actual_rows (\<lambda>r. rl_KeyID r = key) since rows. rl_CostUSD r)"
  unfolding sql_sum_def parse_sum_key
  by (subst option.case, subst sql_select_actual [where P = "\<lambda>r. rl_KeyID r = key" and since = since])
    (simp_all add: request_logs_lookup)

fun insert_ignore :: "modelPrice_row list \<Rightarrow> modelPrice_row list \<Rightarrow> modelPrice_row list" where
  "insert_ignore [] rows = rows"
| "insert_ignore (r # rs) rows =
     insert_ignore rs (if mr_Model r \<in> set (map mr_Model rows) then rows else rows @ [r])"

text \<open>A statement takes effect as a whole or not at all.\<close>

definition statement :: "('g \<Rightarrow> tables) \<Rightarrow> ('g \<Rightarrow> error option \<times> 'g) \<Rightarrow> (tables \<Rightarrow> tables \<Rightarrow> bool) \<Rightarrow> bool" where
  "statement tb stmt eff \<longleftrightarrow> (\<forall>g. case stmt g of (None, g') \<Rightarrow> eff (tb g) (tb g') | (Some err, g') \<Rightarrow> tb g' = tb g)"

text \<open>
  The rows behind a database: an insert appends a row with a fresh id, a sum query of the fragment
  above, whatever its text, returns the sum its text denotes and fails when that overflows (so a number
  that is returned is exact), the
  settings row is read and written as a whole, price rows are inserted unless their model is there, and
  the listing has every row once.
\<close>

definition sql_engine :: "'g gorm \<Rightarrow> ('g \<Rightarrow> tables) \<Rightarrow> bool" where
  "sql_engine G tb \<longleftrightarrow>
     (\<forall>row. statement tb (gm_CreateLog G row) (\<lambda>t t'. \<exists>i. t' = t\<lparr>tb_logs := tb_logs t @ [row\<lparr>rl_ID := i\<rparr>]\<rparr>)) \<and>
     (\<forall>sql args g v n. sql_sum sql args (tb_logs (tb g)) = Some v \<and> gm_Scan G sql args g = Inr n \<longrightarrow> n = v \<and> is_int64 n) \<and>
     (\<forall>g. (case gm_FirstSettings G 1 g of
        Inr row \<Rightarrow> tb_settings (tb g) = Some row
      | Inl ErrRecordNotFound \<Rightarrow> tb_settings (tb g) = None
      | Inl (QueryError err) \<Rightarrow> True)) \<and>
     (\<forall>row. statement tb (gm_CreateSettings G row) (\<lambda>t t'. tb_settings t = None \<and> t' = t\<lparr>tb_settings := Some row\<rparr>)) \<and>
     (\<forall>row. statement tb (gm_UpsertSettings G [''loop_threshold_count'', ''cost_alert_threshold_micro'', ''updated_at''] row)
        (\<lambda>t t'. t' = t\<lparr>tb_settings := Some row\<rparr>)) \<and>
     (\<forall>rows. statement tb (gm_InsertPrices G rows) (\<lambda>t t'. t' = t\<lparr>tb_prices := insert_ignore rows (tb_prices t)\<rparr>)) \<and>
     (\<forall>g rows. gm_FindPrices G ''model COLLATE NOCASE'' g = Inr rows \<longrightarrow> mset rows = mset (tb_prices (tb g)))"

section \<open>Refinement of the memory store\<close>

datatype store_op = OpLog RequestRecord | OpSum int | OpSumKey string int | OpGetSettings | OpUpdateSettings SettingsRow

datatype store_answer = Done | Total int | Settings SettingsRow | Failed error

text \<open>An operation of each store; the clock is read once for each.\<close>

definition sqlite_op :: "'g gorm \<Rightarrow> int \<Rightarrow> store_op \<Rightarrow> 'g DB \<Rightarrow> (store_answer \<times> 'g DB) outcome" where
  "sqlite_op G now op d =
     (let done_or_failed = (\<lambda>out. case out of
            Panic \<Rightarrow> Panic | Ret (None, d) \<Rightarrow> Ret (Done, d) | Ret (Some err, d) \<Rightarrow> Ret (Failed err, d));
          total_or_failed = (\<lambda>out. case out of Panic \<Rightarrow> Panic | Ret (Inl err) \<Rightarrow> Ret (Failed err, d) | Ret (Inr n) \<Rightarrow> Ret (Total n, d))
      in case op of
           OpLog r \<Rightarrow> done_or_failed (SQLite_LogRequest G r d)
         | OpSum since \<Rightarrow> total_or_failed (SQLite_SumActualCostSince G since d)
         | OpSumKey key since \<Rightarrow> total_or_failed (SQLite_SumActualCostForKeySince G key since d)
         | OpGetSettings \<Rightarrow>
             (case SQLite_GetSettings G now d of
                Panic \<Rightarrow> Panic | Ret (Inl err, d) \<Rightarrow> Ret (Failed err, d) | Ret (Inr row, d) \<Rightarrow> Ret (Settings row, d))
         | OpUpdateSettings row \<Rightarrow> done_or_failed (SQLite_UpdateSettings G now row d))"

fun memory_op :: "store_op \<Rightarrow> Store \<Rightarrow> store_answer \<times> Store" where
  "memory_op (OpLog r) s = (Done, Store_LogRequest r s)"
| "memory_op (OpSum since) s = (Total (Store_SumActualCostSince since s), s)"
| "memory_op (OpSumKey key since) s = (Total (Store_SumActualCostForKeySince key since s), s)"
| "memory_op OpGetSettings s = (Settings (Store_GetSettings s), s)"
| "memory_op (OpUpdateSettings row) s = (Done, Store_UpdateSettings row s)"

fun sqlite_ops :: "'g gorm \<Rightarrow> (int \<times> store_op) list \<Rightarrow> 'g DB \<Rightarrow> (store_answer list \<times> 'g DB) outcome" where
  "sqlite_ops G [] d = Ret ([], d)"
| "sqlite_ops G ((now, op) # ops) d =
     (case sqlite_op G now op d of
        Panic \<Rightarrow> Panic
      | Ret (a, d) \<Rightarrow>
          (case sqlite_ops G ops d of Panic \<Rightarrow> Panic | Ret (as, d) \<Rightarrow> Ret (a # as, d)))"

text \<open>The memory store meets the operations that have not failed on the database.\<close>

fun memory_ops :: "((int \<times> store_op) \<times> store_answer) list \<Rightarrow> Store \<Rightarrow> store_answer list \<times> Store" where
  "memory_ops [] s = ([], s)"
| "memory_ops (((now, op), Failed err) # ops) s = (let (as, s) = memory_ops ops s in (Failed err # as, s))"
| "memory_ops (((now, op), a) # ops) s = (let (a, s) = memory_op op s; (as, s) = memory_ops ops s in (a # as, s))"

definition row_record :: "requestLog \<Rightarrow> RequestRecord" where
  "row_record r =
     \<lparr>rr_AgentID = rl_AgentID r, rr_KeyID = rl_KeyID r, rr_ProjectName = rl_ProjectName r, rr_Model = rl_Model r,
      rr_PromptTokens = rl_PromptTokens r, rr_CompletionTokens = rl_CompletionTokens r, rr_CostUSD = rl_CostUSD r,
      rr_IsLoopBlocked = rl_IsLoopBlocked r, rr_Timestamp = rl_Timestamp r\<rparr>"

definition same_store :: "('g \<Rightarrow> tables) \<Rightarrow> 'g DB \<Rightarrow> Store \<Rightarrow> bool" where
  "same_store tb d s \<longleftrightarrow> (\<exists>g. db_gorm d = Some g \<and> map row_record (tb_logs (tb g)) = ms_logs s \<and>
     (case tb_settings (tb g) of
        None \<Rightarrow> \<not> ms_haveSet s
      | Some row \<Rightarrow> Store_GetSettings s = settings_row row))"

lemma row_record_log_row [simp]: "row_record ((log_row r)\<lparr>rl_ID := i\<rparr>) = r"
  by (simp add: row_record_def log_row_def)

lemma sum_loop_exact: "sum_since_loop since rs t = wrap64 (t + (\<Sum>r\<leftarrow>rs. actual_cost since r))" if "wrap64 t = t"
  using that by (induction rs arbitrary: t) (auto simp: actual_cost_def add.assoc)

lemma sum_key_loop_exact: "sum_key_since_loop key since rs t = wrap64 (t + (\<Sum>r\<leftarrow>rs. key_cost key since r))" if "wrap64 t = t"
  using that by (induction rs arbitrary: t) (auto simp: actual_cost_def key_cost_def add.assoc)

lemma rows_cost:
  "(\<Sum>r\<leftarrow>actual_rows (\<lambda>_. True) since rows. rl_CostUSD r) = (\<Sum>r\<leftarrow>map row_record rows. actual_cost since r)"
  "(\<Sum>r\<leftarrow>actual_rows (\<lambda>r. rl_KeyID r = key) since rows. rl_CostUSD r) = (\<Sum>r\<leftarrow>map row_record rows. key_cost key since r)"
  by (induction rows) (auto simp: actual_rows_def actual_cost_def key_cost_def row_record_def)

lemma sql_engine_scan:
  assumes "sql_engine G tb"
  shows "gm_Scan G sum_all_sql [SqlInt since] g = Inr n \<Longrightarrow>
      n = (\<Sum>r\<leftarrow>map row_record (tb_logs (tb g)). actual_cost since r) \<and> is_int64 n"
    and "gm_Scan G sum_key_sql [SqlText key, SqlInt since] g = Inr n \<Longrightarrow>
      n = (\<Sum>r\<leftarrow>map row_record (tb_logs (tb g)). key_cost key since r) \<and> is_int64 n"
proof -
  have scan: "gm_Scan G sql args g = Inr n \<Longrightarrow> sql_sum sql args (tb_logs (tb g)) = Some v \<Longrightarrow> n = v \<and> is_int64 n" for sql args v
    using assms unfolding sql_engine_def by blast
  show "gm_Scan G sum_all_sql [SqlInt since] g = Inr n \<Longrightarrow>
      n = (\<Sum>r\<leftarrow>map row_record (tb_logs (tb g)). actual_cost since r) \<and> is_int64 n"
    using scan [OF _ sql_sum_all] unfolding rows_cost .
  show "gm_Scan G sum_key_sql [SqlText key, SqlInt since] g = Inr n \<Longrightarrow>
      n = (\<Sum>r\<leftarrow>map row_record (tb_logs (tb g)). key_cost key since r) \<and> is_int64 n"
    using scan [OF _ sql_sum_key] unfolding rows_cost .
qed

lemma sql_engine_write:
  assumes "sql_engine G tb"
  shows "statement tb (gm_CreateLog G lrow) (\<lambda>t t'. \<exists>i. t' = t\<lparr>tb_logs := tb_logs t @ [lrow\<lparr>rl_ID := i\<rparr>]\<rparr>)"
    and "statement tb (gm_CreateSettings G srow) (\<lambda>t t'. tb_settings t = None \<and> t' = t\<lparr>tb_settings := Some srow\<rparr>)"
    and "statement tb (gm_UpsertSettings G [''loop_threshold_count'', ''cost_alert_threshold_micro'', ''updated_at''] srow)
        (\<lambda>t t'. t' = t\<lparr>tb_settings := Some srow\<rparr>)"
    and "statement tb (gm_InsertPrices G rows) (\<lambda>t t'. t' = t\<lparr>tb_prices := insert_ignore rows (tb_prices t)\<rparr>)"
  using assms unfolding sql_engine_def by blast+

lemma sql_engine_read:
  assumes "sql_engine G tb"
  shows "case gm_FirstSettings G 1 g of
      Inr row \<Rightarrow> tb_settings (tb g) = Some row | Inl ErrRecordNotFound \<Rightarrow> tb_settings (tb g) = None | Inl (QueryError err) \<Rightarrow> True"
    and "gm_FindPrices G ''model COLLATE NOCASE'' g = Inr rows \<Longrightarrow> mset rows = mset (tb_prices (tb g))"
  using assms unfolding sql_engine_def by blast+

text \<open>A number the database returns is the sum of the memory store.\<close>

lemma sums_agree:
  assumes "sql_engine G tb" and "map row_record (tb_logs (tb g)) = ms_logs s"
  shows "gm_Scan G sum_all_sql [SqlInt since] g = Inr n \<Longrightarrow> Store_SumActualCostSince since s = n"
    and "gm_Scan G sum_key_sql [SqlText key, SqlInt since] g = Inr n \<Longrightarrow> Store_SumActualCostForKeySince key since s = n"
  using sql_engine_scan(1) [OF assms(1), of since g n] sql_engine_scan(2) [OF assms(1), of key since g n] assms(2)
  by (auto simp: Store_SumActualCostSince_def Store_SumActualCostForKeySince_def sum_loop_exact sum_key_loop_exact wrap64_id is_int64_iff
      simp del: map_map)

text \<open>What a write leaves behind.\<close>

lemma db_write_cases:
  assumes "statement tb stmt eff" and "db_write stmt what d = Ret (r, d')" and "db_gorm d = Some g"
  obtains g' where "db_gorm d' = Some g'" and "r = None" and "eff (tb g) (tb g')"
  | g' err where "db_gorm d' = Some g'" and "r = Some err" and "tb g' = tb g"
proof -
  obtain res g' where st: "stmt g = (res, g')" by fastforce
  have "case res of None \<Rightarrow> eff (tb g) (tb g') | Some err \<Rightarrow> tb g' = tb g"
    using assms(1) st by (auto simp: statement_def split: option.splits dest!: spec [of _ g])
  then show thesis using assms(2,3) st that by (cases res) (auto simp: db_write_def)
qed

lemma settings_defaults_row: "st_LoopThresholdCount s \<noteq> 0 \<Longrightarrow>
  settings_row (settings_defaults \<lparr>se_ID = 1, se_LoopThresholdCount = st_LoopThresholdCount s,
     se_CostAlertThresholdMicro = st_CostAlertThresholdMicro s, se_UpdatedAt = now\<rparr>) = s"
  by (simp add: settings_defaults_def settings_row_def)

text \<open>One operation: what it answers, unless it fails, and the state it leaves agree with the memory store.\<close>

lemma sqlite_op_agrees:
  assumes "sql_engine G tb" and "same_store tb d s" and "sqlite_op G now op d = Ret (a, d')"
    and "\<forall>row. op = OpUpdateSettings row \<longrightarrow> st_LoopThresholdCount row \<noteq> 0"
  shows "(\<exists>err. a = Failed err) \<and> same_store tb d' s \<or> a = fst (memory_op op s) \<and> same_store tb d' (snd (memory_op op s))"
proof -
  obtain g where g: "db_gorm d = Some g" "map row_record (tb_logs (tb g)) = ms_logs s"
      "case tb_settings (tb g) of None \<Rightarrow> \<not> ms_haveSet s | Some row \<Rightarrow> Store_GetSettings s = settings_row row"
    using assms(2) by (auto simp: same_store_def)
  show ?thesis
  proof (cases op)
    case (OpLog r)
    then obtain res where res: "SQLite_LogRequest G r d = Ret (res, d')" "a = (case res of None \<Rightarrow> Done | Some err \<Rightarrow> Failed err)"
      using assms(3) by (auto simp: sqlite_op_def Let_def split: outcome.splits option.splits)
    show ?thesis
    proof (rule db_write_cases [OF sql_engine_write(1) [OF assms(1)] res(1) [unfolded SQLite_LogRequest_def] g(1)])
      fix g' assume "db_gorm d' = Some g'" "res = None" "\<exists>i. tb g' = tb g\<lparr>tb_logs := tb_logs (tb g) @ [(log_row r)\<lparr>rl_ID := i\<rparr>]\<rparr>"
      then show ?thesis
        using res(2) g OpLog
        by (auto simp: same_store_def Store_LogRequest_def Store_GetSettings_def split: option.splits)
    next
      fix g' err assume "db_gorm d' = Some g'" "res = Some err" "tb g' = tb g"
      then show ?thesis using res(2) g by (simp add: same_store_def)
    qed
  next
    case (OpSum since)
    then show ?thesis
      using assms(2,3) g sums_agree(1) [OF assms(1) g(2), of since]
      by (auto simp: sqlite_op_def SQLite_SumActualCostSince_def Let_def split: sum.splits)
  next
    case (OpSumKey key since)
    then show ?thesis
      using assms(2,3) g sums_agree(2) [OF assms(1) g(2), of key since]
      by (auto simp: sqlite_op_def SQLite_SumActualCostForKeySince_def Let_def split: sum.splits)
  next
    case OpGetSettings
    show ?thesis
    proof (cases "gm_FirstSettings G 1 g")
      case (Inr row)
      then have "tb_settings (tb g) = Some row" using sql_engine_read(1) [OF assms(1), of g] by simp
      then show ?thesis
        using assms(2,3) g OpGetSettings Inr by (auto simp: sqlite_op_def SQLite_GetSettings_def)
    next
      case (Inl e)
      show ?thesis
      proof (cases e)
        case (QueryError err)
        then show ?thesis using assms(2,3) g(1) OpGetSettings Inl by (auto simp: sqlite_op_def SQLite_GetSettings_def)
      next
        case ErrRecordNotFound
        define seed where "seed = settings_defaults \<lparr>se_ID = 1, se_LoopThresholdCount = DefaultLoopThreshold, se_CostAlertThresholdMicro = 0, se_UpdatedAt = now\<rparr>"
        obtain res g' where w: "gm_CreateSettings G seed g = (res, g')" by fastforce
        have none: "tb_settings (tb g) = None" using sql_engine_read(1) [OF assms(1), of g] Inl ErrRecordNotFound by simp
        have default: "settings_row seed = Store_GetSettings s"
          using none g(3) by (simp add: seed_def settings_row_def settings_defaults_def DefaultLoopThreshold_def Store_GetSettings_def)
        have eff: "case res of None \<Rightarrow> tb g' = (tb g)\<lparr>tb_settings := Some seed\<rparr> | Some err \<Rightarrow> tb g' = tb g"
          using sql_engine_write(2) [OF assms(1), of seed] w by (auto simp: statement_def split: option.splits dest!: spec [of _ g])
        show ?thesis
          using assms(3) g OpGetSettings Inl ErrRecordNotFound w eff default none
          by (cases res) (auto simp: sqlite_op_def SQLite_GetSettings_def Let_def seed_def [symmetric] same_store_def)
      qed
    qed
  next
    case (OpUpdateSettings row)
    define srow where "srow = settings_defaults \<lparr>se_ID = 1, se_LoopThresholdCount = st_LoopThresholdCount row,
       se_CostAlertThresholdMicro = st_CostAlertThresholdMicro row, se_UpdatedAt = now\<rparr>"
    have srow: "settings_row srow = row" unfolding srow_def using assms(4) OpUpdateSettings by (intro settings_defaults_row) simp
    obtain res where res: "SQLite_UpdateSettings G now row d = Ret (res, d')" "a = (case res of None \<Rightarrow> Done | Some err \<Rightarrow> Failed err)"
      using assms(3) OpUpdateSettings by (auto simp: sqlite_op_def Let_def split: outcome.splits option.splits)
    show ?thesis
    proof (rule db_write_cases [OF sql_engine_write(3) [OF assms(1)] res(1) [unfolded SQLite_UpdateSettings_def Let_def] g(1)])
      fix g' assume "db_gorm d' = Some g'" "res = None"
        "tb g' = tb g\<lparr>tb_settings := Some (settings_defaults \<lparr>se_ID = 1, se_LoopThresholdCount = st_LoopThresholdCount row,
           se_CostAlertThresholdMicro = st_CostAlertThresholdMicro row, se_UpdatedAt = now\<rparr>)\<rparr>"
      then show ?thesis
        using res(2) g srow OpUpdateSettings
        by (simp add: same_store_def srow_def [symmetric] Store_UpdateSettings_def Store_GetSettings_def)
    next
      fix g' err assume "db_gorm d' = Some g'" "res = Some err" "tb g' = tb g"
      then show ?thesis using res(2) g by (simp add: same_store_def)
    qed
  qed
qed

lemma sqlite_op_open:
  assumes "same_store tb d s"
  shows "\<exists>a d'. sqlite_op G now op d = Ret (a, d')"
proof -
  obtain g where "db_gorm d = Some g" using assms by (auto simp: same_store_def)
  then show ?thesis
    by (cases op)
      (auto simp: sqlite_op_def SQLite_LogRequest_def SQLite_SumActualCostSince_def SQLite_SumActualCostForKeySince_def
        SQLite_GetSettings_def SQLite_UpdateSettings_def db_write_def Let_def split: option.splits sum.splits first_error.splits prod.splits)
qed

lemma memory_ops_step:
  "a = fst (memory_op op s) \<Longrightarrow> memory_ops (((now, op), a) # ops) s =
     (a # fst (memory_ops ops (snd (memory_op op s))), snd (memory_ops ops (snd (memory_op op s))))"
  by (cases op) (auto simp: Let_def split: prod.split)

lemma sqlite_ops_agree:
  assumes "sql_engine G tb" and "same_store tb d s"
    and "\<forall>(now, op)\<in>set ops. \<forall>row. op = OpUpdateSettings row \<longrightarrow> st_LoopThresholdCount row \<noteq> 0"
  shows "\<exists>as d'. sqlite_ops G ops d = Ret (as, d') \<and> as = fst (memory_ops (zip ops as) s) \<and>
    same_store tb d' (snd (memory_ops (zip ops as) s))"
  using assms(2,3)
proof (induction ops arbitrary: d s)
  case (Cons x ops)
  obtain now op where x: "x = (now, op)" by (cases x)
  obtain a d1 where a: "sqlite_op G now op d = Ret (a, d1)" using sqlite_op_open [OF Cons.prems(1)] by blast
  have nonzero: "\<forall>row. op = OpUpdateSettings row \<longrightarrow> st_LoopThresholdCount row \<noteq> 0" using Cons.prems(2) x by simp
  consider err where "a = Failed err" "same_store tb d1 s" | "a = fst (memory_op op s)" "same_store tb d1 (snd (memory_op op s))"
    using sqlite_op_agrees [OF assms(1) Cons.prems(1) a nonzero] by blast
  then show ?case
  proof cases
    case 1
    then obtain as d' where "sqlite_ops G ops d1 = Ret (as, d')" "as = fst (memory_ops (zip ops as) s)"
        "same_store tb d' (snd (memory_ops (zip ops as) s))" using Cons.IH [OF 1(2)] Cons.prems(2) by auto
    then show ?thesis using 1 x a by (intro exI [of _ "a # as"] exI [of _ d']) (simp add: case_prod_unfold Let_def)
  next
    case 2
    then obtain as d' where "sqlite_ops G ops d1 = Ret (as, d')" "as = fst (memory_ops (zip ops as) (snd (memory_op op s)))"
        "same_store tb d' (snd (memory_ops (zip ops as) (snd (memory_op op s))))" using Cons.IH [OF 2(2)] Cons.prems(2) by auto
    then show ?thesis using x a memory_ops_step [OF 2(1), of now "zip ops as"]
      by (intro exI [of _ "a # as"] exI [of _ d']) simp
  qed
qed simp

section \<open>Properties\<close>

text \<open>
  C35. The SQLite store is the memory store with failures: over an engine that keeps its documented
  promises, from an open database without rows, every sequence of requests logged, spends asked for and
  settings read and written runs without panic, and every operation that does not fail answers exactly
  what the memory store answers to the operations that have not failed; a failed operation changes
  nothing. The settings written must not ask for a threshold of 0, which the database replaces by its
  default.
\<close>

theorem sqlite_refines_memory:
  assumes "sql_engine G tb" and "db_gorm d = Some g" and "tb_logs (tb g) = []" and "tb_settings (tb g) = None"
    and "\<forall>(now, op)\<in>set ops. \<forall>row. op = OpUpdateSettings row \<longrightarrow> st_LoopThresholdCount row \<noteq> 0"
  shows "\<exists>as d'. sqlite_ops G ops d = Ret (as, d') \<and> as = fst (memory_ops (zip ops as) New)"
proof -
  have "same_store tb d New" using assms(2-4) by (simp add: same_store_def New_def)
  then show ?thesis using sqlite_ops_agree [OF assms(1) _ assms(5)] by blast
qed

text \<open>An engine whose tables are lists.\<close>

definition list_gorm :: "tables gorm" where
  "list_gorm =
     \<lparr>gm_MkdirAll = (\<lambda>_. None), gm_Open = (\<lambda>_. Inr \<lparr>tb_logs = [], tb_settings = None, tb_prices = []\<rparr>), gm_DB = (\<lambda>_. None),
      gm_Exec = (\<lambda>_ t. (None, t)), gm_AutoMigrate = (\<lambda>t. (None, t)),
      gm_CreateLog = (\<lambda>row t. (None, t\<lparr>tb_logs := tb_logs t @ [row\<lparr>rl_ID := int (length (tb_logs t)) + 1\<rparr>]\<rparr>)),
      gm_Scan = (\<lambda>sql args t. case sql_sum sql args (tb_logs t) of
         Some n \<Rightarrow> if is_int64 n then Inr n else Inl ''integer overflow''
       | None \<Rightarrow> Inl ''sql''),
      gm_FirstSettings = (\<lambda>_ t. case tb_settings t of None \<Rightarrow> Inl ErrRecordNotFound | Some row \<Rightarrow> Inr row),
      gm_CreateSettings = (\<lambda>row t. if tb_settings t = None then (None, t\<lparr>tb_settings := Some row\<rparr>) else (Some ''constraint'', t)),
      gm_UpsertSettings = (\<lambda>_ row t. (None, t\<lparr>tb_settings := Some row\<rparr>)),
      gm_InsertPrices = (\<lambda>rows t. (None, t\<lparr>tb_prices := insert_ignore rows (tb_prices t)\<rparr>)),
      gm_FindPrices = (\<lambda>_ t. Inr (tb_prices t)), gm_Close = (\<lambda>_. None), gm_Quote = (\<lambda>s. s)\<rparr>"

lemma list_gorm_engine: "sql_engine list_gorm id"
  by (auto simp: sql_engine_def statement_def list_gorm_def Let_def split: if_splits option.splits)

theorem sqlite_refines_memory_witness:
  "\<exists>d. SQLite_Open list_gorm (\<lambda>_. ''.'') ''x.db'' = Inr d \<and>
     (\<exists>as d'. sqlite_ops list_gorm [(1, OpGetSettings), (2, OpLog (example_record ''k'' 7 False 100)), (3, OpSumKey ''k'' 50)] d = Ret (as, d') \<and>
        as = [Settings \<lparr>st_LoopThresholdCount = 2, st_CostAlertThresholdMicro = 0\<rparr>, Done, Total 7])"
proof -
  let ?t = "\<lparr>tb_logs = [], tb_settings = None, tb_prices = []\<rparr>"
  let ?ops = "[(1, OpGetSettings), (2, OpLog (example_record ''k'' 7 False 100)), (3, OpSumKey ''k'' 50)]"
  have o: "SQLite_Open list_gorm (\<lambda>_. ''.'') ''x.db'' = Inr \<lparr>db_gorm = Some ?t\<rparr>"
    by (simp add: SQLite_Open_def open_statements_def exec_error_def list_gorm_def Let_def)
  have "\<exists>as d'. sqlite_ops list_gorm ?ops \<lparr>db_gorm = Some ?t\<rparr> = Ret (as, d') \<and> as = fst (memory_ops (zip ?ops as) New)"
    by (rule sqlite_refines_memory [OF list_gorm_engine, where g = ?t]) simp_all
  then obtain as d' where run: "sqlite_ops list_gorm ?ops \<lparr>db_gorm = Some ?t\<rparr> = Ret (as, d')" by blast
  have "as = [Settings \<lparr>st_LoopThresholdCount = 2, st_CostAlertThresholdMicro = 0\<rparr>, Done, Total 7]"
    using run
    by (simp add: sqlite_op_def SQLite_GetSettings_def SQLite_LogRequest_def SQLite_SumActualCostForKeySince_def db_write_def
        list_gorm_def sql_sum_key actual_rows_def log_row_def example_record_def settings_row_def settings_defaults_def
        DefaultLoopThreshold_def Let_def is_int64_iff)
  then show ?thesis using o run by blast
qed

end
