(* ===== verification/Go_Flag.thy ===== *)
theory Go_Flag
  imports Go_Strings Go_Float
begin

text \<open>
  What the two commands use of package \<^verbatim>\<open>flag\<close> and of the number syntax of its
  values: \<^verbatim>\<open>strconv.ParseInt\<close> with base 0, \<^verbatim>\<open>strconv.ParseBool\<close>
  and \<^verbatim>\<open>time.ParseDuration\<close>. The usage message that accompanies an error is left out.
\<close>

section \<open>Values\<close>

text \<open>
  An integer literal: a sign, a base prefix, digits, and underscores that separate digits or follow the
  prefix. \<open>underscore_ok\<close> runs over the literal without its sign; its state is what came last.
\<close>

datatype underscore_state = AtStart | AfterDigit | AfterUnderscore | AfterOther

fun underscore_run :: "bool \<Rightarrow> underscore_state \<Rightarrow> string \<Rightarrow> bool" where
  "underscore_run hex saw [] \<longleftrightarrow> saw \<noteq> AfterUnderscore"
| "underscore_run hex saw (c # s) \<longleftrightarrow>
     (if json_digit c \<or> hex \<and> between 0x61 0x66 (lower c) then underscore_run hex AfterDigit s
      else if c = CHR ''_'' then saw = AfterDigit \<and> underscore_run hex AfterUnderscore s
      else saw \<noteq> AfterUnderscore \<and> underscore_run hex AfterOther s)"

definition base_prefix :: "string \<Rightarrow> bool" where
  "base_prefix s = (case s of a # b # _ \<Rightarrow> a = CHR ''0'' \<and> lower b \<in> set ''box'' | _ \<Rightarrow> False)"

definition underscore_ok :: "string \<Rightarrow> bool" where
  "underscore_ok s =
     (if base_prefix s then underscore_run (lower (s ! 1) = CHR ''x'') AfterDigit (drop 2 s)
      else underscore_run False AtStart s)"

definition literal_base :: "string \<Rightarrow> int \<times> string" where
  "literal_base s =
     (if s \<noteq> [] \<and> s ! 0 = CHR ''0''
      then (if 3 \<le> length s \<and> lower (s ! 1) = CHR ''b'' then (2, drop 2 s)
            else if 3 \<le> length s \<and> lower (s ! 1) = CHR ''o'' then (8, drop 2 s)
            else if 3 \<le> length s \<and> lower (s ! 1) = CHR ''x'' then (16, drop 2 s)
            else (8, drop 1 s))
      else (10, s))"

definition digit_of :: "char \<Rightarrow> int option" where
  "digit_of c =
     (if json_digit c then Some (int (code c - 0x30))
      else if between 0x61 0x7A (lower c) then Some (int (code (lower c) - 0x61 + 10))
      else None)"

fun literal_digits :: "int \<Rightarrow> string \<Rightarrow> int \<Rightarrow> int option" where
  "literal_digits b [] n = Some n"
| "literal_digits b (c # s) n =
     (if c = CHR ''_'' then literal_digits b s n
      else case digit_of c of
             None \<Rightarrow> None
           | Some d \<Rightarrow> if d \<ge> b then None else literal_digits b s (n * b + d))"

definition ParseInt :: "string \<Rightarrow> int option" where
  "ParseInt s =
     (let neg = (s \<noteq> [] \<and> s ! 0 = CHR ''-''); u = (if s \<noteq> [] \<and> s ! 0 \<in> set ''+-'' then drop 1 s else s); (b, ds) = literal_base u
      in if u = [] then None
         else case literal_digits b ds 0 of
                None \<Rightarrow> None
              | Some n \<Rightarrow>
                  if CHR ''_'' \<in> set ds \<and> \<not> underscore_ok u then None
                  else let v = (if neg then - n else n) in if is_int64 v then Some v else None)"

definition ParseBool :: "string \<Rightarrow> bool option" where
  "ParseBool s =
     (if s \<in> {''1'', ''t'', ''T'', ''TRUE'', ''true'', ''True''} then Some True
      else if s \<in> {''0'', ''f'', ''F'', ''FALSE'', ''false'', ''False''} then Some False
      else None)"

text \<open>
  A duration: a sign, then numbers with units. The integral part and the sum may reach \<open>2\<^sup>6\<^sup>3\<close>; the
  digits of a fraction that no longer fit are dropped.
\<close>

definition two63 :: int where "two63 = 2 ^ 63"

fun leadingInt :: "string \<Rightarrow> int \<Rightarrow> (int \<times> string) option" where
  "leadingInt [] x = Some (x, [])"
| "leadingInt (c # s) x =
     (if \<not> json_digit c then Some (x, c # s)
      else if x > two63 div 10 then None
      else let x = x * 10 + int (code c - 0x30) in if x > two63 then None else leadingInt s x)"

fun leadingFraction :: "string \<Rightarrow> int \<Rightarrow> float64 \<Rightarrow> bool \<Rightarrow> int \<times> float64 \<times> string" where
  "leadingFraction [] x scale overflow = (x, scale, [])"
| "leadingFraction (c # s) x scale overflow =
     (if \<not> json_digit c then (x, scale, c # s)
      else if overflow \<or> x > (two63 - 1) div 10 then leadingFraction s x scale True
      else let y = x * 10 + int (code c - 0x30)
           in if y > two63 then leadingFraction s x scale True
              else leadingFraction s y (f64_mul scale (Fin 10)) False)"

definition duration_units :: "(string \<times> int) list" where
  "duration_units =
     [(''ns'', 1), (''us'', 1000), ([CHR 0xC2, CHR 0xB5, CHR ''s''], 1000), ([CHR 0xCE, CHR 0xBC, CHR ''s''], 1000),
      (''ms'', 1000000), (''s'', Second), (''m'', Minute), (''h'', Hour)]"

definition number_char :: "char \<Rightarrow> bool" where
  "number_char c \<longleftrightarrow> c = CHR ''.'' \<or> json_digit c"

text \<open>One number with its unit, and what follows it.\<close>

definition duration_item :: "string \<Rightarrow> (int \<times> string) option" where
  "duration_item s =
     (case leadingInt s 0 of
        None \<Rightarrow> None
      | Some (v, s1) \<Rightarrow>
          (let dot = (s1 \<noteq> [] \<and> s1 ! 0 = CHR ''.'');
               (f, scale, s2) = (if dot then leadingFraction (drop 1 s1) 0 (Fin 1) False else (0, Fin 1, s1));
               pre = (length s1 \<noteq> length s); post = (dot \<and> length s2 \<noteq> length s1 - 1);
               u = takeWhile (\<lambda>c. \<not> number_char c) s2
           in if \<not> pre \<and> \<not> post then None
              else case map_of duration_units u of
                     None \<Rightarrow> None
                   | Some unit \<Rightarrow>
                       if v > two63 div unit then None
                       else let v = v * unit;
                                v = (if f > 0 then v + f64_to_int (f64_mul (f64_of_int f) (f64_div (f64_of_int unit) scale)) else v)
                            in if v > two63 then None else Some (v, dropWhile (\<lambda>c. \<not> number_char c) s2)))"

fun duration_items :: "nat \<Rightarrow> string \<Rightarrow> int \<Rightarrow> int option" where
  "duration_items fuel [] d = Some d"
| "duration_items 0 (c # s) d = None"
| "duration_items (Suc fuel) (c # s) d =
     (if \<not> number_char c then None
      else case duration_item (c # s) of
             None \<Rightarrow> None
           | Some (v, r) \<Rightarrow> if d + v > two63 then None else duration_items fuel r (d + v))"

definition ParseDuration :: "string \<Rightarrow> duration option" where
  "ParseDuration s =
     (let neg = (s \<noteq> [] \<and> s ! 0 = CHR ''-''); u = (if s \<noteq> [] \<and> s ! 0 \<in> set ''+-'' then drop 1 s else s)
      in if u = ''0'' then Some 0
         else if u = [] then None
         else case duration_items (length u) u 0 of
                None \<Rightarrow> None
              | Some d \<Rightarrow> if neg then Some (- d) else if d > two63 - 1 then None else Some d)"

section \<open>Flags\<close>

text \<open>A flag sets its variable in the options from the text of its value; \<open>None\<close> is an error.\<close>

datatype 'c flag = BoolFlag "bool \<Rightarrow> 'c \<Rightarrow> 'c" | ValueFlag "string \<Rightarrow> 'c \<Rightarrow> 'c option"

definition StringFlag :: "(string \<Rightarrow> 'c \<Rightarrow> 'c) \<Rightarrow> 'c flag" where
  "StringFlag f = ValueFlag (\<lambda>s c. Some (f s c))"

definition IntFlag :: "(int \<Rightarrow> 'c \<Rightarrow> 'c) \<Rightarrow> 'c flag" where
  "IntFlag f = ValueFlag (\<lambda>s c. map_option (\<lambda>n. f n c) (ParseInt s))"

definition DurationFlag :: "(duration \<Rightarrow> 'c \<Rightarrow> 'c) \<Rightarrow> 'c flag" where
  "DurationFlag f = ValueFlag (\<lambda>s c. map_option (\<lambda>d. f d c) (ParseDuration s))"

datatype flag_error = BadSyntax string | NotDefined string | ErrHelp | InvalidBool string string | NeedsArgument string | InvalidValue string string

definition flag_name :: "string \<Rightarrow> string" where
  "flag_name s = (if 2 \<le> length s \<and> s ! 1 = CHR ''-'' then drop 2 s else drop 1 s)"

text \<open>The name and the value behind the first equals sign, which cannot be the first character.\<close>

definition split_value :: "string \<Rightarrow> string \<times> string option" where
  "split_value name =
     (let k = length (takeWhile (\<lambda>c. c \<noteq> CHR ''='') (drop 1 name)) + 1
      in if k < length name then (take k name, Some (drop (Suc k) name)) else (name, None))"

text \<open>
  \<^verbatim>\<open>FlagSet.Parse\<close>: flags are taken off the arguments until the first that is none, or
  behind \<^verbatim>\<open>--\<close>. The options keep what was set before an error.
\<close>

fun parse_flags :: "(string \<times> 'c flag) list \<Rightarrow> string list \<Rightarrow> 'c \<Rightarrow> 'c \<times> (flag_error + string list)" where
  "parse_flags formal [] c = (c, Inr [])"
| "parse_flags formal (s # args) c =
     (if length s < 2 \<or> s ! 0 \<noteq> CHR ''-'' then (c, Inr (s # args))
      else if s = ''--'' then (c, Inr args)
      else
        let name = flag_name s
        in if name = [] \<or> name ! 0 \<in> set ''-='' then (c, Inl (BadSyntax s))
           else
             let (name, value) = split_value name
             in case map_of formal name of
                  None \<Rightarrow> (c, Inl (if name = ''help'' \<or> name = ''h'' then ErrHelp else NotDefined name))
                | Some (BoolFlag f) \<Rightarrow>
                    (case value of
                       None \<Rightarrow> parse_flags formal args (f True c)
                     | Some v \<Rightarrow>
                         (case ParseBool v of
                            None \<Rightarrow> (c, Inl (InvalidBool v name))
                          | Some b \<Rightarrow> parse_flags formal args (f b c)))
                | Some (ValueFlag f) \<Rightarrow>
                    (case value of
                       Some v \<Rightarrow>
                         (case f v c of None \<Rightarrow> (c, Inl (InvalidValue v name)) | Some c' \<Rightarrow> parse_flags formal args c')
                     | None \<Rightarrow>
                         (case args of
                            [] \<Rightarrow> (c, Inl (NeedsArgument name))
                          | v # args' \<Rightarrow>
                              (case f v c of None \<Rightarrow> (c, Inl (InvalidValue v name)) | Some c' \<Rightarrow> parse_flags formal args' c'))))"

text \<open>One flag: what it takes off the arguments and how it changes the options do not depend on what follows.\<close>

lemma parse_flag_step:
  assumes "\<not> (length s < 2 \<or> s ! 0 \<noteq> CHR ''-'')" and "s \<noteq> ''--''" and "parse_flags formal (s # args) c = (c', Inr left)"
  shows "\<exists>used args2 c2. args = used @ args2 \<and> (\<forall>xs. parse_flags formal (s # used @ xs) c = parse_flags formal xs c2)"
proof -
  obtain name val where nv: "split_value (flag_name s) = (name, val)" by fastforce
  have name: "\<not> (flag_name s = [] \<or> flag_name s ! 0 \<in> set ''-='')" using assms by (auto simp: Let_def split: if_splits)
  obtain fl where fl: "map_of formal name = Some fl"
    using assms name nv by (cases "map_of formal name") (auto simp: Let_def)
  note unfold = assms(1,2) name nv fl Let_def
  show ?thesis
  proof (cases fl)
    case (BoolFlag f)
    show ?thesis
    proof (cases val)
      case None
      then show ?thesis using BoolFlag unfold by (intro exI [of _ "[]"] exI [of _ args] exI [of _ "f True c"]) simp
    next
      case (Some v)
      then obtain b where "ParseBool v = Some b"
        using assms(3) BoolFlag unfold by (cases "ParseBool v") auto
      then show ?thesis using BoolFlag Some unfold by (intro exI [of _ "[]"] exI [of _ args] exI [of _ "f b c"]) simp
    qed
  next
    case (ValueFlag f)
    show ?thesis
    proof (cases val)
      case None
      then obtain v args' where args: "args = v # args'" using assms(3) ValueFlag unfold by (cases args) auto
      then obtain c2 where "f v c = Some c2" using assms(3) ValueFlag None unfold by (cases "f v c") auto
      then show ?thesis using ValueFlag None unfold args by (intro exI [of _ "[v]"] exI [of _ args'] exI [of _ c2]) simp
    next
      case (Some v)
      then obtain c2 where "f v c = Some c2" using assms(3) ValueFlag unfold by (cases "f v c") auto
      then show ?thesis using ValueFlag Some unfold by (intro exI [of _ "[]"] exI [of _ args] exI [of _ c2]) simp
    qed
  qed
qed

text \<open>
  The arguments that are left are a suffix, and parsing did not look behind the first of them: any other
  arguments there are left just the same.
\<close>

lemma parse_flags_suffix:
  assumes "parse_flags formal args c = (c', Inr (b # rest))"
  shows "\<exists>pre. args = pre @ b # rest \<and> (\<forall>rest'. parse_flags formal (pre @ b # rest') c = (c', Inr (b # rest')))"
  using assms
proof (induction args arbitrary: c rule: length_induct)
  case (1 args)
  show ?case
  proof (cases args)
    case Nil
    then show ?thesis using 1(2) by simp
  next
    case (Cons s args1)
    consider (stop) "length s < 2 \<or> s ! 0 \<noteq> CHR ''-''" | (dashes) "\<not> (length s < 2 \<or> s ! 0 \<noteq> CHR ''-'')" "s = ''--''"
      | (flag) "\<not> (length s < 2 \<or> s ! 0 \<noteq> CHR ''-'')" "s \<noteq> ''--''" by blast
    then show ?thesis
    proof cases
      case stop
      then have "args = [] @ b # rest" "c' = c" using 1(2) Cons by auto
      moreover have "parse_flags formal ([] @ b # rest') c = (c, Inr (b # rest'))" for rest'
        using stop Cons \<open>args = [] @ b # rest\<close> by simp
      ultimately show ?thesis by blast
    next
      case dashes
      then have "args = [''--''] @ b # rest" "c' = c" using 1(2) Cons by auto
      moreover have "parse_flags formal ([''--''] @ b # rest') c = (c, Inr (b # rest'))" for rest' by simp
      ultimately show ?thesis by blast
    next
      case flag
      from parse_flag_step [OF flag 1(2) [unfolded Cons]] obtain used args2 c2
        where step: "args1 = used @ args2" "\<forall>xs. parse_flags formal (s # used @ xs) c = parse_flags formal xs c2" by blast
      then have "parse_flags formal args2 c2 = (c', Inr (b # rest))" using 1(2) Cons step by simp
      moreover have "length args2 < length args" using Cons step(1) by simp
      ultimately obtain pre where pre: "args2 = pre @ b # rest" "\<And>rest'. parse_flags formal (pre @ b # rest') c2 = (c', Inr (b # rest'))"
        using 1(1) by blast
      have "parse_flags formal ((s # used @ pre) @ b # rest') c = (c', Inr (b # rest'))" for rest'
        using step(2) pre(2) by simp
      moreover have "args = (s # used @ pre) @ b # rest" using Cons step(1) pre(1) by simp
      ultimately show ?thesis by blast
    qed
  qed
qed

end
