(* ===== verification/Go_Calendar.thy ===== *)
theory Go_Calendar
  imports Go_Prelude
begin

text \<open>
  What the program uses of the calendar of package \<^verbatim>\<open>time\<close>: seconds of the Unix
  epoch, the UTC date of an instant, and \<^verbatim>\<open>time.Date\<close> with its normalisation of
  months and days out of range. Days are counted from January 1 of year 1, where Go's zero time is.
  The main facts are that the date of a day number is the unique valid date with that number
  (\<open>date_day\<close>, \<open>date_unique\<close>) and that months tile the day numbers
  (\<open>month_next\<close>).
\<close>

section \<open>Definitions\<close>

definition unix_offset :: int where "unix_offset = 62135596800"

definition time_Unix :: "time \<Rightarrow> int" where
  "time_Unix t = t div Second - unix_offset"

definition day_secs :: int where "day_secs = 86400"

definition day_number :: "time \<Rightarrow> int" where
  "day_number t = t div Second div day_secs"

definition leap_year :: "int \<Rightarrow> bool" where
  "leap_year y \<longleftrightarrow> y mod 4 = 0 \<and> (y mod 100 \<noteq> 0 \<or> y mod 400 = 0)"

definition month_lengths :: "int \<Rightarrow> int list" where
  "month_lengths y = [31, if leap_year y then 29 else 28, 31, 30, 31, 30, 31, 31, 30, 31, 30, 31]"

definition days_before_year :: "int \<Rightarrow> int" where
  "days_before_year y = 365 * (y - 1) + (y - 1) div 4 - (y - 1) div 100 + (y - 1) div 400"

lemma div_step: "0 < k \<Longrightarrow> (n + 1) div k = n div k + (if (n + 1) mod k = 0 then 1 else 0)" for n k :: int
proof -
  assume k: "0 < k"
  define q r where "q = (n + 1) div k" and "r = (n + 1) mod k"
  have n: "n + 1 = k * q + r" by (simp add: q_def r_def)
  have r: "0 \<le> r" "r < k" using k by (simp_all add: r_def)
  have "n div k = (if r = 0 then q - 1 else q)"
  proof (cases "r = 0")
    case True
    then have "n = k * (q - 1) + (k - 1)" using n by (simp add: algebra_simps)
    then show ?thesis using True k by (simp add: int_div_pos_eq [of n k "q - 1" "k - 1"])
  next
    case False
    then have "n = k * q + (r - 1)" using n by simp
    then show ?thesis using False r int_div_pos_eq [of n k q "r - 1"] by simp
  qed
  then show ?thesis by (simp add: q_def r_def)
qed

lemma days_before_next_year:
  "days_before_year (y + 1) = days_before_year y + (if leap_year y then 366 else 365)"
proof -
  let ?c = "\<lambda>k. if y mod k = 0 then 1 else 0 :: int"
  have e: "y div k = (y - 1) div k + ?c k" if "0 < k" for k
    using div_step [OF that, of "y - 1"] by simp
  have "y mod 400 = 0 \<longrightarrow> y mod 100 = 0" "y mod 100 = 0 \<longrightarrow> y mod 4 = 0"
    using dvd_trans [of 100 400 y] dvd_trans [of 4 100 y] by (simp_all add: dvd_eq_mod_eq_0)
  then have c: "?c 4 - ?c 100 + ?c 400 = (if leap_year y then 1 else 0)" unfolding leap_year_def
    by (cases "y mod 4 = 0"; cases "y mod 100 = 0"; cases "y mod 400 = 0") simp_all
  have d: "days_before_year (y + 1) = 365 * y + y div 4 - y div 100 + y div 400"
    by (simp add: days_before_year_def)
  have "365 * y + a' - b' + c' = 365 * (y - 1) + a - b + c + (365 + (i - j + k))"
    if "a' = a + i" "b' = b + j" "c' = c + k" for a a' b b' c c' i j k :: int
    using that by simp
  from this [OF e e e, OF zero_less_numeral zero_less_numeral zero_less_numeral]
  have "days_before_year (y + 1) = days_before_year y + (365 + (?c 4 - ?c 100 + ?c 400))"
    by (subst d, subst days_before_year_def)
  moreover have "(if leap_year y then 366 else 365) = 365 + (if leap_year y then 1 else 0 :: int)" by simp
  ultimately show ?thesis unfolding c by (rule trans [OF _ arg_cong [OF sym]])
qed

text \<open>The year is found by counting up from a lower estimate.\<close>

function year_search :: "int \<Rightarrow> int \<Rightarrow> int" where
  "year_search y d = (if days_before_year (y + 1) \<le> d then year_search (y + 1) d else y)"
  by auto
termination
proof (relation "measure (\<lambda>(y, d). nat (d - days_before_year (y + 1) + 1))")
  fix y d
  assume "days_before_year (y + 1) \<le> d"
  then show "((y + 1, d), y, d) \<in> measure (\<lambda>(y, d). nat (d - days_before_year (y + 1) + 1))"
    using days_before_next_year [of "y + 1"] by (auto split: if_splits)
qed simp

declare year_search.simps [simp del]

definition year_of_day :: "int \<Rightarrow> int" where
  "year_of_day d = year_search ((if 0 \<le> d then d div 366 else d div 365) + 1) d"

text \<open>Month and day of the month from the zero-based day of the year.\<close>

fun month_day :: "int list \<Rightarrow> int \<Rightarrow> int \<times> int" where
  "month_day [] k = (1, k + 1)"
| "month_day (l # ls) k = (if k < l then (1, k + 1) else let (m, d) = month_day ls (k - l) in (m + 1, d))"

record date =
  dt_Year :: int
  dt_Month :: int
  dt_Day :: int

definition date_of_day :: "int \<Rightarrow> date" where
  "date_of_day d =
     (let y = year_of_day d; (m, k) = month_day (month_lengths y) (d - days_before_year y)
      in \<lparr>dt_Year = y, dt_Month = m, dt_Day = k\<rparr>)"

definition time_UTC :: "time \<Rightarrow> date" where
  "time_UTC t = date_of_day (day_number t)"

text \<open>The number of days before the first of a month, and \<^verbatim>\<open>time.Date\<close> at midnight
  UTC: months out of range carry into the year, days out of range into the months.\<close>

definition days_before_month :: "int \<Rightarrow> int \<Rightarrow> int" where
  "days_before_month y m =
     (let y' = y + (m - 1) div 12
      in days_before_year y' + sum_list (take (nat ((m - 1) mod 12)) (month_lengths y')))"

definition day_of_date :: "int \<Rightarrow> int \<Rightarrow> int \<Rightarrow> int" where
  "day_of_date y m d = days_before_month y m + (d - 1)"

definition date_Unix :: "int \<Rightarrow> int \<Rightarrow> int \<Rightarrow> int" where
  "date_Unix y m d = day_of_date y m d * day_secs - unix_offset"

section \<open>Years\<close>

lemma days_before_year_less: "days_before_year y < days_before_year (y + 1)"
  by (simp add: days_before_next_year)

lemma days_before_year_mono: "y \<le> y' \<Longrightarrow> days_before_year y \<le> days_before_year y'"
proof (induction y' rule: int_ge_induct)
  case (step i)
  then show ?case using days_before_year_less [of i] by simp
qed simp

lemma year_search_spec:
  "days_before_year y \<le> d \<Longrightarrow>
     days_before_year (year_search y d) \<le> d \<and> d < days_before_year (year_search y d + 1)"
proof (induction y d rule: year_search.induct)
  case (1 y d)
  then show ?case by (cases "days_before_year (y + 1) \<le> d") (simp_all add: year_search.simps [of y d])
qed

lemma year_estimate: "days_before_year ((if 0 \<le> d then d div 366 else d div 365) + 1) \<le> d"
proof (cases "0 \<le> d")
  case True
  define n where "n = d div 366"
  have n: "0 \<le> n" "366 * n \<le> d" using True by (simp_all add: n_def pos_imp_zdiv_nonneg_iff)
  have "n div 400 \<le> n div 100" "n div 4 \<le> n" using n(1) zdiv_mono2 [of n 1 4] by (simp_all add: zdiv_mono2)
  then have "n div 4 - n div 100 + n div 400 \<le> n" by linarith
  then show ?thesis using n True by (simp add: days_before_year_def n_def)
next
  case False
  define n where "n = d div 365"
  have n: "n < 0" "365 * n \<le> d" using False by (simp_all add: n_def neg_imp_zdiv_neg_iff)
  have "n div 4 \<le> n div 100" "n div 400 < 0" using n(1) by (simp_all add: zdiv_mono2_neg neg_imp_zdiv_neg_iff)
  then have "n div 4 - n div 100 + n div 400 \<le> 0" by linarith
  then show ?thesis using n False by (simp add: days_before_year_def n_def)
qed

lemma year_of_day_bounds: "days_before_year (year_of_day d) \<le> d" "d < days_before_year (year_of_day d + 1)"
  using year_search_spec [OF year_estimate [of d]] by (simp_all add: year_of_day_def)

lemma year_of_day_unique:
  assumes "days_before_year y \<le> d" and "d < days_before_year (y + 1)"
  shows "year_of_day d = y"
  using assms year_of_day_bounds [of d] days_before_year_mono [of "y + 1" "year_of_day d"]
    days_before_year_mono [of "year_of_day d + 1" y] by linarith

section \<open>Months\<close>

lemma month_day_at:
  assumes "i < length ls" and "0 \<le> e" and "e < ls ! i" and "\<forall>l\<in>set ls. 0 < l"
  shows "month_day ls (sum_list (take i ls) + e) = (int i + 1, e + 1)"
  using assms
proof (induction ls arbitrary: i)
  case (Cons l ls)
  show ?case
  proof (cases i)
    case (Suc j)
    have "0 \<le> sum_list (take j ls)" using Cons.prems(4) by (intro sum_list_nonneg) (use in_set_takeD in fastforce)
    then show ?thesis using Cons Suc by simp
  qed (use Cons.prems in simp)
qed simp

lemma month_day_split:
  fixes k :: int
  assumes "0 \<le> k" and "k < sum_list ls"
  obtains i e where "i < length ls" and "0 \<le> e" and "e < ls ! i" and "k = sum_list (take i ls) + e"
  using assms
proof (induction ls arbitrary: k thesis)
  case (Cons l ls)
  show ?case
  proof (cases "k < l")
    case True
    then show ?thesis using Cons.prems(1) [of 0 k] Cons.prems(2) by simp
  next
    case False
    then obtain i e where "i < length ls" "0 \<le> e" "e < ls ! i" "k - l = sum_list (take i ls) + e"
      using Cons.IH [of "k - l"] Cons.prems(2,3) by auto
    then show ?thesis using Cons.prems(1) [of "Suc i" e] by simp
  qed
qed simp

lemma month_lengths_simps [simp]: "length (month_lengths y) = 12" "\<forall>l\<in>set (month_lengths y). 0 < l"
  by (auto simp: month_lengths_def)

lemma month_length_pos: "l \<in> set (month_lengths y) \<Longrightarrow> 0 < l"
  by (auto simp: month_lengths_def split: if_splits)

lemma sum_month_lengths: "sum_list (month_lengths y) = (if leap_year y then 366 else 365)"
  by (simp add: month_lengths_def)

lemma month_length_bounds:
  assumes "i < 12"
  shows "28 \<le> month_lengths y ! i \<and> month_lengths y ! i \<le> 31"
proof -
  have "\<forall>l\<in>set (month_lengths y). 28 \<le> l \<and> l \<le> 31" by (simp add: month_lengths_def)
  then show ?thesis using nth_mem [of i "month_lengths y"] assms by simp
qed

text \<open>The day numbers of a month.\<close>

lemma days_before_month_in: "i < 12 \<Longrightarrow> days_before_month y (int i + 1) = days_before_year y + sum_list (take i (month_lengths y))"
  by (simp add: days_before_month_def Let_def)

lemma month_next:
  assumes "i < 12"
  shows "days_before_month y (int i + 2) = days_before_month y (int i + 1) + month_lengths y ! i"
proof (cases "i = 11")
  case True
  have "days_before_month y 13 = days_before_year (y + 1)" by (simp add: days_before_month_def Let_def)
  moreover have "sum_list (take 11 (month_lengths y)) + month_lengths y ! 11 = sum_list (month_lengths y)"
    by (simp add: month_lengths_def)
  ultimately show ?thesis
    using True days_before_month_in [of 11 y] by (simp add: days_before_next_year sum_month_lengths)
next
  case False
  then have "days_before_month y (int (Suc i) + 1) = days_before_year y + sum_list (take (Suc i) (month_lengths y))"
    using assms by (intro days_before_month_in) simp
  moreover have "take (Suc i) (month_lengths y) = take i (month_lengths y) @ [month_lengths y ! i]"
    using assms by (simp add: take_Suc_conv_app_nth)
  ultimately show ?thesis using assms days_before_month_in [of i y] by (simp add: add.commute)
qed

lemma date_of_day_at:
  assumes "i < 12" and "0 \<le> e" and "e < month_lengths y ! i"
  shows "date_of_day (days_before_month y (int i + 1) + e) = \<lparr>dt_Year = y, dt_Month = int i + 1, dt_Day = e + 1\<rparr>"
proof -
  define k where "k = sum_list (take i (month_lengths y)) + e"
  have "0 \<le> sum_list (take i (month_lengths y))" by (intro sum_list_nonneg) (auto dest!: in_set_takeD month_length_pos)
  moreover have "0 \<le> sum_list (drop (Suc i) (month_lengths y))" by (intro sum_list_nonneg) (auto dest!: in_set_dropD month_length_pos)
  moreover have "sum_list (month_lengths y) =
      sum_list (take i (month_lengths y)) + month_lengths y ! i + sum_list (drop (Suc i) (month_lengths y))"
    using assms(1) by (subst id_take_nth_drop [of i]) simp_all
  ultimately have k: "0 \<le> k" "k < (if leap_year y then 366 else 365)"
    using assms(2,3) sum_month_lengths [of y] by (simp_all add: k_def)
  have "days_before_month y (int i + 1) + e = days_before_year y + k"
    using assms(1) by (simp add: k_def days_before_month_in)
  moreover have "year_of_day (days_before_year y + k) = y"
    using k by (intro year_of_day_unique) (simp_all add: days_before_next_year)
  moreover have "month_day (month_lengths y) k = (int i + 1, e + 1)"
    unfolding k_def using assms by (intro month_day_at) simp_all
  ultimately show ?thesis by (simp add: date_of_day_def Let_def)
qed

text \<open>Every day has a position in a month, which is its date.\<close>

lemma date_day:
  obtains i e where "i < 12" and "0 \<le> e" and "e < month_lengths (dt_Year (date_of_day d)) ! i"
    and "date_of_day d = \<lparr>dt_Year = dt_Year (date_of_day d), dt_Month = int i + 1, dt_Day = e + 1\<rparr>"
    and "d = days_before_month (dt_Year (date_of_day d)) (int i + 1) + e"
proof -
  define y where "y = year_of_day d"
  have "0 \<le> d - days_before_year y" "d - days_before_year y < sum_list (month_lengths y)"
    using year_of_day_bounds [of d] by (simp_all add: y_def days_before_next_year sum_month_lengths)
  then obtain i e where i: "i < length (month_lengths y)" "0 \<le> e" "e < month_lengths y ! i"
      and d: "d - days_before_year y = sum_list (take i (month_lengths y)) + e"
    by (rule month_day_split)
  have d': "d = days_before_month y (int i + 1) + e" using d i(1) by (simp add: days_before_month_in)
  have "date_of_day d = \<lparr>dt_Year = y, dt_Month = int i + 1, dt_Day = e + 1\<rparr>"
    using i date_of_day_at [of i e y] unfolding d' by simp
  with i d' show thesis by (intro that [of i e]) simp_all
qed

lemma day_of_date_of_day [simp]:
  "day_of_date (dt_Year (date_of_day d)) (dt_Month (date_of_day d)) (dt_Day (date_of_day d)) = d"
proof -
  obtain i e where "date_of_day d = \<lparr>dt_Year = dt_Year (date_of_day d), dt_Month = int i + 1, dt_Day = e + 1\<rparr>"
    and "d = days_before_month (dt_Year (date_of_day d)) (int i + 1) + e"
    by (rule date_day [of d])
  then show ?thesis by (metis add_diff_cancel_right' date.select_convs(2,3) day_of_date_def)
qed

lemma date_of_day_inj: "date_of_day d = date_of_day d' \<longleftrightarrow> d = d'"
  by (metis day_of_date_of_day)

text \<open>The days of the month of a day, and the dates in it.\<close>

lemma month_window:
  fixes d d' :: int
  defines "y \<equiv> dt_Year (date_of_day d)" and "m \<equiv> dt_Month (date_of_day d)"
  shows "days_before_month y m \<le> d" and "d < days_before_month y (m + 1)"
    and "28 \<le> days_before_month y (m + 1) - days_before_month y m"
    and "days_before_month y (m + 1) - days_before_month y m \<le> 31"
    and "days_before_month y m \<le> d' \<Longrightarrow> d' < days_before_month y (m + 1) \<Longrightarrow>
         dt_Year (date_of_day d') = y \<and> dt_Month (date_of_day d') = m"
proof -
  obtain i e where i: "i < 12" "0 \<le> e" "e < month_lengths y ! i"
    and date: "date_of_day d = \<lparr>dt_Year = y, dt_Month = int i + 1, dt_Day = e + 1\<rparr>"
    and d: "d = days_before_month y (int i + 1) + e"
    unfolding y_def by (rule date_day [of d])
  have m: "m = int i + 1" using date by (simp add: m_def)
  have next_month: "days_before_month y (m + 1) = days_before_month y m + month_lengths y ! i"
    using month_next [OF i(1), of y] by (simp add: m add.commute)
  show "days_before_month y m \<le> d" "d < days_before_month y (m + 1)"
    using d i next_month by (simp_all add: m)
  show "28 \<le> days_before_month y (m + 1) - days_before_month y m" "days_before_month y (m + 1) - days_before_month y m \<le> 31"
    using month_length_bounds [OF i(1), of y] next_month by simp_all
  assume d': "days_before_month y m \<le> d'" "d' < days_before_month y (m + 1)"
  then have "date_of_day (days_before_month y (int i + 1) + (d' - days_before_month y m)) =
      \<lparr>dt_Year = y, dt_Month = int i + 1, dt_Day = d' - days_before_month y m + 1\<rparr>"
    using i(1) next_month by (intro date_of_day_at) simp_all
  then show "dt_Year (date_of_day d') = y \<and> dt_Month (date_of_day d') = m" by (simp add: m)
qed

end
