(* ===== verification/Budget_Monitor.thy ===== *)
theory Budget_Monitor
  imports Go_Map Go_Float Go_Calendar
begin

text \<open>
  The daily budget monitor and the calendar boundaries of the budget gates
  (\<^verbatim>\<open>pkg/proxy/budget.go\<close>), with the event it emits
  (\<^verbatim>\<open>notifier.go\<close>). The callback \<^verbatim>\<open>emit\<close> is a function on the
  state of its receiver. The day key, a formatted UTC date in the code, is the date itself.
\<close>

section \<open>Definitions\<close>

type_synonym EventType = string

definition EventLoopBlocked :: EventType where "EventLoopBlocked = ''loop_blocked''"
definition EventBudgetLevel :: EventType where "EventBudgetLevel = ''budget_level''"

record Event =
  ev_Type :: EventType
  ev_Timestamp :: int
  ev_AgentID :: string
  ev_Project :: string
  ev_Model :: string
  ev_SavedCostMicro :: int
  ev_Reason :: string
  ev_RetryAfter :: int
  ev_BudgetMicroUSD :: int
  ev_SpentMicroUSD :: int
  ev_ThresholdPct :: int
  ev_Similarity :: float64
  ev_IntentScore :: float64
  ev_QuotaKind :: string
  ev_QuotaID :: string

definition Event_zero :: Event where
  "Event_zero =
     \<lparr>ev_Type = '''', ev_Timestamp = 0, ev_AgentID = '''', ev_Project = '''', ev_Model = '''', ev_SavedCostMicro = 0,
      ev_Reason = '''', ev_RetryAfter = 0, ev_BudgetMicroUSD = 0, ev_SpentMicroUSD = 0, ev_ThresholdPct = 0,
      ev_Similarity = Fin 0, ev_IntentScore = Fin 0, ev_QuotaKind = '''', ev_QuotaID = ''''\<rparr>"

record BudgetConfig =
  bc_DailyBudgetMicro :: int
  bc_ThresholdPct :: "int list"

record BudgetMonitor =
  bm_cfg :: BudgetConfig
  bm_thresholds :: "int list"
  bm_dayKey :: "date option"
  bm_fired :: "(int, bool) gomap"

fun sanitize_loop :: "int list \<Rightarrow> (int, bool) gomap \<Rightarrow> int list \<Rightarrow> int list" where
  "sanitize_loop [] seen out = out"
| "sanitize_loop (p # ps) seen out =
     (if p \<le> 0 \<or> p > 100 \<or> gm_get seen p = Some True then sanitize_loop ps seen out
      else sanitize_loop ps (gm_set seen p True) (out @ [p]))"

definition sanitizeThresholds :: "int list \<Rightarrow> int list" where
  "sanitizeThresholds ps = sort (sanitize_loop ps [] [])"

definition NewBudgetMonitor :: "BudgetConfig \<Rightarrow> BudgetMonitor" where
  "NewBudgetMonitor cfg =
     (let m = \<lparr>bm_cfg = cfg, bm_thresholds = sanitizeThresholds (bc_ThresholdPct cfg), bm_dayKey = None, bm_fired = []\<rparr>
      in if bc_DailyBudgetMicro cfg \<le> 0 \<or> bm_thresholds m = [] then m\<lparr>bm_thresholds := []\<rparr> else m)"

definition thresholdMicro :: "int \<Rightarrow> int \<Rightarrow> int" where
  "thresholdMicro budget pct = go_quot (wrap64 (budget * pct)) 100"

definition budget_event :: "int \<Rightarrow> int \<Rightarrow> time \<Rightarrow> int \<Rightarrow> Event" where
  "budget_event budget spentMicro now pct =
     Event_zero\<lparr>ev_Type := EventBudgetLevel, ev_Timestamp := time_Unix now, ev_BudgetMicroUSD := budget,
                ev_SpentMicroUSD := spentMicro, ev_ThresholdPct := pct\<rparr>"

text \<open>The loop over the thresholds.\<close>

fun spend_loop ::
    "int \<Rightarrow> int \<Rightarrow> time \<Rightarrow> (Event \<Rightarrow> 'e \<Rightarrow> bool \<times> 'e) \<Rightarrow> int list \<Rightarrow> (int, bool) gomap \<times> 'e \<Rightarrow> (int, bool) gomap \<times> 'e" where
  "spend_loop budget spentMicro now emit [] s = s"
| "spend_loop budget spentMicro now emit (pct # pcts) (fired, st) =
     (if gm_get fired pct = Some True then spend_loop budget spentMicro now emit pcts (fired, st)
      else if spentMicro < thresholdMicro budget pct then spend_loop budget spentMicro now emit pcts (fired, st)
      else let (ok, st') = emit (budget_event budget spentMicro now pct) st
           in spend_loop budget spentMicro now emit pcts (if ok then gm_set fired pct True else fired, st'))"

definition BudgetMonitor_Spend ::
    "int \<Rightarrow> time \<Rightarrow> (Event \<Rightarrow> 'e \<Rightarrow> bool \<times> 'e) \<Rightarrow> BudgetMonitor \<times> 'e \<Rightarrow> BudgetMonitor \<times> 'e" where
  "BudgetMonitor_Spend spentMicro now emit ms =
     (let (m, st) = ms; budget = bc_DailyBudgetMicro (bm_cfg m)
      in if bm_thresholds m = [] \<or> budget \<le> 0 then (m, st)
         else let day = time_UTC now;
                  m = (if Some day \<noteq> bm_dayKey m then m\<lparr>bm_dayKey := Some day, bm_fired := []\<rparr> else m);
                  (fired, st) = spend_loop budget spentMicro now emit (bm_thresholds m) (bm_fired m, st)
              in (m\<lparr>bm_fired := fired\<rparr>, st))"

definition utcMonthStart :: "time \<Rightarrow> int" where
  "utcMonthStart t = (let u = time_UTC t in date_Unix (dt_Year u) (dt_Month u) 1)"

definition nextMonthStart :: "time \<Rightarrow> int" where
  "nextMonthStart t = (let u = time_UTC t in date_Unix (dt_Year u) (dt_Month u + 1) 1)"

definition utcDayStart :: "time \<Rightarrow> int" where
  "utcDayStart t = (let u = time_UTC t in date_Unix (dt_Year u) (dt_Month u) (dt_Day u))"

definition nextDayStart :: "time \<Rightarrow> int" where
  "nextDayStart t = (let u = time_UTC t in date_Unix (dt_Year u) (dt_Month u) (dt_Day u + 1))"

section \<open>Thresholds\<close>

lemma sanitize_loop_spec:
  assumes "distinct out" and "\<forall>p. gm_get seen p = Some True \<longleftrightarrow> p \<in> set out"
  shows "distinct (sanitize_loop ps seen out) \<and> set (sanitize_loop ps seen out) = set out \<union> {p \<in> set ps. 0 < p \<and> p \<le> 100}"
  using assms
proof (induction ps arbitrary: seen out)
  case (Cons p ps)
  show ?case
  proof (cases "p \<le> 0 \<or> p > 100 \<or> p \<in> set out")
    case True
    then have "p \<le> 0 \<or> p > 100 \<or> gm_get seen p = Some True" using Cons.prems(2) by blast
    then have "sanitize_loop (p # ps) seen out = sanitize_loop ps seen out" by (simp only: sanitize_loop.simps if_True)
    moreover have "set out \<union> {q \<in> set (p # ps). 0 < q \<and> q \<le> 100} = set out \<union> {q \<in> set ps. 0 < q \<and> q \<le> 100}"
      using True by auto
    ultimately show ?thesis using Cons.IH [OF Cons.prems] by (simp only:)
  next
    case False
    then have "\<not> (p \<le> 0 \<or> p > 100 \<or> gm_get seen p = Some True)" using Cons.prems(2) by blast
    then have "sanitize_loop (p # ps) seen out = sanitize_loop ps (gm_set seen p True) (out @ [p])"
      by (simp only: sanitize_loop.simps if_False)
    moreover have "distinct (out @ [p])" "\<forall>q. gm_get (gm_set seen p True) q = Some True \<longleftrightarrow> q \<in> set (out @ [p])"
      using Cons.prems False by auto
    note Cons.IH [OF this]
    moreover have "set out \<union> {q \<in> set (p # ps). 0 < q \<and> q \<le> 100} = set (out @ [p]) \<union> {q \<in> set ps. 0 < q \<and> q \<le> 100}"
      using False by auto
    ultimately show ?thesis by (simp only:)
  qed
qed simp

lemma sanitizeThresholds_spec:
  "sorted (sanitizeThresholds ps)" "distinct (sanitizeThresholds ps)"
  "set (sanitizeThresholds ps) = {p \<in> set ps. 0 < p \<and> p \<le> 100}"
  using sanitize_loop_spec [of "[]" "[]" ps] by (simp_all add: sanitizeThresholds_def)

lemma thresholdMicro_exact:
  assumes "0 < budget" and "budget * 100 \<le> int64_max" and "0 < pct" and "pct \<le> 100"
  shows "thresholdMicro budget pct = budget * pct div 100"
proof -
  have "0 \<le> budget * pct" "budget * pct \<le> budget * 100" using assms by simp_all
  then have "is_int64 (budget * pct)" using assms(2) by (simp add: is_int64_def int64_bounds)
  then show ?thesis using \<open>0 \<le> budget * pct\<close> by (simp add: thresholdMicro_def wrap64_id go_quot_nonneg)
qed

section \<open>Windows\<close>

lemma time_Unix_day: "time_Unix t = day_number t * day_secs + (t div Second) mod day_secs - unix_offset"
  by (simp add: time_Unix_def day_number_def)

lemma day_rest: "0 \<le> (t div Second) mod day_secs" "(t div Second) mod day_secs < day_secs"
  by (simp_all add: day_secs_def)

lemma utcDayStart_eq: "utcDayStart t = day_number t * day_secs - unix_offset"
  by (simp add: utcDayStart_def Let_def date_Unix_def time_UTC_def)

lemma nextDayStart_eq: "nextDayStart t = (day_number t + 1) * day_secs - unix_offset"
proof -
  have "day_of_date y m (d + 1) = day_of_date y m d + 1" for y m d by (simp add: day_of_date_def)
  then show ?thesis by (simp add: nextDayStart_def Let_def date_Unix_def time_UTC_def)
qed

lemma utcMonthStart_eq:
  "utcMonthStart t = days_before_month (dt_Year (time_UTC t)) (dt_Month (time_UTC t)) * day_secs - unix_offset"
  "nextMonthStart t = days_before_month (dt_Year (time_UTC t)) (dt_Month (time_UTC t) + 1) * day_secs - unix_offset"
  by (simp_all add: utcMonthStart_def nextMonthStart_def Let_def date_Unix_def day_of_date_def)

lemma unix_window:
  "a * day_secs - unix_offset \<le> time_Unix t \<longleftrightarrow> a \<le> day_number t"
  "time_Unix t < b * day_secs - unix_offset \<longleftrightarrow> day_number t < b"
  using day_rest [of t] unfolding time_Unix_day [of t] day_secs_def by linarith+

section \<open>Alerts\<close>

text \<open>
  The receiver of the alerts keeps a log of the deliveries and whether each was accepted, which may
  depend on everything delivered before.
\<close>

definition log_emit :: "((Event \<times> bool) list \<Rightarrow> Event \<Rightarrow> bool) \<Rightarrow> Event \<Rightarrow> (Event \<times> bool) list \<Rightarrow> bool \<times> (Event \<times> bool) list" where
  "log_emit accept ev sent = (accept sent ev, sent @ [(ev, accept sent ev)])"

definition event_day :: "Event \<Rightarrow> int" where
  "event_day ev = (ev_Timestamp ev + unix_offset) div day_secs"

definition accepted_alert :: "(Event \<times> bool) list \<Rightarrow> int \<Rightarrow> int \<Rightarrow> bool" where
  "accepted_alert sent day pct \<longleftrightarrow> (\<exists>ev. (ev, True) \<in> set sent \<and> event_day ev = day \<and> ev_ThresholdPct ev = pct)"

text \<open>The deliveries that were accepted, by day and threshold.\<close>

definition accepted_keys :: "(Event \<times> bool) list \<Rightarrow> (int \<times> int) list" where
  "accepted_keys sent = map (\<lambda>(ev, _). (event_day ev, ev_ThresholdPct ev)) (filter snd sent)"

lemma accepted_keys_simps [simp]:
  "accepted_keys (sent @ [(ev, True)]) = accepted_keys sent @ [(event_day ev, ev_ThresholdPct ev)]"
  "accepted_keys (sent @ [(ev, False)]) = accepted_keys sent"
  by (simp_all add: accepted_keys_def)

lemma accepted_alert_iff: "accepted_alert sent day pct \<longleftrightarrow> (day, pct) \<in> set (accepted_keys sent)"
  by (force simp: accepted_alert_def accepted_keys_def)

lemma budget_event_simps [simp]:
  "event_day (budget_event b s now pct) = day_number now" "ev_ThresholdPct (budget_event b s now pct) = pct"
  by (simp_all add: budget_event_def event_day_def time_Unix_def day_number_def)

text \<open>
  What a report delivers, without day key and fired set: each threshold in turn, if the spend has
  reached it and nobody has accepted an alert for it on that day.
\<close>

fun report_alerts ::
    "((Event \<times> bool) list \<Rightarrow> Event \<Rightarrow> bool) \<Rightarrow> int \<Rightarrow> int \<times> time \<Rightarrow> int list \<Rightarrow> (Event \<times> bool) list \<Rightarrow> (Event \<times> bool) list" where
  "report_alerts accept budget x [] sent = sent"
| "report_alerts accept budget x (pct # pcts) sent =
     report_alerts accept budget x pcts
       (if budget * pct div 100 \<le> fst x \<and> \<not> accepted_alert sent (day_number (snd x)) pct
        then let ev = budget_event budget (fst x) (snd x) pct in sent @ [(ev, accept sent ev)]
        else sent)"

definition alert_history ::
    "((Event \<times> bool) list \<Rightarrow> Event \<Rightarrow> bool) \<Rightarrow> int \<Rightarrow> int list \<Rightarrow> (int \<times> time) list \<Rightarrow> (Event \<times> bool) list \<Rightarrow> (Event \<times> bool) list" where
  "alert_history accept budget pcts xs sent = fold (\<lambda>x. report_alerts accept budget x pcts) xs sent"

lemma spend_loop_alerts:
  assumes "\<forall>p. gm_get fired p = Some True \<longleftrightarrow> accepted_alert sent (day_number now) p"
    and "\<forall>pct\<in>set pcts. thresholdMicro b pct = b * pct div 100"
  shows "snd (spend_loop b s now (log_emit accept) pcts (fired, sent)) = report_alerts accept b (s, now) pcts sent"
  using assms
proof (induction pcts arbitrary: fired sent)
  case (Cons pct pcts)
  let ?ev = "budget_event b s now pct"
  have pct: "thresholdMicro b pct = b * pct div 100" using Cons.prems(2) by simp
  show ?case
  proof (cases "gm_get fired pct = Some True \<or> s < b * pct div 100")
    case True
    then show ?thesis using Cons.IH [OF Cons.prems(1)] Cons.prems by (auto simp: pct)
  next
    case False
    let ?ok = "accept sent ?ev"
    have "\<forall>p. gm_get (if ?ok then gm_set fired pct True else fired) p = Some True \<longleftrightarrow>
        accepted_alert (sent @ [(?ev, ?ok)]) (day_number now) p"
      using Cons.prems(1) by (cases ?ok) (auto simp: accepted_alert_iff)
    from Cons.IH [OF this] show ?thesis
      using False Cons.prems by (simp add: pct log_emit_def Let_def)
  qed
qed simp

lemma spend_loop_spec:
  assumes "spend_loop b s now (log_emit accept) pcts (fired, sent) = (fired', sent')"
    and "\<forall>p. gm_get fired p = Some True \<longleftrightarrow> accepted_alert sent (day_number now) p" and "distinct (accepted_keys sent)"
  shows "(\<forall>p. gm_get fired' p = Some True \<longleftrightarrow> accepted_alert sent' (day_number now) p) \<and> distinct (accepted_keys sent') \<and>
    (\<exists>new. sent' = sent @ new \<and>
       (\<forall>(ev, ok)\<in>set new. \<exists>pct\<in>set pcts. ev = budget_event b s now pct \<and> thresholdMicro b pct \<le> s) \<and>
       (\<forall>pct\<in>set pcts. thresholdMicro b pct \<le> s \<longrightarrow>
          accepted_alert sent' (day_number now) pct \<or> (budget_event b s now pct, False) \<in> set new))"
  using assms
proof (induction pcts arbitrary: fired sent)
  case (Cons pct pcts)
  let ?ev = "budget_event b s now pct"
  let ?day = "day_number now"
  show ?case
  proof (cases "gm_get fired pct = Some True \<or> s < thresholdMicro b pct")
    case True
    then have "spend_loop b s now (log_emit accept) pcts (fired, sent) = (fired', sent')"
      using Cons.prems(1) by (auto split: if_splits)
    note IH = Cons.IH [OF this Cons.prems(2,3)]
    then obtain new where new: "sent' = sent @ new" by blast
    have "thresholdMicro b pct \<le> s \<longrightarrow> accepted_alert sent' ?day pct"
      using True Cons.prems(2) unfolding new accepted_alert_def by auto
    then show ?thesis using IH by auto
  next
    case False
    define ok where "ok = accept sent ?ev"
    let ?fired = "if ok then gm_set fired pct True else fired"
    let ?sent = "sent @ [(?ev, ok)]"
    have "log_emit accept ?ev sent = (ok, ?sent)" by (simp add: log_emit_def ok_def)
    then have run: "spend_loop b s now (log_emit accept) pcts (?fired, ?sent) = (fired', sent')"
      using Cons.prems(1) False by simp
    have notin: "(?day, pct) \<notin> set (accepted_keys sent)" using False Cons.prems(2) by (auto simp: accepted_alert_iff)
    have f: "\<forall>p. gm_get ?fired p = Some True \<longleftrightarrow> accepted_alert ?sent ?day p"
      using Cons.prems(2) by (cases ok) (auto simp: accepted_alert_iff)
    have "distinct (accepted_keys ?sent)" using Cons.prems(3) notin by (cases ok) simp_all
    note IH = Cons.IH [OF run f this]
    then obtain new where new: "sent' = ?sent @ new"
      "\<forall>(ev, ok)\<in>set new. \<exists>pct\<in>set pcts. ev = budget_event b s now pct \<and> thresholdMicro b pct \<le> s"
      "\<forall>pct\<in>set pcts. thresholdMicro b pct \<le> s \<longrightarrow>
         accepted_alert sent' ?day pct \<or> (budget_event b s now pct, False) \<in> set new"
      by blast
    have "accepted_alert sent' ?day pct \<or> (?ev, False) \<in> set ((?ev, ok) # new)"
      unfolding new(1) accepted_alert_def by (cases ok) auto
    then show ?thesis using IH new False by (intro conjI exI [of _ "(?ev, ok) # new"]) auto
  qed
qed simp

fun spend_run ::
    "((Event \<times> bool) list \<Rightarrow> Event \<Rightarrow> bool) \<Rightarrow> (int \<times> time) list \<Rightarrow> BudgetMonitor \<times> (Event \<times> bool) list \<Rightarrow>
     BudgetMonitor \<times> (Event \<times> bool) list" where
  "spend_run accept [] s = s"
| "spend_run accept ((spent, now) # xs) s = spend_run accept xs (BudgetMonitor_Spend spent now (log_emit accept) s)"

text \<open>The fired thresholds are those accepted on the day of the key, and no delivery is later.\<close>

definition monitor_ok :: "BudgetConfig \<Rightarrow> int list \<Rightarrow> int \<Rightarrow> BudgetMonitor \<times> (Event \<times> bool) list \<Rightarrow> bool" where
  "monitor_ok cfg ths d s \<longleftrightarrow>
     (case s of (m, sent) \<Rightarrow>
        bm_cfg m = cfg \<and> bm_thresholds m = ths \<and> distinct (accepted_keys sent) \<and>
        (\<forall>(ev, _)\<in>set sent. event_day ev \<le> d) \<and>
        (\<forall>key. bm_dayKey m = Some key \<longrightarrow> key = date_of_day d \<and>
           (\<forall>p. gm_get (bm_fired m) p = Some True \<longleftrightarrow> accepted_alert sent d p)) \<and>
        (bm_dayKey m = None \<longrightarrow> sent = [] \<and> bm_fired m = []))"

definition due_event :: "BudgetConfig \<Rightarrow> int list \<Rightarrow> int \<times> time \<Rightarrow> Event \<Rightarrow> bool" where
  "due_event cfg ths x ev \<longleftrightarrow>
     (case x of (spent, now) \<Rightarrow> \<exists>pct\<in>set ths. ev = budget_event (bc_DailyBudgetMicro cfg) spent now pct \<and>
        thresholdMicro (bc_DailyBudgetMicro cfg) pct \<le> spent)"

lemma Spend_step:
  assumes "monitor_ok cfg ths d (m, sent)" and "d \<le> day_number now" and "ths \<noteq> []" and "0 < bc_DailyBudgetMicro cfg"
    and "BudgetMonitor_Spend spent now (log_emit accept) (m, sent) = (m', sent')"
  shows "monitor_ok cfg ths (day_number now) (m', sent')"
    and "\<exists>new. sent' = sent @ new \<and> (\<forall>(ev, ok)\<in>set new. due_event cfg ths (spent, now) ev) \<and>
      (\<forall>pct\<in>set ths. thresholdMicro (bc_DailyBudgetMicro cfg) pct \<le> spent \<longrightarrow>
         (\<exists>(ev, ok)\<in>set sent'. event_day ev = day_number now \<and> ev_ThresholdPct ev = pct))"
    and "\<forall>pct\<in>set ths. thresholdMicro (bc_DailyBudgetMicro cfg) pct = bc_DailyBudgetMicro cfg * pct div 100 \<Longrightarrow>
      sent' = report_alerts accept (bc_DailyBudgetMicro cfg) (spent, now) ths sent"
proof -
  let ?b = "bc_DailyBudgetMicro cfg"
  let ?day = "day_number now"
  define fired where "fired = (if Some (time_UTC now) \<noteq> bm_dayKey m then [] else bm_fired m)"
  have m: "bm_cfg m = cfg" "bm_thresholds m = ths" "distinct (accepted_keys sent)"
    and le: "\<forall>(ev, _)\<in>set sent. event_day ev \<le> d"
    and key: "\<And>k. bm_dayKey m = Some k \<Longrightarrow> k = date_of_day d \<and>
      (\<forall>p. gm_get (bm_fired m) p = Some True \<longleftrightarrow> accepted_alert sent d p)"
    and none: "bm_dayKey m = None \<Longrightarrow> sent = []"
    using assms(1) unfolding monitor_ok_def by blast+
  obtain fired' where loop: "spend_loop ?b spent now (log_emit accept) ths (fired, sent) = (fired', sent')"
      and m': "bm_cfg m' = cfg" "bm_thresholds m' = ths" "bm_dayKey m' = Some (time_UTC now)" "bm_fired m' = fired'"
    using assms(3-5) m
    by (cases "spend_loop ?b spent now (log_emit accept) ths (fired, sent)")
      (auto simp: BudgetMonitor_Spend_def Let_def fired_def split: if_splits prod.splits)
  have fired: "\<forall>p. gm_get fired p = Some True \<longleftrightarrow> accepted_alert sent ?day p"
  proof (cases "bm_dayKey m = Some (time_UTC now)")
    case True
    from key [OF this] have "d = ?day" "\<forall>p. gm_get (bm_fired m) p = Some True \<longleftrightarrow> accepted_alert sent d p"
      by (simp_all only: time_UTC_def date_of_day_inj) auto
    then show ?thesis unfolding fired_def using True by (simp only: if_False not_True_eq_False refl simp_thms)
  next
    case False
    have "event_day ev < ?day" if ev: "(ev, ok) \<in> set sent" for ev ok
    proof (cases "bm_dayKey m")
      case (Some k)
      then have "d \<noteq> ?day" using key False by (auto simp: time_UTC_def)
      moreover have "event_day ev \<le> d" using le ev by blast
      ultimately show ?thesis using assms(2) by simp
    qed (use none ev in simp)
    then have "\<not> accepted_alert sent ?day p" for p unfolding accepted_alert_def by (metis less_irrefl)
    then show ?thesis using False by (simp add: fired_def)
  qed
  show "sent' = report_alerts accept ?b (spent, now) ths sent"
    if "\<forall>pct\<in>set ths. thresholdMicro ?b pct = ?b * pct div 100"
    using spend_loop_alerts [OF fired that, of spent accept] by (simp only: loop snd_conv)
  note spec = spend_loop_spec [OF loop fired m(3)]
  then obtain new where new: "sent' = sent @ new"
      "\<forall>(ev, ok)\<in>set new. \<exists>pct\<in>set ths. ev = budget_event ?b spent now pct \<and> thresholdMicro ?b pct \<le> spent"
      "\<forall>pct\<in>set ths. thresholdMicro ?b pct \<le> spent \<longrightarrow>
         accepted_alert sent' ?day pct \<or> (budget_event ?b spent now pct, False) \<in> set new"
    by blast
  have "\<forall>(ev, _)\<in>set sent'. event_day ev \<le> ?day" unfolding new(1) using le assms(2) new(2) by fastforce
  then show "monitor_ok cfg ths ?day (m', sent')"
    unfolding monitor_ok_def using m' spec by (auto simp: time_UTC_def)
  show "\<exists>new. sent' = sent @ new \<and> (\<forall>(ev, ok)\<in>set new. due_event cfg ths (spent, now) ev) \<and>
      (\<forall>pct\<in>set ths. thresholdMicro ?b pct \<le> spent \<longrightarrow>
         (\<exists>(ev, ok)\<in>set sent'. event_day ev = ?day \<and> ev_ThresholdPct ev = pct))"
  proof (intro exI [of _ new] conjI ballI impI)
    fix pct assume "pct \<in> set ths" "thresholdMicro ?b pct \<le> spent"
    then consider "accepted_alert sent' ?day pct" | "(budget_event ?b spent now pct, False) \<in> set sent'" using new by auto
    then show "\<exists>(ev, ok)\<in>set sent'. event_day ev = ?day \<and> ev_ThresholdPct ev = pct"
      by cases (force simp: accepted_alert_def)+
  qed (use new in \<open>auto simp: due_event_def\<close>)
qed

lemma spend_run_ok:
  assumes "monitor_ok cfg ths d (m, sent)" and "sorted (d # map (\<lambda>(_, now). day_number now) xs)"
    and "ths \<noteq> []" and "0 < bc_DailyBudgetMicro cfg" and "spend_run accept xs (m, sent) = (m', sent')"
  shows "distinct (accepted_keys sent') \<and> (\<exists>new. sent' = sent @ new \<and>
      (\<forall>(ev, ok)\<in>set new. \<exists>x\<in>set xs. due_event cfg ths x ev) \<and>
      (\<forall>(spent, now)\<in>set xs. \<forall>pct\<in>set ths. thresholdMicro (bc_DailyBudgetMicro cfg) pct \<le> spent \<longrightarrow>
         (\<exists>(ev, ok)\<in>set sent'. event_day ev = day_number now \<and> ev_ThresholdPct ev = pct)))"
  using assms(1,2,5)
proof (induction xs arbitrary: d m sent)
  case Nil
  then show ?case by (simp add: monitor_ok_def)
next
  case (Cons x xs)
  obtain spent now where x: "x = (spent, now)" by (cases x)
  obtain m1 sent1 where step: "BudgetMonitor_Spend spent now (log_emit accept) (m, sent) = (m1, sent1)"
    by (cases "BudgetMonitor_Spend spent now (log_emit accept) (m, sent)")
  have d: "d \<le> day_number now" "sorted (day_number now # map (\<lambda>(_, now). day_number now) xs)"
    using Cons.prems(2) x by simp_all
  note S = Spend_step [OF Cons.prems(1) d(1) assms(3,4) step]
  have "spend_run accept xs (m1, sent1) = (m', sent')" using Cons.prems(3) x step by simp
  note IH = Cons.IH [OF S(1) d(2) this]
  from S(2) obtain new1 where new1: "sent1 = sent @ new1" "\<forall>(ev, ok)\<in>set new1. due_event cfg ths x ev"
      "\<forall>pct\<in>set ths. thresholdMicro (bc_DailyBudgetMicro cfg) pct \<le> spent \<longrightarrow>
         (\<exists>(ev, ok)\<in>set sent1. event_day ev = day_number now \<and> ev_ThresholdPct ev = pct)"
    unfolding x by blast
  from IH obtain new where new: "sent' = sent1 @ new" "\<forall>(ev, ok)\<in>set new. \<exists>x\<in>set xs. due_event cfg ths x ev"
      "\<forall>(spent, now)\<in>set xs. \<forall>pct\<in>set ths. thresholdMicro (bc_DailyBudgetMicro cfg) pct \<le> spent \<longrightarrow>
         (\<exists>(ev, ok)\<in>set sent'. event_day ev = day_number now \<and> ev_ThresholdPct ev = pct)"
    by blast
  have head: "\<forall>pct\<in>set ths. thresholdMicro (bc_DailyBudgetMicro cfg) pct \<le> spent \<longrightarrow>
      (\<exists>(ev, ok)\<in>set sent'. event_day ev = day_number now \<and> ev_ThresholdPct ev = pct)"
    using new1(3) unfolding new(1) by fastforce
  show ?case
    using IH new(1,2) new1(1,2) head new(3) by (intro conjI exI [of _ "new1 @ new"]) (auto simp: x)
qed

lemma spend_run_history:
  assumes "monitor_ok cfg ths d (m, sent)" and "sorted (d # map (\<lambda>(_, now). day_number now) xs)"
    and "ths \<noteq> []" and "0 < bc_DailyBudgetMicro cfg"
    and "\<forall>pct\<in>set ths. thresholdMicro (bc_DailyBudgetMicro cfg) pct = bc_DailyBudgetMicro cfg * pct div 100"
  shows "snd (spend_run accept xs (m, sent)) = alert_history accept (bc_DailyBudgetMicro cfg) ths xs sent"
  using assms(1,2)
proof (induction xs arbitrary: d m sent)
  case (Cons x xs)
  obtain spent now where x: "x = (spent, now)" by (cases x)
  obtain m1 sent1 where step: "BudgetMonitor_Spend spent now (log_emit accept) (m, sent) = (m1, sent1)"
    by (cases "BudgetMonitor_Spend spent now (log_emit accept) (m, sent)")
  have d: "d \<le> day_number now" "sorted (day_number now # map (\<lambda>(_, now). day_number now) xs)"
    using Cons.prems(2) x by simp_all
  note S = Spend_step [OF Cons.prems(1) d(1) assms(3,4) step]
  show ?case using Cons.IH [OF S(1) d(2)] S(3) [OF assms(5)] by (simp add: x step alert_history_def)
qed (simp add: alert_history_def)

lemma sorted_list_of_thresholds:
  "sorted_list_of_set {p \<in> set ps. 0 < p \<and> p \<le> 100} = sanitizeThresholds ps"
  using sanitizeThresholds_spec [of ps] sorted_list_of_set.idem_if_sorted_distinct by metis

section \<open>Windows\<close>

lemma window_ends:
  "utcDayStart t \<le> time_Unix t" "time_Unix t < nextDayStart t" "nextDayStart t - utcDayStart t = 86400"
  "utcMonthStart t \<le> utcDayStart t" "nextDayStart t \<le> nextMonthStart t"
  "28 * 86400 \<le> nextMonthStart t - utcMonthStart t" "nextMonthStart t - utcMonthStart t \<le> 31 * 86400"
proof -
  note w = month_window [of "day_number t", folded time_UTC_def]
  show "utcDayStart t \<le> time_Unix t" "time_Unix t < nextDayStart t" "nextDayStart t - utcDayStart t = 86400"
    by (simp_all add: utcDayStart_eq nextDayStart_eq unix_window) (simp add: day_secs_def)
  show "utcMonthStart t \<le> utcDayStart t" "nextDayStart t \<le> nextMonthStart t"
    using w(1,2) by (simp_all add: utcDayStart_eq nextDayStart_eq utcMonthStart_eq day_secs_def)
  show "28 * 86400 \<le> nextMonthStart t - utcMonthStart t" "nextMonthStart t - utcMonthStart t \<le> 31 * 86400"
    using w(3,4) by (simp_all add: utcMonthStart_eq day_secs_def)
qed

section \<open>Properties\<close>

text \<open>
  C19. The daily alerts: over any sequence of spend reports whose days do not go backwards, whatever
  deliveries the receiver accepts, the deliveries are exactly those of the reference history, which
  has neither day key nor fired set: each report goes through the valid thresholds in ascending order
  and delivers an alert for each one the spend has reached unless an alert for it was already accepted
  on that UTC day, so a refused delivery is repeated by the next report. Hence at most one alert per threshold and day
  is accepted; every alert is for a configured threshold from 1 to 100 percent that the reported spend
  had reached; and each threshold that a report reached was delivered on that day.
\<close>

theorem budget_alerts_once_per_day:
  fixes cfg :: BudgetConfig
  defines "budget \<equiv> bc_DailyBudgetMicro cfg"
  assumes "0 < budget" and "budget * 100 \<le> int64_max" and "sorted (map (\<lambda>(_, now). day_number now) xs)"
    and "spend_run accept xs (NewBudgetMonitor cfg, []) = (m, sent)"
  shows "sent = alert_history accept budget (sorted_list_of_set {p \<in> set (bc_ThresholdPct cfg). 0 < p \<and> p \<le> 100}) xs [] \<and>
    distinct (accepted_keys sent) \<and>
    (\<forall>(ev, ok)\<in>set sent. \<exists>(spent, now)\<in>set xs. \<exists>pct\<in>set (bc_ThresholdPct cfg).
       0 < pct \<and> pct \<le> 100 \<and> ev = budget_event budget spent now pct \<and> budget * pct div 100 \<le> spent) \<and>
    (\<forall>(spent, now)\<in>set xs. \<forall>pct\<in>set (bc_ThresholdPct cfg). 0 < pct \<and> pct \<le> 100 \<and> budget * pct div 100 \<le> spent \<longrightarrow>
       (\<exists>(ev, ok)\<in>set sent. event_day ev = day_number now \<and> ev_ThresholdPct ev = pct))"
proof (cases "sanitizeThresholds (bc_ThresholdPct cfg) = []")
  case True
  then have "{p \<in> set (bc_ThresholdPct cfg). 0 < p \<and> p \<le> 100} = {}"
    using sanitizeThresholds_spec(3) [of "bc_ThresholdPct cfg"] by simp
  moreover have "BudgetMonitor_Spend s now (log_emit accept) (NewBudgetMonitor cfg, []) = (NewBudgetMonitor cfg, [])" for s now
    using True by (simp add: BudgetMonitor_Spend_def NewBudgetMonitor_def Let_def)
  then have "spend_run accept ys (NewBudgetMonitor cfg, []) = (NewBudgetMonitor cfg, [])" for ys
    by (induction ys) auto
  moreover have "alert_history accept budget [] ys [] = []" for ys
    by (induction ys) (auto simp: alert_history_def)
  ultimately show ?thesis
    using assms(5) by (simp only: sorted_list_of_set.sorted_key_list_of_set_empty) (auto simp: accepted_keys_def)
next
  case False
  define ths where "ths = sanitizeThresholds (bc_ThresholdPct cfg)"
  have ths: "set ths = {p \<in> set (bc_ThresholdPct cfg). 0 < p \<and> p \<le> 100}"
    by (simp add: ths_def sanitizeThresholds_spec)
  have exact: "thresholdMicro budget pct = budget * pct div 100" if "pct \<in> set ths" for pct
    using that assms(2,3) unfolding ths by (intro thresholdMicro_exact) simp_all
  define d where "d = (case xs of [] \<Rightarrow> 0 | (_, now) # _ \<Rightarrow> day_number now)"
  have start: "monitor_ok cfg ths d (NewBudgetMonitor cfg, [])"
    using False assms(2) by (simp add: monitor_ok_def NewBudgetMonitor_def Let_def ths_def accepted_keys_def budget_def)
  have days: "sorted (d # map (\<lambda>(_, now). day_number now) xs)"
    using assms(4) by (cases xs) (auto simp: d_def)
  have pos: "ths \<noteq> []" "0 < bc_DailyBudgetMicro cfg" using False assms(2) by (simp_all add: ths_def budget_def)
  have "sent = alert_history accept budget ths xs []"
    using spend_run_history [OF start days pos, of accept] exact assms(5) by (simp add: budget_def)
  moreover from spend_run_ok [OF start days pos assms(5)] have "distinct (accepted_keys sent) \<and> (\<exists>new. sent = [] @ new \<and>
      (\<forall>(ev, ok)\<in>set new. \<exists>x\<in>set xs. due_event cfg ths x ev) \<and>
      (\<forall>(spent, now)\<in>set xs. \<forall>pct\<in>set ths. thresholdMicro budget pct \<le> spent \<longrightarrow>
         (\<exists>(ev, ok)\<in>set sent. event_day ev = day_number now \<and> ev_ThresholdPct ev = pct)))"
    unfolding budget_def .
  ultimately show ?thesis
    using exact ths unfolding due_event_def budget_def sorted_list_of_thresholds ths_def [symmetric] by fastforce
qed

definition example_budget :: BudgetConfig where
  "example_budget = \<lparr>bc_DailyBudgetMicro = 10000000, bc_ThresholdPct = [80, 50, 150, 50]\<rparr>"

text \<open>A receiver that refuses the first delivery: the second report repeats it.\<close>

theorem budget_alerts_once_per_day_witness:
  "accepted_keys (snd (spend_run (\<lambda>sent _. sent \<noteq> []) [(6000000, 0), (9000000, Second), (9500000, 86400 * Second)]
     (NewBudgetMonitor example_budget, []))) = [(0, 50), (0, 80), (1, 50), (1, 80)] \<and>
   map (\<lambda>(ev, ok). (ev_SpentMicroUSD ev, ev_ThresholdPct ev, ok))
     (snd (spend_run (\<lambda>sent _. sent \<noteq> []) [(6000000, 0), (9000000, Second), (9500000, 86400 * Second)]
       (NewBudgetMonitor example_budget, []))) =
     [(6000000, 50, False), (9000000, 50, True), (9000000, 80, True), (9500000, 50, True), (9500000, 80, True)] \<and>
   distinct (accepted_keys (snd (spend_run (\<lambda>sent _. sent \<noteq> []) [(6000000, 0), (9000000, Second), (9500000, 86400 * Second)]
     (NewBudgetMonitor example_budget, []))))"
proof (intro conjI)
  let ?acc = "\<lambda>sent (_::Event). sent \<noteq> ([] :: (Event \<times> bool) list)"
  let ?xs = "[(6000000, 0), (9000000, Second), (9500000, 86400 * Second)] :: (int \<times> time) list"
  show "accepted_keys (snd (spend_run ?acc ?xs (NewBudgetMonitor example_budget, []))) = [(0, 50), (0, 80), (1, 50), (1, 80)]"
    by code_simp
  show "map (\<lambda>(ev, ok). (ev_SpentMicroUSD ev, ev_ThresholdPct ev, ok))
      (snd (spend_run ?acc ?xs (NewBudgetMonitor example_budget, []))) =
     [(6000000, 50, False), (9000000, 50, True), (9000000, 80, True), (9500000, 50, True), (9500000, 80, True)]"
    by code_simp
  have "sorted (map (\<lambda>(_, now). day_number now) ?xs)" by (simp add: day_number_def Second_def day_secs_def)
  moreover have "0 < bc_DailyBudgetMicro example_budget" "bc_DailyBudgetMicro example_budget * 100 \<le> int64_max"
    by (simp_all add: example_budget_def int64_bounds)
  moreover obtain m sent where run: "spend_run ?acc ?xs (NewBudgetMonitor example_budget, []) = (m, sent)" by fastforce
  ultimately have "distinct (accepted_keys sent)" using budget_alerts_once_per_day by blast
  then show "distinct (accepted_keys (snd (spend_run ?acc ?xs (NewBudgetMonitor example_budget, []))))"
    by (simp only: run snd_conv)
qed

text \<open>
  The windows of the budget gates: an instant lies in its UTC day and in its UTC month, a day has
  86400 seconds and a month 28 to 31 days, the month starts at a day boundary no later than the day
  does, and every instant of the window has the same window, so the windows tile time. The time to the
  end of a window, the Retry-After of a budget block, is positive.
\<close>

theorem budget_windows:
  "utcDayStart t \<le> time_Unix t \<and> time_Unix t < nextDayStart t \<and> nextDayStart t - utcDayStart t = 86400 \<and>
   utcMonthStart t \<le> utcDayStart t \<and> nextDayStart t \<le> nextMonthStart t \<and>
   28 * 86400 \<le> nextMonthStart t - utcMonthStart t \<and> nextMonthStart t - utcMonthStart t \<le> 31 * 86400 \<and>
   (\<forall>t'. utcDayStart t \<le> time_Unix t' \<and> time_Unix t' < nextDayStart t \<longleftrightarrow> utcDayStart t' = utcDayStart t) \<and>
   (\<forall>t'. utcMonthStart t \<le> time_Unix t' \<and> time_Unix t' < nextMonthStart t \<longrightarrow>
      utcMonthStart t' = utcMonthStart t \<and> nextMonthStart t' = nextMonthStart t)"
proof (intro conjI allI impI window_ends)
  fix t'
  show "utcDayStart t \<le> time_Unix t' \<and> time_Unix t' < nextDayStart t \<longleftrightarrow> utcDayStart t' = utcDayStart t"
    by (simp add: utcDayStart_eq nextDayStart_eq unix_window) (auto simp: day_secs_def)
  assume "utcMonthStart t \<le> time_Unix t' \<and> time_Unix t' < nextMonthStart t"
  then have "dt_Year (time_UTC t') = dt_Year (time_UTC t) \<and> dt_Month (time_UTC t') = dt_Month (time_UTC t)"
    using month_window(5) [of "day_number t" "day_number t'"] by (simp add: utcMonthStart_eq unix_window time_UTC_def)
  then show "utcMonthStart t' = utcMonthStart t" "nextMonthStart t' = nextMonthStart t"
    by (simp_all add: utcMonthStart_eq)
qed

theorem budget_windows_witness:
  "utcMonthStart ((unix_offset + 1709210000) * Second) = 1706745600 \<and> nextMonthStart ((unix_offset + 1709210000) * Second) = 1709251200 \<and>
   utcMonthStart ((unix_offset + 1707000000) * Second) = 1706745600"
proof -
  let ?t = "(unix_offset + 1709210000) * Second"
  have v: "utcMonthStart ?t = 1706745600" "nextMonthStart ?t = 1709251200" by code_simp+
  have "time_Unix ((unix_offset + 1707000000) * Second) = 1707000000" by (simp add: time_Unix_def Second_def)
  then show ?thesis using budget_windows [of ?t] v by simp
qed

end
