(* ===== verification/Log_Hub.thy ===== *)
theory Log_Hub
  imports Go_Map "HOL-Library.Word" "HOL-Library.Sublist"
begin

text \<open>
  The hub of the live log stream (\<^verbatim>\<open>pkg/logstream/hub.go\<close>). A subscriber and its
  subscription are one object on a heap of the hub; its channel is the list of buffered events with
  a capacity. The readers of the channels take no lock: a delivery to a subscriber is exposed to reads
  after its test for a full buffer and after its drop of the oldest event, and \<open>gaps\<close> says how
  many events the reader takes in each. A send on a closed channel panics, which is the result
  \<open>None\<close>.
\<close>

section \<open>Definitions\<close>

type_synonym TenantNameResolver = "string \<Rightarrow> string option"

record LogEvent =
  le_Type :: string
  le_Level :: string
  le_Timestamp :: int
  le_TenantID :: string
  le_TenantName :: string
  le_AgentID :: string
  le_Model :: string
  le_ProjectName :: string
  le_PromptTokens :: int
  le_CompletionTokens :: int
  le_CostMicroUSD :: int
  le_SavedCostMicroUSD :: int
  le_BudgetMicroUSD :: int
  le_SpentMicroUSD :: int
  le_MonthlyBudgetMicro :: int
  le_StatusCode :: int
  le_FirstBlock :: bool
  le_Reason :: string
  le_RetryAfter :: int
  le_ThresholdPct :: int
  le_DroppedEvents :: "64 word"

definition LogEvent_zero :: LogEvent where
  "LogEvent_zero =
     \<lparr>le_Type = '''', le_Level = '''', le_Timestamp = 0, le_TenantID = '''', le_TenantName = '''', le_AgentID = '''',
      le_Model = '''', le_ProjectName = '''', le_PromptTokens = 0, le_CompletionTokens = 0, le_CostMicroUSD = 0,
      le_SavedCostMicroUSD = 0, le_BudgetMicroUSD = 0, le_SpentMicroUSD = 0, le_MonthlyBudgetMicro = 0,
      le_StatusCode = 0, le_FirstBlock = False, le_Reason = '''', le_RetryAfter = 0, le_ThresholdPct = 0,
      le_DroppedEvents = 0\<rparr>"

definition TypeRequestComplete :: string where "TypeRequestComplete = ''request.complete''"
definition TypeLoopBlocked :: string where "TypeLoopBlocked = ''loop_blocked''"
definition TypeBudgetExceeded :: string where "TypeBudgetExceeded = ''budget_exceeded''"
definition TypeBudgetLevel :: string where "TypeBudgetLevel = ''budget_level''"
definition TypeCostAlert :: string where "TypeCostAlert = ''cost_alert''"
definition TypeSettingsUpdated :: string where "TypeSettingsUpdated = ''settings.updated''"

record subscriber =
  sb_ch :: "LogEvent list"
  sb_cap :: int
  sb_dropped :: "64 word"
  sb_closed :: bool
  sb_once :: bool

record Hub =
  hb_subs :: "(nat, unit) gomap"
  hb_resolver :: "TenantNameResolver option"
  hb_heap :: "(nat, subscriber) gomap"

definition NewHub :: "TenantNameResolver option \<Rightarrow> Hub" where
  "NewHub resolver = \<lparr>hb_subs = [], hb_resolver = resolver, hb_heap = []\<rparr>"

text \<open>The result names the new subscription; objects are never removed from the heap.\<close>

definition Hub_Subscribe :: "int \<Rightarrow> Hub \<Rightarrow> nat \<times> Hub" where
  "Hub_Subscribe buf h =
     (let buf = (if buf < 1 then 1 else buf);
          sub = \<lparr>sb_ch = [], sb_cap = buf, sb_dropped = 0, sb_closed = False, sb_once = False\<rparr>;
          p = length (hb_heap h)
      in (p, h\<lparr>hb_heap := gm_set (hb_heap h) p sub, hb_subs := gm_set (hb_subs h) p ()\<rparr>))"

definition update_sub :: "nat \<Rightarrow> (subscriber \<Rightarrow> subscriber) \<Rightarrow> Hub \<Rightarrow> Hub" where
  "update_sub p f h =
     (case gm_get (hb_heap h) p of None \<Rightarrow> h | Some sub \<Rightarrow> h\<lparr>hb_heap := gm_set (hb_heap h) p (f sub)\<rparr>)"

text \<open>\<^verbatim>\<open>Close\<close> unregisters under the lock of the hub and closes the channel after it, so
  other steps can fall between the two; only the first call does anything.\<close>

definition Close_unregister :: "nat \<Rightarrow> Hub \<Rightarrow> Hub" where
  "Close_unregister p h = update_sub p (\<lambda>sub. sub\<lparr>sb_once := True\<rparr>) (h\<lparr>hb_subs := gm_delete (hb_subs h) p\<rparr>)"

definition Close_channel :: "nat \<Rightarrow> Hub \<Rightarrow> Hub" where
  "Close_channel p h = update_sub p (\<lambda>sub. sub\<lparr>sb_closed := True\<rparr>) h"

definition Subscription_Close :: "nat \<Rightarrow> Hub \<Rightarrow> Hub" where
  "Subscription_Close p h =
     (case gm_get (hb_heap h) p of
        None \<Rightarrow> h
      | Some sub \<Rightarrow> if sb_once sub then h else Close_channel p (Close_unregister p h))"

definition Subscription_Dropped :: "nat \<Rightarrow> Hub \<Rightarrow> 64 word option" where
  "Subscription_Dropped p h = map_option sb_dropped (gm_get (hb_heap h) p)"

definition Subscription_QueueDepth :: "nat \<Rightarrow> Hub \<Rightarrow> int option" where
  "Subscription_QueueDepth p h = map_option (\<lambda>sub. int (length (sb_ch sub))) (gm_get (hb_heap h) p)"

definition Hub_Len :: "Hub \<Rightarrow> int" where
  "Hub_Len h = gm_len (hb_subs h)"

text \<open>A reader takes the oldest event.\<close>

definition chan_recv :: "subscriber \<Rightarrow> LogEvent list \<times> subscriber" where
  "chan_recv sub = (take 1 (sb_ch sub), sub\<lparr>sb_ch := drop 1 (sb_ch sub)\<rparr>)"

text \<open>The delivery to one subscriber, with what its reader took meanwhile.\<close>

definition subscriber_push :: "LogEvent \<Rightarrow> nat \<times> nat \<Rightarrow> subscriber \<Rightarrow> LogEvent list \<times> subscriber" where
  "subscriber_push ev gaps sub =
     (let full = (int (length (sb_ch sub)) = sb_cap sub);
          got = take (fst gaps) (sb_ch sub); sub = sub\<lparr>sb_ch := drop (fst gaps) (sb_ch sub)\<rparr>;
          sub = (if full
                 then case sb_ch sub of [] \<Rightarrow> sub | _ # rest \<Rightarrow> sub\<lparr>sb_ch := rest, sb_dropped := sb_dropped sub + 1\<rparr>
                 else sub);
          got' = take (snd gaps) (sb_ch sub); sub = sub\<lparr>sb_ch := drop (snd gaps) (sb_ch sub)\<rparr>
      in (got @ got',
          if int (length (sb_ch sub)) < sb_cap sub then sub\<lparr>sb_ch := sb_ch sub @ [ev]\<rparr>
          else sub\<lparr>sb_dropped := sb_dropped sub + 1\<rparr>))"

fun publish_loop :: "LogEvent \<Rightarrow> (nat \<Rightarrow> nat \<times> nat) \<Rightarrow> nat list \<Rightarrow> Hub \<Rightarrow> Hub option" where
  "publish_loop ev gaps [] h = Some h"
| "publish_loop ev gaps (p # ps) h =
     (case gm_get (hb_heap h) p of
        None \<Rightarrow> None
      | Some sub \<Rightarrow>
          if sb_closed sub then None
          else publish_loop ev gaps ps (h\<lparr>hb_heap := gm_set (hb_heap h) p (snd (subscriber_push ev (gaps p) sub))\<rparr>))"

definition resolve_name :: "TenantNameResolver option \<Rightarrow> LogEvent \<Rightarrow> LogEvent" where
  "resolve_name resolver ev =
     (case resolver of
        None \<Rightarrow> ev
      | Some f \<Rightarrow>
          if le_TenantName ev = '''' \<and> le_TenantID ev \<noteq> ''''
          then (case f (le_TenantID ev) of None \<Rightarrow> ev | Some name \<Rightarrow> ev\<lparr>le_TenantName := name\<rparr>)
          else ev)"

definition Hub_Publish :: "nat range_order \<Rightarrow> (nat \<Rightarrow> nat \<times> nat) \<Rightarrow> LogEvent \<Rightarrow> Hub \<Rightarrow> Hub option" where
  "Hub_Publish ord gaps ev h =
     (let ev = resolve_name (hb_resolver h) ev
      in publish_loop ev gaps (range_over ord (gm_keys (hb_subs h))) h)"

section \<open>One queue\<close>

datatype queue_event = Push LogEvent "nat \<times> nat" | Recv

fun queue_run :: "queue_event list \<Rightarrow> LogEvent list \<times> subscriber \<Rightarrow> LogEvent list \<times> subscriber" where
  "queue_run [] s = s"
| "queue_run (Push ev gaps # es) (got, sub) = (let (new, sub') = subscriber_push ev gaps sub in queue_run es (got @ new, sub'))"
| "queue_run (Recv # es) (got, sub) = (let (new, sub') = chan_recv sub in queue_run es (got @ new, sub'))"

fun pushed :: "queue_event list \<Rightarrow> LogEvent list" where
  "pushed [] = []"
| "pushed (Push ev _ # es) = ev # pushed es"
| "pushed (Recv # es) = pushed es"

text \<open>
  What the reader got and what is buffered is a subsequence of what was published; the buffer is a
  suffix of it, within capacity; and every event was received, is buffered or was counted as dropped.
\<close>

definition queue_ok :: "LogEvent list \<Rightarrow> LogEvent list \<times> subscriber \<Rightarrow> bool" where
  "queue_ok evs s \<longleftrightarrow>
     (case s of (got, sub) \<Rightarrow>
        \<exists>front. evs = front @ sb_ch sub \<and> subseq got front \<and> 0 < sb_cap sub \<and> int (length (sb_ch sub)) \<le> sb_cap sub \<and>
          of_nat (length front) = of_nat (length got) + sb_dropped sub)"

lemma queue_ok_recv:
  assumes "queue_ok evs (got, sub)"
  shows "queue_ok evs (got @ take n (sb_ch sub), sub\<lparr>sb_ch := drop n (sb_ch sub)\<rparr>)"
proof -
  obtain front where f: "evs = front @ sb_ch sub" "subseq got front" "0 < sb_cap sub"
      "int (length (sb_ch sub)) \<le> sb_cap sub" "of_nat (length front) = of_nat (length got) + sb_dropped sub"
    using assms by (auto simp: queue_ok_def)
  have "subseq (got @ take n (sb_ch sub)) (front @ take n (sb_ch sub))" using f(2) by (intro list_emb_append_mono) simp_all
  then show ?thesis
    unfolding queue_ok_def using f by (auto intro!: exI [of _ "front @ take n (sb_ch sub)"] simp del: length_take)
qed

lemma queue_ok_drop_oldest:
  assumes "queue_ok evs (got, sub)" and "sb_ch sub = e # rest"
  shows "queue_ok evs (got, sub\<lparr>sb_ch := rest, sb_dropped := sb_dropped sub + 1\<rparr>)"
proof -
  obtain front where f: "evs = front @ sb_ch sub" "subseq got front" "0 < sb_cap sub"
      "int (length (sb_ch sub)) \<le> sb_cap sub" "of_nat (length front) = of_nat (length got) + sb_dropped sub"
    using assms by (auto simp: queue_ok_def)
  have "subseq got (front @ [e])" using f(2) by (rule list_emb_prefix)
  then show ?thesis
    unfolding queue_ok_def using f assms(2) by (auto intro!: exI [of _ "front @ [e]"])
qed

lemma queue_ok_send:
  assumes "queue_ok evs (got, sub)" and "int (length (sb_ch sub)) < sb_cap sub"
  shows "queue_ok (evs @ [ev]) (got, sub\<lparr>sb_ch := sb_ch sub @ [ev]\<rparr>)"
  using assms by (auto simp: queue_ok_def)

lemma subscriber_push_ok:
  assumes "queue_ok evs (got, sub)" and "subscriber_push ev gaps sub = (new, sub')"
  shows "queue_ok (evs @ [ev]) (got @ new, sub')" and "sb_ch sub' \<noteq> [] \<and> last (sb_ch sub') = ev"
proof -
  let ?full = "int (length (sb_ch sub)) = sb_cap sub"
  define sub1 where "sub1 = sub\<lparr>sb_ch := drop (fst gaps) (sb_ch sub)\<rparr>"
  define sub2 where "sub2 = (if ?full
     then case sb_ch sub1 of [] \<Rightarrow> sub1 | _ # rest \<Rightarrow> sub1\<lparr>sb_ch := rest, sb_dropped := sb_dropped sub1 + 1\<rparr> else sub1)"
  define sub3 where "sub3 = sub2\<lparr>sb_ch := drop (snd gaps) (sb_ch sub2)\<rparr>"
  let ?got1 = "got @ take (fst gaps) (sb_ch sub)"
  have 1: "queue_ok evs (?got1, sub1)" unfolding sub1_def by (rule queue_ok_recv [OF assms(1)])
  have 2: "queue_ok evs (?got1, sub2)"
    using 1 queue_ok_drop_oldest [OF 1] by (auto simp: sub2_def split: list.split)
  have 3: "queue_ok evs (?got1 @ take (snd gaps) (sb_ch sub2), sub3)" unfolding sub3_def by (rule queue_ok_recv [OF 2])
  have cap: "0 < sb_cap sub" "int (length (sb_ch sub)) \<le> sb_cap sub" using assms(1) by (auto simp: queue_ok_def)
  have "length (sb_ch sub1) \<le> length (sb_ch sub)" by (simp add: sub1_def)
  then have room: "int (length (sb_ch sub2)) < sb_cap sub"
    using cap by (cases "sb_ch sub1") (auto simp: sub2_def)
  have "sb_cap sub2 = sb_cap sub" by (simp add: sub2_def sub1_def split: list.split)
  then have room3: "int (length (sb_ch sub3)) < sb_cap sub3" using room by (simp add: sub3_def)
  have push: "subscriber_push ev gaps sub = (take (fst gaps) (sb_ch sub) @ take (snd gaps) (sb_ch sub2), sub3\<lparr>sb_ch := sb_ch sub3 @ [ev]\<rparr>)"
    using room3 unfolding subscriber_push_def Let_def sub1_def [symmetric] sub2_def [symmetric] sub3_def [symmetric] by simp
  then show "queue_ok (evs @ [ev]) (got @ new, sub')" "sb_ch sub' \<noteq> [] \<and> last (sb_ch sub') = ev"
    using assms(2) queue_ok_send [OF 3 room3] by auto
qed

lemma queue_run_ok: "queue_ok evs s \<Longrightarrow> queue_ok (evs @ pushed es) (queue_run es s)"
proof (induction es s arbitrary: evs rule: queue_run.induct)
  case (2 ev gaps es got sub)
  obtain new sub' where p: "subscriber_push ev gaps sub = (new, sub')" by (cases "subscriber_push ev gaps sub")
  have "queue_ok (evs @ [ev]) (got @ new, sub')" using 2(2) p by (rule subscriber_push_ok)
  from 2(1) [OF _ _ this] show ?case by (simp add: p)
next
  case (3 es got sub)
  have "queue_ok evs (got @ take 1 (sb_ch sub), sub\<lparr>sb_ch := drop 1 (sb_ch sub)\<rparr>)" using 3(2) by (rule queue_ok_recv)
  from 3(1) [OF _ _ this] show ?case by (simp add: chan_recv_def)
qed simp

text \<open>What a delivery drops: the oldest event that is left of a full buffer, and nothing else.\<close>

lemma subscriber_push_exact:
  assumes "0 < sb_cap sub" and "int (length (sb_ch sub)) \<le> sb_cap sub"
    and "subscriber_push ev (g, g') sub = (new, sub')"
  shows "if int (length (sb_ch sub)) < sb_cap sub \<or> length (sb_ch sub) \<le> g
    then new @ sb_ch sub' = sb_ch sub @ [ev] \<and> sb_dropped sub' = sb_dropped sub
    else new @ sb_ch sub' = take g (sb_ch sub) @ drop (Suc g) (sb_ch sub) @ [ev] \<and> sb_dropped sub' = sb_dropped sub + 1"
proof -
  have cut: "length (drop g' xs) \<le> length xs" for xs :: "LogEvent list" by simp
  consider "int (length (sb_ch sub)) < sb_cap sub" | "int (length (sb_ch sub)) = sb_cap sub" "length (sb_ch sub) \<le> g"
    | e where "int (length (sb_ch sub)) = sb_cap sub" "g < length (sb_ch sub)" "drop g (sb_ch sub) = e # drop (Suc g) (sb_ch sub)"
    using assms(2) by (metis Cons_nth_drop_Suc not_le_imp_less order_le_imp_less_or_eq)
  then show ?thesis
  proof cases
    case 1
    then have "int (length (drop g' (drop g (sb_ch sub)))) < sb_cap sub" by simp
    then have "subscriber_push ev (g, g') sub =
        (take g (sb_ch sub) @ take g' (drop g (sb_ch sub)), sub\<lparr>sb_ch := drop g' (drop g (sb_ch sub)) @ [ev]\<rparr>)"
      using 1 by (simp add: subscriber_push_def Let_def)
    then have "new = take g (sb_ch sub) @ take g' (drop g (sb_ch sub))" "sub' = sub\<lparr>sb_ch := drop g' (drop g (sb_ch sub)) @ [ev]\<rparr>"
      using assms(3) by simp_all
    moreover have "take g (sb_ch sub) @ take g' (drop g (sb_ch sub)) @ drop g' (drop g (sb_ch sub)) = sb_ch sub"
      by (simp only: append_take_drop_id)
    ultimately show ?thesis using 1 by simp
  next
    case 2
    then show ?thesis using assms(1,3) by (auto simp: subscriber_push_def Let_def)
  next
    case 3
    have "length (drop (Suc g) (sb_ch sub)) < length (sb_ch sub)" using 3(2) by simp
    then have room: "int (length (drop g' (drop (Suc g) (sb_ch sub)))) < sb_cap sub"
      using cut [of "drop (Suc g) (sb_ch sub)"] 3(1) by linarith
    from room have "subscriber_push ev (g, g') sub = (take g (sb_ch sub) @ take g' (drop (Suc g) (sb_ch sub)),
        sub\<lparr>sb_ch := drop g' (drop (Suc g) (sb_ch sub)) @ [ev], sb_dropped := sb_dropped sub + 1\<rparr>)"
      using 3(1) by (simp add: subscriber_push_def Let_def 3(3) del: drop_drop)
    then have "new = take g (sb_ch sub) @ take g' (drop (Suc g) (sb_ch sub))"
        "sub' = sub\<lparr>sb_ch := drop g' (drop (Suc g) (sb_ch sub)) @ [ev], sb_dropped := sb_dropped sub + 1\<rparr>"
      using assms(3) by simp_all
    moreover have "take g' (drop (Suc g) (sb_ch sub)) @ drop g' (drop (Suc g) (sb_ch sub)) = drop (Suc g) (sb_ch sub)"
      by (simp only: append_take_drop_id)
    ultimately show ?thesis using 3(1,2) by simp
  qed
qed

lemma push_unread:
  assumes "0 < sb_cap sub" and "int (length (sb_ch sub)) \<le> sb_cap sub"
  shows "fst (subscriber_push ev (0, 0) sub) = []"
    and "sb_ch (snd (subscriber_push ev (0, 0) sub)) = lastn (nat (sb_cap sub)) (sb_ch sub @ [ev])"
proof -
  obtain new sub' where p: "subscriber_push ev (0, 0) sub = (new, sub')" by fastforce
  show "fst (subscriber_push ev (0, 0) sub) = []" by (simp add: subscriber_push_def Let_def)
  then have "new = []" using p by simp
  then show "sb_ch (snd (subscriber_push ev (0, 0) sub)) = lastn (nat (sb_cap sub)) (sb_ch sub @ [ev])"
    using subscriber_push_exact [OF assms p] assms p
    by (cases "int (length (sb_ch sub)) < sb_cap sub") (auto simp: lastn_def drop_Suc Suc_diff_le nat_eq_iff split: if_splits)
qed

lemma subscriber_push_flags [simp]:
  "sb_closed (snd (subscriber_push ev gaps sub)) = sb_closed sub" "sb_once (snd (subscriber_push ev gaps sub)) = sb_once sub"
  "sb_cap (snd (subscriber_push ev gaps sub)) = sb_cap sub"
  by (simp_all add: subscriber_push_def Let_def split: list.split)

lemma queue_burst:
  assumes "0 < sb_cap sub" and "int (length (sb_ch sub)) \<le> sb_cap sub"
  shows "fst (queue_run (map (\<lambda>ev. Push ev (0, 0)) evs) (got, sub)) = got"
    and "sb_ch (snd (queue_run (map (\<lambda>ev. Push ev (0, 0)) evs) (got, sub))) = lastn (nat (sb_cap sub)) (sb_ch sub @ evs)"
  using assms
proof (induction evs arbitrary: sub)
  case (Cons ev evs)
  {
    case 1
    then show ?case using Cons.IH(1) [of "snd (subscriber_push ev (0, 0) sub)"] push_unread [OF 1, of ev]
      by (simp add: case_prod_unfold Let_def subscriber_push_flags)
  next
    case 2
    then show ?case using Cons.IH(2) [of "snd (subscriber_push ev (0, 0) sub)"] push_unread [OF 2, of ev]
      by (simp add: case_prod_unfold Let_def subscriber_push_flags lastn_push)
  }
qed simp_all

section \<open>The hub\<close>

text \<open>A registered subscription is on the heap, open and not yet closed by its owner.\<close>

definition hub_ok :: "Hub \<Rightarrow> bool" where
  "hub_ok h \<longleftrightarrow> gm_ok (hb_subs h) \<and>
     (\<forall>p\<in>set (gm_keys (hb_heap h)). p < length (hb_heap h)) \<and> gm_ok (hb_heap h) \<and>
     (\<forall>p\<in>set (gm_keys (hb_subs h)). \<exists>sub. gm_get (hb_heap h) p = Some sub \<and> \<not> sb_closed sub \<and> \<not> sb_once sub)"

inductive hub_reach :: "TenantNameResolver option \<Rightarrow> Hub \<Rightarrow> bool" for resolver where
  init: "hub_reach resolver (NewHub resolver)"
| subscribe: "hub_reach resolver h \<Longrightarrow> hub_reach resolver (snd (Hub_Subscribe buf h))"
| publish: "hub_reach resolver h \<Longrightarrow> Hub_Publish ord gaps ev h = Some h' \<Longrightarrow> hub_reach resolver h'"
| unregister: "hub_reach resolver h \<Longrightarrow> gm_get (hb_heap h) p = Some sub \<Longrightarrow> \<not> sb_once sub \<Longrightarrow>
    hub_reach resolver (Close_unregister p h)"
| close: "hub_reach resolver h \<Longrightarrow> gm_get (hb_heap h) p = Some sub \<Longrightarrow> sb_once sub \<Longrightarrow>
    hub_reach resolver (Close_channel p h)"
| recv: "hub_reach resolver h \<Longrightarrow> hub_reach resolver (update_sub p (\<lambda>sub. snd (chan_recv sub)) h)"

lemma publish_loop_spec:
  assumes "distinct ps" and "\<forall>p\<in>set ps. \<exists>sub. gm_get (hb_heap h) p = Some sub \<and> \<not> sb_closed sub"
  shows "\<exists>h'. publish_loop ev gaps ps h = Some h' \<and> hb_subs h' = hb_subs h \<and> hb_resolver h' = hb_resolver h \<and>
    gm_keys (hb_heap h') = gm_keys (hb_heap h) \<and>
    (\<forall>p. gm_get (hb_heap h') p =
       (if p \<in> set ps then map_option (\<lambda>sub. snd (subscriber_push ev (gaps p) sub)) (gm_get (hb_heap h) p) else gm_get (hb_heap h) p))"
  using assms
proof (induction ps arbitrary: h)
  case (Cons p ps)
  obtain sub where sub: "gm_get (hb_heap h) p = Some sub" "\<not> sb_closed sub" using Cons.prems(2) by (metis list.set_intros(1))
  let ?h = "h\<lparr>hb_heap := gm_set (hb_heap h) p (snd (subscriber_push ev (gaps p) sub))\<rparr>"
  have keys: "gm_keys (hb_heap ?h) = gm_keys (hb_heap h)"
    using sub(1) by (simp add: update_keys del: map_of_eq_Some_iff) (metis domI dom_map_of_conv_image_fst)
  have "\<forall>q\<in>set ps. \<exists>sub. gm_get (hb_heap ?h) q = Some sub \<and> \<not> sb_closed sub"
    using Cons.prems by (auto simp del: map_of_eq_Some_iff)
  from Cons.IH [OF _ this] Cons.prems(1) obtain h' where h': "publish_loop ev gaps ps ?h = Some h'"
      "hb_subs h' = hb_subs h" "hb_resolver h' = hb_resolver h" "gm_keys (hb_heap h') = gm_keys (hb_heap ?h)"
      "\<forall>q. gm_get (hb_heap h') q = (if q \<in> set ps then map_option (\<lambda>sub. snd (subscriber_push ev (gaps q) sub)) (gm_get (hb_heap ?h) q)
         else gm_get (hb_heap ?h) q)"
    by auto
  have "publish_loop ev gaps (p # ps) h = Some h'" using sub h'(1) by (simp del: map_of_eq_Some_iff)
  moreover have "gm_get (hb_heap h') q =
      (if q \<in> set (p # ps) then map_option (\<lambda>sub. snd (subscriber_push ev (gaps q) sub)) (gm_get (hb_heap h) q) else gm_get (hb_heap h) q)" for q
    using Cons.prems(1) sub(1) by (simp add: h'(5) del: map_of_eq_Some_iff)
  ultimately show ?case using h'(2-4) keys by metis
qed simp

lemma hub_ok_get: "hub_ok h \<Longrightarrow> p \<in> set (gm_keys (hb_subs h)) \<Longrightarrow>
    \<exists>sub. gm_get (hb_heap h) p = Some sub \<and> \<not> sb_closed sub \<and> \<not> sb_once sub"
  unfolding hub_ok_def by blast

lemma Hub_Publish_spec:
  assumes "hub_ok h"
  shows "\<exists>h'. Hub_Publish ord gaps ev h = Some h' \<and> hb_subs h' = hb_subs h \<and> hb_resolver h' = hb_resolver h \<and>
    gm_keys (hb_heap h') = gm_keys (hb_heap h) \<and>
    (\<forall>p. gm_get (hb_heap h') p =
       (if p \<in> set (gm_keys (hb_subs h))
        then map_option (\<lambda>sub. snd (subscriber_push (resolve_name (hb_resolver h) ev) (gaps p) sub)) (gm_get (hb_heap h) p)
        else gm_get (hb_heap h) p))"
proof -
  have "distinct (range_over ord (gm_keys (hb_subs h)))" using assms by (simp add: hub_ok_def)
  moreover have "\<forall>p\<in>set (range_over ord (gm_keys (hb_subs h))). \<exists>sub. gm_get (hb_heap h) p = Some sub \<and> \<not> sb_closed sub"
    using hub_ok_get [OF assms] by (simp only: set_range_over) blast
  ultimately show ?thesis
    using publish_loop_spec [of "range_over ord (gm_keys (hb_subs h))" h "resolve_name (hb_resolver h) ev" gaps]
    by (simp only: Hub_Publish_def Let_def set_range_over)
qed

lemma hub_ok_publish:
  assumes "hub_ok h" and "Hub_Publish ord gaps ev h = Some h'"
  shows "hub_ok h'"
proof -
  have h': "hb_subs h' = hb_subs h" "gm_keys (hb_heap h') = gm_keys (hb_heap h)"
      "\<forall>p. gm_get (hb_heap h') p = (if p \<in> set (gm_keys (hb_subs h))
        then map_option (\<lambda>sub. snd (subscriber_push (resolve_name (hb_resolver h) ev) (gaps p) sub)) (gm_get (hb_heap h) p)
        else gm_get (hb_heap h) p)"
    using Hub_Publish_spec [OF assms(1), of ord gaps ev] assms(2) by auto
  have len: "length (hb_heap h') = length (hb_heap h)" using h'(2) by (metis length_map)
  show ?thesis
    unfolding hub_ok_def
  proof (intro conjI ballI)
    fix p assume "p \<in> set (gm_keys (hb_subs h'))"
    then have p: "p \<in> set (gm_keys (hb_subs h))" by (simp only: h'(1))
    from hub_ok_get [OF assms(1) p] obtain sub where "gm_get (hb_heap h) p = Some sub" "\<not> sb_closed sub" "\<not> sb_once sub" by blast
    then show "\<exists>sub. gm_get (hb_heap h') p = Some sub \<and> \<not> sb_closed sub \<and> \<not> sb_once sub"
      using p by (simp add: h'(3) del: map_of_eq_Some_iff)
  qed (use assms(1) h'(1,2) len in \<open>simp_all only: hub_ok_def\<close>)
qed

lemma hub_ok_update_sub:
  assumes "hub_ok h" and "p \<in> set (gm_keys (hb_subs h)) \<Longrightarrow> (\<forall>sub. sb_closed (f sub) = sb_closed sub \<and> sb_once (f sub) = sb_once sub)"
  shows "hub_ok (update_sub p f h)"
proof (cases "gm_get (hb_heap h) p")
  case (Some sub)
  have upd: "update_sub p f h = h\<lparr>hb_heap := gm_set (hb_heap h) p (f sub)\<rparr>" using Some by (simp add: update_sub_def)
  have keys: "gm_keys (gm_set (hb_heap h) p (f sub)) = gm_keys (hb_heap h)"
    using Some by (simp add: update_keys del: map_of_eq_Some_iff) (metis domI dom_map_of_conv_image_fst)
  then have len: "length (gm_set (hb_heap h) p (f sub)) = length (hb_heap h)" by (metis length_map)
  show ?thesis
    unfolding hub_ok_def upd
  proof (intro conjI ballI)
    fix q assume "q \<in> set (gm_keys (hb_subs (h\<lparr>hb_heap := gm_set (hb_heap h) p (f sub)\<rparr>)))"
    then have q: "q \<in> set (gm_keys (hb_subs h))" by simp
    from hub_ok_get [OF assms(1) q] obtain s where "gm_get (hb_heap h) q = Some s" "\<not> sb_closed s" "\<not> sb_once s" by blast
    then show "\<exists>s. gm_get (hb_heap (h\<lparr>hb_heap := gm_set (hb_heap h) p (f sub)\<rparr>)) q = Some s \<and> \<not> sb_closed s \<and> \<not> sb_once s"
      using q Some assms(2) by (cases "q = p") (simp_all del: map_of_eq_Some_iff)
  qed (use assms(1) keys len in \<open>auto simp: hub_ok_def simp del: map_of_eq_Some_iff\<close>)
qed (use assms(1) in \<open>simp add: update_sub_def\<close>)

lemma hub_ok_subscribe: "hub_ok h \<Longrightarrow> hub_ok (snd (Hub_Subscribe buf h))"
proof -
  assume ok: "hub_ok h"
  let ?p = "length (hb_heap h)"
  have fresh: "?p \<notin> set (gm_keys (hb_heap h))" using ok by (auto simp: hub_ok_def)
  then have none: "gm_get (hb_heap h) ?p = None" by (simp only: gm_get_None_iff not_False_eq_True)
  have new: "?p \<notin> set (gm_keys (hb_subs h))" using hub_ok_get [OF ok, of ?p] none by auto
  show ?thesis
    using ok fresh none new unfolding hub_ok_def Hub_Subscribe_def Let_def
    by (auto simp: length_gm_set update_keys less_Suc_eq simp del: map_of_eq_Some_iff)
qed

lemma hub_reach_ok: "hub_reach resolver h \<Longrightarrow> hub_ok h"
proof (induction rule: hub_reach.induct)
  case init
  show ?case by (simp add: hub_ok_def NewHub_def)
next
  case (unregister h p sub)
  have "set (gm_keys (gm_delete (hb_subs h) p)) \<subseteq> set (gm_keys (hb_subs h))" by (auto simp: delete_keys)
  then have "hub_ok (h\<lparr>hb_subs := gm_delete (hb_subs h) p\<rparr>)"
    using unregister(4) hub_ok_get [OF unregister(4)] unfolding hub_ok_def
    by (auto simp del: map_of_eq_Some_iff)
  then show ?case unfolding Close_unregister_def by (rule hub_ok_update_sub) (auto simp: delete_keys)
next
  case (close h p sub)
  have "p \<notin> set (gm_keys (hb_subs h))" using hub_ok_get [OF close(4), of p] close(2,3) by auto
  then show ?case unfolding Close_channel_def using close(4) by (intro hub_ok_update_sub) blast+
next
  case (recv h p)
  then show ?case by (intro hub_ok_update_sub) (simp_all add: chan_recv_def)
qed (auto intro: hub_ok_subscribe hub_ok_publish)

section \<open>Properties\<close>

text \<open>
  C21. A subscriber's queue, for any sequence of deliveries and reads, with reads also falling inside a
  delivery: it never exceeds its capacity and holds the most recent events; the
  reader gets events in the order of publication, each at most once; and every published event
  was received, is buffered or is counted as dropped. A further delivery drops nothing as long as the
  buffer has room, or its reader has emptied it after the test; otherwise it drops exactly the oldest event that is left and
  counts it, and the new event is never the one that is dropped. A burst that is not read leaves
  exactly the last events the capacity allows.
\<close>

theorem subscriber_queue:
  fixes es :: "queue_event list" and n :: int
  defines "s \<equiv> queue_run es ([], \<lparr>sb_ch = [], sb_cap = n, sb_dropped = 0, sb_closed = False, sb_once = False\<rparr>)"
  assumes "1 \<le> n"
  shows "int (length (sb_ch (snd s))) \<le> n \<and> (\<exists>front. pushed es = front @ sb_ch (snd s) \<and> subseq (fst s) front \<and>
      of_nat (length (pushed es)) = of_nat (length (fst s)) + of_nat (length (sb_ch (snd s))) + sb_dropped (snd s)) \<and>
    (\<forall>ev gaps. last (sb_ch (snd (subscriber_push ev gaps (snd s)))) = ev \<and> sb_ch (snd (subscriber_push ev gaps (snd s))) \<noteq> []) \<and>
    (\<forall>ev g g'. case subscriber_push ev (g, g') (snd s) of (new, sub) \<Rightarrow>
       if int (length (sb_ch (snd s))) < n \<or> length (sb_ch (snd s)) \<le> g
       then new @ sb_ch sub = sb_ch (snd s) @ [ev] \<and> sb_dropped sub = sb_dropped (snd s)
       else new @ sb_ch sub = take g (sb_ch (snd s)) @ drop (Suc g) (sb_ch (snd s)) @ [ev] \<and>
         sb_dropped sub = sb_dropped (snd s) + 1) \<and>
    (\<forall>evs. sb_ch (snd (queue_run (map (\<lambda>ev. Push ev (0, 0)) evs) s)) = lastn (nat n) (sb_ch (snd s) @ evs))"
proof -
  let ?sub = "\<lparr>sb_ch = [], sb_cap = n, sb_dropped = 0, sb_closed = False, sb_once = False\<rparr>"
  have "queue_ok [] ([], ?sub)" using assms(2) by (simp add: queue_ok_def)
  from queue_run_ok [OF this, of es] have ok: "queue_ok (pushed es) (fst s, snd s)" by (simp add: s_def)
  have "sb_cap (snd (queue_run es t)) = sb_cap (snd t)" for t
  proof (induction es t rule: queue_run.induct)
    case (2 ev gaps es got sub)
    then show ?case using subscriber_push_flags(3) [of ev gaps sub] by (simp add: case_prod_unfold Let_def)
  qed (simp_all add: chan_recv_def Let_def)
  then have cap: "sb_cap (snd s) = n" by (simp add: s_def)
  have new: "last (sb_ch (snd (subscriber_push ev gaps (snd s)))) = ev \<and> sb_ch (snd (subscriber_push ev gaps (snd s))) \<noteq> []" for ev gaps
    using subscriber_push_ok(2) [OF ok, of ev gaps] by (metis prod.collapse)
  have room: "0 < sb_cap (snd s)" "int (length (sb_ch (snd s))) \<le> sb_cap (snd s)" using ok by (auto simp: queue_ok_def)
  have exact: "case subscriber_push ev (g, g') (snd s) of (new, sub) \<Rightarrow>
      if int (length (sb_ch (snd s))) < n \<or> length (sb_ch (snd s)) \<le> g
      then new @ sb_ch sub = sb_ch (snd s) @ [ev] \<and> sb_dropped sub = sb_dropped (snd s)
      else new @ sb_ch sub = take g (sb_ch (snd s)) @ drop (Suc g) (sb_ch (snd s)) @ [ev] \<and>
        sb_dropped sub = sb_dropped (snd s) + 1" for ev g g'
    using subscriber_push_exact [OF room, of ev g g'] unfolding cap by (simp split: prod.split)
  have "sb_ch (snd (queue_run (map (\<lambda>ev. Push ev (0, 0)) evs) s)) = lastn (nat n) (sb_ch (snd s) @ evs)" for evs
    using queue_burst(2) [OF room, of evs "fst s"] by (simp add: cap)
  with new exact ok cap show ?thesis unfolding queue_ok_def prod.case by (intro conjI allI) auto
qed

theorem subscriber_queue_witness:
  "(\<exists>front. pushed [Push LogEvent_zero (0, 0), Push LogEvent_zero (0, 0), Recv] = front @
     sb_ch (snd (queue_run [Push LogEvent_zero (0, 0), Push LogEvent_zero (0, 0), Recv]
       ([], \<lparr>sb_ch = [], sb_cap = 1, sb_dropped = 0, sb_closed = False, sb_once = False\<rparr>)))) \<and>
   sb_ch (snd (queue_run (map (\<lambda>ev. Push ev (0, 0)) [LogEvent_zero\<lparr>le_Timestamp := 1\<rparr>, LogEvent_zero\<lparr>le_Timestamp := 2\<rparr>])
     (queue_run [Push LogEvent_zero (0, 0)]
       ([], \<lparr>sb_ch = [], sb_cap = 2, sb_dropped = 0, sb_closed = False, sb_once = False\<rparr>)))) =
   [LogEvent_zero\<lparr>le_Timestamp := 1\<rparr>, LogEvent_zero\<lparr>le_Timestamp := 2\<rparr>]"
proof
  show "\<exists>front. pushed [Push LogEvent_zero (0, 0), Push LogEvent_zero (0, 0), Recv] = front @
     sb_ch (snd (queue_run [Push LogEvent_zero (0, 0), Push LogEvent_zero (0, 0), Recv]
       ([], \<lparr>sb_ch = [], sb_cap = 1, sb_dropped = 0, sb_closed = False, sb_once = False\<rparr>)))"
    using subscriber_queue [of 1 "[Push LogEvent_zero (0, 0), Push LogEvent_zero (0, 0), Recv]"] by blast
  let ?sub = "\<lparr>sb_ch = [], sb_cap = 2, sb_dropped = 0, sb_closed = False, sb_once = False\<rparr>"
  let ?evs = "[LogEvent_zero\<lparr>le_Timestamp := 1\<rparr>, LogEvent_zero\<lparr>le_Timestamp := 2\<rparr>]"
  have "sb_ch (snd (queue_run (map (\<lambda>ev. Push ev (0, 0)) ?evs) (queue_run [Push LogEvent_zero (0, 0)] ([], ?sub)))) =
      lastn (nat 2) (sb_ch (snd (queue_run [Push LogEvent_zero (0, 0)] ([], ?sub))) @ ?evs)"
    by (rule subscriber_queue [of 2 "[Push LogEvent_zero (0, 0)]", THEN conjunct2, THEN conjunct2, THEN conjunct2, THEN conjunct2,
          THEN spec]) simp
  also have "\<dots> = ?evs" by (simp add: subscriber_push_def Let_def lastn_def)
  finally show "sb_ch (snd (queue_run (map (\<lambda>ev. Push ev (0, 0)) ?evs) (queue_run [Push LogEvent_zero (0, 0)] ([], ?sub)))) = ?evs" .
qed

text \<open>
  C22. Publishing: in every state the hub can reach, also with subscriptions half closed, a publication
  never sends on a closed channel; each registered subscriber gets the event exactly once, with the
  tenant name resolved once; every other object is untouched; and the order of the fan-out does not
  matter.
\<close>

theorem publish_fans_out:
  assumes "hub_reach resolver h"
  shows "\<exists>h'. Hub_Publish ord gaps ev h = Some h' \<and> hb_subs h' = hb_subs h \<and>
    (\<forall>p. gm_get (hb_heap h') p =
       (if p \<in> set (gm_keys (hb_subs h))
        then map_option (\<lambda>sub. snd (subscriber_push (resolve_name (hb_resolver h) ev) (gaps p) sub)) (gm_get (hb_heap h) p)
        else gm_get (hb_heap h) p)) \<and>
    (\<forall>ord' h''. Hub_Publish ord' gaps ev h = Some h'' \<longrightarrow> (\<forall>p. gm_get (hb_heap h'') p = gm_get (hb_heap h') p))"
proof -
  note ok = hub_reach_ok [OF assms]
  from Hub_Publish_spec [OF ok, of ord gaps ev] obtain h' where h': "Hub_Publish ord gaps ev h = Some h'" "hb_subs h' = hb_subs h"
      "\<forall>p. gm_get (hb_heap h') p = (if p \<in> set (gm_keys (hb_subs h))
        then map_option (\<lambda>sub. snd (subscriber_push (resolve_name (hb_resolver h) ev) (gaps p) sub)) (gm_get (hb_heap h) p)
        else gm_get (hb_heap h) p)" by blast
  have "gm_get (hb_heap h'') p = gm_get (hb_heap h') p" if "Hub_Publish ord' gaps ev h = Some h''" for ord' h'' p
    using Hub_Publish_spec [OF ok, of ord' gaps ev] that h'(3) by (metis option.inject)
  then show ?thesis using h' by (intro exI [of _ h'] conjI) simp_all
qed

theorem publish_fans_out_witness:
  "\<exists>h'. Hub_Publish in_order (\<lambda>_. (0, 0)) LogEvent_zero (snd (Hub_Subscribe 8 (NewHub None))) = Some h' \<and>
     Subscription_QueueDepth 0 h' = Some 1"
proof -
  let ?h = "snd (Hub_Subscribe 8 (NewHub None))"
  let ?sub = "\<lparr>sb_ch = [], sb_cap = 8, sb_dropped = 0, sb_closed = False, sb_once = False\<rparr>"
  have "hub_reach None ?h" by (intro hub_reach.intros)
  from publish_fans_out [OF this, of in_order "\<lambda>_. (0, 0)" LogEvent_zero]
  obtain h' where h': "Hub_Publish in_order (\<lambda>_. (0, 0)) LogEvent_zero ?h = Some h'"
      "gm_get (hb_heap h') 0 = (if 0 \<in> set (gm_keys (hb_subs ?h))
         then map_option (\<lambda>sub. snd (subscriber_push (resolve_name (hb_resolver ?h) LogEvent_zero) (0, 0) sub)) (gm_get (hb_heap ?h) 0)
         else gm_get (hb_heap ?h) 0)" by blast
  have "0 \<in> set (gm_keys (hb_subs ?h))" "gm_get (hb_heap ?h) 0 = Some ?sub"
    by (simp_all add: Hub_Subscribe_def NewHub_def Let_def)
  then have "gm_get (hb_heap h') 0 = Some (snd (subscriber_push (resolve_name (hb_resolver ?h) LogEvent_zero) (0, 0) ?sub))"
    by (simp only: h'(2) if_True option.map)
  then show ?thesis using h'(1) by (simp add: Subscription_QueueDepth_def subscriber_push_def del: map_of_eq_Some_iff)
qed

end
