(* ===== verification/Proxy_Metrics.thy ===== *)
theory Proxy_Metrics
  imports Go_Prelude Go_Float Go_Calendar
begin

text \<open>
  The in-memory observability registry (\<^verbatim>\<open>pkg/proxy/metrics.go\<close>): atomic
  counters, the ring of per-second token counts behind the velocity gauge, and the ring of recent
  blocks. Each method of a ring holds its mutex and is one step; each atomic addition is one step. A
  nil registry is \<open>None\<close>. The clock is an argument and does not precede 1970 (the remainder of
  a negative second would be a negative index).
\<close>

section \<open>Definitions\<close>

definition velocityBuckets :: int where "velocityBuckets = 64"
definition velocityWindow :: int where "velocityWindow = 5"
definition triggerCap :: nat where "triggerCap = 100"

record tokenWindow =
  tw_buckets :: "int list"
  tw_last :: int

definition tokenWindow_zero :: tokenWindow where
  "tokenWindow_zero = \<lparr>tw_buckets = replicate 64 0, tw_last = 0\<rparr>"

definition bucket :: "int \<Rightarrow> nat" where
  "bucket sec = nat (sec mod velocityBuckets)"

function zero_loop :: "int \<Rightarrow> int \<Rightarrow> int list \<Rightarrow> int list" where
  "zero_loop i sec bs = (if i \<le> sec then zero_loop (i + 1) sec (bs[bucket i := 0]) else bs)"
  by auto
termination by (relation "measure (\<lambda>(i, sec, _). nat (sec + 1 - i))") auto

declare zero_loop.simps [simp del]

definition tokenWindow_advance :: "int \<Rightarrow> tokenWindow \<Rightarrow> tokenWindow" where
  "tokenWindow_advance sec w =
     (if sec \<le> tw_last w then w
      else let first = (if sec - tw_last w > velocityBuckets then sec - velocityBuckets + 1 else tw_last w + 1)
           in \<lparr>tw_buckets = zero_loop first sec (tw_buckets w), tw_last = sec\<rparr>)"

definition tokenWindow_add :: "time \<Rightarrow> int \<Rightarrow> tokenWindow \<Rightarrow> tokenWindow" where
  "tokenWindow_add now tokens w =
     (if tokens \<le> 0 then w
      else let sec = time_Unix now; w = tokenWindow_advance sec w; i = bucket sec
           in w\<lparr>tw_buckets := (tw_buckets w)[i := wrap64 (tw_buckets w ! i + tokens)]\<rparr>)"

fun velocity_loop :: "int list \<Rightarrow> int \<Rightarrow> int list \<Rightarrow> int \<Rightarrow> int" where
  "velocity_loop bs sec [] acc = acc"
| "velocity_loop bs sec (i # is) acc =
     (let s = sec - i in if s < 0 then acc else velocity_loop bs sec is (wrap64 (acc + bs ! bucket s)))"

definition tokenWindow_velocity :: "time \<Rightarrow> tokenWindow \<Rightarrow> float64 \<times> tokenWindow" where
  "tokenWindow_velocity now w =
     (let sec = time_Unix now; w = tokenWindow_advance sec w;
          acc = velocity_loop (tw_buckets w) sec [0..velocityWindow - 1] 0
      in (f64_div (f64_of_int acc) (f64_of_int velocityWindow), w))"

record TokenPoint =
  tp_Second :: int
  tp_Tokens :: int

fun series_loop :: "int list \<Rightarrow> int \<Rightarrow> int list \<Rightarrow> TokenPoint list" where
  "series_loop bs sec [] = []"
| "series_loop bs sec (i # is) =
     (let s = sec - i
      in if s < 0 then series_loop bs sec is
         else \<lparr>tp_Second = s, tp_Tokens = bs ! bucket s\<rparr> # series_loop bs sec is)"

definition tokenWindow_series :: "time \<Rightarrow> tokenWindow \<Rightarrow> TokenPoint list \<times> tokenWindow" where
  "tokenWindow_series now w =
     (let sec = time_Unix now; w = tokenWindow_advance sec w
      in (series_loop (tw_buckets w) sec (rev [0..velocityBuckets - 1]), w))"

record TriggerEvent =
  tr_Timestamp :: int
  tr_AgentID :: string
  tr_Model :: string
  tr_Reason :: string
  tr_SavedMicro :: int

type_synonym triggerRing = "TriggerEvent list"

definition triggerRing_push :: "TriggerEvent \<Rightarrow> triggerRing \<Rightarrow> triggerRing" where
  "triggerRing_push ev r =
     (let r = r @ [ev] in if length r > triggerCap then drop (length r - triggerCap) r else r)"

definition triggerRing_snapshot :: "triggerRing \<Rightarrow> TriggerEvent list" where
  "triggerRing_snapshot r = map (\<lambda>i. r ! (length r - 1 - i)) [0..<length r]"

record Metrics =
  mt_active :: int
  mt_requests :: int
  mt_loopBlocks :: int
  mt_savedCost :: int
  mt_latencyNs :: int
  mt_latencyN :: int
  mt_tokens :: tokenWindow
  mt_triggers :: triggerRing
  mt_started :: time

definition NewMetrics :: "time \<Rightarrow> Metrics" where
  "NewMetrics now =
     \<lparr>mt_active = 0, mt_requests = 0, mt_loopBlocks = 0, mt_savedCost = 0, mt_latencyNs = 0, mt_latencyN = 0,
      mt_tokens = tokenWindow_zero, mt_triggers = [], mt_started = now\<rparr>"

definition markStart :: "Metrics option \<Rightarrow> Metrics option" where
  "markStart m = map_option (\<lambda>m. m\<lparr>mt_active := wrap64 (mt_active m + 1)\<rparr>) m"

definition markDone :: "Metrics option \<Rightarrow> Metrics option" where
  "markDone m = map_option (\<lambda>m. m\<lparr>mt_active := wrap64 (mt_active m + - 1)\<rparr>) m"

definition markLoopBlocked :: "time \<Rightarrow> int \<Rightarrow> int \<Rightarrow> Metrics option \<Rightarrow> Metrics option" where
  "markLoopBlocked now saved promptTok m =
     (case m of
        None \<Rightarrow> None
      | Some m \<Rightarrow>
          let m = m\<lparr>mt_loopBlocks := wrap64 (mt_loopBlocks m + 1)\<rparr>;
              m = m\<lparr>mt_savedCost := wrap64 (mt_savedCost m + saved)\<rparr>
          in Some (m\<lparr>mt_tokens := tokenWindow_add now promptTok (mt_tokens m)\<rparr>))"

definition markForwarded :: "time \<Rightarrow> duration \<Rightarrow> int \<Rightarrow> int \<Rightarrow> Metrics option \<Rightarrow> Metrics option" where
  "markForwarded now latency promptTok completionTok m =
     (case m of
        None \<Rightarrow> None
      | Some m \<Rightarrow>
          let m = m\<lparr>mt_requests := wrap64 (mt_requests m + 1)\<rparr>;
              m = m\<lparr>mt_latencyNs := wrap64 (mt_latencyNs m + latency)\<rparr>;
              m = m\<lparr>mt_latencyN := wrap64 (mt_latencyN m + 1)\<rparr>
          in Some (m\<lparr>mt_tokens := tokenWindow_add now (wrap64 (promptTok + completionTok)) (mt_tokens m)\<rparr>))"

definition recordTrigger :: "TriggerEvent \<Rightarrow> Metrics option \<Rightarrow> Metrics option" where
  "recordTrigger t m = map_option (\<lambda>m. m\<lparr>mt_triggers := triggerRing_push t (mt_triggers m)\<rparr>) m"

record MetricsSnapshot =
  sn_ActiveRequests :: int
  sn_TotalRequests :: int
  sn_LoopBlocks :: int
  sn_BlockedAgents :: int
  sn_SavedCostMicroUSD :: int
  sn_AvgLatencyMicro :: int
  sn_TokenVelocity :: float64
  sn_TokenSeries :: "TokenPoint list"
  sn_RecentTriggers :: "TriggerEvent list"
  sn_UptimeSeconds :: int

definition MetricsSnapshot_zero :: MetricsSnapshot where
  "MetricsSnapshot_zero =
     \<lparr>sn_ActiveRequests = 0, sn_TotalRequests = 0, sn_LoopBlocks = 0, sn_BlockedAgents = 0, sn_SavedCostMicroUSD = 0,
      sn_AvgLatencyMicro = 0, sn_TokenVelocity = Fin 0, sn_TokenSeries = [], sn_RecentTriggers = [], sn_UptimeSeconds = 0\<rparr>"

definition Metrics_Snapshot :: "time \<Rightarrow> Metrics \<Rightarrow> MetricsSnapshot \<times> Metrics" where
  "Metrics_Snapshot now m =
     (let n = mt_latencyN m;
          avg = (if n > 0 then go_quot (go_quot (mt_latencyNs m) n) 1000 else 0);
          (velocity, w) = tokenWindow_velocity now (mt_tokens m);
          (series, w) = tokenWindow_series now w
      in (\<lparr>sn_ActiveRequests = mt_active m, sn_TotalRequests = mt_requests m, sn_LoopBlocks = mt_loopBlocks m,
           sn_BlockedAgents = 0, sn_SavedCostMicroUSD = mt_savedCost m, sn_AvgLatencyMicro = avg,
           sn_TokenVelocity = velocity, sn_TokenSeries = series, sn_RecentTriggers = triggerRing_snapshot (mt_triggers m),
           sn_UptimeSeconds = f64_to_int (Duration_Seconds (time_Sub now (mt_started m)))\<rparr>,
          m\<lparr>mt_tokens := w\<rparr>))"

text \<open>The endpoint: status, snapshot served and new registry. \<open>blocked\<close> is the number of blocked
  agents when the detector can report it.\<close>

definition MetricsHandler :: "int option \<Rightarrow> time \<Rightarrow> string \<Rightarrow> Metrics option \<Rightarrow> int \<times> MetricsSnapshot option \<times> Metrics option" where
  "MetricsHandler blocked now method m =
     (if method \<noteq> ''GET'' then (405, None, m)
      else let (snap, m') = (case m of
                 None \<Rightarrow> (MetricsSnapshot_zero, None)
               | Some m \<Rightarrow> (case Metrics_Snapshot now m of (s, m) \<Rightarrow> (s, Some m)));
               snap = (case blocked of None \<Rightarrow> snap | Some n \<Rightarrow> snap\<lparr>sn_BlockedAgents := n\<rparr>)
           in (200, Some snap, m'))"

section \<open>The token ring\<close>

lemma bucket_less [simp]: "bucket s < 64"
  by (simp add: bucket_def velocityBuckets_def nat_less_iff)

lemma bucket_eq_iff: "bucket s = bucket s' \<longleftrightarrow> s mod 64 = s' mod 64"
  by (simp add: bucket_def velocityBuckets_def eq_nat_nat_iff)

lemma bucket_distinct:
  assumes "s < s'" and "s' - s < 64"
  shows "bucket s \<noteq> bucket s'"
proof
  assume "bucket s = bucket s'"
  then have "64 dvd s' - s" by (metis bucket_eq_iff mod_eq_dvd_iff)
  with assms show False by (auto dest: zdvd_imp_le)
qed

lemma length_zero_loop [simp]: "length (zero_loop i sec bs) = length bs"
  by (induction i sec bs rule: zero_loop.induct) (subst zero_loop.simps, simp)

lemma zero_loop_nth:
  assumes "k < length bs"
  shows "zero_loop i sec bs ! k = (if \<exists>j. i \<le> j \<and> j \<le> sec \<and> bucket j = k then 0 else bs ! k)"
  using assms
proof (induction i sec bs rule: zero_loop.induct)
  case (1 i sec bs)
  show ?case
  proof (cases "i \<le> sec")
    case True
    have "(\<exists>j. i \<le> j \<and> j \<le> sec \<and> bucket j = k) \<longleftrightarrow> bucket i = k \<or> (\<exists>j. i + 1 \<le> j \<and> j \<le> sec \<and> bucket j = k)"
      using True by (metis add1_zle_eq order_le_less zle_add1_eq_le)
    then show ?thesis using 1 True by (auto simp: zero_loop.simps [of i] nth_list_update)
  qed (auto simp: zero_loop.simps [of i])
qed

text \<open>The tokens recorded at a second of the history.\<close>

definition tokens_at :: "(int \<times> int) list \<Rightarrow> int \<Rightarrow> int" where
  "tokens_at hist s = (\<Sum>(sec, tok)\<leftarrow>hist. if sec = s then tok else 0)"

text \<open>The ring holds the counts of the last 64 seconds.\<close>

definition ring_ok :: "(int \<times> int) list \<Rightarrow> tokenWindow \<Rightarrow> bool" where
  "ring_ok hist w \<longleftrightarrow> length (tw_buckets w) = 64 \<and> 0 \<le> tw_last w \<and> (\<forall>(sec, _)\<in>set hist. sec \<le> tw_last w) \<and>
     (\<forall>s. 0 \<le> s \<and> tw_last w - 64 < s \<and> s \<le> tw_last w \<longrightarrow> tw_buckets w ! bucket s = wrap64 (tokens_at hist s))"

lemma tokens_at_later: "\<forall>(sec, _)\<in>set hist. sec < s \<Longrightarrow> tokens_at hist s = 0"
  by (induction hist) (auto simp: tokens_at_def)

lemma wrap64_0 [simp]: "wrap64 0 = 0"
  by (simp add: wrap64_id is_int64_iff)

lemma wrap64_sum: "wrap64 (\<Sum>x\<leftarrow>xs. wrap64 (f x)) = wrap64 (\<Sum>x\<leftarrow>xs. f x)"
proof (induction xs)
  case (Cons x xs)
  have "wrap64 (\<Sum>x\<leftarrow>x # xs. wrap64 (f x)) = wrap64 (f x + wrap64 (\<Sum>x\<leftarrow>xs. wrap64 (f x)))" by simp
  then show ?case by (simp add: Cons)
qed simp

lemma ring_ok_zero: "ring_ok [] tokenWindow_zero"
  by (simp add: ring_ok_def tokenWindow_zero_def tokens_at_def)

lemma ring_ok_advance:
  assumes "ring_ok hist w"
  shows "ring_ok hist (tokenWindow_advance sec w)" and "tw_last (tokenWindow_advance sec w) = max sec (tw_last w)"
proof -
  show "tw_last (tokenWindow_advance sec w) = max sec (tw_last w)"
    by (simp add: tokenWindow_advance_def Let_def)
  show "ring_ok hist (tokenWindow_advance sec w)"
  proof (cases "sec \<le> tw_last w")
    case False
    define first where "first = (if sec - tw_last w > 64 then sec - 64 + 1 else tw_last w + 1)"
    have adv: "tokenWindow_advance sec w = \<lparr>tw_buckets = zero_loop first sec (tw_buckets w), tw_last = sec\<rparr>"
      using False by (simp add: tokenWindow_advance_def Let_def first_def velocityBuckets_def)
    have w: "length (tw_buckets w) = 64" "0 \<le> tw_last w" "\<forall>(sec, _)\<in>set hist. sec \<le> tw_last w"
      using assms by (simp_all add: ring_ok_def)
    have "zero_loop first sec (tw_buckets w) ! bucket s = wrap64 (tokens_at hist s)"
      if s: "0 \<le> s" "sec - 64 < s" "s \<le> sec" for s
    proof (cases "tw_last w < s")
      case True
      then have "\<forall>(sec, _)\<in>set hist. sec < s" using w(3) by auto
      moreover have "first \<le> s" using True s by (simp add: first_def)
      ultimately show ?thesis using s w(1) by (auto simp: zero_loop_nth tokens_at_later)
    next
      case older: False
      have "bucket j \<noteq> bucket s" if "first \<le> j" "j \<le> sec" for j
        using bucket_distinct [of s j] that s older by (auto simp: first_def split: if_splits)
      then have "zero_loop first sec (tw_buckets w) ! bucket s = tw_buckets w ! bucket s"
        using w(1) by (auto simp: zero_loop_nth)
      then show ?thesis using assms older s False by (simp add: ring_ok_def)
    qed
    then show ?thesis using w False by (auto simp: ring_ok_def adv)
  qed (use assms in \<open>simp add: tokenWindow_advance_def\<close>)
qed

lemma ring_ok_add:
  assumes "ring_ok hist w" and "tw_last w \<le> time_Unix now" and "0 < tokens"
  shows "ring_ok (hist @ [(time_Unix now, tokens)]) (tokenWindow_add now tokens w)"
    and "tw_last (tokenWindow_add now tokens w) = time_Unix now"
proof -
  let ?sec = "time_Unix now"
  define w1 where "w1 = tokenWindow_advance ?sec w"
  have w1: "ring_ok hist w1" "tw_last w1 = ?sec" using ring_ok_advance [OF assms(1), of ?sec] assms(2) by (simp_all add: w1_def)
  have add: "tokenWindow_add now tokens w =
      w1\<lparr>tw_buckets := (tw_buckets w1)[bucket ?sec := wrap64 (tw_buckets w1 ! bucket ?sec + tokens)]\<rparr>"
    using assms(3) by (simp add: tokenWindow_add_def Let_def w1_def)
  show "tw_last (tokenWindow_add now tokens w) = ?sec" by (simp add: add w1(2))
  have "(tw_buckets w1)[bucket ?sec := wrap64 (tw_buckets w1 ! bucket ?sec + tokens)] ! bucket s =
      wrap64 (tokens_at (hist @ [(?sec, tokens)]) s)" if "0 \<le> s" "?sec - 64 < s" "s \<le> ?sec" for s
  proof (cases "s = ?sec")
    case True
    then show ?thesis using w1 that by (simp add: ring_ok_def tokens_at_def nth_list_update)
  next
    case False
    then have "bucket s \<noteq> bucket ?sec" using that by (intro bucket_distinct) simp_all
    then show ?thesis using False w1 that by (simp add: ring_ok_def tokens_at_def nth_list_update)
  qed
  then show "ring_ok (hist @ [(?sec, tokens)]) (tokenWindow_add now tokens w)"
    using w1 by (auto simp: ring_ok_def add)
qed

lemma series_loop_map:
  "series_loop bs sec is = map (\<lambda>i. \<lparr>tp_Second = sec - i, tp_Tokens = bs ! bucket (sec - i)\<rparr>) (filter (\<lambda>i. i \<le> sec) is)"
  by (induction "is") (auto simp: Let_def)

lemma velocity_loop_sum:
  assumes "sorted is" and "is_int64 acc"
  shows "velocity_loop bs sec is acc = wrap64 (acc + (\<Sum>i\<leftarrow>filter (\<lambda>i. i \<le> sec) is. bs ! bucket (sec - i)))"
  using assms
proof (induction "is" arbitrary: acc)
  case (Cons i "is")
  show ?case
  proof (cases "i \<le> sec")
    case True
    then show ?thesis using Cons by (simp add: Let_def add.assoc)
  next
    case False
    then have "filter (\<lambda>i. i \<le> sec) is = []" using Cons.prems(1) by (auto simp: filter_empty_conv)
    then show ?thesis using False Cons.prems(2) by (simp add: Let_def wrap64_id)
  qed
qed (simp add: wrap64_id)

text \<open>A run of additions by a clock that does not go back.\<close>

definition token_run :: "(time \<times> int) list \<Rightarrow> tokenWindow \<Rightarrow> tokenWindow" where
  "token_run xs w = fold (\<lambda>(now, tok). tokenWindow_add now tok) xs w"

definition token_hist :: "(time \<times> int) list \<Rightarrow> (int \<times> int) list" where
  "token_hist xs = map (\<lambda>(now, tok). (time_Unix now, tok)) (filter (\<lambda>(_, tok). 0 < tok) xs)"

lemma token_run_ok:
  assumes "sorted (map (\<lambda>(now, _). time_Unix now) xs @ [t])" and "\<forall>(now, _)\<in>set xs. 0 \<le> time_Unix now" and "0 \<le> t"
  shows "ring_ok (token_hist xs) (token_run xs tokenWindow_zero) \<and> tw_last (token_run xs tokenWindow_zero) \<le> t"
  using assms
proof (induction xs arbitrary: t rule: rev_induct)
  case Nil
  then show ?case by (simp add: token_hist_def token_run_def ring_ok_zero) (simp add: tokenWindow_zero_def)
next
  case (snoc x xs)
  obtain now tok where x: "x = (now, tok)" by (cases x)
  have "ring_ok (token_hist xs) (token_run xs tokenWindow_zero) \<and> tw_last (token_run xs tokenWindow_zero) \<le> time_Unix now"
    using snoc.prems x by (intro snoc.IH) (auto simp: sorted_append)
  moreover have "time_Unix now \<le> t" using snoc.prems(1) x by (simp add: sorted_append)
  ultimately show ?case
    using ring_ok_add [of "token_hist xs" "token_run xs tokenWindow_zero" now tok]
    by (cases "0 < tok") (auto simp: x token_run_def token_hist_def tokenWindow_add_def)
qed

lemma map_minus_upto: "map (\<lambda>i. sec - i) (rev [0..int n]) = [sec - int n..sec]"
proof (induction n)
  case (Suc n)
  have "[0..int (Suc n)] = [0..int n] @ [int n + 1]" by (simp add: upto_rec2 add.commute)
  then show ?case using Suc upto_rec1 [of "sec - int (Suc n)" sec] by simp
qed simp

lemma filter_upto: "filter (\<lambda>s. 0 \<le> s) [a..b] = [max 0 a..b]" for a b :: int
  by (rule sorted_distinct_set_unique) (auto simp: sorted_wrt_filter)

lemma seconds_back: "map f (map (\<lambda>i. sec - i) (filter (\<lambda>i. i \<le> sec) (rev [0..int n]))) = map f [max 0 (sec - int n)..sec]"
proof -
  have "map (\<lambda>i. sec - i) (filter (\<lambda>i. i \<le> sec) (rev [0..int n])) = filter (\<lambda>s. 0 \<le> s) (map (\<lambda>i. sec - i) (rev [0..int n]))"
    by (simp add: filter_map comp_def)
  then show ?thesis by (simp only: map_minus_upto filter_upto)
qed

lemma sum_list_rev_filter: "(\<Sum>i\<leftarrow>filter P xs. f i) = (\<Sum>i\<leftarrow>filter P (rev xs). f i)" for f :: "'a \<Rightarrow> int"
  by (simp add: rev_filter [symmetric] rev_map [symmetric] sum_list_rev)

section \<open>The trigger ring\<close>

lemma triggerRing_push_lastn: "triggerRing_push ev r = lastn triggerCap (r @ [ev])"
  by (simp add: triggerRing_push_def Let_def lastn_def)

lemma triggerRing_snapshot_rev: "triggerRing_snapshot r = rev r"
  by (rule nth_equalityI) (simp_all add: triggerRing_snapshot_def rev_nth)

lemma rev_lastn: "rev (lastn n xs) = take n (rev xs)"
  by (cases "length xs \<le> n") (simp_all add: lastn_def rev_drop)

lemma triggers_run: "fold triggerRing_push evs (lastn triggerCap r) = lastn triggerCap (r @ evs)"
proof (induction evs arbitrary: r)
  case (Cons ev evs)
  have "triggerRing_push ev (lastn triggerCap r) = lastn triggerCap (r @ [ev])"
    by (simp add: triggerRing_push_lastn lastn_push)
  then show ?case using Cons [of "r @ [ev]"] by simp
qed simp

section \<open>Counters\<close>

datatype mark = Start | Done | Blocked time int int | Forwarded time duration int int | Trigger TriggerEvent

fun apply_mark :: "mark \<Rightarrow> Metrics option \<Rightarrow> Metrics option" where
  "apply_mark Start = markStart"
| "apply_mark Done = markDone"
| "apply_mark (Blocked now saved tok) = markLoopBlocked now saved tok"
| "apply_mark (Forwarded now lat pt ct) = markForwarded now lat pt ct"
| "apply_mark (Trigger t) = recordTrigger t"

fun active_of :: "mark \<Rightarrow> int" where
  "active_of Start = 1" | "active_of Done = - 1" | "active_of _ = 0"

fun blocks_of :: "mark \<Rightarrow> int" where
  "blocks_of (Blocked _ _ _) = 1" | "blocks_of _ = 0"

fun saved_of :: "mark \<Rightarrow> int" where
  "saved_of (Blocked _ saved _) = saved" | "saved_of _ = 0"

fun requests_of :: "mark \<Rightarrow> int" where
  "requests_of (Forwarded _ _ _ _) = 1" | "requests_of _ = 0"

fun trigger_of :: "mark \<Rightarrow> TriggerEvent list" where
  "trigger_of (Trigger t) = [t]" | "trigger_of _ = []"

text \<open>The counters as sums over the marks, from any state of a registry.\<close>

lemma marks_run:
  assumes "is_int64 (mt_active m)" "is_int64 (mt_loopBlocks m)" "is_int64 (mt_savedCost m)" "is_int64 (mt_requests m)"
    and "mt_triggers m = lastn triggerCap ts"
  shows "\<exists>m'. fold apply_mark marks (Some m) = Some m' \<and>
    mt_active m' = wrap64 (mt_active m + (\<Sum>k\<leftarrow>marks. active_of k)) \<and>
    mt_loopBlocks m' = wrap64 (mt_loopBlocks m + (\<Sum>k\<leftarrow>marks. blocks_of k)) \<and>
    mt_savedCost m' = wrap64 (mt_savedCost m + (\<Sum>k\<leftarrow>marks. saved_of k)) \<and>
    mt_requests m' = wrap64 (mt_requests m + (\<Sum>k\<leftarrow>marks. requests_of k)) \<and>
    mt_triggers m' = lastn triggerCap (ts @ concat (map trigger_of marks))"
  using assms
proof (induction marks arbitrary: m ts)
  case Nil
  then show ?case by (simp add: wrap64_id)
next
  case (Cons k marks)
  obtain m1 where m1: "apply_mark k (Some m) = Some m1"
      "mt_active m1 = wrap64 (mt_active m + active_of k)" "mt_loopBlocks m1 = wrap64 (mt_loopBlocks m + blocks_of k)"
      "mt_savedCost m1 = wrap64 (mt_savedCost m + saved_of k)" "mt_requests m1 = wrap64 (mt_requests m + requests_of k)"
      "mt_triggers m1 = lastn triggerCap (ts @ trigger_of k)"
    using Cons.prems
    by (cases k) (auto simp: markStart_def markDone_def markLoopBlocked_def markForwarded_def recordTrigger_def Let_def
        wrap64_id triggerRing_push_lastn lastn_push)
  have "is_int64 (mt_active m1)" "is_int64 (mt_loopBlocks m1)" "is_int64 (mt_savedCost m1)" "is_int64 (mt_requests m1)"
    by (simp_all add: m1)
  from Cons.IH [OF this m1(6)] m1 show ?case by (auto simp: add.assoc)
qed

section \<open>Properties\<close>

text \<open>
  The token gauge refines the history: for any sequence of recordings by a clock that does not go
  back, however far apart, the series read at a later instant lists each of the last 64 seconds (from
  1970 on) with exactly the tokens recorded in it, modulo 64 bits, and the velocity is the binary64
  quotient of the tokens of the last five seconds by five.
\<close>

theorem token_gauge_refines:
  fixes xs :: "(time \<times> int) list"
  defines "w \<equiv> token_run xs tokenWindow_zero" and "hist \<equiv> token_hist xs"
  assumes "sorted (map (\<lambda>(now, _). time_Unix now) xs @ [time_Unix now])" and "\<forall>(now, _)\<in>set xs. 0 \<le> time_Unix now"
    and "0 \<le> time_Unix now"
  shows "fst (tokenWindow_series now w) =
      map (\<lambda>s. \<lparr>tp_Second = s, tp_Tokens = wrap64 (tokens_at hist s)\<rparr>) [max 0 (time_Unix now - 63)..time_Unix now] \<and>
    fst (tokenWindow_velocity now w) =
      f64_div (f64_of_int (wrap64 (\<Sum>s\<leftarrow>[max 0 (time_Unix now - 4)..time_Unix now]. tokens_at hist s))) (Fin 5)"
proof -
  let ?sec = "time_Unix now"
  define bs where "bs = tw_buckets (tokenWindow_advance ?sec w)"
  have "ring_ok hist w" "tw_last w \<le> ?sec" using token_run_ok [OF assms(3-5)] by (simp_all add: w_def hist_def)
  then have ring: "ring_ok hist (tokenWindow_advance ?sec w)" "tw_last (tokenWindow_advance ?sec w) = ?sec"
    using ring_ok_advance [of hist w ?sec] by simp_all
  then have at: "bs ! bucket s = wrap64 (tokens_at hist s)" if "0 \<le> s" "?sec - 64 < s" "s \<le> ?sec" for s
    using that by (simp add: ring_ok_def bs_def)
  have "fst (tokenWindow_series now w) =
      map (\<lambda>s. \<lparr>tp_Second = s, tp_Tokens = bs ! bucket s\<rparr>) (map (\<lambda>i. ?sec - i) (filter (\<lambda>i. i \<le> ?sec) (rev [0..int 63])))"
    by (simp add: tokenWindow_series_def Let_def velocityBuckets_def series_loop_map bs_def comp_def)
  also have "\<dots> = map (\<lambda>s. \<lparr>tp_Second = s, tp_Tokens = bs ! bucket s\<rparr>) [max 0 (?sec - int 63)..?sec]"
    by (rule seconds_back)
  finally have series: "fst (tokenWindow_series now w) =
      map (\<lambda>s. \<lparr>tp_Second = s, tp_Tokens = wrap64 (tokens_at hist s)\<rparr>) [max 0 (?sec - 63)..?sec]"
    using at by simp
  have "velocity_loop bs ?sec [0..4] 0 = wrap64 (\<Sum>i\<leftarrow>filter (\<lambda>i. i \<le> ?sec) (rev [0..int 4]). bs ! bucket (?sec - i))"
    using velocity_loop_sum [of "[0..4]" 0 bs ?sec] sum_list_rev_filter [of "\<lambda>i. bs ! bucket (?sec - i)" "\<lambda>i. i \<le> ?sec" "[0..4]"]
    by (simp add: is_int64_iff del: upto_rec_numeral)
  also have "\<dots> = wrap64 (\<Sum>s\<leftarrow>[max 0 (?sec - int 4)..?sec]. bs ! bucket s)"
    using seconds_back [of "\<lambda>s. bs ! bucket s" ?sec 4] by (simp add: comp_def)
  also have "\<dots> = wrap64 (\<Sum>s\<leftarrow>[max 0 (?sec - 4)..?sec]. wrap64 (tokens_at hist s))"
    using at by (intro arg_cong [of _ _ wrap64] arg_cong [of _ _ sum_list] map_cong) simp_all
  also have "\<dots> = wrap64 (\<Sum>s\<leftarrow>[max 0 (?sec - 4)..?sec]. tokens_at hist s)" by (rule wrap64_sum)
  finally show ?thesis
    using series by (simp add: tokenWindow_velocity_def Let_def velocityWindow_def bs_def f64_of_int_exact)
qed

theorem token_gauge_refines_witness:
  "fst (tokenWindow_velocity ((unix_offset + 1000) * Second)
     (token_run [((unix_offset + 900) * Second, 7), ((unix_offset + 996) * Second, 20), ((unix_offset + 1000) * Second, 30)] tokenWindow_zero)) = Fin 10"
proof -
  let ?xs = "[((unix_offset + 900) * Second, 7), ((unix_offset + 996) * Second, 20), ((unix_offset + 1000) * Second, 30)] :: (time \<times> int) list"
  let ?now = "(unix_offset + 1000) * Second"
  have u: "time_Unix ((unix_offset + n) * Second) = n" for n by (simp add: time_Unix_def Second_def)
  have "sorted (map (\<lambda>(now, _). time_Unix now) ?xs @ [time_Unix ?now])" "\<forall>(now, _)\<in>set ?xs. 0 \<le> time_Unix now" "0 \<le> time_Unix ?now"
    by (simp_all add: u)
  note g = token_gauge_refines [OF this, THEN conjunct2]
  have "fst (tokenWindow_velocity ?now (token_run ?xs tokenWindow_zero)) = f64_div (f64_of_int 50) (Fin 5)"
    unfolding g by (simp add: u token_hist_def tokens_at_def upto_rec1 wrap64_id is_int64_iff)
  also have "\<dots> = Fin 10" by (simp add: f64_of_int_exact round64_int [of 10, simplified])
  finally show ?thesis .
qed

text \<open>
  The counters and the block history, for any interleaving of the requests' marks on a new
  registry: requests in flight are the starts minus the completions, the totals count the forwarded
  and blocked requests and sum the saved cost, modulo 64 bits, and the trigger history is the last
  hundred blocks, newest first. A missing registry stays missing.
\<close>

theorem metrics_count:
  "\<exists>m. fold apply_mark marks (Some (NewMetrics now)) = Some m \<and>
     mt_active m = wrap64 (\<Sum>k\<leftarrow>marks. active_of k) \<and> mt_loopBlocks m = wrap64 (\<Sum>k\<leftarrow>marks. blocks_of k) \<and>
     mt_savedCost m = wrap64 (\<Sum>k\<leftarrow>marks. saved_of k) \<and> mt_requests m = wrap64 (\<Sum>k\<leftarrow>marks. requests_of k) \<and>
     triggerRing_snapshot (mt_triggers m) = take 100 (rev (concat (map trigger_of marks))) \<and>
     fold apply_mark marks None = None"
proof -
  have none: "fold apply_mark marks None = None"
  proof (induction marks)
    case (Cons k marks)
    then show ?case
      by (cases k) (simp_all add: markStart_def markDone_def markLoopBlocked_def markForwarded_def recordTrigger_def)
  qed simp
  have "mt_triggers (NewMetrics now) = lastn triggerCap []" by (simp add: NewMetrics_def)
  from marks_run [OF _ _ _ _ this, of marks] show ?thesis
    using none by (auto simp: NewMetrics_def is_int64_iff triggerRing_snapshot_rev rev_lastn triggerCap_def)
qed

end
