(* ===== verification/Cost_Tracking.thy ===== *)
theory Cost_Tracking
  imports Go_Strings
begin

text \<open>
  The observer of upstream response bodies (\<^verbatim>\<open>pkg/proxy/cost_tracking.go\<close>): it
  passes the bytes on and recovers the token usage from an event stream or a JSON body, retaining at
  most a bounded amount of it. The bytes a read of the upstream body returned are an argument, the
  callback \<^verbatim>\<open>onCost\<close> is a function on the state of its receiver. The callback itself
  is modelled with the handler.
\<close>

section \<open>Definitions\<close>

definition usageBufferCap :: nat where "usageBufferCap = 2 ^ 20"

record reqMeta =
  rm_model :: string
  rm_promptTok :: int
  rm_agent :: string
  rm_fp :: string
  rm_projectName :: string
  rm_callerID :: string
  rm_statusCode :: int
  rm_trackCost :: bool
  rm_start :: time

record usageTrackingBody =
  ub_meta :: reqMeta
  ub_isSSE :: bool
  ub_once :: bool
  ub_pending :: string
  ub_overCap :: bool
  ub_haveUse :: bool
  ub_useP :: int
  ub_useC :: int
  ub_deltaCh :: int
  ub_jsonBuf :: string

definition newUsageBody :: "reqMeta \<Rightarrow> bool \<Rightarrow> usageTrackingBody" where
  "newUsageBody meta isSSE =
     \<lparr>ub_meta = meta, ub_isSSE = isSSE, ub_once = False, ub_pending = '''', ub_overCap = False, ub_haveUse = False,
      ub_useP = 0, ub_useC = 0, ub_deltaCh = 0, ub_jsonBuf = ''''\<rparr>"

text \<open>Whether a response is an event stream, from its content type.\<close>

definition isEventStream :: "string \<Rightarrow> bool" where
  "isEventStream contentType = Contains (ToLower contentType) ''text/event-stream''"

definition store_usage :: "(int \<times> int) store" where
  "store_usage = store_struct
     [(''prompt_tokens'', \<lambda>v (p, c). map_option (\<lambda>x. (x, c)) (store_int64 v p)),
      (''completion_tokens'', \<lambda>v (p, c). map_option (\<lambda>x. (p, x)) (store_int64 v c))]"

definition store_choice :: "string store" where
  "store_choice = store_struct [(''delta'', store_struct [(''content'', store_string)])]"

type_synonym sse_chunk = "string slice \<times> (int \<times> int) option"

definition store_chunk :: "sse_chunk store" where
  "store_chunk = store_struct
     [(''choices'', \<lambda>v (cs, u). map_option (\<lambda>x. (x, u)) (store_slice '''' store_choice v cs)),
      (''usage'', \<lambda>v (cs, u). map_option (\<lambda>x. (cs, x)) (store_ptr (0, 0) store_usage v u))]"

definition parseSSEPayload :: "string \<Rightarrow> usageTrackingBody \<Rightarrow> usageTrackingBody" where
  "parseSSEPayload payload b =
     (if ub_overCap b \<or> ub_haveUse b then b
      else case unmarshal store_chunk (([], []), None) payload of
             None \<Rightarrow> b
           | Some (choices, usage) \<Rightarrow>
               (case usage of
                  Some (p, c) \<Rightarrow> b\<lparr>ub_useP := p, ub_useC := c, ub_haveUse := True\<rparr>
                | None \<Rightarrow> b\<lparr>ub_deltaCh := fold (\<lambda>content n. wrap64 (n + int (length content))) (fst choices) (ub_deltaCh b)\<rparr>))"

definition processLine :: "string \<Rightarrow> usageTrackingBody \<Rightarrow> usageTrackingBody" where
  "processLine line b =
     (let line = TrimSuffix line [CHR 0x0D]
      in if \<not> HasPrefix line ''data:'' then b
         else let payload = TrimSpace (drop (length ''data:'') line)
              in if payload = '''' then b
                 else if payload = ''[DONE]'' then b
                 else parseSSEPayload payload b)"

abbreviation LF :: char where "LF \<equiv> CHR 0x0A"

lemma processLine_pending [simp]: "ub_pending (processLine line b) = ub_pending b"
  by (simp add: processLine_def parseSSEPayload_def Let_def split: option.split)

function feed_lines :: "usageTrackingBody \<Rightarrow> usageTrackingBody" where
  "feed_lines b =
     (if LF \<notin> set (ub_pending b) then b
      else let line = takeWhile (\<lambda>c. c \<noteq> LF) (ub_pending b);
               b = b\<lparr>ub_pending := tl (dropWhile (\<lambda>c. c \<noteq> LF) (ub_pending b))\<rparr>
           in feed_lines (processLine line b))"
  by auto
termination
proof (relation "measure (\<lambda>b. length (ub_pending b))")
  fix b :: usageTrackingBody and line b'
  assume "\<not> LF \<notin> set (ub_pending b)"
    and b': "b' = b\<lparr>ub_pending := tl (dropWhile (\<lambda>c. c \<noteq> LF) (ub_pending b))\<rparr>"
  then have "dropWhile (\<lambda>c. c \<noteq> LF) (ub_pending b) \<noteq> []" by (auto simp: dropWhile_eq_Nil_conv)
  moreover have "length (dropWhile (\<lambda>c. c \<noteq> LF) (ub_pending b)) \<le> length (ub_pending b)" by (rule length_dropWhile_le)
  ultimately show "(processLine line b', b) \<in> measure (\<lambda>b. length (ub_pending b))"
    by (cases "dropWhile (\<lambda>c. c \<noteq> LF) (ub_pending b)") (auto simp: b')
qed simp

declare feed_lines.simps [simp del]

definition feedSSE :: "string \<Rightarrow> usageTrackingBody \<Rightarrow> usageTrackingBody" where
  "feedSSE chunk b =
     (if ub_overCap b then b
      else let b = b\<lparr>ub_pending := ub_pending b @ chunk\<rparr>
           in if length (ub_pending b) > usageBufferCap
              then let b = b\<lparr>ub_overCap := True, ub_pending := ''''\<rparr>
                   in if \<not> ub_haveUse b then b\<lparr>ub_deltaCh := 0\<rparr> else b
              else feed_lines b)"

definition feedJSON :: "string \<Rightarrow> usageTrackingBody \<Rightarrow> usageTrackingBody" where
  "feedJSON chunk b =
     (if ub_overCap b then b
      else if length (ub_jsonBuf b) + length chunk > usageBufferCap then b\<lparr>ub_overCap := True, ub_jsonBuf := ''''\<rparr>
      else b\<lparr>ub_jsonBuf := ub_jsonBuf b @ chunk\<rparr>)"

definition parseChunk :: "string \<Rightarrow> usageTrackingBody \<Rightarrow> usageTrackingBody" where
  "parseChunk chunk b = (if ub_isSSE b then feedSSE chunk b else feedJSON chunk b)"

definition parseJSONUsage :: "string \<Rightarrow> (int \<times> int) option" where
  "parseJSONUsage body =
     (case unmarshal (store_struct [(''usage'', store_ptr (0, 0) store_usage)]) None body of
        None \<Rightarrow> None
      | Some usage \<Rightarrow> usage)"

definition estimateCompletionTokens :: "int \<Rightarrow> int" where
  "estimateCompletionTokens chars = (if chars \<le> 0 then 0 else go_quot (wrap64 (chars + 3)) 4)"

definition usage_tokens :: "usageTrackingBody \<Rightarrow> int \<times> int" where
  "usage_tokens b =
     (if ub_isSSE b
      then (if ub_haveUse b then (ub_useP b, ub_useC b)
            else (rm_promptTok (ub_meta b), estimateCompletionTokens (ub_deltaCh b)))
      else case (if \<not> ub_overCap b then parseJSONUsage (ub_jsonBuf b) else None) of
             Some pc \<Rightarrow> pc
           | None \<Rightarrow> (rm_promptTok (ub_meta b), 0))"

type_synonym 'e onCost = "reqMeta \<Rightarrow> int \<Rightarrow> int \<Rightarrow> 'e \<Rightarrow> 'e"

definition finalize :: "'e onCost option \<Rightarrow> usageTrackingBody \<times> 'e \<Rightarrow> usageTrackingBody \<times> 'e" where
  "finalize onCost s =
     (let (b, e) = s
      in if ub_once b then (b, e)
         else (b\<lparr>ub_once := True\<rparr>,
               case onCost of
                 None \<Rightarrow> e
               | Some f \<Rightarrow> (let (promptTok, completionTok) = usage_tokens b in f (ub_meta b) promptTok completionTok e)))"

text \<open>A read that returned the bytes \<open>p\<close>, with the end of the body or not.\<close>

definition body_Read :: "'e onCost option \<Rightarrow> string \<Rightarrow> bool \<Rightarrow> usageTrackingBody \<times> 'e \<Rightarrow> usageTrackingBody \<times> 'e" where
  "body_Read onCost p eof s =
     (let (b, e) = s; b = (if length p > 0 then parseChunk p b else b)
      in if eof then finalize onCost (b, e) else (b, e))"

definition body_Close :: "'e onCost option \<Rightarrow> usageTrackingBody \<times> 'e \<Rightarrow> usageTrackingBody \<times> 'e" where
  "body_Close onCost s = finalize onCost s"

section \<open>The lines of a stream\<close>

text \<open>The complete lines of a stream and what follows the last line feed.\<close>

fun split_lines :: "string \<Rightarrow> string list \<times> string" where
  "split_lines [] = ([], [])"
| "split_lines (c # s) =
     (case split_lines s of (ls, r) \<Rightarrow>
        if c = LF then ([] # ls, r)
        else case ls of [] \<Rightarrow> ([], c # r) | l # ls' \<Rightarrow> ((c # l) # ls', r))"

lemma split_lines_append:
  "split_lines (s @ t) =
     (case split_lines s of (ls, r) \<Rightarrow> case split_lines (r @ t) of (ls', r') \<Rightarrow> (ls @ ls', r'))"
proof (induction s)
  case (Cons c s)
  obtain ls r where s: "split_lines s = (ls, r)" by (cases "split_lines s")
  obtain ls' r' where t: "split_lines (r @ t) = (ls', r')" by (cases "split_lines (r @ t)")
  have st: "split_lines (s @ t) = (ls @ ls', r')" using Cons s t by simp
  show ?case
  proof (cases "c = LF \<or> ls \<noteq> []")
    case True
    then show ?thesis using st s t by (cases ls) auto
  next
    case False
    then show ?thesis using st s t by simp
  qed
qed simp

lemma split_lines_none: "LF \<notin> set s \<Longrightarrow> split_lines s = ([], s)"
  by (induction s) auto

lemma split_lines_some:
  assumes "LF \<in> set s"
  shows "split_lines s = (takeWhile (\<lambda>c. c \<noteq> LF) s # fst (split_lines (tl (dropWhile (\<lambda>c. c \<noteq> LF) s))),
    snd (split_lines (tl (dropWhile (\<lambda>c. c \<noteq> LF) s))))"
  using assms
proof (induction s)
  case (Cons c s)
  then show ?case by (cases "c = LF") (auto simp: case_prod_unfold)
qed simp

lemma processLine_commute: "processLine line (b\<lparr>ub_pending := p\<rparr>) = (processLine line b)\<lparr>ub_pending := p\<rparr>"
  by (simp add: processLine_def parseSSEPayload_def Let_def split: option.split prod.split)

lemma fold_processLine_commute:
  "fold processLine ls (b\<lparr>ub_pending := p\<rparr>) = (fold processLine ls b)\<lparr>ub_pending := p\<rparr>"
  by (induction ls arbitrary: b) (simp_all add: processLine_commute)

lemma feed_lines_fold:
  "feed_lines b = (fold processLine (fst (split_lines (ub_pending b))) b)\<lparr>ub_pending := snd (split_lines (ub_pending b))\<rparr>"
proof (induction b rule: feed_lines.induct)
  case (1 b)
  show ?case
  proof (cases "LF \<in> set (ub_pending b)")
    case True
    let ?line = "takeWhile (\<lambda>c. c \<noteq> LF) (ub_pending b)"
    let ?rest = "tl (dropWhile (\<lambda>c. c \<noteq> LF) (ub_pending b))"
    have "feed_lines b = feed_lines (processLine ?line (b\<lparr>ub_pending := ?rest\<rparr>))"
      using True by (simp add: feed_lines.simps [of b] Let_def)
    also have "\<dots> = (fold processLine (fst (split_lines ?rest)) (processLine ?line (b\<lparr>ub_pending := ?rest\<rparr>)))\<lparr>ub_pending := snd (split_lines ?rest)\<rparr>"
      using 1 [OF _ refl refl] True by simp
    finally show ?thesis
      by (simp add: split_lines_some [OF True] processLine_commute fold_processLine_commute)
  qed (simp add: feed_lines.simps [of b] split_lines_none)
qed

section \<open>Feeding a body in chunks\<close>

lemma fold_processLine_keeps [simp]:
  "ub_meta (fold processLine ls b) = ub_meta b" "ub_isSSE (fold processLine ls b) = ub_isSSE b"
  "ub_once (fold processLine ls b) = ub_once b" "ub_overCap (fold processLine ls b) = ub_overCap b"
proof -
  have "ub_meta (processLine l b) = ub_meta b \<and> ub_isSSE (processLine l b) = ub_isSSE b \<and>
      ub_once (processLine l b) = ub_once b \<and> ub_overCap (processLine l b) = ub_overCap b" for l b
    by (simp add: processLine_def parseSSEPayload_def Let_def split: option.split prod.split)
  then show "ub_meta (fold processLine ls b) = ub_meta b" "ub_isSSE (fold processLine ls b) = ub_isSSE b"
      "ub_once (fold processLine ls b) = ub_once b" "ub_overCap (fold processLine ls b) = ub_overCap b"
    by (induction ls arbitrary: b) simp_all
qed

text \<open>The state of the observer after a prefix of a stream, and of a JSON body.\<close>

definition sse_state :: "reqMeta \<Rightarrow> string \<Rightarrow> usageTrackingBody" where
  "sse_state meta s =
     (fold processLine (fst (split_lines s)) (newUsageBody meta True))\<lparr>ub_pending := snd (split_lines s)\<rparr>"

definition json_state :: "reqMeta \<Rightarrow> string \<Rightarrow> usageTrackingBody" where
  "json_state meta s =
     (if length s \<le> usageBufferCap then (newUsageBody meta False)\<lparr>ub_jsonBuf := s\<rparr>
      else (newUsageBody meta False)\<lparr>ub_overCap := True\<rparr>)"

text \<open>No chunk together with the incomplete line before it exceeds the bound.\<close>

fun chunks_fit :: "string \<Rightarrow> string list \<Rightarrow> bool" where
  "chunks_fit s [] \<longleftrightarrow> True"
| "chunks_fit s (c # cs) \<longleftrightarrow> length (snd (split_lines s)) + length c \<le> usageBufferCap \<and> chunks_fit (s @ c) cs"

lemma split_lines_rest: "length (snd (split_lines s)) \<le> length s"
  by (induction s) (auto simp: case_prod_unfold split: list.split)

lemma chunks_fit_small: "length s + length (concat cs) \<le> usageBufferCap \<Longrightarrow> chunks_fit s cs"
proof (induction cs arbitrary: s)
  case (Cons c cs)
  then show ?case using split_lines_rest [of s] by simp
qed simp

lemma sse_state_flags [simp]:
  "ub_meta (sse_state meta s) = meta" "ub_isSSE (sse_state meta s) = True" "ub_once (sse_state meta s) = False"
  "ub_overCap (sse_state meta s) = False" "ub_pending (sse_state meta s) = snd (split_lines s)"
  by (simp_all add: sse_state_def newUsageBody_def)

lemma json_state_flags [simp]:
  "ub_meta (json_state meta s) = meta" "ub_isSSE (json_state meta s) = False" "ub_once (json_state meta s) = False"
  by (simp_all add: json_state_def newUsageBody_def)

lemma sse_state_feed:
  assumes "length (snd (split_lines s)) + length c \<le> usageBufferCap"
  shows "parseChunk c (sse_state meta s) = sse_state meta (s @ c)"
proof -
  obtain ls r where s: "split_lines s = (ls, r)" by (cases "split_lines s")
  obtain ls' r' where c: "split_lines (r @ c) = (ls', r')" by (cases "split_lines (r @ c)")
  have sc: "split_lines (s @ c) = (ls @ ls', r')" by (subst split_lines_append) (simp add: s c)
  have "parseChunk c (sse_state meta s) = feed_lines ((sse_state meta s)\<lparr>ub_pending := r @ c\<rparr>)"
    using assms s by (simp add: parseChunk_def feedSSE_def Let_def)
  also have "\<dots> = sse_state meta (s @ c)"
    by (simp add: feed_lines_fold c sse_state_def s sc fold_processLine_commute)
  finally show ?thesis .
qed

lemma json_state_feed: "parseChunk c (json_state meta s) = json_state meta (s @ c)"
  by (auto simp: parseChunk_def feedJSON_def json_state_def newUsageBody_def)

definition body_state :: "bool \<Rightarrow> reqMeta \<Rightarrow> string \<Rightarrow> usageTrackingBody" where
  "body_state isSSE meta s = (if isSSE then sse_state meta s else json_state meta s)"

lemma body_state_new: "newUsageBody meta isSSE = body_state isSSE meta ''''"
  by (simp add: body_state_def sse_state_def json_state_def newUsageBody_def)

lemma body_state_feed:
  assumes "isSSE \<longrightarrow> length (snd (split_lines s)) + length c \<le> usageBufferCap"
  shows "(if length c > 0 then parseChunk c (body_state isSSE meta s) else body_state isSSE meta s) = body_state isSSE meta (s @ c)"
  using assms by (auto simp: body_state_def sse_state_feed json_state_feed)

section \<open>The usage of a stream\<close>

text \<open>The data of a line, if it has any, and the decoded chunks of a stream.\<close>

definition line_payload :: "string \<Rightarrow> string option" where
  "line_payload line =
     (let line = TrimSuffix line [CHR 0x0D]; payload = TrimSpace (drop (length ''data:'') line)
      in if HasPrefix line ''data:'' \<and> payload \<noteq> '''' \<and> payload \<noteq> ''[DONE]'' then Some payload else None)"

definition line_chunk :: "string \<Rightarrow> sse_chunk option" where
  "line_chunk line = Option.bind (line_payload line) (unmarshal store_chunk (([], []), None))"

definition stream_chunks :: "string \<Rightarrow> sse_chunk list" where
  "stream_chunks s = List.map_filter line_chunk (fst (split_lines s))"

text \<open>The first usage object of the stream, else the estimate from the content deltas.\<close>

definition stream_usage :: "sse_chunk list \<Rightarrow> (int \<times> int) option" where
  "stream_usage chunks = (case find (\<lambda>(_, u). u \<noteq> None) chunks of Some (_, u) \<Rightarrow> u | None \<Rightarrow> None)"

definition stream_content :: "sse_chunk list \<Rightarrow> int" where
  "stream_content chunks = (\<Sum>(choices, _)\<leftarrow>chunks. \<Sum>content\<leftarrow>fst choices. int (length content))"

definition reference_tokens :: "bool \<Rightarrow> int \<Rightarrow> string \<Rightarrow> int \<times> int" where
  "reference_tokens isSSE promptTok body =
     (if isSSE
      then case stream_usage (stream_chunks body) of
             Some pc \<Rightarrow> pc
           | None \<Rightarrow> (promptTok, estimateCompletionTokens (wrap64 (stream_content (stream_chunks body))))
      else case (if length body \<le> usageBufferCap then parseJSONUsage body else None) of
             Some pc \<Rightarrow> pc
           | None \<Rightarrow> (promptTok, 0))"

lemma stream_Cons [simp]:
  "stream_usage ((choices, None) # chunks) = stream_usage chunks" "stream_usage ((choices, Some pc) # chunks) = Some pc"
  "stream_content ((choices, u) # chunks) = (\<Sum>content\<leftarrow>fst choices. int (length content)) + stream_content chunks"
  by (simp_all add: stream_usage_def stream_content_def)

lemma processLine_chunk:
  "processLine line b = (if ub_overCap b \<or> ub_haveUse b then b
     else case line_chunk line of
       None \<Rightarrow> b
     | Some (choices, Some (p, c)) \<Rightarrow> b\<lparr>ub_useP := p, ub_useC := c, ub_haveUse := True\<rparr>
     | Some (choices, None) \<Rightarrow> b\<lparr>ub_deltaCh := fold (\<lambda>content n. wrap64 (n + int (length content))) (fst choices) (ub_deltaCh b)\<rparr>)"
proof -
  have "processLine line b = (case line_payload line of None \<Rightarrow> b | Some payload \<Rightarrow> parseSSEPayload payload b)"
    by (simp add: processLine_def line_payload_def Let_def)
  then show ?thesis
    by (cases "line_payload line") (simp_all add: parseSSEPayload_def line_chunk_def split: option.split prod.split)
qed

lemma fold_wrap_length:
  "is_int64 n \<Longrightarrow> fold (\<lambda>content n. wrap64 (n + int (length content))) cs n = wrap64 (n + (\<Sum>content\<leftarrow>cs. int (length content)))"
  by (induction cs arbitrary: n) (simp_all add: wrap64_id add.assoc)

lemma fold_processLine_usage:
  fixes ls :: "string list"
  assumes "\<not> ub_overCap b" and "is_int64 (ub_deltaCh b)"
  defines "chunks \<equiv> List.map_filter line_chunk ls"
  shows "ub_haveUse b \<Longrightarrow> fold processLine ls b = b"
    and "\<not> ub_haveUse b \<Longrightarrow> (case stream_usage chunks of
        Some (p, c) \<Rightarrow> ub_haveUse (fold processLine ls b) \<and> ub_useP (fold processLine ls b) = p \<and> ub_useC (fold processLine ls b) = c
      | None \<Rightarrow> \<not> ub_haveUse (fold processLine ls b) \<and>
          ub_deltaCh (fold processLine ls b) = wrap64 (ub_deltaCh b + stream_content chunks))"
proof -
  show *: "fold processLine ls b = b" if "ub_haveUse b" for ls and b :: usageTrackingBody
    using that by (induction ls) (simp_all add: processLine_chunk)
  show "case stream_usage chunks of
        Some (p, c) \<Rightarrow> ub_haveUse (fold processLine ls b) \<and> ub_useP (fold processLine ls b) = p \<and> ub_useC (fold processLine ls b) = c
      | None \<Rightarrow> \<not> ub_haveUse (fold processLine ls b) \<and>
          ub_deltaCh (fold processLine ls b) = wrap64 (ub_deltaCh b + stream_content chunks)"
    if "\<not> ub_haveUse b"
    unfolding chunks_def using that assms(1,2)
  proof (induction ls arbitrary: b)
    case Nil
    then show ?case by (simp add: stream_usage_def stream_content_def List.map_filter_def wrap64_id)
  next
    case (Cons l ls)
    show ?case
    proof (cases "line_chunk l")
      case None
      then have "fold processLine (l # ls) b = fold processLine ls b"
          "List.map_filter line_chunk (l # ls) = List.map_filter line_chunk ls"
        by (simp_all add: processLine_chunk List.map_filter_simps)
      then show ?thesis using Cons.IH [OF Cons.prems] by (simp only:)
    next
      case (Some ch)
      obtain choices u where ch: "ch = (choices, u)" by (cases ch)
      show ?thesis
      proof (cases u)
        case (Some pc)
        then show ?thesis
          using \<open>line_chunk l = Some ch\<close> ch Cons.prems
          by (cases pc) (simp add: processLine_chunk List.map_filter_simps stream_usage_def *)
      next
        case None
        let ?b = "b\<lparr>ub_deltaCh := wrap64 (ub_deltaCh b + (\<Sum>content\<leftarrow>fst choices. int (length content)))\<rparr>"
        have "processLine l b = ?b"
          using None \<open>line_chunk l = Some ch\<close> ch Cons.prems by (simp add: processLine_chunk fold_wrap_length)
        moreover have "\<not> ub_haveUse ?b" "\<not> ub_overCap ?b" "is_int64 (ub_deltaCh ?b)" using Cons.prems by simp_all
        note Cons.IH [OF this]
        moreover have "List.map_filter line_chunk (l # ls) = (choices, None) # List.map_filter line_chunk ls"
          using None \<open>line_chunk l = Some ch\<close> ch by (simp add: List.map_filter_simps)
        ultimately show ?thesis
          by (cases "stream_usage (List.map_filter line_chunk ls)") (simp_all add: add.assoc case_prod_unfold)
      qed
    qed
  qed
qed

lemma usage_tokens_state: "usage_tokens (body_state isSSE meta s) = reference_tokens isSSE (rm_promptTok meta) s"
proof (cases isSSE)
  case True
  let ?b = "newUsageBody meta True"
  have "\<not> ub_overCap ?b" "is_int64 (ub_deltaCh ?b)" "\<not> ub_haveUse ?b" by (simp_all add: newUsageBody_def is_int64_iff)
  from fold_processLine_usage(2) [OF this, of "fst (split_lines s)"] True show ?thesis
    by (simp add: body_state_def usage_tokens_def reference_tokens_def stream_chunks_def)
      (auto simp: sse_state_def newUsageBody_def stream_chunks_def split: option.splits)
qed (auto simp: body_state_def usage_tokens_def reference_tokens_def json_state_def newUsageBody_def split: option.split)

section \<open>Properties\<close>

datatype body_event = ReadData string bool | CloseBody

fun body_step :: "'e onCost option \<Rightarrow> body_event \<Rightarrow> usageTrackingBody \<times> 'e \<Rightarrow> usageTrackingBody \<times> 'e" where
  "body_step f (ReadData p eof) = body_Read f p eof"
| "body_step f CloseBody = body_Close f"

text \<open>The bytes an event delivers, and whether it ends the observation.\<close>

fun event_data :: "body_event \<Rightarrow> string" where
  "event_data (ReadData p _) = p"
| "event_data CloseBody = ''''"

fun ends_body :: "body_event \<Rightarrow> bool" where
  "ends_body (ReadData _ eof) = eof"
| "ends_body CloseBody = True"

lemma body_step_once: "ub_once b \<Longrightarrow> snd (body_step f ev (b, e)) = e \<and> ub_once (fst (body_step f ev (b, e)))"
proof -
  assume once: "ub_once b"
  have feed: "ub_once (parseChunk p b) = ub_once b" for p and b :: usageTrackingBody
    by (simp add: parseChunk_def feedSSE_def feedJSON_def feed_lines_fold Let_def)
  show ?thesis using once
    by (cases ev) (auto simp: body_Read_def body_Close_def finalize_def feed Let_def)
qed

lemma body_run_once: "ub_once b \<Longrightarrow> snd (fold (body_step f) evs (b, e)) = e"
proof (induction evs arbitrary: b)
  case (Cons ev evs)
  obtain b' e' where s: "body_step f ev (b, e) = (b', e')" by (cases "body_step f ev (b, e)")
  then have "e' = e" "ub_once b'" using body_step_once [OF Cons.prems, of f ev e] by simp_all
  then show ?case using Cons.IH [of b'] s by simp
qed simp

lemma body_run_open:
  assumes "\<forall>ev\<in>set evs. \<not> ends_body ev" and "isSSE \<longrightarrow> chunks_fit s (map event_data evs)"
  shows "fold (body_step f) evs (body_state isSSE meta s, e) = (body_state isSSE meta (s @ concat (map event_data evs)), e)"
  using assms
proof (induction evs arbitrary: s)
  case (Cons ev evs)
  obtain p where ev: "ev = ReadData p False" using Cons.prems(1) by (cases ev) auto
  have "body_step f ev (body_state isSSE meta s, e) = (body_state isSSE meta (s @ p), e)"
    using body_state_feed [of isSSE s p meta] Cons.prems(2) by (auto simp: ev body_Read_def Let_def)
  then show ?case using Cons.IH [of "s @ p"] Cons.prems by (auto simp: ev)
qed simp

text \<open>The events that deliver a whole body: reads up to the one that ends it, then anything.\<close>

definition body_complete :: "bool \<Rightarrow> body_event list \<Rightarrow> string \<Rightarrow> bool" where
  "body_complete isSSE evs body \<longleftrightarrow> (\<exists>reads fin later. evs = reads @ fin # later \<and>
     (\<forall>ev\<in>set reads. \<not> ends_body ev) \<and> ends_body fin \<and> (isSSE \<longrightarrow> chunks_fit '''' (map event_data (reads @ [fin]))) \<and>
     body = concat (map event_data (reads @ [fin])))"

lemma body_run_report:
  assumes "body_complete isSSE evs body"
  shows "snd (fold (body_step (Some f)) evs (newUsageBody meta isSSE, e)) =
    (let (promptTok, completionTok) = reference_tokens isSSE (rm_promptTok meta) body in f meta promptTok completionTok e)"
proof -
  obtain reads fin later where evs: "evs = reads @ fin # later" "\<forall>ev\<in>set reads. \<not> ends_body ev" "ends_body fin"
      "isSSE \<longrightarrow> chunks_fit '''' (map event_data (reads @ [fin]))" "body = concat (map event_data (reads @ [fin]))"
    using assms by (auto simp: body_complete_def)
  let ?s = "concat (map event_data reads)"
  have fit: "chunks_fit s (xs @ ys) \<longleftrightarrow> chunks_fit s xs \<and> chunks_fit (s @ concat xs) ys" for s xs ys
    by (induction xs arbitrary: s) auto
  have run: "fold (body_step (Some f)) reads (newUsageBody meta isSSE, e) = (body_state isSSE meta ?s, e)"
    using body_run_open [of reads isSSE "''''" "Some f" meta e] evs(2,4) by (simp add: body_state_new fit)
  define b where "b = body_state isSSE meta (?s @ event_data fin)"
  have b: "\<not> ub_once b" "ub_meta b = meta" by (simp_all add: b_def body_state_def)
  have "body_step (Some f) fin (body_state isSSE meta ?s, e) = finalize (Some f) (b, e)"
  proof (cases fin)
    case (ReadData p eof)
    then show ?thesis
      using body_state_feed [of isSSE ?s p meta] evs(3,4) by (auto simp: body_Read_def Let_def b_def fit)
  qed (simp add: body_Close_def b_def)
  moreover have "ub_once (fst (finalize (Some f) (b, e)))" by (simp add: finalize_def Let_def)
  ultimately have "snd (fold (body_step (Some f)) evs (newUsageBody meta isSSE, e)) = snd (finalize (Some f) (b, e))"
    using body_run_once [of "fst (finalize (Some f) (b, e))" "Some f" later "snd (finalize (Some f) (b, e))"] by (simp add: run evs(1))
  then show ?thesis
    using b by (simp add: finalize_def Let_def b_def usage_tokens_state evs(5))
qed

text \<open>
  C24. The observer reports the usage of a response exactly once, when its end is read or it is closed,
  whatever reads and closes follow; and the report does not depend on how the body was cut into reads:
  it is the first usage object of the event stream, else the request's estimate with the total length of the
  content deltas of all choices, where the comment of \<^verbatim>\<open>deltaCh\<close> speaks of the first
  choice only; for a JSON body of at most a mebibyte its usage object, else the estimate. For event
  streams this needs that no read together with the incomplete line before it exceeds a mebibyte.
\<close>

theorem usage_reported_once:
  assumes "\<forall>ev\<in>set evs. \<not> ends_body ev" and "ends_body fin" and "isSSE \<longrightarrow> chunks_fit '''' (map event_data (evs @ [fin]))"
  shows "snd (fold (body_step (Some f)) (evs @ fin # later) (newUsageBody meta isSSE, e)) =
    (let (promptTok, completionTok) = reference_tokens isSSE (rm_promptTok meta) (concat (map event_data (evs @ [fin])))
     in f meta promptTok completionTok e)"
proof (rule body_run_report)
  show "body_complete isSSE (evs @ fin # later) (concat (map event_data (evs @ [fin])))"
    unfolding body_complete_def using assms by blast
qed

definition example_meta :: reqMeta where
  "example_meta = \<lparr>rm_model = ''gpt-4'', rm_promptTok = 5, rm_agent = ''a'', rm_fp = '''', rm_projectName = '''',
     rm_callerID = '''', rm_statusCode = 200, rm_trackCost = True, rm_start = 0\<rparr>"

definition example_reads :: "body_event list" where
  "example_reads = [ReadData (quoted ''data: {`choices`:[{`delta`:{`content`:`hel'') False, ReadData (quoted ''lo`}}]}'') False,
     ReadData ([LF, CHR 0x0D, LF] @ quoted ''data: {`usage`:{`prompt_tokens`:12,`completion_tokens`:3}}'' @ [CHR 0x0D, LF]) False]"

text \<open>A chunk with two choices of five and six bytes is estimated at three tokens, not two.\<close>

definition two_choices :: "body_event list" where
  "two_choices = [ReadData (quoted ''data: {`choices`:[{`delta`:{`content`:`hello`}},{`delta`:{`content`:`world!`}}]}'' @ [LF]) False]"

theorem usage_reported_once_witness:
  "snd (fold (body_step (Some (\<lambda>meta p c log. log @ [(p, c)]))) (example_reads @ CloseBody # [ReadData '''' True, CloseBody])
     (newUsageBody example_meta True, [])) = [(12, 3)] \<and>
   snd (fold (body_step (Some (\<lambda>meta p c log. log @ [(p, c)]))) (two_choices @ CloseBody # [])
     (newUsageBody example_meta True, [])) = [(5, 3)]"
proof (rule conjI, goal_cases)
  case 2
  have "\<forall>ev\<in>set two_choices. \<not> ends_body ev" by (simp add: two_choices_def)
  moreover have "length (concat (map event_data (two_choices @ [CloseBody]))) \<le> 1000" by code_simp
  then have "True \<longrightarrow> chunks_fit '''' (map event_data (two_choices @ [CloseBody]))"
    by (intro impI chunks_fit_small) (simp add: usageBufferCap_def)
  moreover have "reference_tokens True 5 (concat (map event_data (two_choices @ [CloseBody]))) = (5, 3)" by code_simp
  ultimately show ?case
    using usage_reported_once [of two_choices CloseBody True "\<lambda>meta p c log. log @ [(p, c)]" "[]" example_meta "[]"]
    by (simp add: example_meta_def)
next
  case 1
  have "\<forall>ev\<in>set example_reads. \<not> ends_body ev" by (simp add: example_reads_def)
  moreover have "length (concat (map event_data (example_reads @ [CloseBody]))) \<le> 1000" by code_simp
  then have "True \<longrightarrow> chunks_fit '''' (map event_data (example_reads @ [CloseBody]))"
    by (intro impI chunks_fit_small) (simp add: usageBufferCap_def)
  moreover have "reference_tokens True 5 (concat (map event_data (example_reads @ [CloseBody]))) = (12, 3)" by code_simp
  ultimately show ?case
    using usage_reported_once [of example_reads CloseBody True "\<lambda>meta p c log. log @ [(p, c)]" "[ReadData '''' True, CloseBody]" example_meta "[]"]
    by (simp add: example_meta_def)
qed

end
