(* ===== verification/Handler.thy ===== *)
theory Handler
  imports Detector Price_Table Budget_Monitor Proxy_Store Log_Hub Proxy_Metrics Cost_Tracking
begin

text \<open>
  The HTTP handler of the proxy (\<^verbatim>\<open>pkg/proxy/handler.go\<close>), the cost callback
  (\<^verbatim>\<open>cost_tracking.go\<close>), alerting (\<^verbatim>\<open>alerting.go\<close>), the
  authentication middleware (\<^verbatim>\<open>caller.go\<close>) and the header transform of the
  reverse proxy (\<^verbatim>\<open>reverseproxy.go\<close>).

  The interfaces the handler calls are records of their operations on a state: the detector on a type
  \<open>'d\<close>, the store and the ledger on a type \<open>'s\<close>. What the handler hands to the notifier,
  the live log hub, the payload emitter and the incident recorder is appended to a list each, since
  none of them returns anything the handler uses. The readings of the clock in one call are numbered:
  \<open>clk i\<close> is the i-th. A request is forwarded by returning it; what the upstream answers is an
  argument of \<open>forwarded_response\<close>.
\<close>

section \<open>Requests, replies and interfaces\<close>

definition AgentIDHeader :: string where "AgentIDHeader = ''X-FinOps-Agent-Id''"
definition ProjectHeader :: string where "ProjectHeader = ''X-FinOps-Project''"

definition MaxBodyBytes :: int where "MaxBodyBytes = 10 * 2 ^ 20"

text \<open>
  A request with the values of the headers the proxy reads. \<open>rq_Body\<close> is what reading the whole
  body yields, \<open>Inl\<close> for a client that aborts.
\<close>

record Request =
  rq_Method :: string
  rq_Path :: "string list"
  rq_ContentLength :: int
  rq_Body :: "string + string"
  rq_AgentID :: string
  rq_Project :: string
  rq_APIKey :: string
  rq_Caller :: "Caller option"
  rq_Meta :: "reqMeta option"

text \<open>A reply has a status, a Retry-After header and a body.\<close>

datatype reply = is_Reply: Reply (rp_status: int) (rp_retry: "string option") (rp_body: string) | Forward (rp_request: Request)

record PayloadEvent =
  pe_AgentID :: string
  pe_KeyID :: string
  pe_Project :: string
  pe_Model :: string
  pe_Fingerprint :: string
  pe_Body :: string
  pe_Timestamp :: int

record IncidentInput =
  in_AgentID :: string
  in_KeyID :: string
  in_ProjectName :: string
  in_Model :: string
  in_Fingerprint :: string
  in_CostMicro :: int

record 'd detector_if =
  di_Check :: "AgentID \<Rightarrow> Fingerprint \<Rightarrow> 'd \<Rightarrow> CheckResult \<times> 'd"
  di_CheckPayload :: "(AgentID \<Rightarrow> Fingerprint \<Rightarrow> string \<Rightarrow> 'd \<Rightarrow> CheckResult \<times> 'd) option"
  di_Reset :: "AgentID \<Rightarrow> 'd \<Rightarrow> int \<times> 'd"

record PriceSource =
  ps_PriceFor :: "string \<Rightarrow> ModelPrice \<times> bool"
  ps_EstimatePromptTokens :: "string \<Rightarrow> int"
  ps_SavedCost :: "string \<Rightarrow> int"
  ps_AssumedCompletionTokens :: int

record 's BudgetLedger =
  bl_SumActualCostSince :: "int \<Rightarrow> 's \<Rightarrow> proxy_error + int"
  bl_SumActualCostForKeySince :: "string \<Rightarrow> int \<Rightarrow> 's \<Rightarrow> proxy_error + int"

text \<open>
  What is wired into the handler. The notifier is present with or without a gate for loop alerts; the
  emitter, the incident recorder and the hub are present or not.
\<close>

record ('d, 's) handler =
  h_det :: "'d detector_if"
  h_price :: "PriceSource option"
  h_store :: "(RequestRecord \<Rightarrow> 's \<Rightarrow> 's) option"
  h_ledger :: "'s BudgetLedger option"
  h_incidents :: bool
  h_notifier :: "bool option option"
  h_auth :: "(string \<Rightarrow> proxy_error + Caller) option"
  h_hub :: bool
  h_costThreshold :: "int option"
  h_emitter :: bool

text \<open>The state the handler works on; the budget monitor and the metrics may be absent.\<close>

record ('d, 's) world =
  w_det :: 'd
  w_store :: 's
  w_metrics :: "Metrics option"
  w_budget :: "BudgetMonitor option"
  w_notified :: "Event list"
  w_published :: "LogEvent list"
  w_emitted :: "PayloadEvent list"
  w_incidents :: "IncidentInput list"

section \<open>Construction\<close>

definition WithNotifier :: "bool option option \<Rightarrow> ('d, 's) handler \<Rightarrow> ('d, 's) handler" where
  "WithNotifier n h = h\<lparr>h_notifier := n\<rparr>"

definition WithAuth :: "(string \<Rightarrow> proxy_error + Caller) option \<Rightarrow> ('d, 's) handler \<Rightarrow> ('d, 's) handler" where
  "WithAuth a h = h\<lparr>h_auth := a\<rparr>"

text \<open>The reference stores record no incidents, so that part of \<^verbatim>\<open>WithStore\<close> is a flag.\<close>

definition WithStore :: "(RequestRecord \<Rightarrow> 's \<Rightarrow> 's) \<Rightarrow> 's BudgetLedger \<Rightarrow> bool \<Rightarrow> ('d, 's) handler \<Rightarrow> ('d, 's) handler" where
  "WithStore s l recorder h =
     (let h = h\<lparr>h_store := Some s\<rparr>; h = h\<lparr>h_ledger := Some l\<rparr>
      in if recorder then h\<lparr>h_incidents := True\<rparr> else h)"

definition WithRequestLogStore :: "(RequestRecord \<Rightarrow> 's \<Rightarrow> 's) option \<Rightarrow> ('d, 's) handler \<Rightarrow> ('d, 's) handler" where
  "WithRequestLogStore s h = h\<lparr>h_store := s\<rparr>"

definition WithBudgetLedger :: "'s BudgetLedger option \<Rightarrow> ('d, 's) handler \<Rightarrow> ('d, 's) handler" where
  "WithBudgetLedger l h = h\<lparr>h_ledger := l\<rparr>"

definition WithIncidentRecorder :: "bool \<Rightarrow> ('d, 's) handler \<Rightarrow> ('d, 's) handler" where
  "WithIncidentRecorder r h = h\<lparr>h_incidents := r\<rparr>"

definition WithLogStream :: "bool \<Rightarrow> ('d, 's) handler \<Rightarrow> ('d, 's) handler" where
  "WithLogStream hub h = h\<lparr>h_hub := hub\<rparr>"

definition WithCostThreshold :: "int option \<Rightarrow> ('d, 's) handler \<Rightarrow> ('d, 's) handler" where
  "WithCostThreshold r h = h\<lparr>h_costThreshold := r\<rparr>"

definition WithEmitter :: "bool \<Rightarrow> ('d, 's) handler \<Rightarrow> ('d, 's) handler" where
  "WithEmitter e h = h\<lparr>h_emitter := e\<rparr>"

definition new_handler :: "'d detector_if \<Rightarrow> PriceSource option \<Rightarrow> (('d, 's) handler \<Rightarrow> ('d, 's) handler) list \<Rightarrow> ('d, 's) handler" where
  "new_handler det price opts =
     fold (\<lambda>opt h. opt h) opts
       \<lparr>h_det = det, h_price = price, h_store = None, h_ledger = None, h_incidents = False, h_notifier = None,
        h_auth = None, h_hub = False, h_costThreshold = None, h_emitter = False\<rparr>"

section \<open>Alerting\<close>

definition publishLog :: "('d, 's) handler \<Rightarrow> LogEvent \<Rightarrow> ('d, 's) world \<Rightarrow> ('d, 's) world" where
  "publishLog h ev w = (if h_hub h then w\<lparr>w_published := w_published w @ [ev]\<rparr> else w)"

definition handler_emit :: "('d, 's) handler \<Rightarrow> Event \<Rightarrow> ('d, 's) world \<Rightarrow> ('d, 's) world" where
  "handler_emit h ev w = (if h_notifier h \<noteq> None then w\<lparr>w_notified := w_notified w @ [ev]\<rparr> else w)"

definition loopAlertsEnabled :: "('d, 's) handler \<Rightarrow> bool" where
  "loopAlertsEnabled h =
     (case h_notifier h of
        None \<Rightarrow> False
      | Some (Some gate) \<Rightarrow> gate
      | Some None \<Rightarrow> True)"

definition checkBudget :: "(nat \<Rightarrow> time) \<Rightarrow> ('d, 's) handler \<Rightarrow> ('d, 's) world \<Rightarrow> ('d, 's) world" where
  "checkBudget clk h w =
     (case (h_notifier h, w_budget w, h_ledger h) of
        (Some _, Some m, Some l) \<Rightarrow>
          (case bl_SumActualCostSince l (utcDayStart (clk 0)) (w_store w) of
             Inl err \<Rightarrow> w
           | Inr spent \<Rightarrow>
               let emit = (\<lambda>ev w. (True, publishLog h
                     (LogEvent_zero\<lparr>le_Type := TypeBudgetLevel, le_Level := ''warn'', le_Timestamp := ev_Timestamp ev,
                        le_BudgetMicroUSD := ev_BudgetMicroUSD ev, le_SpentMicroUSD := ev_SpentMicroUSD ev,
                        le_ThresholdPct := ev_ThresholdPct ev, le_Reason := ''daily budget level crossed''\<rparr>)
                     (w\<lparr>w_notified := w_notified w @ [ev]\<rparr>)));
                   (m', w') = BudgetMonitor_Spend spent (clk 1) emit (m, w)
               in w'\<lparr>w_budget := Some m'\<rparr>)
      | _ \<Rightarrow> w)"

section \<open>The request path\<close>

definition callerID :: "Request \<Rightarrow> string" where
  "callerID r = (case rq_Caller r of Some c \<Rightarrow> cl_ID c | None \<Rightarrow> '''')"

definition quote_char :: string where "quote_char = [CHR 0x22]"

definition writeBudgetExceeded ::
    "(nat \<Rightarrow> time) \<Rightarrow> ('d, 's) handler \<Rightarrow> Caller \<Rightarrow> int \<Rightarrow> int \<Rightarrow> string \<Rightarrow> ('d, 's) world \<Rightarrow> reply \<times> ('d, 's) world" where
  "writeBudgetExceeded clk h caller spent retryAfter reason w =
     (let retryAfter = (if retryAfter < 1 then 1 else retryAfter);
          w = publishLog h
            (LogEvent_zero\<lparr>le_Type := TypeBudgetExceeded, le_Level := ''error'', le_Timestamp := time_Unix (clk 1),
               le_TenantID := cl_ID caller, le_TenantName := cl_Name caller, le_SpentMicroUSD := spent,
               le_MonthlyBudgetMicro := cl_MonthlyBudgetMicro caller, le_Reason := reason, le_RetryAfter := retryAfter,
               le_StatusCode := 429\<rparr>) w
      in (Reply 429 (Some (Itoa retryAfter))
            (quoted ''{`error`:{`type`:`budget_exceeded`,`message`:`'' @ reason @
             quoted ''`,`code`:`budget_exceeded`,`retry_after`:'' @ Itoa retryAfter @ ''}}''), w))"

text \<open>The gate of the caller's budgets: \<open>None\<close> lets the request pass.\<close>

definition budget_gate ::
    "(nat \<Rightarrow> time) \<Rightarrow> ('d, 's) handler \<Rightarrow> Request \<Rightarrow> ('d, 's) world \<Rightarrow> (reply \<times> ('d, 's) world) option" where
  "budget_gate clk h r w =
     (case (h_ledger h, rq_Caller r) of
        (Some l, Some caller) \<Rightarrow>
          let now = clk 0;
              over = (\<lambda>budget since. if budget > 0
                 then (case bl_SumActualCostForKeySince l (cl_ID caller) since (w_store w) of
                         Inl err \<Rightarrow> None
                       | Inr spent \<Rightarrow> if spent \<ge> budget then Some spent else None)
                 else None)
          in (case over (cl_MonthlyBudgetMicro caller) (utcMonthStart now) of
                Some spent \<Rightarrow> Some (writeBudgetExceeded clk h caller spent (nextMonthStart now - time_Unix now) ''Monthly budget exceeded'' w)
              | None \<Rightarrow>
                  (case over (cl_DailyBudgetMicro caller) (utcDayStart now) of
                     Some spent \<Rightarrow> Some (writeBudgetExceeded clk h caller spent (nextDayStart now - time_Unix now) ''Daily budget exceeded'' w)
                   | None \<Rightarrow> None))
      | _ \<Rightarrow> None)"

text \<open>Reading the body under \<^verbatim>\<open>http.MaxBytesReader\<close>.\<close>

definition read_body :: "Request \<Rightarrow> string + string" where
  "read_body r =
     (case rq_Body r of
        Inl err \<Rightarrow> Inl err
      | Inr body \<Rightarrow> if int (length body) > MaxBodyBytes then Inl ''http: request body too large'' else Inr body)"

text \<open>A block: accounting, incident, notification, live event and the reply.\<close>

definition block_request ::
    "(nat \<Rightarrow> time) \<Rightarrow> ('d, 's) handler \<Rightarrow> Request \<Rightarrow> string \<Rightarrow> Fingerprint \<Rightarrow> CheckResult \<Rightarrow> ('d, 's) world \<Rightarrow> reply \<times> ('d, 's) world" where
  "block_request clk h r body fp res w =
     (let agent = rq_AgentID r; model = ExtractModel body;
          costMicro = (case h_price h of None \<Rightarrow> 0 | Some p \<Rightarrow> ps_SavedCost p body);
          promptTok = (case h_price h of None \<Rightarrow> 0 | Some p \<Rightarrow> ps_EstimatePromptTokens p body);
          w = w\<lparr>w_metrics := markLoopBlocked (clk 3) costMicro promptTok (w_metrics w)\<rparr>;
          w = w\<lparr>w_metrics := recordTrigger \<lparr>tr_Timestamp = time_Unix (clk 4), tr_AgentID = agent, tr_Model = model,
                  tr_Reason = cr_Reason res, tr_SavedMicro = costMicro\<rparr> (w_metrics w)\<rparr>;
          w = (case (h_price h, h_store h) of
                 (Some p, Some log_request) \<Rightarrow>
                   w\<lparr>w_store := log_request
                      \<lparr>rr_AgentID = agent, rr_KeyID = callerID r, rr_ProjectName = rq_Project r, rr_Model = model,
                       rr_PromptTokens = ps_EstimatePromptTokens p body, rr_CompletionTokens = ps_AssumedCompletionTokens p,
                       rr_CostUSD = costMicro, rr_IsLoopBlocked = True, rr_Timestamp = time_Unix (clk 5)\<rparr> (w_store w)\<rparr>
               | _ \<Rightarrow> w);
          w = (if h_incidents h
               then w\<lparr>w_incidents := w_incidents w @
                  [\<lparr>in_AgentID = agent, in_KeyID = callerID r, in_ProjectName = rq_Project r, in_Model = model,
                    in_Fingerprint = fp, in_CostMicro = costMicro\<rparr>]\<rparr>
               else w);
          w = (if cr_FirstBlock res
               then let ev = Event_zero\<lparr>ev_Type := EventLoopBlocked, ev_Timestamp := time_Unix (clk 6), ev_AgentID := agent,
                                ev_Project := rq_Project r, ev_Reason := cr_Reason res, ev_RetryAfter := cr_RetryAfter res\<rparr>;
                        ev = (if h_price h \<noteq> None then ev\<lparr>ev_Model := model, ev_SavedCostMicro := costMicro\<rparr> else ev)
                    in if loopAlertsEnabled h then handler_emit h ev w else w
               else w);
          w = publishLog h
            (LogEvent_zero\<lparr>le_Type := TypeLoopBlocked, le_Level := ''warn'', le_Timestamp := time_Unix (clk 7),
               le_TenantID := callerID r, le_AgentID := agent, le_Model := model, le_ProjectName := rq_Project r,
               le_SavedCostMicroUSD := costMicro, le_StatusCode := 429, le_FirstBlock := cr_FirstBlock res,
               le_Reason := cr_Reason res, le_RetryAfter := cr_RetryAfter res\<rparr>) w
      in (Reply 429 (Some (Itoa (cr_RetryAfter res)))
            (quoted ''{`error`:{`type`:`agent_loop_exception`,`message`:`'' @ cr_Reason res @
             quoted ''`,`code`:`agent_loop_exception`,`retry_after`:'' @ Itoa (cr_RetryAfter res) @ ''}}''), w))"

definition detector_verdict :: "'d detector_if \<Rightarrow> AgentID \<Rightarrow> Fingerprint \<Rightarrow> string \<Rightarrow> 'd \<Rightarrow> CheckResult \<times> 'd" where
  "detector_verdict det agent fp body d =
     (case di_CheckPayload det of Some check \<Rightarrow> check agent fp body d | None \<Rightarrow> di_Check det agent fp d)"

text \<open>The emission of the payload to the asynchronous consumer.\<close>

definition emit_payload :: "(nat \<Rightarrow> time) \<Rightarrow> ('d, 's) handler \<Rightarrow> Request \<Rightarrow> string \<Rightarrow> Fingerprint \<Rightarrow> ('d, 's) world \<Rightarrow> ('d, 's) world" where
  "emit_payload clk h r body fp w =
     (if h_emitter h
      then w\<lparr>w_emitted := w_emitted w @
         [\<lparr>pe_AgentID = rq_AgentID r, pe_KeyID = callerID r, pe_Project = rq_Project r, pe_Model = ExtractModel body,
           pe_Fingerprint = fp, pe_Body = body, pe_Timestamp = time_Unix (clk 2)\<rparr>]\<rparr>
      else w)"

text \<open>The request with its body rewound and the metadata for the cost of its response.\<close>

definition rewind_body :: "(nat \<Rightarrow> time) \<Rightarrow> ('d, 's) handler \<Rightarrow> Request \<Rightarrow> string \<Rightarrow> Fingerprint \<Rightarrow> Request" where
  "rewind_body clk h r body fp =
     (let r = r\<lparr>rq_Body := Inr body, rq_ContentLength := int (length body)\<rparr>
      in case (h_price h, h_store h) of
           (Some p, Some _) \<Rightarrow>
             r\<lparr>rq_Meta := Some
                \<lparr>rm_model = ExtractModel body, rm_promptTok = ps_EstimatePromptTokens p body, rm_agent = rq_AgentID r,
                 rm_fp = fp, rm_projectName = rq_Project r, rm_callerID = callerID r, rm_statusCode = 0,
                 rm_trackCost = True, rm_start = clk 8\<rparr>\<rparr>
         | _ \<Rightarrow> r)"

text \<open>From the body on: fingerprint, emission, verdict, and either the block or the rewound request.\<close>

definition serve_body :: "(nat \<Rightarrow> time) \<Rightarrow> ('d, 's) handler \<Rightarrow> Request \<Rightarrow> string \<Rightarrow> ('d, 's) world \<Rightarrow> reply \<times> ('d, 's) world" where
  "serve_body clk h r body w =
     (let fp = sha256_hex body; w = emit_payload clk h r body fp w;
          (res, d) = detector_verdict (h_det h) (rq_AgentID r) fp body (w_det w);
          w = w\<lparr>w_det := d\<rparr>
      in if cr_Block res then block_request clk h r body fp res w
         else (Forward (rewind_body clk h r body fp), w))"

definition serve :: "(nat \<Rightarrow> time) \<Rightarrow> ('d, 's) handler \<Rightarrow> Request \<Rightarrow> ('d, 's) world \<Rightarrow> reply \<times> ('d, 's) world" where
  "serve clk h r w =
     (if rq_Method r \<noteq> ''POST'' \<or> rq_ContentLength r = 0 then (Forward r, w)
      else case budget_gate clk h r w of
             Some done \<Rightarrow> done
           | None \<Rightarrow>
               if rq_ContentLength r > MaxBodyBytes then (Forward r, w)
               else case read_body r of
                      Inl err \<Rightarrow> (Reply 413 None (quoted ''{`error`:{`type`:`request_too_large`}}''), w)
                    | Inr body \<Rightarrow> serve_body clk h r body w)"

text \<open>
  The request is in flight from the mark at the start to the deferred mark at the end; a forwarded one
  ends after its response (\<open>forwarded_response\<close>).
\<close>

definition ServeHTTP :: "(nat \<Rightarrow> time) \<Rightarrow> ('d, 's) handler \<Rightarrow> Request \<Rightarrow> ('d, 's) world \<Rightarrow> reply \<times> ('d, 's) world" where
  "ServeHTTP clk h r w =
     (let w = w\<lparr>w_metrics := markStart (w_metrics w)\<rparr>; (res, w) = serve clk h r w
      in case res of
           Forward r' \<Rightarrow> (Forward r', w)
         | Reply _ _ _ \<Rightarrow> (res, w\<lparr>w_metrics := markDone (w_metrics w)\<rparr>))"

definition handleDeleteHistory :: "('d, 's) handler \<Rightarrow> AgentID \<Rightarrow> ('d, 's) world \<Rightarrow> reply \<times> ('d, 's) world" where
  "handleDeleteHistory h agent w = (Reply 204 None '''', w\<lparr>w_det := snd (di_Reset (h_det h) agent (w_det w))\<rparr>)"

text \<open>The mux: the history route, else the proxy.\<close>

definition mux :: "(nat \<Rightarrow> time) \<Rightarrow> ('d, 's) handler \<Rightarrow> Request \<Rightarrow> ('d, 's) world \<Rightarrow> reply \<times> ('d, 's) world" where
  "mux clk h r w =
     (case rq_Path r of
        [a, b, agent, c] \<Rightarrow>
          if rq_Method r = ''DELETE'' \<and> a = ''v1'' \<and> b = ''agent'' \<and> c = ''history'' then handleDeleteHistory h agent w
          else ServeHTTP clk h r w
      | _ \<Rightarrow> ServeHTTP clk h r w)"

definition Middleware ::
    "(string \<Rightarrow> proxy_error + Caller) option \<Rightarrow> (Request \<Rightarrow> ('d, 's) world \<Rightarrow> reply \<times> ('d, 's) world) \<Rightarrow>
     Request \<Rightarrow> ('d, 's) world \<Rightarrow> reply \<times> ('d, 's) world" where
  "Middleware a next_handler r w =
     (let raw = rq_APIKey r; r = r\<lparr>rq_APIKey := ''''\<rparr>
      in case a of
           None \<Rightarrow> next_handler r w
         | Some auth \<Rightarrow>
             (case auth raw of
                Inl err \<Rightarrow> (Reply 401 None (quoted ''{`error`:{`type`:`unauthorized`}}''), w)
              | Inr c \<Rightarrow> next_handler (r\<lparr>rq_Caller := Some c\<rparr>) w))"

definition handle :: "(nat \<Rightarrow> time) \<Rightarrow> ('d, 's) handler \<Rightarrow> Request \<Rightarrow> ('d, 's) world \<Rightarrow> reply \<times> ('d, 's) world" where
  "handle clk h r w = (if h_auth h \<noteq> None then Middleware (h_auth h) (mux clk h) r w else mux clk h r w)"

section \<open>The response path\<close>

text \<open>What reaches the upstream: the proxy's own headers are stripped.\<close>

definition rewrite_out :: "Request \<Rightarrow> Request" where
  "rewrite_out r = r\<lparr>rq_AgentID := '''', rq_Project := '''', rq_APIKey := ''''\<rparr>"

definition upstream_error :: "string \<Rightarrow> reply" where
  "upstream_error err = Reply 502 None (quoted ''{`error`:{`type`:`upstream_unreachable`,`message`:`'' @ err @ quoted ''`}}'')"

definition modifyResponse :: "Request \<Rightarrow> int \<Rightarrow> string \<Rightarrow> usageTrackingBody option" where
  "modifyResponse r status contentType =
     (case rq_Meta r of
        None \<Rightarrow> None
      | Some meta \<Rightarrow>
          if \<not> rm_trackCost meta then None
          else Some (newUsageBody (meta\<lparr>rm_statusCode := status\<rparr>) (isEventStream contentType)))"

definition handler_onCost ::
    "(nat \<Rightarrow> time) \<Rightarrow> ('d, 's) handler \<Rightarrow> reqMeta \<Rightarrow> int \<Rightarrow> int \<Rightarrow> ('d, 's) world \<Rightarrow> ('d, 's) world" where
  "handler_onCost clk h meta promptTok completionTok w =
     (let w = w\<lparr>w_metrics := markForwarded (clk 1) (time_Sub (clk 0) (rm_start meta)) promptTok completionTok (w_metrics w)\<rparr>
      in case (h_price h, h_store h) of
           (Some p, Some log_request) \<Rightarrow>
             let (mp, _) = ps_PriceFor p (rm_model meta); cost = Cost mp promptTok completionTok;
                 w = w\<lparr>w_store := log_request
                    \<lparr>rr_AgentID = rm_agent meta, rr_KeyID = rm_callerID meta, rr_ProjectName = rm_projectName meta,
                     rr_Model = rm_model meta, rr_PromptTokens = promptTok, rr_CompletionTokens = completionTok,
                     rr_CostUSD = cost, rr_IsLoopBlocked = False, rr_Timestamp = time_Unix (clk 2)\<rparr> (w_store w)\<rparr>;
                 w = checkBudget (\<lambda>i. clk (i + 3)) h w;
                 w = publishLog h
                   (LogEvent_zero\<lparr>le_Type := TypeRequestComplete, le_Level := ''info'', le_Timestamp := time_Unix (clk 5),
                      le_TenantID := rm_callerID meta, le_AgentID := rm_agent meta, le_Model := rm_model meta,
                      le_ProjectName := rm_projectName meta, le_PromptTokens := promptTok,
                      le_CompletionTokens := completionTok, le_CostMicroUSD := cost, le_StatusCode := rm_statusCode meta\<rparr>) w
             in (case h_costThreshold h of
                   None \<Rightarrow> w
                 | Some thr \<Rightarrow>
                     if thr > 0 \<and> cost \<ge> thr
                     then publishLog h
                       (LogEvent_zero\<lparr>le_Type := TypeCostAlert, le_Level := ''warn'', le_Timestamp := time_Unix (clk 6),
                          le_TenantID := rm_callerID meta, le_AgentID := rm_agent meta, le_Model := rm_model meta,
                          le_ProjectName := rm_projectName meta, le_CostMicroUSD := cost, le_StatusCode := rm_statusCode meta\<rparr>) w
                     else w)
         | _ \<Rightarrow> w)"

text \<open>The rest of a forwarded request: the reads of the response body and the deferred mark.\<close>

definition forwarded_response ::
    "(nat \<Rightarrow> time) \<Rightarrow> ('d, 's) handler \<Rightarrow> Request \<Rightarrow> int \<Rightarrow> string \<Rightarrow> body_event list \<Rightarrow> ('d, 's) world \<Rightarrow> ('d, 's) world" where
  "forwarded_response clk h r status contentType evs w =
     (let w = (case modifyResponse r status contentType of
                 None \<Rightarrow> w
               | Some b \<Rightarrow> snd (fold (body_step (Some (handler_onCost clk h))) evs (b, w)))
      in w\<lparr>w_metrics := markDone (w_metrics w)\<rparr>)"

end
