(* ===== verification/Request_Path.thy ===== *)
theory Request_Path
  imports Handler
begin

text \<open>
  What the request path of \<^verbatim>\<open>Handler\<close> guarantees: who is let in, when a budget stops
  a request, what the verdict of the detector does, and what a finished request adds to the ledger.
  The detector, the price source and the store are arbitrary unless a statement names them.
\<close>

section \<open>The parts of the world an operation changes\<close>

lemma publishLog_keeps [simp]:
  "w_det (publishLog h ev w) = w_det w" "w_store (publishLog h ev w) = w_store w"
  "w_metrics (publishLog h ev w) = w_metrics w" "w_budget (publishLog h ev w) = w_budget w"
  "w_notified (publishLog h ev w) = w_notified w" "w_emitted (publishLog h ev w) = w_emitted w"
  "w_incidents (publishLog h ev w) = w_incidents w"
  "w_published (publishLog h ev w) = w_published w @ (if h_hub h then [ev] else [])"
  by (simp_all add: publishLog_def)

lemma handler_emit_keeps [simp]:
  "w_det (handler_emit h ev w) = w_det w" "w_store (handler_emit h ev w) = w_store w"
  "w_metrics (handler_emit h ev w) = w_metrics w" "w_budget (handler_emit h ev w) = w_budget w"
  "w_published (handler_emit h ev w) = w_published w" "w_emitted (handler_emit h ev w) = w_emitted w"
  "w_incidents (handler_emit h ev w) = w_incidents w"
  "w_notified (handler_emit h ev w) = w_notified w @ (if h_notifier h = None then [] else [ev])"
  by (simp_all add: handler_emit_def)

lemma loopAlerts_notifier: "loopAlertsEnabled h \<Longrightarrow> h_notifier h \<noteq> None"
  by (auto simp: loopAlertsEnabled_def split: option.splits)

lemma spend_loop_state:
  assumes "\<And>ev st. P st \<Longrightarrow> P (snd (emit ev st))" and "P st"
  shows "P (snd (spend_loop budget spent now emit pcts (fired, st)))"
  using assms(2)
proof (induction pcts arbitrary: fired st)
  case (Cons pct pcts)
  then show ?case using assms(1) [of st] by (simp add: case_prod_unfold Let_def)
qed simp

lemma Spend_state:
  assumes "\<And>ev st. P st \<Longrightarrow> P (snd (emit ev st))" and "P st"
  shows "P (snd (BudgetMonitor_Spend spent now emit (m, st)))"
  using assms(2) spend_loop_state [of P emit, OF assms] by (simp add: BudgetMonitor_Spend_def Let_def case_prod_unfold)

text \<open>Checking the daily budget only alerts.\<close>

lemma checkBudget_keeps [simp]:
  "w_det (checkBudget clk h w) = w_det w" "w_store (checkBudget clk h w) = w_store w"
  "w_metrics (checkBudget clk h w) = w_metrics w" "w_emitted (checkBudget clk h w) = w_emitted w"
  "w_incidents (checkBudget clk h w) = w_incidents w"
proof -
  let ?P = "\<lambda>w'. w_det w' = w_det w \<and> w_store w' = w_store w \<and> w_metrics w' = w_metrics w \<and>
    w_emitted w' = w_emitted w \<and> w_incidents w' = w_incidents w"
  have "?P (checkBudget clk h w)"
  proof (cases "\<exists>n m l spent. h_notifier h = Some n \<and> w_budget w = Some m \<and> h_ledger h = Some l \<and>
      bl_SumActualCostSince l (utcDayStart (clk 0)) (w_store w) = Inr spent")
    case True
    then obtain n m l spent where s: "h_notifier h = Some n" "w_budget w = Some m" "h_ledger h = Some l"
      "bl_SumActualCostSince l (utcDayStart (clk 0)) (w_store w) = Inr spent" by blast
    define emit where "emit = (\<lambda>ev w. (True, publishLog h
                     (LogEvent_zero\<lparr>le_Type := TypeBudgetLevel, le_Level := ''warn'', le_Timestamp := ev_Timestamp ev,
                        le_BudgetMicroUSD := ev_BudgetMicroUSD ev, le_SpentMicroUSD := ev_SpentMicroUSD ev,
                        le_ThresholdPct := ev_ThresholdPct ev, le_Reason := ''daily budget level crossed''\<rparr>)
                     (w\<lparr>w_notified := w_notified w @ [ev]\<rparr>)))"
    have "?P (snd (BudgetMonitor_Spend spent (clk 1) emit (m, w)))"
      by (rule Spend_state) (simp_all add: emit_def)
    moreover have "checkBudget clk h w = (snd (BudgetMonitor_Spend spent (clk 1) emit (m, w)))
        \<lparr>w_budget := Some (fst (BudgetMonitor_Spend spent (clk 1) emit (m, w)))\<rparr>"
      by (simp add: checkBudget_def s emit_def Let_def case_prod_unfold)
    ultimately show ?thesis by simp
  next
    case False
    then have "checkBudget clk h w = w" by (auto simp: checkBudget_def split: option.splits sum.splits)
    then show ?thesis by simp
  qed
  then show "w_det (checkBudget clk h w) = w_det w" "w_store (checkBudget clk h w) = w_store w"
    "w_metrics (checkBudget clk h w) = w_metrics w" "w_emitted (checkBudget clk h w) = w_emitted w"
    "w_incidents (checkBudget clk h w) = w_incidents w" by blast+
qed

section \<open>Admission\<close>

text \<open>The metrics of a request in flight change nothing else.\<close>

lemma budget_gate_metrics:
  "budget_gate clk h r (w\<lparr>w_metrics := m\<rparr>) =
     map_option (\<lambda>(rp, w'). (rp, w'\<lparr>w_metrics := m\<rparr>)) (budget_gate clk h r w)"
  by (auto simp: budget_gate_def writeBudgetExceeded_def publishLog_def Let_def split: option.split sum.split)

text \<open>The spend of a caller that has reached a budget.\<close>

definition budget_reached :: "'s BudgetLedger \<Rightarrow> Caller \<Rightarrow> int \<Rightarrow> int \<Rightarrow> 's \<Rightarrow> bool" where
  "budget_reached l caller budget since s \<longleftrightarrow> 0 < budget \<and>
     (case bl_SumActualCostForKeySince l (cl_ID caller) since s of Inl _ \<Rightarrow> False | Inr spent \<Rightarrow> budget \<le> spent)"

lemma budget_gate_cases:
  fixes clk :: "nat \<Rightarrow> time"
  assumes "h_ledger h = Some l" and "rq_Caller r = Some caller"
  defines "now \<equiv> clk 0"
  shows "budget_gate clk h r w =
    (if budget_reached l caller (cl_MonthlyBudgetMicro caller) (utcMonthStart now) (w_store w)
     then Some (writeBudgetExceeded clk h caller (projr (bl_SumActualCostForKeySince l (cl_ID caller) (utcMonthStart now) (w_store w)))
       (nextMonthStart now - time_Unix now) ''Monthly budget exceeded'' w)
     else if budget_reached l caller (cl_DailyBudgetMicro caller) (utcDayStart now) (w_store w)
     then Some (writeBudgetExceeded clk h caller (projr (bl_SumActualCostForKeySince l (cl_ID caller) (utcDayStart now) (w_store w)))
       (nextDayStart now - time_Unix now) ''Daily budget exceeded'' w)
     else None)"
  using assms(1,2) unfolding now_def
  by (cases "bl_SumActualCostForKeySince l (cl_ID caller) (utcMonthStart (clk 0)) (w_store w)";
      cases "bl_SumActualCostForKeySince l (cl_ID caller) (utcDayStart (clk 0)) (w_store w)")
    (simp_all add: budget_gate_def budget_reached_def Let_def)

text \<open>A request whose body is read and judged.\<close>

definition checked :: "Request \<Rightarrow> string \<Rightarrow> bool" where
  "checked r body \<longleftrightarrow> rq_Method r = ''POST'' \<and> rq_ContentLength r \<noteq> 0 \<and> rq_ContentLength r \<le> MaxBodyBytes \<and>
     read_body r = Inr body"

lemma serve_checked:
  assumes "checked r body" and "budget_gate clk h r w = None"
  shows "serve clk h r w = serve_body clk h r body w"
  using assms by (simp add: serve_def checked_def)

text \<open>The row a blocked request leaves in the request log.\<close>

definition blocked_row :: "(nat \<Rightarrow> time) \<Rightarrow> PriceSource \<Rightarrow> Request \<Rightarrow> string \<Rightarrow> RequestRecord" where
  "blocked_row clk p r body =
     \<lparr>rr_AgentID = rq_AgentID r, rr_KeyID = callerID r, rr_ProjectName = rq_Project r, rr_Model = ExtractModel body,
      rr_PromptTokens = ps_EstimatePromptTokens p body, rr_CompletionTokens = ps_AssumedCompletionTokens p,
      rr_CostUSD = ps_SavedCost p body, rr_IsLoopBlocked = True, rr_Timestamp = time_Unix (clk 5)\<rparr>"

definition store_blocked :: "(nat \<Rightarrow> time) \<Rightarrow> ('d, 's) handler \<Rightarrow> Request \<Rightarrow> string \<Rightarrow> 's \<Rightarrow> 's" where
  "store_blocked clk h r body s =
     (case (h_price h, h_store h) of (Some p, Some log_request) \<Rightarrow> log_request (blocked_row clk p r body) s | _ \<Rightarrow> s)"

lemma block_request_reply:
  "fst (block_request clk h r body fp res w) = Reply 429 (Some (Itoa (cr_RetryAfter res)))
     (quoted ''{`error`:{`type`:`agent_loop_exception`,`message`:`'' @ cr_Reason res @
      quoted ''`,`code`:`agent_loop_exception`,`retry_after`:'' @ Itoa (cr_RetryAfter res) @ ''}}'')"
  by (simp add: block_request_def Let_def)

lemma block_request_world:
  assumes "snd (block_request clk h r body fp res w) = w'"
  shows "w_det w' = w_det w" and "w_store w' = store_blocked clk h r body (w_store w)"
    and "w_emitted w' = w_emitted w" and "w_budget w' = w_budget w"
    and "length (w_notified w') = length (w_notified w) + (if cr_FirstBlock res \<and> loopAlertsEnabled h then 1 else 0)"
    and "length (w_published w') = length (w_published w) + (if h_hub h then 1 else 0)"
    and "length (w_incidents w') = length (w_incidents w) + (if h_incidents h then 1 else 0)"
  unfolding assms [symmetric]
  by (auto simp: block_request_def Let_def store_blocked_def blocked_row_def dest: loopAlerts_notifier
      split: option.split)

lemma block_request_det [simp]: "w_det (snd (block_request clk h r body fp res w)) = w_det w"
  by (rule block_request_world(1) [OF refl])

lemma emit_payload_keeps [simp]:
  "w_det (emit_payload clk h r body fp w) = w_det w" "w_store (emit_payload clk h r body fp w) = w_store w"
  "w_metrics (emit_payload clk h r body fp w) = w_metrics w" "w_budget (emit_payload clk h r body fp w) = w_budget w"
  "w_notified (emit_payload clk h r body fp w) = w_notified w" "w_published (emit_payload clk h r body fp w) = w_published w"
  "w_incidents (emit_payload clk h r body fp w) = w_incidents w"
  "length (w_emitted (emit_payload clk h r body fp w)) = length (w_emitted w) + (if h_emitter h then 1 else 0)"
  by (simp_all add: emit_payload_def)

lemma rewind_body_keeps [simp]:
  "rq_Body (rewind_body clk h r body fp) = Inr body" "rq_ContentLength (rewind_body clk h r body fp) = int (length body)"
  "rq_Method (rewind_body clk h r body fp) = rq_Method r" "rq_Path (rewind_body clk h r body fp) = rq_Path r"
  "rq_APIKey (rewind_body clk h r body fp) = rq_APIKey r" "rq_Caller (rewind_body clk h r body fp) = rq_Caller r"
  "rq_AgentID (rewind_body clk h r body fp) = rq_AgentID r" "rq_Project (rewind_body clk h r body fp) = rq_Project r"
  by (simp_all add: rewind_body_def Let_def split: option.split)

text \<open>The world in which the verdict takes effect, and the outcome of a judged request.\<close>

definition judged_world :: "(nat \<Rightarrow> time) \<Rightarrow> ('d, 's) handler \<Rightarrow> Request \<Rightarrow> string \<Rightarrow> 'd \<Rightarrow> ('d, 's) world \<Rightarrow> ('d, 's) world" where
  "judged_world clk h r body d w =
     (emit_payload clk h r body (sha256_hex body) (w\<lparr>w_metrics := markStart (w_metrics w)\<rparr>))\<lparr>w_det := d\<rparr>"

lemma judged_world_keeps [simp]:
  "w_det (judged_world clk h r body d w) = d" "w_store (judged_world clk h r body d w) = w_store w"
  "w_metrics (judged_world clk h r body d w) = markStart (w_metrics w)" "w_budget (judged_world clk h r body d w) = w_budget w"
  "w_notified (judged_world clk h r body d w) = w_notified w" "w_published (judged_world clk h r body d w) = w_published w"
  "length (w_emitted (judged_world clk h r body d w)) = length (w_emitted w) + (if h_emitter h then 1 else 0)"
  by (simp_all add: judged_world_def)

lemma serve_outcome:
  assumes "checked r body" and "budget_gate clk h r w = None"
    and "detector_verdict (h_det h) (rq_AgentID r) (sha256_hex body) body (w_det w) = (res, d)"
  shows "ServeHTTP clk h r w =
    (if cr_Block res
     then let (rp, w') = block_request clk h r body (sha256_hex body) res (judged_world clk h r body d w)
          in (rp, w'\<lparr>w_metrics := markDone (w_metrics w')\<rparr>)
     else (Forward (rewind_body clk h r body (sha256_hex body)), judged_world clk h r body d w))"
proof -
  have "ServeHTTP clk h r w = (let (res, w) = serve_body clk h r body (w\<lparr>w_metrics := markStart (w_metrics w)\<rparr>) in case res of
           Forward r' \<Rightarrow> (Forward r', w)
         | Reply _ _ _ \<Rightarrow> (res, w\<lparr>w_metrics := markDone (w_metrics w)\<rparr>))"
    using assms(2) by (simp add: ServeHTTP_def serve_checked [OF assms(1)] budget_gate_metrics)
  then show ?thesis
    using assms(3) block_request_reply [of clk h r body "sha256_hex body" res "judged_world clk h r body d w"]
    by (simp add: serve_body_def Let_def case_prod_unfold flip: judged_world_def)
qed

text \<open>
  C2. The verdict of the detector decides a request whose body is read. When it blocks, the request
  is not forwarded: the reply is a 429 with the verdict's Retry-After, the row of the request log, if
  any, is the blocked one with the estimated saved cost, one notification is sent exactly when this is
  the first block of the window and loop alerts are on, and one live event is published. When it does
  not block, the request is forwarded with exactly the bytes that were read and their length, and
  neither the store nor the notifier nor the live log sees it yet. In both cases the detector was asked
  once.
\<close>

theorem detector_decides:
  assumes "checked r body" and "budget_gate clk h r w = None"
    and "detector_verdict (h_det h) (rq_AgentID r) (sha256_hex body) body (w_det w) = (res, d)"
    and "ServeHTTP clk h r w = (rp, w')"
  shows "w_det w' = d \<and>
    length (w_emitted w') = length (w_emitted w) + (if h_emitter h then 1 else 0) \<and>
    (if cr_Block res
     then (\<exists>message. rp = Reply 429 (Some (Itoa (cr_RetryAfter res))) message) \<and>
       w_store w' = store_blocked clk h r body (w_store w) \<and>
       length (w_notified w') = length (w_notified w) + (if cr_FirstBlock res \<and> loopAlertsEnabled h then 1 else 0) \<and>
       length (w_published w') = length (w_published w) + (if h_hub h then 1 else 0)
     else (\<exists>r'. rp = Forward r' \<and> rq_Body r' = Inr body \<and> rq_ContentLength r' = int (length body) \<and>
         rq_Method r' = rq_Method r \<and> rq_Path r' = rq_Path r \<and> rq_Caller r' = rq_Caller r) \<and>
       w_store w' = w_store w \<and> w_notified w' = w_notified w \<and> w_published w' = w_published w)"
proof (cases "cr_Block res")
  case False
  then show ?thesis using assms(4) serve_outcome [OF assms(1-3)] by auto
next
  case True
  let ?b = "block_request clk h r body (sha256_hex body) res (judged_world clk h r body d w)"
  have "rp = fst ?b" "w' = (snd ?b)\<lparr>w_metrics := markDone (w_metrics (snd ?b))\<rparr>"
    using True assms(4) serve_outcome [OF assms(1-3)] by (simp_all add: case_prod_unfold Let_def)
  moreover have "\<exists>message. fst ?b = Reply 429 (Some (Itoa (cr_RetryAfter res))) message"
    unfolding block_request_reply by blast
  ultimately show ?thesis
    using True block_request_world [OF refl, of clk h r body "sha256_hex body" res "judged_world clk h r body d w"] by simp
qed

text \<open>Concrete values for the examples: a handler over a detector that blocks every request.\<close>

definition example_request :: Request where
  "example_request =
     \<lparr>rq_Method = ''POST'', rq_Path = [''v1'', ''chat''], rq_ContentLength = 2, rq_Body = Inr ''{}'', rq_AgentID = ''a'',
      rq_Project = '''', rq_APIKey = '''', rq_Caller = None, rq_Meta = None\<rparr>"

definition example_verdict :: CheckResult where
  "example_verdict = \<lparr>cr_Block = True, cr_Reason = ''loop'', cr_RetryAfter = 30, cr_FirstBlock = True\<rparr>"

definition example_detector :: "CheckResult \<Rightarrow> int detector_if" where
  "example_detector v = \<lparr>di_Check = (\<lambda>a fp d. (v, d + 1)), di_CheckPayload = None, di_Reset = (\<lambda>a d. (d, 0))\<rparr>"

definition example_price :: PriceSource where
  "example_price = \<lparr>ps_PriceFor = (\<lambda>model. (\<lparr>mp_InputUSD = 3000000, mp_OutputUSD = 15000000\<rparr>, True)), ps_EstimatePromptTokens = (\<lambda>body. 4),
     ps_SavedCost = (\<lambda>body. 77), ps_AssumedCompletionTokens = 5\<rparr>"

definition memory_budget :: "Store BudgetLedger" where
  "memory_budget = \<lparr>bl_SumActualCostSince = (\<lambda>since s. Inr (Store_SumActualCostSince since s)),
     bl_SumActualCostForKeySince = (\<lambda>keyID since s. Inr (Store_SumActualCostForKeySince keyID since s))\<rparr>"

definition example_handler :: "CheckResult \<Rightarrow> (int, Store) handler" where
  "example_handler v = new_handler (example_detector v) (Some example_price)
     [WithStore Store_LogRequest memory_budget False, WithNotifier (Some None), WithLogStream True]"

definition example_world :: "(int, Store) world" where
  "example_world = \<lparr>w_det = 0, w_store = New, w_metrics = None, w_budget = None, w_notified = [], w_published = [],
     w_emitted = [], w_incidents = []\<rparr>"

lemma example_handler_sel [simp]:
  "h_det (example_handler v) = example_detector v" "h_price (example_handler v) = Some example_price"
  "h_store (example_handler v) = Some Store_LogRequest" "h_ledger (example_handler v) = Some memory_budget"
  "h_incidents (example_handler v) = False" "h_notifier (example_handler v) = Some None" "h_auth (example_handler v) = None"
  "h_hub (example_handler v)" "h_costThreshold (example_handler v) = None" "\<not> h_emitter (example_handler v)"
  by (simp_all add: example_handler_def new_handler_def WithStore_def WithNotifier_def WithLogStream_def)

lemma example_checked: "checked example_request ''{}''"
  by (simp add: checked_def example_request_def read_body_def MaxBodyBytes_def)

theorem detector_decides_witness:
  "w_det (snd (ServeHTTP (\<lambda>i. 0) (example_handler example_verdict) example_request example_world)) = 1 \<and>
   rp_retry (fst (ServeHTTP (\<lambda>i. 0) (example_handler example_verdict) example_request example_world)) = Some ''30'' \<and>
   length (w_notified (snd (ServeHTTP (\<lambda>i. 0) (example_handler example_verdict) example_request example_world))) = 1"
proof -
  let ?s = "ServeHTTP (\<lambda>i. 0) (example_handler example_verdict) example_request example_world"
  have "detector_verdict (h_det (example_handler example_verdict)) (rq_AgentID example_request) (sha256_hex ''{}'') ''{}'' (w_det example_world) =
      (example_verdict, 1)"
    by (simp add: detector_verdict_def example_detector_def example_world_def)
  moreover have "budget_gate (\<lambda>i. 0) (example_handler example_verdict) example_request example_world = None"
    by (simp add: budget_gate_def example_request_def)
  moreover have "Itoa 30 = ''30''" by code_simp
  ultimately show ?thesis
    using detector_decides [OF example_checked, of "\<lambda>i. 0" "example_handler example_verdict" example_world example_verdict 1 "fst ?s" "snd ?s"]
    by (auto simp: example_verdict_def example_world_def loopAlertsEnabled_def)
qed

text \<open>
  C3. The budget gate of a POST with a body, for any ledger: the request is stopped exactly when the
  ledger answers and the caller's spend since the start of the UTC month, or of the UTC day, has
  reached the positive budget of that window. The reply is then a 429 whose Retry-After is the time to
  the end of the window, at least one second and at most 31 days; it is the same whatever the body, the
  detector is not asked and nothing is written to the store. A budget of zero and a ledger that fails
  stop nothing.
\<close>

theorem budget_gate_exact:
  assumes "rq_Method r = ''POST''" and "rq_ContentLength r \<noteq> 0"
    and "h_ledger h = Some l" and "rq_Caller r = Some caller"
    and "ServeHTTP clk h r w = (rp, w')"
  shows "let now = clk 0;
      monthly = budget_reached l caller (cl_MonthlyBudgetMicro caller) (utcMonthStart now) (w_store w);
      daily = budget_reached l caller (cl_DailyBudgetMicro caller) (utcDayStart now) (w_store w)
    in (budget_gate clk h r w \<noteq> None \<longleftrightarrow> monthly \<or> daily) \<and>
       (monthly \<or> daily \<longrightarrow>
         (\<exists>retry message. rp = Reply 429 (Some (Itoa retry)) message \<and> 1 \<le> retry \<and> retry \<le> 31 * 86400 \<and>
            time_Unix now + retry = (if monthly then nextMonthStart now else nextDayStart now)) \<and>
         w_det w' = w_det w \<and> w_store w' = w_store w \<and> w_notified w' = w_notified w \<and> w_emitted w' = w_emitted w \<and>
         length (w_published w') = length (w_published w) + (if h_hub h then 1 else 0))"
proof -
  define monthly where "monthly = budget_reached l caller (cl_MonthlyBudgetMicro caller) (utcMonthStart (clk 0)) (w_store w)"
  define daily where "daily = budget_reached l caller (cl_DailyBudgetMicro caller) (utcDayStart (clk 0)) (w_store w)"
  note gate = budget_gate_cases [OF assms(3,4), of clk w, folded monthly_def daily_def]
  have gate_some: "budget_gate clk h r w \<noteq> None \<longleftrightarrow> monthly \<or> daily" by (simp add: gate)
  have "(\<exists>retry message. rp = Reply 429 (Some (Itoa retry)) message \<and> 1 \<le> retry \<and> retry \<le> 31 * 86400 \<and>
            time_Unix (clk 0) + retry = (if monthly then nextMonthStart (clk 0) else nextDayStart (clk 0))) \<and>
         w_det w' = w_det w \<and> w_store w' = w_store w \<and> w_notified w' = w_notified w \<and> w_emitted w' = w_emitted w \<and>
         length (w_published w') = length (w_published w) + (if h_hub h then 1 else 0)" if reached: "monthly \<or> daily"
  proof -
    define retry where "retry = (if monthly then nextMonthStart (clk 0) else nextDayStart (clk 0)) - time_Unix (clk 0)"
    have retry: "1 \<le> retry" "retry \<le> 31 * 86400" using window_ends [of "clk 0"] by (auto simp: retry_def)
    obtain spent reason where g: "budget_gate clk h r w = Some (writeBudgetExceeded clk h caller spent retry reason w)"
      using reached by (cases monthly) (simp_all add: gate retry_def)
    then have "(rp, w') = (fst (writeBudgetExceeded clk h caller spent retry reason w),
       (snd (writeBudgetExceeded clk h caller spent retry reason w))\<lparr>w_metrics := markDone (markStart (w_metrics w))\<rparr>)"
      using assms(1,2,5) by (simp add: ServeHTTP_def serve_def budget_gate_metrics writeBudgetExceeded_def Let_def)
    then show ?thesis using retry
      by (auto simp: writeBudgetExceeded_def Let_def retry_def)
  qed
  with gate_some show ?thesis unfolding Let_def monthly_def daily_def by blast
qed

definition example_caller :: Caller where
  "example_caller = \<lparr>cl_ID = ''k'', cl_Name = ''K'', cl_MonthlyBudgetMicro = 100, cl_DailyBudgetMicro = 0\<rparr>"

theorem budget_gate_exact_witness:
  "\<exists>message. fst (ServeHTTP (\<lambda>i. (unix_offset + 1709251170) * Second) (example_handler CheckResult_zero)
     (example_request\<lparr>rq_Caller := Some example_caller\<rparr>)
     (example_world\<lparr>w_store := Store_LogRequest (example_record ''k'' 100 False 1709200000) New\<rparr>)) = Reply 429 (Some ''30'') message"
proof -
  define clk :: "nat \<Rightarrow> time" where "clk = (\<lambda>i. (unix_offset + 1709251170) * Second)"
  define r where "r = example_request\<lparr>rq_Caller := Some example_caller\<rparr>"
  define w where "w = example_world\<lparr>w_store := Store_LogRequest (example_record ''k'' 100 False 1709200000) New\<rparr>"
  let ?s = "ServeHTTP clk (example_handler CheckResult_zero) r w"
  have v: "utcMonthStart ((unix_offset + 1709251170) * Second) = 1706745600"
      "nextMonthStart ((unix_offset + 1709251170) * Second) = 1709251200" by code_simp+
  have t: "time_Unix (clk 0) = 1709251170" by (simp add: clk_def time_Unix_def Second_def)
  have "Store_SumActualCostForKeySince ''k'' 1706745600 (Store_LogRequest (example_record ''k'' 100 False 1709200000) New) = 100"
    by code_simp
  then have m: "budget_reached memory_budget example_caller (cl_MonthlyBudgetMicro example_caller) (utcMonthStart (clk 0)) (w_store w)"
    by (simp add: budget_reached_def memory_budget_def example_caller_def v w_def clk_def)
  have "rq_Method r = ''POST''" "rq_ContentLength r \<noteq> 0" "h_ledger (example_handler CheckResult_zero) = Some memory_budget"
      "rq_Caller r = Some example_caller" "?s = (fst ?s, snd ?s)" by (simp_all add: r_def example_request_def)
  from budget_gate_exact [OF this] obtain retry message where
      s: "fst ?s = Reply 429 (Some (Itoa retry)) message" and e: "time_Unix (clk 0) + retry = nextMonthStart (clk 0)"
    by (simp only: m Let_def simp_thms if_True) blast
  have "nextMonthStart (clk 0) = 1709251200" using v(2) by (simp add: clk_def)
  then have "retry = 30" using t e by linarith
  moreover have "Itoa 30 = ''30''" by code_simp
  ultimately show ?thesis using s unfolding clk_def r_def w_def by (simp only:) blast
qed

text \<open>
  C4. Authentication fails closed. With an authenticator over the callers seeded into the memory
  store, a request without a key, or with a key whose hash is that of no seeded key, is answered 401
  and changes nothing, on every route; any other is served as the caller seeded last for its key, and
  the key itself is not passed on. Without an authenticator nothing is checked.
\<close>

theorem authentication_fails_closed:
  assumes "h_auth h = Some (Authenticate (\<lambda>hash. Store_CallerByKeyHash hash s))"
    and "s = fold (\<lambda>(key, c). Store_Set (HashAPIKey key) c) ks New"
  shows "handle clk h r w =
     (case (if rq_APIKey r = '''' then None else find (\<lambda>(key, _). HashAPIKey key = HashAPIKey (rq_APIKey r)) (rev ks)) of
        None \<Rightarrow> (Reply 401 None (quoted ''{`error`:{`type`:`unauthorized`}}''), w)
      | Some (_, c) \<Rightarrow> mux clk h (r\<lparr>rq_APIKey := '''', rq_Caller := Some c\<rparr>) w)"
proof -
  have "s = memory_callers.seeded ks" by (simp add: memory_callers.seeded_def assms(2))
  then show ?thesis
    by (simp add: handle_def assms(1) Middleware_def memory_callers.authenticate_seeded Let_def split: option.split prod.split)
qed

theorem authentication_fails_closed_witness:
  "handle (\<lambda>i. 0) ((example_handler CheckResult_zero)\<lparr>h_auth := Some (Authenticate (\<lambda>hash. Store_CallerByKeyHash hash
       (fold (\<lambda>(key, c). Store_Set (HashAPIKey key) c) [(''key'', example_caller)] New)))\<rparr>) example_request example_world =
   (Reply 401 None (quoted ''{`error`:{`type`:`unauthorized`}}''), example_world)"
proof -
  let ?s = "fold (\<lambda>(key, c). Store_Set (HashAPIKey key) c) [(''key'', example_caller)] New"
  let ?h = "(example_handler CheckResult_zero)\<lparr>h_auth := Some (Authenticate (\<lambda>hash. Store_CallerByKeyHash hash ?s))\<rparr>"
  have "h_auth ?h = Some (Authenticate (\<lambda>hash. Store_CallerByKeyHash hash ?s))" by simp
  from authentication_fails_closed [OF this refl, of "\<lambda>i. 0" example_request example_world] show ?thesis
    by (simp only: example_request_def Request.simps if_True simp_thms option.case)
qed

section \<open>The ledger\<close>

lemma onCost_store:
  "w_store (handler_onCost clk h meta promptTok completionTok w) =
     (case (h_price h, h_store h) of
        (Some p, Some log_request) \<Rightarrow> log_request
           \<lparr>rr_AgentID = rm_agent meta, rr_KeyID = rm_callerID meta, rr_ProjectName = rm_projectName meta,
            rr_Model = rm_model meta, rr_PromptTokens = promptTok, rr_CompletionTokens = completionTok,
            rr_CostUSD = Cost (fst (ps_PriceFor p (rm_model meta))) promptTok completionTok,
            rr_IsLoopBlocked = False, rr_Timestamp = time_Unix (clk 2)\<rparr> (w_store w)
      | _ \<Rightarrow> w_store w)"
  by (auto simp: handler_onCost_def Let_def case_prod_unfold split: option.split)

lemma onCost_det [simp]: "w_det (handler_onCost clk h meta promptTok completionTok w) = w_det w"
  by (auto simp: handler_onCost_def Let_def case_prod_unfold split: option.split)

lemma forwarded_store:
  assumes "rq_Meta r = Some meta" and "rm_trackCost meta" and "body_complete (isEventStream contentType) evs body"
  shows "w_store (forwarded_response clk h r status contentType evs w) =
    (let (promptTok, completionTok) = reference_tokens (isEventStream contentType) (rm_promptTok meta) body
     in w_store (handler_onCost clk h meta promptTok completionTok w))"
  using assms
  by (simp add: forwarded_response_def modifyResponse_def body_run_report Let_def case_prod_unfold onCost_store split: option.split)

lemma Store_Logs_LogRequest: "Store_Logs (Store_LogRequest r s) = Store_Logs s @ [r]"
  by (simp add: Store_Logs_def Store_LogRequest_def)

text \<open>The sums of the memory store are 64-bit integers already.\<close>

lemma memory_sum_wrap [simp]: "wrap64 (Store_SumActualCostForKeySince keyID since s) = Store_SumActualCostForKeySince keyID since s"
  by (simp add: Store_SumActualCostForKeySince_def sum_loops_wrap wrap64_id is_int64_iff)

text \<open>
  C5. What a judged request adds to the ledger, with the memory store: exactly one row. A blocked
  request adds nothing to the spend of any caller; a forwarded one whose response was read to its end
  adds to the spend of its own caller the cost, at the price of its model, of the tokens the response
  reports (or of the estimate), from the time it completed on, and nothing to anyone else's.
\<close>

theorem spend_accounting:
  assumes "h_price h = Some p" and "h_store h = Some Store_LogRequest"
    and "checked r body" and "budget_gate clk h r w = None"
    and "fst (detector_verdict (h_det h) (rq_AgentID r) (sha256_hex body) body (w_det w)) = res"
    and "body_complete (isEventStream contentType) evs answer"
    and "ServeHTTP clk h r w = (rp, w1)"
    and "w2 = (case rp of Forward r' \<Rightarrow> forwarded_response clk' h r' status contentType evs w1 | Reply _ _ _ \<Rightarrow> w1)"
  shows "let (promptTok, completionTok) = reference_tokens (isEventStream contentType) (ps_EstimatePromptTokens p body) answer;
      bill = Cost (fst (ps_PriceFor p (ExtractModel body))) promptTok completionTok
    in Store_SumActualCostForKeySince keyID since (w_store w2) =
         (if \<not> cr_Block res \<and> keyID = callerID r \<and> since \<le> time_Unix (clk' 2)
          then wrap64 (Store_SumActualCostForKeySince keyID since (w_store w) + bill)
          else Store_SumActualCostForKeySince keyID since (w_store w)) \<and>
       length (Store_Logs (w_store w2)) = length (Store_Logs (w_store w)) + 1"
proof -
  define fp where "fp = sha256_hex body"
  define d where "d = snd (detector_verdict (h_det h) (rq_AgentID r) fp body (w_det w))"
  have v: "detector_verdict (h_det h) (rq_AgentID r) (sha256_hex body) body (w_det w) = (res, d)"
    using assms(5) by (simp add: d_def fp_def prod_eq_iff)
  note s = serve_outcome [OF assms(3,4) v]
  note logged = memory_ledger.sum_log key_cost_def actual_cost_def Store_Logs_LogRequest
  show ?thesis
  proof (cases "cr_Block res")
    case True
    let ?b = "block_request clk h r body (sha256_hex body) res (judged_world clk h r body d w)"
    have "w_store w2 = w_store (snd ?b)"
      using True assms(8) trans [OF assms(7) [symmetric] s] by (simp add: case_prod_unfold Let_def block_request_reply)
    also have "\<dots> = Store_LogRequest (blocked_row clk p r body) (w_store w)"
      using block_request_world(2) [OF refl, of clk h r body "sha256_hex body" res "judged_world clk h r body d w"] assms(1,2)
      by (simp add: store_blocked_def)
    finally show ?thesis using True by (simp add: blocked_row_def logged case_prod_unfold Let_def)
  next
    case False
    define r' where "r' = rewind_body clk h r body (sha256_hex body)"
    obtain meta where meta: "rq_Meta r' = Some meta" "rm_trackCost meta" "rm_callerID meta = callerID r"
        "rm_promptTok meta = ps_EstimatePromptTokens p body" "rm_model meta = ExtractModel body"
      using assms(1,2) by (simp add: r'_def rewind_body_def callerID_def)
    have "w2 = forwarded_response clk' h r' status contentType evs (judged_world clk h r body d w)"
      using False s assms(7,8) by (simp add: r'_def)
    then show ?thesis
      using False meta assms(1,2) forwarded_store [OF meta(1,2) assms(6), of clk' h status "judged_world clk h r body d w"]
      by (simp add: onCost_store logged case_prod_unfold Let_def)
  qed
qed

definition example_answer :: "body_event list" where
  "example_answer = [ReadData (quoted ''{`usage`:{`prompt_tokens`:12,`completion_tokens`:3}}'') True]"

lemma example_answer_complete: "body_complete False example_answer (quoted ''{`usage`:{`prompt_tokens`:12,`completion_tokens`:3}}'')"
  unfolding body_complete_def example_answer_def by (rule exI [of _ "[]"]) simp

lemma example_tokens: "reference_tokens False 4 (quoted ''{`usage`:{`prompt_tokens`:12,`completion_tokens`:3}}'') = (12, 3)"
proof -
  have "length (quoted ''{`usage`:{`prompt_tokens`:12,`completion_tokens`:3}}'') \<le> 100" by code_simp
  moreover have "parseJSONUsage (quoted ''{`usage`:{`prompt_tokens`:12,`completion_tokens`:3}}'') = Some (12, 3)" by code_simp
  ultimately show ?thesis by (simp add: reference_tokens_def usageBufferCap_def)
qed

theorem spend_accounting_witness:
  "\<exists>r' w1. ServeHTTP (\<lambda>i. 0) (example_handler CheckResult_zero) example_request example_world = (Forward r', w1) \<and>
     Store_SumActualCostForKeySince '''' (time_Unix 0)
       (w_store (forwarded_response (\<lambda>i. 0) (example_handler CheckResult_zero) r' 200 '''' example_answer w1)) = 81"
proof -
  let ?h = "example_handler CheckResult_zero"
  let ?s = "ServeHTTP (\<lambda>i. 0) ?h example_request example_world"
  have gate: "budget_gate (\<lambda>i. 0) ?h example_request example_world = None"
    by (simp add: budget_gate_def example_request_def)
  have v: "detector_verdict (h_det ?h) (rq_AgentID example_request) (sha256_hex ''{}'') ''{}'' (w_det example_world) = (CheckResult_zero, 1)"
    by (simp add: detector_verdict_def example_detector_def example_world_def)
  obtain r' w1 where s: "?s = (Forward r', w1)"
    using serve_outcome [OF example_checked gate v] by simp
  have sse: "isEventStream '''' = False" by code_simp
  have "fst (detector_verdict (h_det ?h) (rq_AgentID example_request) (sha256_hex ''{}'') ''{}'' (w_det example_world)) = CheckResult_zero"
    using v by simp
  note acc = spend_accounting [OF _ _ example_checked gate this _ s, where p = example_price and keyID = "''''" and since = "time_Unix 0",
    OF _ _ _ refl, of "''''" example_answer _ "\<lambda>i. 0" 200]
  have "Cost \<lparr>mp_InputUSD = 3000000, mp_OutputUSD = 15000000\<rparr> 12 3 = 81" by code_simp
  moreover have "callerID example_request = ''''" by (simp add: callerID_def example_request_def)
  moreover have "Store_SumActualCostForKeySince '''' (time_Unix 0) (w_store example_world) = 0"
    by (simp add: example_world_def memory_ledger.sum_empty)
  ultimately show ?thesis
    using s acc [of "quoted ''{`usage`:{`prompt_tokens`:12,`completion_tokens`:3}}''"] example_answer_complete
    by (simp add: sse example_price_def example_tokens wrap64_id is_int64_iff)
qed

text \<open>
  C23. The metrics of a forwarded request whose response was read to its end. The request is in flight
  from its start to its end. It counts as a request, with its latency and its tokens, exactly when both
  a price source and a store are wired; without one of them the response is not observed and the
  request is not counted at all.
\<close>

theorem forwarded_metrics:
  assumes "rq_Meta r = None" and "checked r body" and "budget_gate clk h r w = None"
    and "body_complete (isEventStream contentType) evs answer"
    and "ServeHTTP clk h r w = (Forward r', w1)"
  shows "w_metrics (forwarded_response clk' h r' status contentType evs w1) =
    markDone (case (h_price h, h_store h) of
        (Some p, Some _) \<Rightarrow>
          (let (promptTok, completionTok) = reference_tokens (isEventStream contentType) (ps_EstimatePromptTokens p body) answer
           in markForwarded (clk' 1) (time_Sub (clk' 0) (clk 8)) promptTok completionTok (markStart (w_metrics w)))
      | _ \<Rightarrow> markStart (w_metrics w))"
proof -
  obtain res d where v: "detector_verdict (h_det h) (rq_AgentID r) (sha256_hex body) body (w_det w) = (res, d)"
    by (cases "detector_verdict (h_det h) (rq_AgentID r) (sha256_hex body) body (w_det w)")
  have s: "r' = rewind_body clk h r body (sha256_hex body)" "w1 = judged_world clk h r body d w"
    using assms(5) serve_outcome [OF assms(2,3) v] by (auto simp: case_prod_unfold Let_def block_request_reply split: if_splits)
  have m: "w_metrics (handler_onCost clk' h meta promptTok completionTok w) =
      markForwarded (clk' 1) (time_Sub (clk' 0) (rm_start meta)) promptTok completionTok (w_metrics w)" for meta promptTok completionTok w
    by (auto simp: handler_onCost_def Let_def case_prod_unfold split: option.split)
  show ?thesis
    using assms(1,4) by (auto simp: s forwarded_response_def modifyResponse_def rewind_body_def Let_def body_run_report case_prod_unfold m
      split: option.split)
qed

theorem forwarded_metrics_witness:
  "\<exists>r' w1. ServeHTTP (\<lambda>i. 0) ((example_handler CheckResult_zero)\<lparr>h_price := None\<rparr>) example_request
       (example_world\<lparr>w_metrics := Some (NewMetrics 0)\<rparr>) = (Forward r', w1) \<and>
     map_option mt_requests (w_metrics (forwarded_response (\<lambda>i. 0) ((example_handler CheckResult_zero)\<lparr>h_price := None\<rparr>) r' 200 '''' example_answer w1)) =
       Some 0"
proof -
  let ?h = "(example_handler CheckResult_zero)\<lparr>h_price := None\<rparr>"
  let ?w = "example_world\<lparr>w_metrics := Some (NewMetrics 0)\<rparr>"
  have gate: "budget_gate (\<lambda>i. 0) ?h example_request ?w = None"
    by (simp add: budget_gate_def example_request_def)
  have v: "detector_verdict (h_det ?h) (rq_AgentID example_request) (sha256_hex ''{}'') ''{}'' (w_det ?w) = (CheckResult_zero, 1)"
    by (simp add: detector_verdict_def example_detector_def example_world_def)
  obtain r' w1 where s: "ServeHTTP (\<lambda>i. 0) ?h example_request ?w = (Forward r', w1)"
    using serve_outcome [OF example_checked gate v] by simp
  have "isEventStream '''' = False" by code_simp
  then have c: "body_complete (isEventStream '''') example_answer (quoted ''{`usage`:{`prompt_tokens`:12,`completion_tokens`:3}}'')"
    using example_answer_complete by simp
  have "rq_Meta example_request = None" by (simp add: example_request_def)
  from forwarded_metrics [OF this example_checked gate c s, of "\<lambda>i. 0" 200] show ?thesis
    using s by (simp add: markDone_def markStart_def NewMetrics_def)
qed

end
