(* ===== verification/Go_URL.thy ===== *)
theory Go_URL
  imports Go_Strings
begin

text \<open>
  What the program uses of package \<^verbatim>\<open>net/url\<close> and of the routing of
  \<^verbatim>\<open>net/http\<close>: percent encoding of paths and path segments, the path a URL is
  printed with, and how a server splits the path of a request. \<^verbatim>\<open>url.Parse\<close> is an
  argument of the definitions that use it; a parsed URL is what printing it again depends on.
\<close>

section \<open>Percent encoding\<close>

datatype encoding = encodePath | encodePathSegment

definition unreserved :: "char \<Rightarrow> bool" where
  "unreserved c \<longleftrightarrow> between 0x61 0x7A c \<or> between 0x41 0x5A c \<or> between 0x30 0x39 c \<or> c \<in> set ''-_.~''"

definition shouldEscape :: "encoding \<Rightarrow> char \<Rightarrow> bool" where
  "shouldEscape mode c =
     (if unreserved c then False
      else if c \<in> set ''$&+,/:;=?@'' then (case mode of encodePath \<Rightarrow> c = CHR ''?'' | encodePathSegment \<Rightarrow> c \<in> set ''/;,?'')
      else True)"

definition upperhex :: "nat \<Rightarrow> char" where
  "upperhex n = byte (if n < 10 then 0x30 + n else 0x37 + n)"

definition escape_char :: "encoding \<Rightarrow> char \<Rightarrow> string" where
  "escape_char mode c =
     (if shouldEscape mode c then [CHR ''%'', upperhex (code c div 16), upperhex (code c mod 16)] else [c])"

definition escape :: "encoding \<Rightarrow> string \<Rightarrow> string" where
  "escape mode s = concat (map (escape_char mode) s)"

definition PathEscape :: "string \<Rightarrow> string" where "PathEscape = escape encodePathSegment"

fun unescape :: "string \<Rightarrow> string option" where
  "unescape [] = Some []"
| "unescape (c # s) =
     (if c = CHR ''%''
      then (case s of
              a # b # r \<Rightarrow>
                (case (hex_value a, hex_value b) of
                   (Some x, Some y) \<Rightarrow> map_option (\<lambda>t. byte (16 * x + y) # t) (unescape r)
                 | _ \<Rightarrow> None)
            | _ \<Rightarrow> None)
      else map_option (\<lambda>t. c # t) (unescape s))"

section \<open>URLs\<close>

text \<open>
  What a parsed URL is printed from: the text before a non-empty path (scheme, user and host), the opaque
  part of a URL without authority, the path, its original encoding when that is not the default, the query
  and the fragment.
\<close>

record URL =
  u_Before :: string
  u_Opaque :: string
  u_Path :: string
  u_RawPath :: string
  u_ForceQuery :: bool
  u_RawQuery :: string
  u_Fragment :: string

definition validEncoded :: "string \<Rightarrow> bool" where
  "validEncoded s \<longleftrightarrow> list_all (\<lambda>c. c \<in> set ''!$&()*+,;=:@[]%'' \<or> c = CHR 0x27 \<or> \<not> shouldEscape encodePath c) s"

definition EscapedPath :: "URL \<Rightarrow> string" where
  "EscapedPath u =
     (if u_RawPath u \<noteq> '''' \<and> validEncoded (u_RawPath u) \<and> unescape (u_RawPath u) = Some (u_Path u) then u_RawPath u
      else if u_Path u = ''*'' then ''*''
      else escape encodePath (u_Path u))"

definition URL_String :: "URL \<Rightarrow> string" where
  "URL_String u =
     u_Before u @ (if u_Opaque u \<noteq> '''' then u_Opaque u else EscapedPath u) @
     (if u_ForceQuery u \<or> u_RawQuery u \<noteq> '''' then CHR ''?'' # u_RawQuery u else '''') @
     (if u_Fragment u \<noteq> '''' then CHR ''#'' # u_Fragment u else '''')"

section \<open>The path of a request at the server\<close>

fun split_on :: "char \<Rightarrow> string \<Rightarrow> string list" where
  "split_on d [] = [[]]"
| "split_on d (c # s) =
     (if c = d then [] # split_on d s
      else case split_on d s of [] \<Rightarrow> [[c]] | x # xs \<Rightarrow> (c # x) # xs)"

text \<open>
  The mux matches the segments of the path as it was sent, each unescaped on its own (or as it is when it
  is malformed). A path that is not clean is answered with a redirect, which is \<open>None\<close>.
\<close>

definition pathUnescape :: "string \<Rightarrow> string" where
  "pathUnescape s = (case unescape s of None \<Rightarrow> s | Some t \<Rightarrow> t)"

definition request_segments :: "string \<Rightarrow> string list option" where
  "request_segments path =
     (case split_on (CHR ''/'') path of
        [] \<Rightarrow> None
      | first # segs \<Rightarrow>
          if first = '''' \<and> segs \<noteq> [] \<and> set (butlast segs) \<inter> {'''', ''.'', ''..''} = {} \<and> last segs \<notin> {''.'', ''..''}
          then Some (map pathUnescape segs) else None)"

section \<open>Lemmas\<close>

lemma hex_value_upperhex: "n < 16 \<Longrightarrow> hex_value (upperhex n) = Some n"
  by (auto simp: hex_value_def upperhex_def between_def code_byte)

lemma unescape_escape_char: "unescape (escape_char mode c @ s) = map_option (\<lambda>t. c # t) (unescape s)"
proof (cases "shouldEscape mode c")
  case True
  have "code c div 16 < 16" "code c mod 16 < 16" using code_less [of c] by simp_all
  then show ?thesis
    using True by (simp add: escape_char_def hex_value_upperhex byte_code)
next
  case False
  then have "c \<noteq> CHR ''%''" by (auto simp: shouldEscape_def unreserved_def between_def code_def)
  then show ?thesis using False by (simp add: escape_char_def)
qed

lemma unescape_escape: "unescape (escape mode s) = Some s"
  by (induction s) (simp_all add: escape_def unescape_escape_char)

lemma pathUnescape_escape [simp]: "pathUnescape (escape mode s) = s"
  by (simp add: pathUnescape_def unescape_escape)

lemma escape_Nil [simp]: "escape mode [] = []"
  by (simp add: escape_def)

lemma escape_append: "escape mode (s @ t) = escape mode s @ escape mode t"
  by (simp add: escape_def)

lemma escape_id: "escape mode s = s \<longleftrightarrow> (\<forall>c\<in>set s. \<not> shouldEscape mode c)"
proof
  have "length s \<le> length (escape mode s) \<and> ((\<exists>c\<in>set s. shouldEscape mode c) \<longrightarrow> length s < length (escape mode s))" for s
    by (induction s) (auto simp: escape_def escape_char_def)
  then show "escape mode s = s \<Longrightarrow> \<forall>c\<in>set s. \<not> shouldEscape mode c" by (metis less_irrefl)
  show "\<forall>c\<in>set s. \<not> shouldEscape mode c \<Longrightarrow> escape mode s = s"
    by (induction s) (auto simp: escape_def escape_char_def)
qed

lemma split_on_append: "d \<notin> set s \<Longrightarrow> split_on d (s @ d # t) = s # split_on d t"
  by (induction s) (auto split: list.splits)

lemma split_on_none: "d \<notin> set s \<Longrightarrow> split_on d s = [s]"
  by (induction s) (auto split: list.splits)

end
