(* ===== verification/Proxy_Server.thy ===== *)
theory Proxy_Server
  imports Static_Prices SQLite_Store Go_Flag Pipeline Request_Path Go_URL
begin

text \<open>
  The command that serves the proxy (\<^verbatim>\<open>cmd/proxy/main.go\<close>): its flags, the keys file,
  the alert thresholds, and what the parts are wired with. The files, the parsing of the upstream URL,
  the network and the database engine are arguments. The result of \<^verbatim>\<open>run\<close> is the server
  as it starts to listen; its startup log line is left out.
\<close>

section \<open>Flags\<close>

record Options =
  op_addr :: string
  op_upstream :: string
  op_ttl :: duration
  op_limit :: int
  op_pricing :: string
  op_pricingURL :: string
  op_db :: string
  op_keys :: string
  op_dailyBudget :: int
  op_thresholds :: string
  op_metrics :: bool
  op_dashboard :: bool
  op_dynamic :: bool
  op_structural :: bool
  op_toolLoop :: bool
  op_velocity :: bool
  op_showVersion :: bool

definition default_options :: Options where
  "default_options =
     \<lparr>op_addr = '':8080'', op_upstream = ''http://localhost:11434/v1'', op_ttl = 5 * Minute, op_limit = 2,
      op_pricing = ''config/pricing.json'', op_pricingURL = '''', op_db = '''', op_keys = '''', op_dailyBudget = 0,
      op_thresholds = ''50,80,100'', op_metrics = True, op_dashboard = True, op_dynamic = False,
      op_structural = False, op_toolLoop = False, op_velocity = False, op_showVersion = False\<rparr>"

definition server_flags :: "(string \<times> Options flag) list" where
  "server_flags =
     [(''addr'', StringFlag (\<lambda>v c. c\<lparr>op_addr := v\<rparr>)), (''upstream'', StringFlag (\<lambda>v c. c\<lparr>op_upstream := v\<rparr>)),
      (''ttl'', DurationFlag (\<lambda>v c. c\<lparr>op_ttl := v\<rparr>)), (''limit'', IntFlag (\<lambda>v c. c\<lparr>op_limit := v\<rparr>)),
      (''pricing'', StringFlag (\<lambda>v c. c\<lparr>op_pricing := v\<rparr>)), (''pricing-url'', StringFlag (\<lambda>v c. c\<lparr>op_pricingURL := v\<rparr>)),
      (''db'', StringFlag (\<lambda>v c. c\<lparr>op_db := v\<rparr>)), (''keys'', StringFlag (\<lambda>v c. c\<lparr>op_keys := v\<rparr>)),
      (''daily-budget-micro'', IntFlag (\<lambda>v c. c\<lparr>op_dailyBudget := v\<rparr>)),
      (''budget-thresholds'', StringFlag (\<lambda>v c. c\<lparr>op_thresholds := v\<rparr>)),
      (''metrics'', BoolFlag (\<lambda>v c. c\<lparr>op_metrics := v\<rparr>)), (''dashboard'', BoolFlag (\<lambda>v c. c\<lparr>op_dashboard := v\<rparr>)),
      (''dynamic'', BoolFlag (\<lambda>v c. c\<lparr>op_dynamic := v\<rparr>)), (''structural'', BoolFlag (\<lambda>v c. c\<lparr>op_structural := v\<rparr>)),
      (''tool-loop'', BoolFlag (\<lambda>v c. c\<lparr>op_toolLoop := v\<rparr>)), (''velocity'', BoolFlag (\<lambda>v c. c\<lparr>op_velocity := v\<rparr>)),
      (''version'', BoolFlag (\<lambda>v c. c\<lparr>op_showVersion := v\<rparr>))]"

text \<open>\<^verbatim>\<open>strconv.Atoi\<close>: a sign and decimal digits.\<close>

definition Atoi :: "string \<Rightarrow> int option" where
  "Atoi s =
     (let neg = (s \<noteq> [] \<and> s ! 0 = CHR ''-''); ds = (if s \<noteq> [] \<and> s ! 0 \<in> set ''+-'' then drop 1 s else s)
      in if ds = [] then None
         else case digits_value ds 0 of
                None \<Rightarrow> None
              | Some n \<Rightarrow> let v = (if neg then - n else n) in if is_int64 v then Some v else None)"

fun threshold_parts :: "string list \<Rightarrow> int list" where
  "threshold_parts [] = []"
| "threshold_parts (part # parts) =
     (let part = TrimSpace part
      in if part = '''' then threshold_parts parts
         else case Atoi part of
                None \<Rightarrow> threshold_parts parts
              | Some n \<Rightarrow> if n \<le> 0 \<or> n > 100 then threshold_parts parts else n # threshold_parts parts)"

definition parseThresholds :: "string \<Rightarrow> int list" where
  "parseThresholds s = threshold_parts (split_on (CHR '','') s)"

definition storeKind :: "string \<Rightarrow> string" where
  "storeKind dbPath = (if dbPath \<noteq> '''' then ''sqlite('' @ dbPath @ '')'' else ''memory'')"

section \<open>The keys file\<close>

record keyEntry =
  ke_Key :: string
  ke_ID :: string
  ke_Name :: string
  ke_MonthlyBudgetMicro :: int
  ke_DailyBudgetMicro :: int

definition keyEntry_zero :: keyEntry where
  "keyEntry_zero = \<lparr>ke_Key = '''', ke_ID = '''', ke_Name = '''', ke_MonthlyBudgetMicro = 0, ke_DailyBudgetMicro = 0\<rparr>"

definition store_keyEntry :: "keyEntry store" where
  "store_keyEntry = store_struct
     [(''key'', \<lambda>v e. map_option (\<lambda>x. e\<lparr>ke_Key := x\<rparr>) (store_string v (ke_Key e))),
      (''id'', \<lambda>v e. map_option (\<lambda>x. e\<lparr>ke_ID := x\<rparr>) (store_string v (ke_ID e))),
      (''name'', \<lambda>v e. map_option (\<lambda>x. e\<lparr>ke_Name := x\<rparr>) (store_string v (ke_Name e))),
      (''monthly_budget_micro'', \<lambda>v e. map_option (\<lambda>x. e\<lparr>ke_MonthlyBudgetMicro := x\<rparr>) (store_int64 v (ke_MonthlyBudgetMicro e))),
      (''daily_budget_micro'', \<lambda>v e. map_option (\<lambda>x. e\<lparr>ke_DailyBudgetMicro := x\<rparr>) (store_int64 v (ke_DailyBudgetMicro e)))]"

datatype keys_error = ReadKeys error | ParseKeys | EntryMissing

definition entry_caller :: "keyEntry \<Rightarrow> Caller" where
  "entry_caller e =
     \<lparr>cl_ID = ke_ID e, cl_Name = ke_Name e, cl_MonthlyBudgetMicro = ke_MonthlyBudgetMicro e, cl_DailyBudgetMicro = ke_DailyBudgetMicro e\<rparr>"

fun load_entries :: "(string \<Rightarrow> Caller \<Rightarrow> 's \<Rightarrow> 's) \<Rightarrow> keyEntry list \<Rightarrow> 's \<Rightarrow> keys_error option \<times> 's" where
  "load_entries put [] s = (None, s)"
| "load_entries put (e # es) s =
     (if ke_Key e = '''' \<or> ke_ID e = '''' then (Some EntryMissing, s)
      else load_entries put es (put (HashAPIKey (ke_Key e)) (entry_caller e) s))"

text \<open>Both caller stores have the method that seeds them.\<close>

definition loadKeys :: "(string \<Rightarrow> Caller \<Rightarrow> 's \<Rightarrow> 's) \<Rightarrow> error + string \<Rightarrow> 's \<Rightarrow> keys_error option \<times> 's" where
  "loadKeys put content s =
     (case content of
        Inl err \<Rightarrow> (Some (ReadKeys err), s)
      | Inr data \<Rightarrow>
          (case unmarshal (store_slice keyEntry_zero store_keyEntry) ([], []) data of
             None \<Rightarrow> (Some ParseKeys, s)
           | Some (entries, _) \<Rightarrow> load_entries put entries s))"

section \<open>Wiring\<close>

definition priceRowsFrom :: "string range_order \<Rightarrow> string range_order \<Rightarrow> Pricing \<Rightarrow> PriceRow list" where
  "priceRowsFrom ord1 ord2 p =
     map (\<lambda>(model, mp). \<lparr>pw_Model = model, pw_Provider = '''', pw_InputMicroUSD = mp_InputUSD mp, pw_OutputMicroUSD = mp_OutputUSD mp,
                         pw_Source = PriceSourceSeed\<rparr>)
       (range_entries ord2 (the (Pricing_Models ord1 (Some p))))"

text \<open>The zero configurations that ask for the defaults of the detectors.\<close>

definition StructuralConfig_zero :: StructuralConfig where
  "StructuralConfig_zero = \<lparr>sc_Threshold = Fin 0, sc_Window = 0, sc_Limit = 0, sc_TTL = 0, sc_MaxEntries = 0\<rparr>"

definition ToolConfig_zero :: ToolConfig where
  "ToolConfig_zero = \<lparr>tl_MaxSeq = 0, tl_MaxPeriod = 0, tl_Limit = 0, tl_TTL = 0, tl_MaxEntries = 0\<rparr>"

definition VelocityConfig_zero :: VelocityConfig where
  "VelocityConfig_zero = \<lparr>vc_Window = 0, vc_ShortWindow = 0, vc_BurstTokens = 0, vc_SpikeFactor = Fin 0, vc_MaxEntries = 0\<rparr>"

definition pipeline_options :: "Options \<Rightarrow> PipelineOption list" where
  "pipeline_options ops =
     (if op_dynamic ops \<or> op_structural ops then [WithStructural (NewStructuralHasher StructuralConfig_zero)] else []) @
     (if op_dynamic ops \<or> op_toolLoop ops then [WithTools (NewToolMatcher ToolConfig_zero)] else []) @
     (if op_dynamic ops \<or> op_velocity ops then [WithVelocity (NewVelocityBreaker VelocityConfig_zero)] else [])"

text \<open>
  What \<^verbatim>\<open>run\<close> meets: the upstream URL, the files, the outcome and time of the bootstrap
  fetch, the engine and its opening, the clock and the orders of map iterations.
\<close>

record 'g run_inputs =
  in_ParseURL :: "string \<Rightarrow> error option"
  in_ReadFile :: "string \<Rightarrow> error + string"
  in_Bootstrap :: "(string range_order \<times> string range_order) \<times> (error + models) \<times> time"
  in_Engine :: "'g gorm"
  in_Dir :: "string \<Rightarrow> string"
  in_Now :: time
  in_Orders :: "string range_order \<times> string range_order \<times> string range_order"

record 'g server =
  sv_Addr :: string
  sv_Upstream :: string
  sv_Base :: Pricing
  sv_Registry :: "unit Registry option"
  sv_Exact :: HashDetector
  sv_Pipeline :: "Pipeline option"
  sv_Store :: "Store + 'g DB \<times> KeyStore"
  sv_CostThreshold :: int
  sv_Auth :: bool
  sv_Budget :: "BudgetConfig option"
  sv_Metrics :: bool
  sv_Dashboard :: bool

datatype run_error = ParseUpstream error | LoadPricing load_error | StoreError error | KeysError keys_error | Panicked

datatype 'g run_result = VersionShown | RunFailed run_error | Serving "'g server"

text \<open>The catalog registry, when an endpoint is given: bootstrapped once before serving.\<close>

definition run_registry :: "'g run_inputs \<Rightarrow> Options \<Rightarrow> Pricing \<Rightarrow> unit Registry option outcome" where
  "run_registry i ops base =
     (if op_pricingURL ops = '''' then Ret None
      else let cfg = DefaultConfig\<lparr>cf_PricingPath := op_pricing ops, cf_Endpoint := op_pricingURL ops, cf_RefreshInterval := 6 * Hour\<rparr>;
               (ords, fetched, now) = in_Bootstrap i
           in Registry_Bootstrap ords () fetched now (Some (NewRegistry (Some base) (NewFetcher cfg) cfg)))"

definition run_store :: "'g run_inputs \<Rightarrow> Options \<Rightarrow> Pricing \<Rightarrow> run_error + (Store + 'g DB \<times> KeyStore)" where
  "run_store i ops base =
     (if op_db ops \<noteq> ''''
      then case SQLite_Open (in_Engine i) (in_Dir i) (op_db ops) of
             Inl err \<Rightarrow> Inl (StoreError err)
           | Inr db \<Rightarrow>
               (let (_, ord1, ord2) = in_Orders i
                in case SQLite_SeedModelPrices (in_Engine i) (in_Now i) (priceRowsFrom ord1 ord2 base) db of
                     Panic \<Rightarrow> Inl Panicked
                   | Ret (Some err, db) \<Rightarrow> Inl (StoreError (''seed model prices: '' @ err))
                   | Ret (None, db) \<Rightarrow> Inr (Inr (db, NewKeyStore)))
      else Inr (Inl New))"

definition run_keys :: "'g run_inputs \<Rightarrow> Options \<Rightarrow> Store + 'g DB \<times> KeyStore \<Rightarrow> run_error + (Store + 'g DB \<times> KeyStore)" where
  "run_keys i ops st =
     (if op_keys ops = '''' then Inr st
      else let content = in_ReadFile i (op_keys ops)
           in case st of
                Inl mem \<Rightarrow>
                  (case loadKeys Store_Set content mem of (Some err, _) \<Rightarrow> Inl (KeysError err) | (None, mem) \<Rightarrow> Inr (Inl mem))
              | Inr (db, ks) \<Rightarrow>
                  (case loadKeys KeyStore_Set content ks of (Some err, _) \<Rightarrow> Inl (KeysError err) | (None, ks) \<Rightarrow> Inr (Inr (db, ks))))"

text \<open>The settings, if they can be read, and the store afterwards.\<close>

definition run_settings :: "'g run_inputs \<Rightarrow> Store + 'g DB \<times> KeyStore \<Rightarrow> (SettingsRow option \<times> (Store + 'g DB \<times> KeyStore)) outcome" where
  "run_settings i st =
     (case st of
        Inl mem \<Rightarrow> Ret (Some (Store_GetSettings mem), st)
      | Inr (db, ks) \<Rightarrow>
          (case SQLite_GetSettings (in_Engine i) (in_Now i) db of
             Panic \<Rightarrow> Panic
           | Ret (Inl err, db) \<Rightarrow> Ret (None, Inr (db, ks))
           | Ret (Inr row, db) \<Rightarrow> Ret (Some row, Inr (db, ks))))"

text \<open>
  The pipeline shares the exact detector, whose limit is set after it has been built. Its token estimate
  is that of the price source, and every table a registry serves has the estimation parameters of the
  base table.
\<close>

definition run_server :: "'g run_inputs \<Rightarrow> Options \<Rightarrow> 'g run_result" where
  "run_server i ops =
     (if op_showVersion ops then VersionShown
      else case in_ParseURL i (op_upstream ops) of
             Some err \<Rightarrow> RunFailed (ParseUpstream err)
           | None \<Rightarrow>
               (case Load (fst (in_Orders i)) (in_ReadFile i (op_pricing ops)) of
                  Inl err \<Rightarrow> RunFailed (LoadPricing err)
                | Inr base \<Rightarrow>
                    (case run_registry i ops base of
                       Panic \<Rightarrow> RunFailed Panicked
                     | Ret registry \<Rightarrow>
                         (let exact = NewHashDetector (op_ttl ops) (op_limit ops);
                              estimate = (\<lambda>body. Pricing_EstimatePromptTokens body base);
                              opts = pipeline_options ops;
                              build = (\<lambda>exact. if opts = [] then None else Some (NewPipeline exact (opts @ [WithTokenEstimator estimate])))
                          in case run_store i ops base of
                               Inl err \<Rightarrow> RunFailed err
                             | Inr st \<Rightarrow>
                                 (case run_keys i ops st of
                                    Inl err \<Rightarrow> RunFailed err
                                  | Inr st \<Rightarrow>
                                      (case run_settings i st of
                                         Panic \<Rightarrow> RunFailed Panicked
                                       | Ret (row, st) \<Rightarrow>
                                           (let exact = (case row of
                                                  None \<Rightarrow> exact
                                                | Some row \<Rightarrow> HashDetector_SetLimit (st_LoopThresholdCount row) exact);
                                                threshold = (case row of None \<Rightarrow> 0 | Some row \<Rightarrow> st_CostAlertThresholdMicro row)
                                            in Serving
                                              \<lparr>sv_Addr = op_addr ops, sv_Upstream = op_upstream ops, sv_Base = base, sv_Registry = registry,
                                               sv_Exact = exact, sv_Pipeline = build exact, sv_Store = st, sv_CostThreshold = threshold,
                                               sv_Auth = (op_keys ops \<noteq> ''''),
                                               sv_Budget = (if op_dailyBudget ops > 0
                                                  then Some \<lparr>bc_DailyBudgetMicro = op_dailyBudget ops, bc_ThresholdPct = parseThresholds (op_thresholds ops)\<rparr>
                                                  else None),
                                               sv_Metrics = op_metrics ops, sv_Dashboard = op_dashboard ops\<rparr>)))))))"

text \<open>
  The routes in front of the proxy; a pattern for \<^verbatim>\<open>GET\<close> also serves
  \<^verbatim>\<open>HEAD\<close>, and any other request goes to the proxy.
\<close>

datatype root_route = Healthz | MetricsRoute | DashboardRoute | ProxyRoute

definition root_mux :: "'g server \<Rightarrow> string \<Rightarrow> string list \<Rightarrow> root_route" where
  "root_mux sv method path =
     (if method \<noteq> ''GET'' \<and> method \<noteq> ''HEAD'' then ProxyRoute
      else if path = [''healthz''] then Healthz
      else if path = [''v1'', ''metrics''] \<and> sv_Metrics sv then MetricsRoute
      else if path = [''dashboard''] \<and> sv_Dashboard sv then DashboardRoute
      else ProxyRoute)"

text \<open>
  The handler over the store that is served, with its detector and price source; a handle that is open
  never panics, and it is closed only when the server is over. The callers are those of the memory store or of
  the key store beside the database. The budget monitor and the
  metrics see a request without deciding it; they are the components of their own theories.
\<close>

type_synonym 'g server_store = "Store + 'g DB"

definition server_log :: "'g gorm \<Rightarrow> RequestRecord \<Rightarrow> 'g server_store \<Rightarrow> 'g server_store" where
  "server_log G r st =
     (case st of
        Inl mem \<Rightarrow> Inl (Store_LogRequest r mem)
      | Inr db \<Rightarrow> (case SQLite_LogRequest G r db of Panic \<Rightarrow> Inr db | Ret (_, db) \<Rightarrow> Inr db))"

definition server_ledger :: "'g gorm \<Rightarrow> 'g server_store BudgetLedger" where
  "server_ledger G =
     (let answer = (\<lambda>out. case out of Panic \<Rightarrow> Inl (OtherError '''') | Ret (Inl err) \<Rightarrow> Inl (OtherError err) | Ret (Inr n) \<Rightarrow> Inr n)
      in \<lparr>bl_SumActualCostSince = (\<lambda>since st. case st of
            Inl mem \<Rightarrow> Inr (Store_SumActualCostSince since mem)
          | Inr db \<Rightarrow> answer (SQLite_SumActualCostSince G since db)),
          bl_SumActualCostForKeySince = (\<lambda>key since st. case st of
            Inl mem \<Rightarrow> Inr (Store_SumActualCostForKeySince key since mem)
          | Inr db \<Rightarrow> answer (SQLite_SumActualCostForKeySince G key since db))\<rparr>)"

definition server_callers :: "'g server \<Rightarrow> string \<Rightarrow> proxy_error + Caller" where
  "server_callers sv h =
     (case sv_Store sv of Inl mem \<Rightarrow> Store_CallerByKeyHash h mem | Inr (_, ks) \<Rightarrow> KeyStore_CallerByKeyHash h ks)"

definition server_handler :: "'d detector_if \<Rightarrow> PriceSource \<Rightarrow> 'g gorm \<Rightarrow> 'g server \<Rightarrow> ('d, 'g server_store) handler" where
  "server_handler det price G sv =
     new_handler det (Some price)
       ([WithStore (server_log G) (server_ledger G) False, WithNotifier (Some None), WithLogStream True,
         WithCostThreshold (Some (sv_CostThreshold sv))] @
        (if sv_Auth sv then [WithAuth (Some (Authenticate (server_callers sv)))] else []))"

section \<open>Thresholds\<close>

text \<open>The page of the dashboard is an embedded file.\<close>

definition DashboardHandler :: "string \<Rightarrow> reply" where
  "DashboardHandler page = Reply 200 None page"

datatype root_reply = Page reply | MetricsPage int "MetricsSnapshot option"

definition serve_root :: "time \<Rightarrow> (nat \<Rightarrow> time) \<Rightarrow> string \<Rightarrow> int option \<Rightarrow> 'g server \<Rightarrow> ('d, 's) handler \<Rightarrow> Request \<Rightarrow> ('d, 's) world \<Rightarrow>
    root_reply \<times> ('d, 's) world" where
  "serve_root now clk page blocked sv h r w =
     (case root_mux sv (rq_Method r) (rq_Path r) of
        Healthz \<Rightarrow> (Page (Reply 200 None (quoted ''{`status`:`ok`}'')), w)
      | MetricsRoute \<Rightarrow>
          (let (status, snap, m) = MetricsHandler blocked now (rq_Method r) (w_metrics w)
           in (MetricsPage status snap, w\<lparr>w_metrics := m\<rparr>))
      | DashboardRoute \<Rightarrow> (Page (DashboardHandler page), w)
      | ProxyRoute \<Rightarrow> (let (rp, w) = handle clk h r w in (Page rp, w)))"

text \<open>
  Requests in front of the proxy need no key and leave everything but the metrics alone; all others
  reach the handler, whose verdict they get.
\<close>

lemma serve_root_routes:
  "root_mux sv (rq_Method r) (rq_Path r) \<noteq> ProxyRoute \<Longrightarrow>
     \<exists>m. snd (serve_root now clk page blocked sv h r w) = w\<lparr>w_metrics := m\<rparr>"
  "root_mux sv (rq_Method r) (rq_Path r) = ProxyRoute \<Longrightarrow>
     serve_root now clk page blocked sv h r w = (Page (fst (handle clk h r w)), snd (handle clk h r w))"
proof -
  have "w\<lparr>w_metrics := w_metrics w\<rparr> = w" by simp
  then show "root_mux sv (rq_Method r) (rq_Path r) \<noteq> ProxyRoute \<Longrightarrow> \<exists>m. snd (serve_root now clk page blocked sv h r w) = w\<lparr>w_metrics := m\<rparr>"
    by (cases "root_mux sv (rq_Method r) (rq_Path r)") (auto simp: serve_root_def split: prod.split intro: exI [of _ "w_metrics w"])
qed (simp add: serve_root_def case_prod_unfold Let_def)

lemma threshold_parts_sound: "n \<in> set (threshold_parts parts) \<Longrightarrow> 1 \<le> n \<and> n \<le> 100"
  by (induction parts) (auto simp: Let_def split: if_splits option.splits)

section \<open>Keys\<close>

text \<open>The entries of a keys file that decodes, and the callers they seed.\<close>

definition key_entries :: "error + string \<Rightarrow> keyEntry list option" where
  "key_entries content =
     (case content of
        Inl _ \<Rightarrow> None
      | Inr data \<Rightarrow> map_option fst (unmarshal (store_slice keyEntry_zero store_keyEntry) ([], []) data))"

definition seeds :: "keyEntry list \<Rightarrow> (string \<times> Caller) list" where
  "seeds es = map (\<lambda>e. (ke_Key e, entry_caller e)) es"

lemma load_entries_ok:
  "fst (load_entries put es s) = None \<longleftrightarrow> (\<forall>e\<in>set es. ke_Key e \<noteq> '''' \<and> ke_ID e \<noteq> '''')"
  "fst (load_entries put es s) = None \<Longrightarrow>
     snd (load_entries put es s) = fold (\<lambda>(key, c). put (HashAPIKey key) c) (seeds es) s"
  by (induction es arbitrary: s) (auto simp: seeds_def)

lemma loadKeys_ok:
  assumes "loadKeys put content s = (None, s')"
  obtains es where "key_entries content = Some es" and "\<forall>e\<in>set es. ke_Key e \<noteq> '''' \<and> ke_ID e \<noteq> ''''"
    and "s' = fold (\<lambda>(key, c). put (HashAPIKey key) c) (seeds es) s"
proof -
  obtain data es stale where d: "content = Inr data" "unmarshal (store_slice keyEntry_zero store_keyEntry) ([], []) data = Some (es, stale)"
      "load_entries put es s = (None, s')"
    using assms by (auto simp: loadKeys_def split: sum.splits option.splits)
  then show thesis using that [of es] load_entries_ok [of put es s] by (simp add: key_entries_def)
qed

text \<open>
  What a caller is recognised by once a keys file has been loaded: the last entry whose key has the hash
  of the presented key.
\<close>

definition key_holder :: "keyEntry list \<Rightarrow> string \<Rightarrow> proxy_error + Caller" where
  "key_holder es raw =
     (if raw = '''' then Inl ErrInvalidKey
      else case find (\<lambda>e. HashAPIKey (ke_Key e) = HashAPIKey raw) (rev es) of
             None \<Rightarrow> Inl ErrInvalidKey | Some e \<Rightarrow> Inr (entry_caller e))"

lemma find_map: "find P (map f xs) = map_option f (find (\<lambda>x. P (f x)) xs)"
  by (induction xs) auto

lemma find_seeds:
  "(case find (\<lambda>(key, _). HashAPIKey key = h) (rev (seeds es)) of None \<Rightarrow> Inl ErrInvalidKey | Some (_, c) \<Rightarrow> Inr c) =
   (case find (\<lambda>e. HashAPIKey (ke_Key e) = h) (rev es) of None \<Rightarrow> Inl ErrInvalidKey | Some e \<Rightarrow> Inr (entry_caller e))"
  by (simp add: seeds_def rev_map find_map split: option.split)

lemma seeded_authenticates:
  "Authenticate (\<lambda>h. Store_CallerByKeyHash h (fold (\<lambda>(key, c). Store_Set (HashAPIKey key) c) (seeds es) New)) raw = key_holder es raw"
  "Authenticate (\<lambda>h. KeyStore_CallerByKeyHash h (fold (\<lambda>(key, c). KeyStore_Set (HashAPIKey key) c) (seeds es) NewKeyStore)) raw = key_holder es raw"
  using memory_callers.by_hash_seeded [of _ "seeds es"] key_store.by_hash_seeded [of _ "seeds es"]
  unfolding Authenticate_def key_holder_def memory_callers.seeded_def key_store.seeded_def find_seeds
  by (auto split: option.split)

section \<open>The served configuration\<close>

lemma run_server_serving:
  assumes "run_server i ops = Serving sv"
  obtains base st st' row where "Load (fst (in_Orders i)) (in_ReadFile i (op_pricing ops)) = Inr base"
    and "run_store i ops base = Inr st" and "run_keys i ops st = Inr st'" and "run_settings i st' = Ret (row, sv_Store sv)"
    and "sv_Exact sv = (case row of None \<Rightarrow> NewHashDetector (op_ttl ops) (op_limit ops)
           | Some row \<Rightarrow> HashDetector_SetLimit (st_LoopThresholdCount row) (NewHashDetector (op_ttl ops) (op_limit ops)))"
    and "sv_Base sv = base" and "sv_Auth sv \<longleftrightarrow> op_keys ops \<noteq> ''''"
    and "sv_Pipeline sv = (if pipeline_options ops = [] then None
           else Some (NewPipeline (sv_Exact sv) (pipeline_options ops @ [WithTokenEstimator (\<lambda>body. Pricing_EstimatePromptTokens body base)])))"
proof -
  have a: "\<not> op_showVersion ops" "in_ParseURL i (op_upstream ops) = None"
    using assms by (auto simp: run_server_def split: if_splits option.splits)
  obtain base where base: "Load (fst (in_Orders i)) (in_ReadFile i (op_pricing ops)) = Inr base"
    using assms a by (cases "Load (fst (in_Orders i)) (in_ReadFile i (op_pricing ops))") (auto simp: run_server_def)
  obtain registry where registry: "run_registry i ops base = Ret registry"
    using assms a base by (cases "run_registry i ops base") (auto simp: run_server_def)
  obtain st where st: "run_store i ops base = Inr st"
    using assms a base registry by (cases "run_store i ops base") (auto simp: run_server_def Let_def)
  obtain st' where st': "run_keys i ops st = Inr st'"
    using assms a base registry st by (cases "run_keys i ops st") (auto simp: run_server_def Let_def)
  obtain row st'' where row: "run_settings i st' = Ret (row, st'')"
    using assms a base registry st st' by (cases "run_settings i st'") (auto simp: run_server_def Let_def)
  show thesis
    using that [OF base st st', of row] assms row by (auto simp: run_server_def Let_def a base registry st st')
qed

text \<open>The limit the exact detector ends up with.\<close>

lemma served_limit:
  "hd_limit (case row of None \<Rightarrow> NewHashDetector ttl limit | Some row \<Rightarrow> HashDetector_SetLimit (st_LoopThresholdCount row) (NewHashDetector ttl limit)) =
     (case row of None \<Rightarrow> if limit \<le> 0 then 2 else limit
      | Some row \<Rightarrow> if st_LoopThresholdCount row < 1 then 1 else st_LoopThresholdCount row)"
  by (simp add: NewHashDetector_def HashDetector_SetLimit_def split: option.split)

lemma fold_set_settings: "Store_GetSettings (fold (\<lambda>(key, c). Store_Set (HashAPIKey key) c) ks s) = Store_GetSettings s"
  by (induction ks arbitrary: s) (auto simp: settings_roundtrip)

lemma memory_settings:
  assumes "op_db ops = ''''" and "run_store i ops base = Inr st" and "run_keys i ops st = Inr st'"
  obtains mem where "st' = Inl mem" and "Store_GetSettings mem = \<lparr>st_LoopThresholdCount = 2, st_CostAlertThresholdMicro = 0\<rparr>"
proof -
  have st: "st = Inl New" using assms(1,2) by (simp add: run_store_def)
  have new: "Store_GetSettings New = \<lparr>st_LoopThresholdCount = 2, st_CostAlertThresholdMicro = 0\<rparr>"
    by (simp add: Store_GetSettings_def New_def DefaultLoopThreshold_def)
  show thesis
  proof (cases "op_keys ops = ''''")
    case True
    then show thesis using that [of New] assms(3) st new by (simp add: run_keys_def)
  next
    case False
    then obtain mem where mem: "loadKeys Store_Set (in_ReadFile i (op_keys ops)) New = (None, mem)" "st' = Inl mem"
      using assms(3) st by (auto simp: run_keys_def Let_def split: prod.splits option.splits)
    show thesis
      by (rule loadKeys_ok [OF mem(1)]) (simp add: that [OF mem(2)] fold_set_settings new)
  qed
qed

section \<open>Properties\<close>

lemma run_settings_memory: "run_settings i (Inl mem) = Ret (Some (Store_GetSettings mem), Inl mem)"
  by (simp add: run_settings_def)

lemma run_parts_limit:
  "run_registry i (ops\<lparr>op_limit := n\<rparr>) base = run_registry i ops base" "run_store i (ops\<lparr>op_limit := n\<rparr>) base = run_store i ops base"
  "run_keys i (ops\<lparr>op_limit := n\<rparr>) st = run_keys i ops st" "pipeline_options (ops\<lparr>op_limit := n\<rparr>) = pipeline_options ops"
  by (simp_all add: run_registry_def run_store_def run_keys_def pipeline_options_def)

lemma SetLimit_NewHashDetector:
  "HashDetector_SetLimit k (NewHashDetector ttl limit) = HashDetector_SetLimit k (NewHashDetector ttl limit')"
  by (simp add: HashDetector_SetLimit_def NewHashDetector_def)

text \<open>
  C36. The repeat limit of the command line has no effect: a server over the memory store always ends up
  with the limit 2 of the settings it starts from, whatever the flag says, and every other limit gives the
  same server.
\<close>

theorem limit_flag_ignored:
  assumes "run_server i ops = Serving sv" and "op_db ops = ''''"
  shows "hd_limit (sv_Exact sv) = 2 \<and> run_server i (ops\<lparr>op_limit := n\<rparr>) = Serving sv"
proof -
  obtain base st st' row where r: "Load (fst (in_Orders i)) (in_ReadFile i (op_pricing ops)) = Inr base"
    "run_store i ops base = Inr st" "run_keys i ops st = Inr st'" "run_settings i st' = Ret (row, sv_Store sv)"
    "sv_Exact sv = (case row of None \<Rightarrow> NewHashDetector (op_ttl ops) (op_limit ops)
       | Some row \<Rightarrow> HashDetector_SetLimit (st_LoopThresholdCount row) (NewHashDetector (op_ttl ops) (op_limit ops)))"
    by (rule run_server_serving [OF assms(1)]) blast
  obtain mem where mem: "st' = Inl mem" "Store_GetSettings mem = \<lparr>st_LoopThresholdCount = 2, st_CostAlertThresholdMicro = 0\<rparr>"
    by (rule memory_settings [OF assms(2) r(2,3)])
  have row: "row = Some \<lparr>st_LoopThresholdCount = 2, st_CostAlertThresholdMicro = 0\<rparr>"
    using r(4) mem by (simp add: run_settings_memory)
  have "run_server i (ops\<lparr>op_limit := n\<rparr>) = run_server i ops"
    by (simp add: run_server_def run_parts_limit r(1-3) mem run_settings_memory Let_def
        SetLimit_NewHashDetector [of 2 "op_ttl ops" n "op_limit ops"] split: option.split outcome.split)
  then show ?thesis using assms(1) r(5) row by (simp add: HashDetector_SetLimit_def)
qed

lemma server_handler_auth: "sv_Auth sv \<Longrightarrow> h_auth (server_handler det price G sv) = Some (Authenticate (server_callers sv))"
  by (simp add: server_handler_def new_handler_def WithAuth_def)

lemma served_callers:
  assumes "run_server i ops = Serving sv" and "op_keys ops \<noteq> ''''"
  obtains es where "key_entries (in_ReadFile i (op_keys ops)) = Some es" and "\<forall>e\<in>set es. ke_Key e \<noteq> '''' \<and> ke_ID e \<noteq> ''''"
    and "\<And>raw. Authenticate (server_callers sv) raw = key_holder es raw" and "sv_Auth sv"
proof -
  obtain base st st' row where r: "run_store i ops base = Inr st" "run_keys i ops st = Inr st'" "run_settings i st' = Ret (row, sv_Store sv)"
      "sv_Auth sv \<longleftrightarrow> op_keys ops \<noteq> ''''"
    by (rule run_server_serving [OF assms(1)]) blast
  have "\<exists>es. key_entries (in_ReadFile i (op_keys ops)) = Some es \<and> (\<forall>e\<in>set es. ke_Key e \<noteq> '''' \<and> ke_ID e \<noteq> '''') \<and>
    (\<forall>raw. Authenticate (server_callers sv) raw = key_holder es raw)"
  proof (cases st)
    case (Inl mem0)
    then have "mem0 = New" using r(1) by (simp add: run_store_def Let_def split: if_splits sum.splits outcome.splits option.splits prod.splits)
    then obtain mem where mem: "loadKeys Store_Set (in_ReadFile i (op_keys ops)) New = (None, mem)" "st' = Inl mem"
      using r(2) Inl assms(2) by (auto simp: run_keys_def Let_def split: prod.splits option.splits)
    have "sv_Store sv = Inl mem" using r(3) mem(2) by (simp add: run_settings_memory)
    then have sv: "server_callers sv = (\<lambda>h. Store_CallerByKeyHash h mem)" by (simp add: fun_eq_iff server_callers_def)
    show ?thesis by (rule loadKeys_ok [OF mem(1)]) (auto simp: sv seeded_authenticates)
  next
    case (Inr dk)
    then obtain db where dk: "dk = (db, NewKeyStore)"
      using r(1) by (auto simp: run_store_def Let_def split: if_splits sum.splits outcome.splits option.splits prod.splits)
    then obtain ks where ks: "loadKeys KeyStore_Set (in_ReadFile i (op_keys ops)) NewKeyStore = (None, ks)" "st' = Inr (db, ks)"
      using r(2) Inr assms(2) by (auto simp: run_keys_def Let_def split: prod.splits option.splits)
    obtain db' where "sv_Store sv = Inr (db', ks)"
      using r(3) ks(2) by (auto simp: run_settings_def eq_commute [of _ "sv_Store sv"] split: outcome.splits prod.splits sum.splits)
    then have sv: "server_callers sv = (\<lambda>h. KeyStore_CallerByKeyHash h ks)" by (auto simp: server_callers_def)
    show ?thesis by (rule loadKeys_ok [OF ks(1)]) (auto simp: sv seeded_authenticates)
  qed
  then show thesis using that r(4) assms(2) by blast
qed

lemma serve_root_open:
  assumes "root_mux sv (rq_Method r) (rq_Path r) \<noteq> ProxyRoute"
  shows "serve_root now clk page blocked sv h (r\<lparr>rq_APIKey := key\<rparr>) w = serve_root now clk page blocked sv h r w"
  using assms by (cases "root_mux sv (rq_Method r) (rq_Path r)") (simp_all add: serve_root_def)

lemma root_mux_open:
  "root_mux sv method path \<noteq> ProxyRoute \<longleftrightarrow>
     (method = ''GET'' \<or> method = ''HEAD'') \<and>
     (path = [''healthz''] \<or> path = [''v1'', ''metrics''] \<and> sv_Metrics sv \<or> path = [''dashboard''] \<and> sv_Dashboard sv)"
  by (simp add: root_mux_def)


definition example_inputs :: "tables run_inputs" where
  "example_inputs =
     \<lparr>in_ParseURL = (\<lambda>_. None), in_ReadFile = (\<lambda>p. Inr (if p = ''keys'' then quoted ''[{`key`:`s`,`id`:`u`}]'' else example_file)),
      in_Bootstrap = ((in_order, in_order), Inl '''', 0), in_Engine = list_gorm, in_Dir = (\<lambda>_. ''.''), in_Now = 0,
      in_Orders = (in_order, in_order, in_order)\<rparr>"

lemma example_keys:
  "loadKeys Store_Set (in_ReadFile example_inputs ''keys'') New =
     (None, Store_Set (HashAPIKey ''s'') \<lparr>cl_ID = ''u'', cl_Name = '''', cl_MonthlyBudgetMicro = 0, cl_DailyBudgetMicro = 0\<rparr> New)"
  "key_entries (in_ReadFile example_inputs ''keys'') =
     Some [\<lparr>ke_Key = ''s'', ke_ID = ''u'', ke_Name = '''', ke_MonthlyBudgetMicro = 0, ke_DailyBudgetMicro = 0\<rparr>]"
proof -
  have "unmarshal (store_slice keyEntry_zero store_keyEntry) ([], []) (quoted ''[{`key`:`s`,`id`:`u`}]'') =
      Some ([\<lparr>ke_Key = ''s'', ke_ID = ''u'', ke_Name = '''', ke_MonthlyBudgetMicro = 0, ke_DailyBudgetMicro = 0\<rparr>], [])" by code_simp
  then show "loadKeys Store_Set (in_ReadFile example_inputs ''keys'') New =
      (None, Store_Set (HashAPIKey ''s'') \<lparr>cl_ID = ''u'', cl_Name = '''', cl_MonthlyBudgetMicro = 0, cl_DailyBudgetMicro = 0\<rparr> New)"
    "key_entries (in_ReadFile example_inputs ''keys'') =
      Some [\<lparr>ke_Key = ''s'', ke_ID = ''u'', ke_Name = '''', ke_MonthlyBudgetMicro = 0, ke_DailyBudgetMicro = 0\<rparr>]"
    by (simp_all add: loadKeys_def key_entries_def example_inputs_def entry_caller_def)
qed

lemma example_serves: "\<exists>sv. run_server example_inputs (default_options\<lparr>op_keys := ''keys'', op_limit := 5\<rparr>) = Serving sv"
proof -
  obtain base where "Load in_order (Inr example_file) = Inr base" using example_file_loads by blast
  then have "Load (fst (in_Orders example_inputs)) (in_ReadFile example_inputs ''config/pricing.json'') = Inr base"
    by (simp add: example_inputs_def)
  moreover have "in_ParseURL example_inputs u = None" for u by (simp add: example_inputs_def)
  ultimately show ?thesis
    by (simp add: run_server_def run_registry_def run_store_def run_keys_def run_settings_memory default_options_def example_keys Let_def)
qed

theorem limit_flag_ignored_witness:
  "\<exists>sv. run_server example_inputs (default_options\<lparr>op_keys := ''keys'', op_limit := 5\<rparr>) = Serving sv \<and> hd_limit (sv_Exact sv) = 2"
proof -
  obtain sv where "run_server example_inputs (default_options\<lparr>op_keys := ''keys'', op_limit := 5\<rparr>) = Serving sv" using example_serves by blast
  then show ?thesis using limit_flag_ignored [of example_inputs "default_options\<lparr>op_keys := ''keys'', op_limit := 5\<rparr>" sv]
    by (simp add: default_options_def)
qed


end
