(* ===== verification/Mock_Server.thy ===== *)
theory Mock_Server
  imports Proxy_Server
begin

text \<open>
  The mock upstream for manual tests (\<^verbatim>\<open>cmd/mockserver/main.go\<close>). The two values of
  the query it looks at are arguments, empty when they are missing. A response is what the handler
  writes; \<^verbatim>\<open>WriteHeader\<close> panics on a status that has not three digits, an informational
  status but 101 is followed by 200, and a status without a body keeps it empty. The stream is the list
  of its flushed pieces.
\<close>

section \<open>Definitions\<close>

record mock_request =
  mq_Method :: string
  mq_Path :: string
  mq_Hang :: string
  mq_Status :: string
  mq_Flusher :: bool

datatype mock_response = Hanging | Plain int string | Stream "string list"

text \<open>The check of the request context before the i-th event.\<close>

type_synonym cancelled = "nat \<Rightarrow> bool"

definition sse_events :: "string list" where
  "sse_events =
     [quoted ''data: {`id`:`1`,`role`:`assistant`,`content`:`first chunk`}'',
      quoted ''data: {`id`:`2`,`role`:`assistant`,`content`:`second chunk`}'',
      quoted ''data: {`id`:`3`,`role`:`assistant`,`content`:`third chunk`}'']"

definition newlines :: string where "newlines = [CHR 0x0A, CHR 0x0A]"

fun sse_loop :: "cancelled \<Rightarrow> nat \<Rightarrow> string list \<Rightarrow> string list" where
  "sse_loop done i [] = (if done i then [] else [''data: [DONE]'' @ newlines])"
| "sse_loop done i (ev # evs) = (if done i then [] else (ev @ newlines) # sse_loop done (i + 1) evs)"

definition serveSSE :: "cancelled \<Rightarrow> mock_request \<Rightarrow> mock_response" where
  "serveSSE done r =
     (if \<not> mq_Flusher r then Plain 500 (''streaming unsupported'' @ [CHR 0x0A]) else Stream (sse_loop done 0 sse_events))"

definition WriteHeader :: "int \<Rightarrow> string \<Rightarrow> mock_response outcome" where
  "WriteHeader status body =
     (if status < 100 \<or> status > 999 then Panic
      else let final = (if status \<le> 199 \<and> status \<noteq> 101 then 200 else status)
           in Ret (Plain final (if final = 101 \<or> final = 204 \<or> final = 304 then '''' else body)))"

definition mock_handler :: "cancelled \<Rightarrow> mock_request \<Rightarrow> int \<Rightarrow> mock_response outcome \<times> int" where
  "mock_handler done r n =
     (let n = n + 1
      in (if mq_Hang r = ''1'' then Ret Hanging
          else if mq_Status r \<noteq> ''''
          then let code = (case Atoi (mq_Status r) of None \<Rightarrow> 500 | Some c \<Rightarrow> c)
               in WriteHeader code (''mock error '' @ Itoa code @ [CHR 0x0A])
          else if mq_Path r = ''/v1/chat/completions''
          then if mq_Method r \<noteq> ''POST'' then Ret (Plain 405 '''') else Ret (Plain 200 (quoted ''{`id`:`mock-1`,`ok`:true}''))
          else if mq_Path r = ''/sse'' then Ret (serveSSE done r)
          else if mq_Path r = ''/healthz'' then Ret (Plain 200 (''OK'' @ [CHR 0x0A]))
          else Ret (Plain 404 (''404 page not found'' @ [CHR 0x0A])), n))"

section \<open>The stream\<close>

text \<open>
  A cancelled client gets a prefix of the complete stream, cut at the first check that sees the
  cancellation; the terminator comes last and only when no check did.
\<close>

lemma sse_loop_take:
  "sse_loop done i evs = take (length (takeWhile (\<lambda>j. \<not> done j) [i..<i + length evs + 1])) (map (\<lambda>ev. ev @ newlines) (evs @ [''data: [DONE]'']))"
proof (induction evs arbitrary: i)
  case (Cons ev evs)
  have "[i..<i + length (ev # evs) + 1] = i # [i + 1..<i + 1 + length evs + 1]" by (simp add: upt_rec)
  then show ?case using Cons [of "i + 1"] by simp
qed simp

lemma mock_status_panics: "mq_Hang r \<noteq> ''1'' \<Longrightarrow> mq_Status r = ''7'' \<Longrightarrow> fst (mock_handler done r n) = Panic"
proof -
  have "Atoi ''7'' = Some 7" by code_simp
  then show "mq_Hang r \<noteq> ''1'' \<Longrightarrow> mq_Status r = ''7'' \<Longrightarrow> fst (mock_handler done r n) = Panic"
    by (simp add: mock_handler_def WriteHeader_def Let_def)
qed

end
