(* ===== verification/Go_JSON_Encode.thy ===== *)
theory Go_JSON_Encode
  imports Go_Decimal
begin

text \<open>
  What the program uses of the writers of JSON: \<^verbatim>\<open>Encoder.Encode\<close> of
  \<^verbatim>\<open>encoding/json\<close> for a flat struct and the JSON handler of
  \<^verbatim>\<open>log/slog\<close> for a list of attributes. Both write one object in one line, with strings
  escaped; they differ in the characters they escape. The lemmas read such an object back with the
  decoder of \<^theory_text>\<open>Go_JSON\<close>.
\<close>

section \<open>Definitions\<close>

datatype style = StructEncoder | SlogHandler

definition lower_hex :: "nat \<Rightarrow> char" where
  "lower_hex n = (if n < 10 then byte (0x30 + n) else byte (0x61 + n - 10))"

text \<open>The characters written as they are; the encoder also escapes those that matter in HTML.\<close>

definition safe_char :: "style \<Rightarrow> char \<Rightarrow> bool" where
  "safe_char st c \<longleftrightarrow> 0x20 \<le> code c \<and> code c < 0x80 \<and> c \<noteq> CHR 0x22 \<and> c \<noteq> CHR 0x5C \<and>
     (st = StructEncoder \<longrightarrow> c \<notin> set ''<>&'')"

definition escape_ascii :: "style \<Rightarrow> char \<Rightarrow> string" where
  "escape_ascii st c =
     (if safe_char st c then [c]
      else CHR 0x5C #
        (if c = CHR 0x5C \<or> c = CHR 0x22 then [c]
         else if st = StructEncoder \<and> c = CHR 0x08 then ''b''
         else if st = StructEncoder \<and> c = CHR 0x0C then ''f''
         else if c = CHR 0x0A then ''n''
         else if c = CHR 0x0D then ''r''
         else if c = CHR 0x09 then ''t''
         else ''u00'' @ [lower_hex (code c div 16), lower_hex (code c mod 16)]))"

text \<open>
  A byte that starts no UTF-8 character becomes an escaped replacement character; the line and the
  paragraph separator are escaped, any other character outside ASCII is copied.
\<close>

definition escape_wide :: "string \<Rightarrow> string" where
  "escape_wide w =
     (if w = [CHR 0xE2, CHR 0x80, CHR 0xA8] then CHR 0x5C # ''u2028''
      else if w = [CHR 0xE2, CHR 0x80, CHR 0xA9] then CHR 0x5C # ''u2029''
      else w)"

function json_escape :: "style \<Rightarrow> string \<Rightarrow> string" where
  "json_escape st [] = []"
| "json_escape st (c # s) =
     (if code c < 0x80 then escape_ascii st c @ json_escape st s
      else let n = utf8_size (c # s)
           in if n = 0 then CHR 0x5C # ''ufffd'' @ json_escape st s
              else escape_wide (take n (c # s)) @ json_escape st (drop n (c # s)))"
  by pat_completeness auto
termination by (relation "measure (length \<circ> snd)") auto

definition quote_string :: "style \<Rightarrow> string \<Rightarrow> string" where
  "quote_string st s = CHR 0x22 # json_escape st s @ [CHR 0x22]"

text \<open>
  The values of fields and attributes. How a finite \<^verbatim>\<open>float64\<close> is printed is an argument;
  an infinity or a not-a-number cannot be encoded.
\<close>

datatype jscalar = SString string | SInt int | SBool bool | SFloat float64

type_synonym float_format = "rat \<Rightarrow> string"

fun encode_scalar :: "float_format \<Rightarrow> style \<Rightarrow> jscalar \<Rightarrow> string" where
  "encode_scalar ff st (SString s) = quote_string st s"
| "encode_scalar ff st (SInt i) = Itoa i"
| "encode_scalar ff st (SBool b) = (if b then ''true'' else ''false'')"
| "encode_scalar ff st (SFloat x) = (case x of Fin r \<Rightarrow> ff r | _ \<Rightarrow> '''')"

fun encodable :: "jscalar \<Rightarrow> bool" where
  "encodable (SFloat x) = (case x of Fin _ \<Rightarrow> True | _ \<Rightarrow> False)"
| "encodable _ = True"

definition encode_member :: "float_format \<Rightarrow> style \<Rightarrow> string \<times> jscalar \<Rightarrow> string" where
  "encode_member ff st m = quote_string st (fst m) @ CHR '':'' # encode_scalar ff st (snd m)"

fun encode_members :: "float_format \<Rightarrow> style \<Rightarrow> (string \<times> jscalar) list \<Rightarrow> string" where
  "encode_members ff st [] = []"
| "encode_members ff st (m # ms) = encode_member ff st m @ concat (map (\<lambda>m. CHR '','' # encode_member ff st m) ms)"

definition encode_object :: "float_format \<Rightarrow> style \<Rightarrow> (string \<times> jscalar) list \<Rightarrow> string" where
  "encode_object ff st ms = CHR ''{'' # encode_members ff st ms @ ''}''"

text \<open>Fields that are left out when they have their zero value.\<close>

definition omit_string :: "string \<Rightarrow> string \<Rightarrow> (string \<times> jscalar) list" where
  "omit_string k s = (if s \<noteq> '''' then [(k, SString s)] else [])"

definition omit_int :: "string \<Rightarrow> int \<Rightarrow> (string \<times> jscalar) list" where
  "omit_int k i = (if i \<noteq> 0 then [(k, SInt i)] else [])"

definition omit_bool :: "string \<Rightarrow> bool \<Rightarrow> (string \<times> jscalar) list" where
  "omit_bool k b = (if b then [(k, SBool b)] else [])"

definition omit_float :: "string \<Rightarrow> float64 \<Rightarrow> (string \<times> jscalar) list" where
  "omit_float k x = (if x \<noteq> Fin 0 then [(k, SFloat x)] else [])"

section \<open>The text that is read back\<close>

text \<open>A string with every byte that is not UTF-8 replaced by the replacement character.\<close>

function to_valid :: "string \<Rightarrow> string" where
  "to_valid [] = []"
| "to_valid (c # s) =
     (if code c < 0x80 then c # to_valid s
      else let n = utf8_size (c # s)
           in if n = 0 then replacement @ to_valid s else take n (c # s) @ to_valid (drop n (c # s)))"
  by pat_completeness auto
termination by (relation "measure length") auto

text \<open>A piece of text that stands for a piece of the string, whatever follows it.\<close>

definition stands_for :: "string \<Rightarrow> string \<Rightarrow> bool" where
  "stands_for x b \<longleftrightarrow> (\<forall>r. json_string (x @ r) = map_option (\<lambda>(t, q). (b @ t, q)) (json_string r))"

lemma stands_for_char:
  assumes "c \<noteq> CHR 0x22" and "\<And>r. string_char c (x @ r) = Some (b, r)"
  shows "stands_for (c # x) b"
  using assms by (simp add: stands_for_def)

lemma hex_value_lower: "n < 16 \<Longrightarrow> hex_value (lower_hex n) = Some n"
  by (auto simp: hex_value_def lower_hex_def between_def code_byte)

lemma stands_for_escape:
  assumes "\<And>r. string_char (CHR 0x5C) (x @ r) = Some (b, r)"
  shows "stands_for (CHR 0x5C # x) b"
  using assms by (simp add: stands_for_def)

lemma stands_for_simple: "simple_escape d = Some e \<Longrightarrow> d \<noteq> CHR ''u'' \<Longrightarrow> stands_for [CHR 0x5C, d] [e]"
  by (rule stands_for_escape) (simp add: string_char_def)

lemma stands_for_hex:
  assumes "code c < 0x80"
  shows "stands_for (CHR 0x5C # ''u00'' @ [lower_hex (code c div 16), lower_hex (code c mod 16)]) [c]"
proof (rule stands_for_escape)
  fix r
  have "hex_value (lower_hex (code c div 16)) = Some (code c div 16)" "hex_value (lower_hex (code c mod 16)) = Some (code c mod 16)"
    using assms by (simp_all add: hex_value_lower)
  moreover have "hex_value (CHR ''0'') = Some 0" by (simp add: hex_value_def between_def code_def)
  ultimately show "string_char (CHR 0x5C) ((''u00'' @ [lower_hex (code c div 16), lower_hex (code c mod 16)]) @ r) = Some ([c], r)"
    using assms by (simp add: string_char_def unicode_escape_def utf8_encode_def byte_code)
qed

lemma stands_for_ascii:
  assumes "code c < 0x80"
  shows "stands_for (escape_ascii st c) [c]"
proof (cases "safe_char st c")
  case True
  then have "string_char c r = Some ([c], r)" for r
    using assms by (auto simp: safe_char_def string_char_def)
  then show ?thesis using True stands_for_char [of c "[]" "[c]"] by (simp add: escape_ascii_def safe_char_def)
next
  case False
  have simple: "simple_escape (CHR ''b'') = Some (CHR 0x08)" "simple_escape (CHR ''f'') = Some (CHR 0x0C)"
    "simple_escape (CHR ''n'') = Some (CHR 0x0A)" "simple_escape (CHR ''r'') = Some (CHR 0x0D)"
    "simple_escape (CHR ''t'') = Some (CHR 0x09)" "simple_escape (CHR 0x5C) = Some (CHR 0x5C)"
    "simple_escape (CHR 0x22) = Some (CHR 0x22)"
    by (simp_all add: simple_escape_def)
  then show ?thesis
    unfolding escape_ascii_def using False stands_for_hex [OF assms] stands_for_simple by simp
qed

text \<open>A string by the number of its first bytes that matter for the size of a character.\<close>

lemma utf8_shape: "s = [] \<or> (\<exists>a. s = [a]) \<or> (\<exists>a b. s = [a, b]) \<or> (\<exists>a b c. s = [a, b, c]) \<or> (\<exists>a b c d r. s = a # b # c # d # r)"
  by (cases s rule: remdups_adj.cases; cases "tl (tl s)" rule: remdups_adj.cases) auto

lemma utf8_size_short: "utf8_size [] = 0" "utf8_size [a] = 0"
  by (simp_all add: utf8_size_def)

lemma utf8_size_two: "utf8_size [a, b] = (if between 0xC2 0xDF a \<and> between 0x80 0xBF b then 2 else 0)"
  by (simp add: utf8_size_def)

lemma utf8_size_three:
  "utf8_size (a # b # c # r) =
     (if between 0xC2 0xDF a then (if between 0x80 0xBF b then 2 else 0)
      else if between 0xE0 0xEF a
      then (if between (if code a = 0xE0 then 0xA0 else 0x80) (if code a = 0xED then 0x9F else 0xBF) b \<and> between 0x80 0xBF c then 3 else 0)
      else if between 0xF0 0xF4 a
      then (if between (if code a = 0xF0 then 0x90 else 0x80) (if code a = 0xF4 then 0x8F else 0xBF) b \<and> between 0x80 0xBF c
            then (case r of d # _ \<Rightarrow> if between 0x80 0xBF d then 4 else 0 | [] \<Rightarrow> 0) else 0)
      else 0)"
  by (cases r) (simp_all add: utf8_size_def)

lemmas utf8_sizes = utf8_size_short utf8_size_two utf8_size_three

lemma utf8_size_take: "utf8_size s \<noteq> 0 \<Longrightarrow> utf8_size (take (utf8_size s) s @ r) = utf8_size s"
  using utf8_shape [of s] by (elim disjE exE; cases r; cases "tl r") (simp_all add: utf8_sizes split: if_splits)

lemma utf8_size_le: "utf8_size s \<le> length s"
  using utf8_shape [of s] by (elim disjE exE) (simp_all add: utf8_sizes)

text \<open>The bytes of a character outside ASCII.\<close>


lemma utf8_lead: "between 0xC2 0xDF a \<or> between 0xE0 0xEF a \<or> between 0xF0 0xF4 a \<Longrightarrow> 0x80 \<le> code a"
  by (auto simp: between_def)

lemma utf8_second:
  "between (if P then 0xA0 else 0x80) (if Q then u else v) b \<Longrightarrow> 0x80 \<le> code b"
  "between (if P then 0x90 else 0x80) (if Q then u else v) b \<Longrightarrow> 0x80 \<le> code b"
  by (simp_all add: between_def split: if_splits)

lemma utf8_tail: "between 0x80 u b \<Longrightarrow> 0x80 \<le> code b"
  by (simp add: between_def)

lemma utf8_size_bytes:
  assumes "utf8_size s \<noteq> 0"
  shows "\<forall>c\<in>set (take (utf8_size s) s). 0x80 \<le> code c"
proof -
  obtain a b r where s: "s = a # b # r" using assms utf8_shape [of s] by (auto simp: utf8_sizes)
  show ?thesis
  proof (cases r)
    case Nil
    then show ?thesis using assms s utf8_lead [of a] utf8_tail [of _ b] by (auto simp: utf8_sizes split: if_split_asm)
  next
    case (Cons c q)
    consider (two) "between 0xC2 0xDF a" | (three) "\<not> between 0xC2 0xDF a" "between 0xE0 0xEF a"
      | (four) "\<not> between 0xC2 0xDF a" "\<not> between 0xE0 0xEF a" "between 0xF0 0xF4 a"
      using assms s Cons by (auto simp: utf8_sizes split: if_split_asm)
    then show ?thesis
    proof cases
      case two
      then show ?thesis using assms s Cons utf8_lead [of a] utf8_tail [of _ b] by (simp add: utf8_sizes split: if_split_asm)
    next
      case three
      then have "between (if code a = 0xE0 then 0xA0 else 0x80) (if code a = 0xED then 0x9F else 0xBF) b \<and> between 0x80 0xBF c"
        using assms s Cons by (simp only: utf8_sizes if_True if_False split: if_split_asm)
      moreover from this three have "utf8_size s = 3" using s Cons by (simp only: utf8_sizes simp_thms if_True if_False)
      ultimately show ?thesis using s Cons three utf8_lead [of a] utf8_second(1) utf8_tail by (simp add: numeral_3_eq_3) blast
    next
      case four
      then obtain d q' where "q = d # q'"
        and "between (if code a = 0xF0 then 0x90 else 0x80) (if code a = 0xF4 then 0x8F else 0xBF) b \<and> between 0x80 0xBF c \<and> between 0x80 0xBF d"
        using assms s Cons by (cases q; simp only: utf8_sizes if_True if_False list.case split: if_split_asm)
      moreover from this four have "utf8_size s = 4" using s Cons by (simp only: utf8_sizes simp_thms if_True if_False list.case)
      ultimately show ?thesis using s Cons four utf8_lead [of a] utf8_second(2) utf8_tail by (simp add: numeral_eq_Suc) blast
    qed
  qed
qed

lemma stands_for_wide:
  assumes "utf8_size (c # s) \<noteq> 0" and "\<not> code c < 0x80"
  shows "stands_for (escape_wide (take (utf8_size (c # s)) (c # s))) (take (utf8_size (c # s)) (c # s))"
proof -
  let ?n = "utf8_size (c # s)"
  have "stands_for (CHR 0x5C # ''u2028'') [CHR 0xE2, CHR 0x80, CHR 0xA8]" "stands_for (CHR 0x5C # ''u2029'') [CHR 0xE2, CHR 0x80, CHR 0xA9]"
  proof -
    have "byte 0xE2 = CHR 0xE2" by code_simp
    moreover have "byte 0x80 = CHR 0x80" by code_simp
    moreover have "byte 0xA8 = CHR 0xA8" by code_simp
    moreover have "byte 0xA9 = CHR 0xA9" by code_simp
    ultimately have sep: "utf8_encode 0x2028 = [CHR 0xE2, CHR 0x80, CHR 0xA8]" "utf8_encode 0x2029 = [CHR 0xE2, CHR 0x80, CHR 0xA9]"
      by (simp_all add: utf8_encode_def)
    have "hex_value (CHR ''0'') = Some 0" by code_simp
    moreover have "hex_value (CHR ''2'') = Some 2" by code_simp
    moreover have "hex_value (CHR ''8'') = Some 8" by code_simp
    moreover have "hex_value (CHR ''9'') = Some 9" by code_simp
    ultimately have hex: "hex4 (''2028'' @ r) = Some (0x2028, r)" "hex4 (''2029'' @ r) = Some (0x2029, r)" for r by simp_all
    show "stands_for (CHR 0x5C # ''u2028'') [CHR 0xE2, CHR 0x80, CHR 0xA8]" "stands_for (CHR 0x5C # ''u2029'') [CHR 0xE2, CHR 0x80, CHR 0xA9]"
      using hex sep by (simp_all add: stands_for_def string_char_def unicode_escape_def del: hex4.simps)
  qed
  moreover have "stands_for (take ?n (c # s)) (take ?n (c # s))"
  proof -
    obtain m where m: "?n = Suc m" using assms(1) by (cases ?n) auto
    have le: "m \<le> length s" using utf8_size_le [of "c # s"] m by simp
    have "string_char c (take m s @ r) = Some (c # take m s, r)" for r
    proof -
      have "utf8_size (c # take m s @ r) = Suc m" using utf8_size_take [OF assms(1), of r] m by simp
      moreover have "c \<noteq> CHR 0x5C" using assms(2) by (auto simp: code_def)
      ultimately show ?thesis using assms(2) le by (simp add: string_char_def)
    qed
    moreover have "c \<noteq> CHR 0x22" using assms(2) by (auto simp: code_def)
    ultimately show ?thesis using stands_for_char [of c "take m s" "c # take m s"] m by simp
  qed
  ultimately show ?thesis by (simp add: escape_wide_def)
qed

lemma stands_for_replacement: "stands_for (CHR 0x5C # ''ufffd'') replacement"
  by (rule stands_for_escape)
    (simp add: string_char_def unicode_escape_def hex_value_def between_def code_def replacement_def)

lemma stands_forD: "stands_for x b \<Longrightarrow> json_string (x @ r) = map_option (\<lambda>(t, q). (b @ t, q)) (json_string r)"
  by (simp add: stands_for_def)

lemma json_string_escape: "json_string (json_escape st s @ CHR 0x22 # r) = Some (to_valid s, r)"
proof (induction st s rule: json_escape.induct)
  case (2 st c s)
  show ?case
  proof (cases "code c < 0x80")
    case True
    then show ?thesis using 2(1) by (simp add: stands_forD [OF stands_for_ascii])
  next
    case False
    show ?thesis
    proof (cases "utf8_size (c # s) = 0")
      case True
      then show ?thesis using 2(2) [OF False refl] False stands_forD [OF stands_for_replacement]
        by (simp add: Let_def)
    next
      case wide: False
      then show ?thesis using 2(3) [OF False refl wide] False stands_forD [OF stands_for_wide [OF wide False]]
        by (simp add: Let_def)
    qed
  qed
qed simp

text \<open>A written string holds no control character, in particular no line break.\<close>

lemma lower_hex_char: "n < 16 \<Longrightarrow> 0x20 \<le> code (lower_hex n)"
  by (simp add: lower_hex_def code_byte)

lemma escape_letters: "list_all (\<lambda>d. 0x20 \<le> code d) [CHR 0x5C, CHR 0x22, CHR ''b'', CHR ''f'', CHR ''n'', CHR ''r'', CHR ''t'', CHR ''u'',
    CHR ''0'', CHR ''2'', CHR ''8'', CHR ''9'', CHR ''d'']"
  by code_simp

lemma escape_ascii_chars: "code c < 0x80 \<Longrightarrow> \<forall>d\<in>set (escape_ascii st c). 0x20 \<le> code d"
  using escape_letters lower_hex_char [of "code c div 16"] lower_hex_char [of "code c mod 16"]
  by (simp add: escape_ascii_def safe_char_def)

lemma escape_wide_chars: "\<forall>c\<in>set w. 0x80 \<le> code c \<Longrightarrow> \<forall>d\<in>set (escape_wide w). 0x20 \<le> code d"
  using escape_letters by (auto simp: escape_wide_def)

lemma json_escape_chars: "d \<in> set (json_escape st s) \<Longrightarrow> 0x20 \<le> code d"
proof (induction st s rule: json_escape.induct)
  case (2 st c s)
  consider (ascii) "code c < 0x80" | (bad) "\<not> code c < 0x80" "utf8_size (c # s) = 0" | (wide) "\<not> code c < 0x80" "utf8_size (c # s) \<noteq> 0"
    by blast
  then show ?case
  proof cases
    case ascii
    then show ?thesis using 2 escape_ascii_chars [OF ascii] by auto
  next
    case bad
    then show ?thesis using 2(2) [OF bad(1) refl bad(2)] 2(4) escape_letters by auto
  next
    case wide
    then have "d \<in> set (escape_wide (take (utf8_size (c # s)) (c # s))) \<or> d \<in> set (json_escape st (drop (utf8_size (c # s)) (c # s)))"
      using 2(4) by (simp add: Let_def)
    then show ?thesis using 2(3) [OF wide(1) refl wide(2)] escape_wide_chars utf8_size_bytes [OF wide(2)] by blast
  qed
qed simp

section \<open>Reading a written object\<close>

lemma json_digit_nat: "n < 10 \<Longrightarrow> json_digit (byte (0x30 + n)) \<and> code (byte (0x30 + n)) = 0x30 + n"
  by (simp add: json_digit_def between_def code_byte)

lemma nat_digits_not_Nil: "nat_digits n \<noteq> []"
  by (subst nat_digits.simps) simp

lemma nat_digits_all: "list_all json_digit (nat_digits n)"
proof (induction n rule: nat_digits.induct)
  case (1 n)
  then show ?case by (subst nat_digits.simps) (simp add: json_digit_nat)
qed

lemma nat_digits_head: "hd (nat_digits n) = CHR ''0'' \<longleftrightarrow> n = 0"
proof (induction n rule: nat_digits.induct)
  case (1 n)
  have "code (CHR ''0'') = 0x30" by code_simp
  moreover have "byte 0x30 = CHR ''0''" by code_simp
  ultimately have "byte (0x30 + n) = CHR ''0'' \<longleftrightarrow> n = 0" if "n < 10"
    using json_digit_nat [OF that] by auto
  then show ?case using 1 nat_digits_not_Nil [of "n div 10"] by (subst nat_digits.simps) auto
qed

lemma digits_value_append:
  "list_all json_digit ds \<Longrightarrow> digits_value (ds @ es) m = digits_value es (fold (\<lambda>c n. n * 10 + int (code c - 0x30)) ds m)"
  by (induction ds arbitrary: m) simp_all

lemma digits_value_nat: "digits_value (nat_digits n) 0 = Some (int n)"
proof (induction n rule: nat_digits.induct)
  case (1 n)
  show ?case
  proof (cases "n < 10")
    case True
    then show ?thesis using json_digit_nat [of n] by (subst nat_digits.simps) simp
  next
    case False
    then have "digits_value (nat_digits (n div 10) @ []) 0 = Some (int (n div 10))" using 1 by simp
    then have "fold (\<lambda>c n. n * 10 + int (code c - 0x30)) (nat_digits (n div 10)) 0 = int (n div 10)"
      by (subst (asm) digits_value_append) (simp_all add: nat_digits_all)
    then have "digits_value (nat_digits (n div 10) @ [byte (0x30 + n mod 10)]) 0 = Some (int (n div 10) * 10 + int (n mod 10))"
      using json_digit_nat [of "n mod 10"] by (simp add: digits_value_append nat_digits_all)
    moreover have "int (n div 10) * 10 + int (n mod 10) = int n" by presburger
    ultimately show ?thesis using False by (subst nat_digits.simps) simp
  qed
qed

lemma digit_not_minus: "json_digit c \<Longrightarrow> c \<noteq> CHR ''-''"
  by (auto simp: json_digit_def between_def code_def)

lemma parse_int64_Itoa: "is_int64 i \<Longrightarrow> parse_int64 (Itoa i) = Some i"
proof (cases "i < 0")
  case True
  then show "is_int64 i \<Longrightarrow> parse_int64 (Itoa i) = Some i"
    by (simp add: parse_int64_def Itoa_def digits_value_nat)
next
  case False
  obtain c cs where c: "nat_digits (nat i) = c # cs" using nat_digits_not_Nil by (cases "nat_digits (nat i)") auto
  then have "c \<noteq> CHR ''-''" using nat_digits_all [of "nat i"] digit_not_minus by simp
  then show "is_int64 i \<Longrightarrow> parse_int64 (Itoa i) = Some i"
    using False c digits_value_nat [of "nat i"] by (simp add: parse_int64_def Itoa_def)
qed

text \<open>What a written value is read as; numbers with a fraction are not covered.\<close>

fun scalar_token :: "jscalar \<Rightarrow> jtok" where
  "scalar_token (SString s) = TkStr (to_valid s)"
| "scalar_token (SInt i) = TkNum (Itoa i)"
| "scalar_token (SBool b) = (if b then TkTrue else TkFalse)"
| "scalar_token (SFloat x) = TkNull"

fun scalar_value :: "jscalar \<Rightarrow> json" where
  "scalar_value (SString s) = JStr (to_valid s)"
| "scalar_value (SInt i) = JNum (Itoa i)"
| "scalar_value (SBool b) = JBool b"
| "scalar_value (SFloat x) = JNull"

definition no_float :: "jscalar \<Rightarrow> bool" where
  "no_float v \<longleftrightarrow> (\<forall>x. v \<noteq> SFloat x)"

lemma no_float_simps [simp]: "no_float (SString s)" "no_float (SInt i)" "no_float (SBool b)" "\<not> no_float (SFloat x)"
  by (simp_all add: no_float_def)

definition member_value :: "string \<times> jscalar \<Rightarrow> string \<times> json" where
  "member_value m = (to_valid (fst m), scalar_value (snd m))"

definition member_tokens :: "string \<times> jscalar \<Rightarrow> jtok list" where
  "member_tokens m = [TkStr (to_valid (fst m)), Colon, scalar_token (snd m)]"

lemma lex_punct: "punct c = Some t \<Longrightarrow> lex (c # s) = map_option ((#) t) (lex s)"
proof -
  assume p: "punct c = Some t"
  have "\<not> json_space c" using p by (auto simp: punct_def json_space_def)
  then show ?thesis using p by (simp add: next_token_def)
qed

lemma punct_simps:
  "punct (CHR ''{'') = Some LBrace" "punct (CHR ''}'') = Some RBrace" "punct (CHR '':'') = Some Colon" "punct (CHR '','') = Some Comma"
  by (simp_all add: punct_def)

lemma lex_quote_string: "lex (quote_string st s @ r) = map_option ((#) (TkStr (to_valid s))) (lex r)"
  by (simp add: quote_string_def next_token_def json_space_def punct_def json_string_escape)

lemma lex_bool: "lex (''true'' @ r) = map_option ((#) TkTrue) (lex r)" "lex (''false'' @ r) = map_option ((#) TkFalse) (lex r)"
  by (simp_all add: next_token_def json_space_def punct_def word_at_def)

text \<open>Where a written integer ends.\<close>

definition number_end :: "string \<Rightarrow> bool" where
  "number_end r \<longleftrightarrow> (\<exists>q. r = CHR '','' # q \<or> r = CHR ''}'' # q)"

lemma number_end_char: "\<not> json_digit (CHR '','')" "\<not> json_digit (CHR ''}'')"
  by (simp_all add: json_digit_def between_def code_def)

lemma num_int_nat: "number_end r \<Longrightarrow> num_int (nat_digits n @ r) = Some (nat_digits n, r)"
proof -
  assume r: "number_end r"
  obtain c cs where c: "nat_digits n = c # cs" using nat_digits_not_Nil by (cases "nat_digits n") auto
  have all: "\<forall>d\<in>set (nat_digits n). json_digit d" using nat_digits_all [of n] by (simp add: list_all_iff)
  have "takeWhile json_digit (nat_digits n @ r) = nat_digits n @ takeWhile json_digit r"
    "dropWhile json_digit (nat_digits n @ r) = dropWhile json_digit r" using all by simp_all
  then have split: "takeWhile json_digit (nat_digits n @ r) = nat_digits n" "dropWhile json_digit (nat_digits n @ r) = r"
    using r number_end_char by (auto simp: number_end_def)
  show ?thesis
  proof (cases "c = CHR ''0''")
    case True
    then have n: "n = 0" using nat_digits_head [of n] c by simp
    have "nat_digits 0 = [byte 0x30]" by (subst nat_digits.simps) simp
    then show ?thesis using n True c by (simp add: num_int_def)
  next
    case False
    then show ?thesis using split all c by (simp add: num_int_def)
  qed
qed

lemma number_rest: "number_end r \<Longrightarrow> num_frac r = Some ([], r) \<and> num_exp r = Some ([], r)"
  by (auto simp: number_end_def num_frac_def num_exp_def)

lemma json_number_Itoa: "number_end r \<Longrightarrow> json_number (Itoa i @ r) = Some (Itoa i, r)"
proof -
  assume r: "number_end r"
  obtain c cs where c: "nat_digits (nat i) = c # cs" using nat_digits_not_Nil by (cases "nat_digits (nat i)") auto
  then have "c \<noteq> CHR ''-''" using nat_digits_all [of "nat i"] digit_not_minus by simp
  then show ?thesis using r num_int_nat [OF r, of "nat i"] num_int_nat [OF r, of "nat (- i)"] number_rest [OF r] c
    by (simp add: json_number_def Itoa_def Let_def)
qed

lemma number_start:
  "c = CHR ''-'' \<or> json_digit c \<Longrightarrow> punct c = None \<and> \<not> json_space c \<and> c \<notin> set ''tfn'' \<and> c \<noteq> CHR 0x22"
proof -
  assume c: "c = CHR ''-'' \<or> json_digit c"
  have no: "list_all (\<lambda>d. \<not> json_digit d \<and> d \<noteq> CHR ''-'')
      [CHR ''{'', CHR ''}'', CHR ''['', CHR '']'', CHR '':'', CHR '','', CHR '' '', CHR 0x09, CHR 0x0A, CHR 0x0D, CHR ''t'', CHR ''f'', CHR ''n'', CHR 0x22]"
    by code_simp
  then have "c \<notin> {CHR ''{'', CHR ''}'', CHR ''['', CHR '']'', CHR '':'', CHR '','', CHR '' '', CHR 0x09, CHR 0x0A, CHR 0x0D, CHR ''t'', CHR ''f'', CHR ''n'', CHR 0x22}"
    using c by auto
  then show ?thesis by (simp add: punct_def json_space_def)
qed

lemma Itoa_start: "\<exists>c cs. Itoa i = c # cs \<and> (c = CHR ''-'' \<or> json_digit c)"
proof -
  obtain c cs where c: "nat_digits (nat i) = c # cs" using nat_digits_not_Nil by (cases "nat_digits (nat i)") auto
  then show ?thesis using nat_digits_all [of "nat i"] by (simp add: Itoa_def)
qed

lemma lex_Itoa:
  assumes "number_end r"
  shows "lex (Itoa i @ r) = map_option ((#) (TkNum (Itoa i))) (lex r)"
proof -
  obtain c cs where c: "Itoa i = c # cs" "c = CHR ''-'' \<or> json_digit c" using Itoa_start by blast
  then have "next_token (Itoa i @ r) = Some (TkNum (Itoa i), r)"
    using number_start [OF c(2)] json_number_Itoa [OF assms, of i] by (simp add: next_token_def word_at_def)
  then show ?thesis using c number_start [OF c(2)] by simp
qed

lemma lex_scalar: "no_float v \<Longrightarrow> number_end r \<Longrightarrow> lex (encode_scalar ff st v @ r) = map_option ((#) (scalar_token v)) (lex r)"
  using lex_bool by (cases v) (simp_all add: lex_quote_string lex_Itoa del: lex.simps)

lemma lex_member:
  "no_float (snd m) \<Longrightarrow> number_end r \<Longrightarrow> lex (encode_member ff st m @ r) = map_option (\<lambda>ts. member_tokens m @ ts) (lex r)"
  by (simp add: encode_member_def member_tokens_def lex_quote_string lex_punct [OF punct_simps(3)] lex_scalar
      option.map_comp comp_def del: lex.simps)

lemma lex_members:
  "list_all (\<lambda>m. no_float (snd m)) ms \<Longrightarrow>
   lex (concat (map (\<lambda>m. CHR '','' # encode_member ff st m) ms) @ CHR ''}'' # r) =
     map_option (\<lambda>ts. concat (map (\<lambda>m. Comma # member_tokens m) ms) @ RBrace # ts) (lex r)"
proof (induction ms)
  case (Cons m ms)
  have "number_end (concat (map (\<lambda>m. CHR '','' # encode_member ff st m) ms) @ CHR ''}'' # r)"
    by (cases ms) (simp_all add: number_end_def)
  then show ?case using Cons by (simp add: lex_punct [OF punct_simps(4)] lex_member option.map_comp comp_def del: lex.simps)
qed (simp add: lex_punct [OF punct_simps(2)] del: lex.simps)

lemma parse_members:
  "parse_run (concat (map (\<lambda>m. Comma # member_tokens m) ms) @ [RBrace]) (EndValue v) [FObj acc k] =
     Some (JObj (acc @ (k, v) # map member_value ms))" if "list_all (\<lambda>m. no_float (snd m)) ms"
  using that
proof (induction ms arbitrary: acc k v)
  case (Cons m ms)
  have "scalar (scalar_token (snd m)) = Some (scalar_value (snd m))" "scalar_token (snd m) \<noteq> LBrack" "scalar_token (snd m) \<noteq> LBrace"
    using Cons.prems by (cases "snd m"; simp)+
  then show ?case using Cons by (simp add: member_tokens_def member_value_def begin_string_def begin_value_def)
qed simp

text \<open>A written object is one value, and is one line.\<close>

lemma json_parse_encode:
  assumes "list_all (\<lambda>m. no_float (snd m)) ms" and "ms \<noteq> []"
  shows "json_parse (encode_object ff st ms) = Some (JObj (map member_value ms))"
proof -
  obtain m rest where ms: "ms = m # rest" using assms(2) by (cases ms) auto
  have end1: "number_end (concat (map (\<lambda>m. CHR '','' # encode_member ff st m) rest) @ ''}'')"
    by (cases rest) (simp_all add: number_end_def)
  have "lex [] = Some []" by simp
  then have "lex (encode_object ff st ms) =
      Some (LBrace # member_tokens m @ concat (map (\<lambda>m. Comma # member_tokens m) rest) @ [RBrace])"
    using assms(1) end1
    by (simp add: encode_object_def ms lex_punct [OF punct_simps(1)] lex_member lex_members del: lex.simps)
  moreover have "scalar (scalar_token (snd m)) = Some (scalar_value (snd m))" "scalar_token (snd m) \<noteq> LBrack" "scalar_token (snd m) \<noteq> LBrace"
    using assms(1) ms by (cases "snd m"; simp)+
  ultimately show ?thesis
    using assms(1) parse_members [of rest "scalar_value (snd m)" "[]" "to_valid (fst m)"]
    by (simp add: json_parse_def ms member_tokens_def begin_value_def begin_string_def maxNestingDepth_def member_value_def)
qed

lemma code_newline: "code (CHR 0x0A) = 10"
  by code_simp

lemma Itoa_chars: "c \<in> set (Itoa i) \<Longrightarrow> 0x20 \<le> code c"
proof -
  have "\<forall>c\<in>set (nat_digits n). 0x20 \<le> code c" for n
    using nat_digits_all [of n] by (auto simp: list_all_iff json_digit_def between_def)
  moreover have "0x20 \<le> code (CHR ''-'')" by code_simp
  ultimately show "c \<in> set (Itoa i) \<Longrightarrow> 0x20 \<le> code c" by (auto simp: Itoa_def split: if_splits)
qed

lemma quote_string_chars: "c \<in> set (quote_string st s) \<Longrightarrow> 0x20 \<le> code c"
  using escape_letters json_escape_chars [of c st s] by (auto simp: quote_string_def)

lemma object_letters: "list_all (\<lambda>c. 0x20 \<le> code c) (''truefalse,:{}'')"
  by code_simp

lemma encode_member_chars: "no_float (snd m) \<Longrightarrow> c \<in> set (encode_member ff st m) \<Longrightarrow> 0x20 \<le> code c"
  using object_letters quote_string_chars Itoa_chars
  by (cases "snd m") (auto simp: encode_member_def split: if_splits)

lemma encode_object_line:
  assumes "list_all (\<lambda>m. no_float (snd m)) ms"
  shows "CHR 0x0A \<notin> set (encode_object ff st ms)"
proof
  assume nl: "CHR 0x0A \<in> set (encode_object ff st ms)"
  have m: "\<forall>m\<in>set ms. \<forall>c\<in>set (encode_member ff st m). 0x20 \<le> code c"
    using assms encode_member_chars by (fastforce simp: list_all_iff)
  have "\<forall>c\<in>set (encode_object ff st ms). 0x20 \<le> code c"
    using object_letters m by (cases ms) (auto simp: encode_object_def)
  then show False using nl code_newline by fastforce
qed

end
