(* ===== verification/Logging.thy ===== *)
theory Logging
  imports Go_JSON_Encode Go_URL Budget_Monitor Log_Hub
begin

text \<open>
  The two JSON loggers (\<^verbatim>\<open>internal/logging/jsonlog.go\<close> and
  \<^verbatim>\<open>slog.go\<close>): each writes an alert event or an event of the live log as one line
  that holds one JSON object. A logger is the bytes its writer has accepted. The mutex makes a record
  one step. The fields of the structs are written by their tags (\<^verbatim>\<open>pkg/logstream/hub.go\<close>
  and \<^verbatim>\<open>pkg/proxy/notifier.go\<close>), by the encoder of the one and by a list of
  attributes in the other.
\<close>

section \<open>Fields\<close>

text \<open>How a decoder stores a value onto a field; a \<^verbatim>\<open>uint64\<close> takes no sign.\<close>

definition field :: "('e \<Rightarrow> 'a) \<Rightarrow> ('a \<Rightarrow> 'e \<Rightarrow> 'e) \<Rightarrow> 'a store \<Rightarrow> 'e store" where
  "field get upd f v e = map_option (\<lambda>x. upd x e) (f v (get e))"

fun store_uint64 :: "64 word store" where
  "store_uint64 (JNum s) old =
     (case digits_value s 0 of None \<Rightarrow> None | Some n \<Rightarrow> if n < 2 ^ 64 then Some (word_of_int n) else None)"
| "store_uint64 JNull old = Some old"
| "store_uint64 _ old = None"

definition LogEvent_fields :: "(string \<times> LogEvent store) list" where
  "LogEvent_fields =
     [
      (''type'', field le_Type (\<lambda>x e. e\<lparr>le_Type := x\<rparr>) store_string),
      (''level'', field le_Level (\<lambda>x e. e\<lparr>le_Level := x\<rparr>) store_string),
      (''timestamp'', field le_Timestamp (\<lambda>x e. e\<lparr>le_Timestamp := x\<rparr>) store_int64),
      (''tenant_id'', field le_TenantID (\<lambda>x e. e\<lparr>le_TenantID := x\<rparr>) store_string),
      (''tenant_name'', field le_TenantName (\<lambda>x e. e\<lparr>le_TenantName := x\<rparr>) store_string),
      (''agent_id'', field le_AgentID (\<lambda>x e. e\<lparr>le_AgentID := x\<rparr>) store_string),
      (''model'', field le_Model (\<lambda>x e. e\<lparr>le_Model := x\<rparr>) store_string),
      (''project_name'', field le_ProjectName (\<lambda>x e. e\<lparr>le_ProjectName := x\<rparr>) store_string),
      (''prompt_tokens'', field le_PromptTokens (\<lambda>x e. e\<lparr>le_PromptTokens := x\<rparr>) store_int64),
      (''completion_tokens'', field le_CompletionTokens (\<lambda>x e. e\<lparr>le_CompletionTokens := x\<rparr>) store_int64),
      (''cost_micro_usd'', field le_CostMicroUSD (\<lambda>x e. e\<lparr>le_CostMicroUSD := x\<rparr>) store_int64),
      (''saved_cost_micro_usd'', field le_SavedCostMicroUSD (\<lambda>x e. e\<lparr>le_SavedCostMicroUSD := x\<rparr>) store_int64),
      (''budget_micro_usd'', field le_BudgetMicroUSD (\<lambda>x e. e\<lparr>le_BudgetMicroUSD := x\<rparr>) store_int64),
      (''spent_micro_usd'', field le_SpentMicroUSD (\<lambda>x e. e\<lparr>le_SpentMicroUSD := x\<rparr>) store_int64),
      (''monthly_budget_micro'', field le_MonthlyBudgetMicro (\<lambda>x e. e\<lparr>le_MonthlyBudgetMicro := x\<rparr>) store_int64),
      (''status_code'', field le_StatusCode (\<lambda>x e. e\<lparr>le_StatusCode := x\<rparr>) store_int64),
      (''first_block'', field le_FirstBlock (\<lambda>x e. e\<lparr>le_FirstBlock := x\<rparr>) store_bool),
      (''reason'', field le_Reason (\<lambda>x e. e\<lparr>le_Reason := x\<rparr>) store_string),
      (''retry_after'', field le_RetryAfter (\<lambda>x e. e\<lparr>le_RetryAfter := x\<rparr>) store_int64),
      (''threshold_pct'', field le_ThresholdPct (\<lambda>x e. e\<lparr>le_ThresholdPct := x\<rparr>) store_int64),
      (''dropped_events'', field le_DroppedEvents (\<lambda>x e. e\<lparr>le_DroppedEvents := x\<rparr>) store_uint64)]"

definition store_LogEvent :: "LogEvent store" where "store_LogEvent = store_struct LogEvent_fields"

definition LogEvent_members :: "LogEvent \<Rightarrow> (string \<times> jscalar) list" where
  "LogEvent_members ev =
     [(''type'', SString (le_Type ev)), (''level'', SString (le_Level ev)), (''timestamp'', SInt (le_Timestamp ev))] @
     omit_string ''tenant_id'' (le_TenantID ev) @ omit_string ''tenant_name'' (le_TenantName ev) @
     omit_string ''agent_id'' (le_AgentID ev) @ omit_string ''model'' (le_Model ev) @
     omit_string ''project_name'' (le_ProjectName ev) @ omit_int ''prompt_tokens'' (le_PromptTokens ev) @
     omit_int ''completion_tokens'' (le_CompletionTokens ev) @
     omit_int ''cost_micro_usd'' (le_CostMicroUSD ev) @
     omit_int ''saved_cost_micro_usd'' (le_SavedCostMicroUSD ev) @
     omit_int ''budget_micro_usd'' (le_BudgetMicroUSD ev) @
     omit_int ''spent_micro_usd'' (le_SpentMicroUSD ev) @
     omit_int ''monthly_budget_micro'' (le_MonthlyBudgetMicro ev) @
     omit_int ''status_code'' (le_StatusCode ev) @ omit_bool ''first_block'' (le_FirstBlock ev) @
     omit_string ''reason'' (le_Reason ev) @ omit_int ''retry_after'' (le_RetryAfter ev) @
     omit_int ''threshold_pct'' (le_ThresholdPct ev) @
     omit_int ''dropped_events'' (uint (le_DroppedEvents ev))"

definition Event_fields :: "(string \<times> Event store) list" where
  "Event_fields =
     [
      (''type'', field ev_Type (\<lambda>x e. e\<lparr>ev_Type := x\<rparr>) store_string),
      (''timestamp'', field ev_Timestamp (\<lambda>x e. e\<lparr>ev_Timestamp := x\<rparr>) store_int64),
      (''agent_id'', field ev_AgentID (\<lambda>x e. e\<lparr>ev_AgentID := x\<rparr>) store_string),
      (''project'', field ev_Project (\<lambda>x e. e\<lparr>ev_Project := x\<rparr>) store_string),
      (''model'', field ev_Model (\<lambda>x e. e\<lparr>ev_Model := x\<rparr>) store_string),
      (''saved_cost_micro_usd'', field ev_SavedCostMicro (\<lambda>x e. e\<lparr>ev_SavedCostMicro := x\<rparr>) store_int64),
      (''reason'', field ev_Reason (\<lambda>x e. e\<lparr>ev_Reason := x\<rparr>) store_string),
      (''retry_after'', field ev_RetryAfter (\<lambda>x e. e\<lparr>ev_RetryAfter := x\<rparr>) store_int64),
      (''budget_micro_usd'', field ev_BudgetMicroUSD (\<lambda>x e. e\<lparr>ev_BudgetMicroUSD := x\<rparr>) store_int64),
      (''spent_micro_usd'', field ev_SpentMicroUSD (\<lambda>x e. e\<lparr>ev_SpentMicroUSD := x\<rparr>) store_int64),
      (''threshold_pct'', field ev_ThresholdPct (\<lambda>x e. e\<lparr>ev_ThresholdPct := x\<rparr>) store_int64),
      (''similarity'', field ev_Similarity (\<lambda>x e. e\<lparr>ev_Similarity := x\<rparr>) store_float),
      (''intent_score'', field ev_IntentScore (\<lambda>x e. e\<lparr>ev_IntentScore := x\<rparr>) store_float),
      (''quota_kind'', field ev_QuotaKind (\<lambda>x e. e\<lparr>ev_QuotaKind := x\<rparr>) store_string),
      (''quota_id'', field ev_QuotaID (\<lambda>x e. e\<lparr>ev_QuotaID := x\<rparr>) store_string)]"

definition store_Event :: "Event store" where "store_Event = store_struct Event_fields"

definition Event_members :: "Event \<Rightarrow> (string \<times> jscalar) list" where
  "Event_members ev =
     [(''type'', SString (ev_Type ev)), (''timestamp'', SInt (ev_Timestamp ev))] @
     omit_string ''agent_id'' (ev_AgentID ev) @ omit_string ''project'' (ev_Project ev) @
     omit_string ''model'' (ev_Model ev) @ omit_int ''saved_cost_micro_usd'' (ev_SavedCostMicro ev) @
     omit_string ''reason'' (ev_Reason ev) @ omit_int ''retry_after'' (ev_RetryAfter ev) @
     omit_int ''budget_micro_usd'' (ev_BudgetMicroUSD ev) @
     omit_int ''spent_micro_usd'' (ev_SpentMicroUSD ev) @ omit_int ''threshold_pct'' (ev_ThresholdPct ev) @
     omit_float ''similarity'' (ev_Similarity ev) @ omit_float ''intent_score'' (ev_IntentScore ev) @
     omit_string ''quota_kind'' (ev_QuotaKind ev) @ omit_string ''quota_id'' (ev_QuotaID ev)"

section \<open>The encoder variant\<close>

text \<open>
  A write is accepted, or fails behind some bytes; the encoder refuses everything after a failed write.
  An event that cannot be encoded is skipped.
\<close>

record Logger =
  lg_Out :: string
  lg_Failed :: bool

definition New_Logger :: Logger where "New_Logger = \<lparr>lg_Out = '''', lg_Failed = False\<rparr>"

type_synonym write_result = "nat option"

definition Logger_Encode :: "float_format \<Rightarrow> write_result \<Rightarrow> (string \<times> jscalar) list \<Rightarrow> Logger \<Rightarrow> Logger" where
  "Logger_Encode ff wr ms l =
     (if lg_Failed l then l
      else if \<not> list_all (\<lambda>m. encodable (snd m)) ms then l
      else let line = encode_object ff StructEncoder ms @ [CHR 0x0A]
           in case wr of
                None \<Rightarrow> l\<lparr>lg_Out := lg_Out l @ line\<rparr>
              | Some n \<Rightarrow> l\<lparr>lg_Out := lg_Out l @ take n line, lg_Failed := True\<rparr>)"

definition Logger_Notify :: "float_format \<Rightarrow> write_result \<Rightarrow> Event \<Rightarrow> Logger \<Rightarrow> Logger" where
  "Logger_Notify ff wr ev = Logger_Encode ff wr (Event_members ev)"

definition Logger_Log :: "float_format \<Rightarrow> write_result \<Rightarrow> LogEvent \<Rightarrow> Logger \<Rightarrow> Logger" where
  "Logger_Log ff wr ev = Logger_Encode ff wr (LogEvent_members ev)"

text \<open>
  The subscription of a logger to a hub, if there is one, and a read of its goroutine: the events taken
  from the channel are written in their order.
\<close>

definition Logger_Subscribe :: "Hub option \<Rightarrow> (nat \<times> Hub) option" where
  "Logger_Subscribe hub = map_option (Hub_Subscribe 1024) hub"

definition Logger_stop :: "nat option \<Rightarrow> Hub \<Rightarrow> Hub" where
  "Logger_stop sub h = (case sub of None \<Rightarrow> h | Some p \<Rightarrow> Subscription_Close p h)"

section \<open>The attribute variant\<close>

datatype slog_level = LevelDebug | LevelInfo | LevelWarn | LevelError

fun level_value :: "slog_level \<Rightarrow> int" where
  "level_value LevelDebug = - 4"
| "level_value LevelInfo = 0"
| "level_value LevelWarn = 4"
| "level_value LevelError = 8"

instantiation slog_level :: linorder
begin

definition less_eq_slog_level :: "slog_level \<Rightarrow> slog_level \<Rightarrow> bool" where
  "less_eq_slog_level a b \<longleftrightarrow> level_value a \<le> level_value b"

definition less_slog_level :: "slog_level \<Rightarrow> slog_level \<Rightarrow> bool" where
  "less_slog_level a b \<longleftrightarrow> level_value a < level_value b"

instance
proof
  show "a = b" if "a \<le> b" and "b \<le> a" for a b :: slog_level
    using that unfolding less_eq_slog_level_def by (cases a; cases b) simp_all
qed (auto simp: less_eq_slog_level_def less_slog_level_def)

end

fun Level_String :: "slog_level \<Rightarrow> string" where
  "Level_String LevelDebug = ''DEBUG''"
| "Level_String LevelInfo = ''INFO''"
| "Level_String LevelWarn = ''WARN''"
| "Level_String LevelError = ''ERROR''"

definition levelFor :: "string \<Rightarrow> slog_level" where
  "levelFor l =
     (if l = ''error'' then LevelError else if l = ''warn'' then LevelWarn
      else if l = ''debug'' then LevelDebug else LevelInfo)"

definition eventAttrs :: "Event \<Rightarrow> (string \<times> jscalar) list" where
  "eventAttrs ev =
     [(''type'', SString (ev_Type ev)), (''timestamp'', SInt (ev_Timestamp ev))] @
     omit_string ''agent_id'' (ev_AgentID ev) @ omit_string ''project'' (ev_Project ev) @
     omit_string ''model'' (ev_Model ev) @ omit_int ''saved_cost_micro_usd'' (ev_SavedCostMicro ev) @
     omit_string ''reason'' (ev_Reason ev) @ omit_int ''retry_after'' (ev_RetryAfter ev) @
     omit_int ''budget_micro_usd'' (ev_BudgetMicroUSD ev) @
     omit_int ''spent_micro_usd'' (ev_SpentMicroUSD ev) @ omit_int ''threshold_pct'' (ev_ThresholdPct ev)"

definition logEventAttrs :: "LogEvent \<Rightarrow> (string \<times> jscalar) list" where
  "logEventAttrs ev =
     [(''type'', SString (le_Type ev)), (''timestamp'', SInt (le_Timestamp ev))] @
     omit_string ''tenant_id'' (le_TenantID ev) @ omit_string ''tenant_name'' (le_TenantName ev) @
     omit_string ''agent_id'' (le_AgentID ev) @ omit_string ''model'' (le_Model ev) @
     omit_string ''project_name'' (le_ProjectName ev) @ omit_int ''prompt_tokens'' (le_PromptTokens ev) @
     omit_int ''completion_tokens'' (le_CompletionTokens ev) @
     omit_int ''cost_micro_usd'' (le_CostMicroUSD ev) @
     omit_int ''saved_cost_micro_usd'' (le_SavedCostMicroUSD ev) @
     omit_int ''budget_micro_usd'' (le_BudgetMicroUSD ev) @
     omit_int ''spent_micro_usd'' (le_SpentMicroUSD ev) @
     omit_int ''monthly_budget_micro'' (le_MonthlyBudgetMicro ev) @
     omit_int ''status_code'' (le_StatusCode ev) @ omit_bool ''first_block'' (le_FirstBlock ev) @
     omit_string ''reason'' (le_Reason ev) @ omit_int ''retry_after'' (le_RetryAfter ev) @
     omit_int ''threshold_pct'' (le_ThresholdPct ev)"

record SlogLogger =
  sl_Out :: string
  sl_Level :: slog_level

definition NewSlogLogger :: "slog_level \<Rightarrow> SlogLogger" where
  "NewSlogLogger level = \<lparr>sl_Out = '''', sl_Level = level\<rparr>"

text \<open>
  A record of the handler: the built-in attributes, the level in lower case, and then those of the
  event. The time is an argument, already printed; records below the level of the handler are dropped.
\<close>

definition slog_members :: "string \<Rightarrow> slog_level \<Rightarrow> string \<Rightarrow> (string \<times> jscalar) list \<Rightarrow> (string \<times> jscalar) list" where
  "slog_members stamp level msg attrs =
     [(''time'', SString stamp), (''level'', SString (ToLower (Level_String level))), (''msg'', SString msg)] @ attrs"

definition LogAttrs :: "float_format \<Rightarrow> string \<Rightarrow> write_result \<Rightarrow> slog_level \<Rightarrow> string \<Rightarrow> (string \<times> jscalar) list \<Rightarrow> SlogLogger \<Rightarrow> SlogLogger" where
  "LogAttrs ff stamp wr level msg attrs s =
     (if level < sl_Level s then s
      else let line = encode_object ff SlogHandler (slog_members stamp level msg attrs) @ [CHR 0x0A]
           in s\<lparr>sl_Out := sl_Out s @ (case wr of None \<Rightarrow> line | Some n \<Rightarrow> take n line)\<rparr>)"

definition SlogLogger_Notify :: "float_format \<Rightarrow> string \<Rightarrow> write_result \<Rightarrow> Event \<Rightarrow> SlogLogger \<Rightarrow> SlogLogger" where
  "SlogLogger_Notify ff stamp wr ev = LogAttrs ff stamp wr LevelWarn (ev_Type ev) (eventAttrs ev)"

definition SlogLogger_Log :: "float_format \<Rightarrow> string \<Rightarrow> write_result \<Rightarrow> LogEvent \<Rightarrow> SlogLogger \<Rightarrow> SlogLogger" where
  "SlogLogger_Log ff stamp wr ev = LogAttrs ff stamp wr (levelFor (le_Level ev)) (le_Type ev) (logEventAttrs ev)"

definition SlogLogger_Subscribe :: "Hub option \<Rightarrow> (nat \<times> Hub) option" where
  "SlogLogger_Subscribe hub = map_option (Hub_Subscribe 1024) hub"

section \<open>Reading the lines back\<close>

text \<open>The events whose integers fit their types, and what is left of their strings in JSON.\<close>

definition LogEvent_fits :: "LogEvent \<Rightarrow> bool" where
  "LogEvent_fits ev \<longleftrightarrow> list_all is_int64
      [le_Timestamp ev, le_PromptTokens ev, le_CompletionTokens ev, le_CostMicroUSD ev,
       le_SavedCostMicroUSD ev, le_BudgetMicroUSD ev, le_SpentMicroUSD ev, le_MonthlyBudgetMicro ev,
       le_StatusCode ev, le_RetryAfter ev, le_ThresholdPct ev]"

definition LogEvent_valid :: "LogEvent \<Rightarrow> LogEvent" where
  "LogEvent_valid ev =
     ev\<lparr>le_Type := to_valid (le_Type ev), le_Level := to_valid (le_Level ev),
        le_TenantID := to_valid (le_TenantID ev), le_TenantName := to_valid (le_TenantName ev),
        le_AgentID := to_valid (le_AgentID ev), le_Model := to_valid (le_Model ev),
        le_ProjectName := to_valid (le_ProjectName ev), le_Reason := to_valid (le_Reason ev)\<rparr>"

definition Event_fits :: "Event \<Rightarrow> bool" where
  "Event_fits ev \<longleftrightarrow> list_all is_int64
      [ev_Timestamp ev, ev_SavedCostMicro ev, ev_RetryAfter ev, ev_BudgetMicroUSD ev, ev_SpentMicroUSD ev, ev_ThresholdPct ev]"

text \<open>The alerts of the program itself; the other fields belong to events it never emits.\<close>

definition core_event :: "Event \<Rightarrow> bool" where
  "core_event ev \<longleftrightarrow> ev_Similarity ev = Fin 0 \<and> ev_IntentScore ev = Fin 0 \<and> ev_QuotaKind ev = '''' \<and> ev_QuotaID ev = ''''"

definition Event_valid :: "Event \<Rightarrow> Event" where
  "Event_valid ev =
     ev\<lparr>ev_Type := to_valid (ev_Type ev), ev_AgentID := to_valid (ev_AgentID ev),
        ev_Project := to_valid (ev_Project ev), ev_Model := to_valid (ev_Model ev),
        ev_Reason := to_valid (ev_Reason ev), ev_QuotaKind := to_valid (ev_QuotaKind ev),
        ev_QuotaID := to_valid (ev_QuotaID ev)\<rparr>"

lemma LogEvent_fields_lookup:
  "map_of LogEvent_fields ''type'' = Some (field le_Type (\<lambda>x e. e\<lparr>le_Type := x\<rparr>) store_string)"
  "map_of LogEvent_fields ''level'' = Some (field le_Level (\<lambda>x e. e\<lparr>le_Level := x\<rparr>) store_string)"
  "map_of LogEvent_fields ''timestamp'' = Some (field le_Timestamp (\<lambda>x e. e\<lparr>le_Timestamp := x\<rparr>) store_int64)"
  "map_of LogEvent_fields ''tenant_id'' = Some (field le_TenantID (\<lambda>x e. e\<lparr>le_TenantID := x\<rparr>) store_string)"
  "map_of LogEvent_fields ''tenant_name'' = Some (field le_TenantName (\<lambda>x e. e\<lparr>le_TenantName := x\<rparr>) store_string)"
  "map_of LogEvent_fields ''agent_id'' = Some (field le_AgentID (\<lambda>x e. e\<lparr>le_AgentID := x\<rparr>) store_string)"
  "map_of LogEvent_fields ''model'' = Some (field le_Model (\<lambda>x e. e\<lparr>le_Model := x\<rparr>) store_string)"
  "map_of LogEvent_fields ''project_name'' = Some (field le_ProjectName (\<lambda>x e. e\<lparr>le_ProjectName := x\<rparr>) store_string)"
  "map_of LogEvent_fields ''prompt_tokens'' = Some (field le_PromptTokens (\<lambda>x e. e\<lparr>le_PromptTokens := x\<rparr>) store_int64)"
  "map_of LogEvent_fields ''completion_tokens'' = Some (field le_CompletionTokens (\<lambda>x e. e\<lparr>le_CompletionTokens := x\<rparr>) store_int64)"
  "map_of LogEvent_fields ''cost_micro_usd'' = Some (field le_CostMicroUSD (\<lambda>x e. e\<lparr>le_CostMicroUSD := x\<rparr>) store_int64)"
  "map_of LogEvent_fields ''saved_cost_micro_usd'' = Some (field le_SavedCostMicroUSD (\<lambda>x e. e\<lparr>le_SavedCostMicroUSD := x\<rparr>) store_int64)"
  "map_of LogEvent_fields ''budget_micro_usd'' = Some (field le_BudgetMicroUSD (\<lambda>x e. e\<lparr>le_BudgetMicroUSD := x\<rparr>) store_int64)"
  "map_of LogEvent_fields ''spent_micro_usd'' = Some (field le_SpentMicroUSD (\<lambda>x e. e\<lparr>le_SpentMicroUSD := x\<rparr>) store_int64)"
  "map_of LogEvent_fields ''monthly_budget_micro'' = Some (field le_MonthlyBudgetMicro (\<lambda>x e. e\<lparr>le_MonthlyBudgetMicro := x\<rparr>) store_int64)"
  "map_of LogEvent_fields ''status_code'' = Some (field le_StatusCode (\<lambda>x e. e\<lparr>le_StatusCode := x\<rparr>) store_int64)"
  "map_of LogEvent_fields ''first_block'' = Some (field le_FirstBlock (\<lambda>x e. e\<lparr>le_FirstBlock := x\<rparr>) store_bool)"
  "map_of LogEvent_fields ''reason'' = Some (field le_Reason (\<lambda>x e. e\<lparr>le_Reason := x\<rparr>) store_string)"
  "map_of LogEvent_fields ''retry_after'' = Some (field le_RetryAfter (\<lambda>x e. e\<lparr>le_RetryAfter := x\<rparr>) store_int64)"
  "map_of LogEvent_fields ''threshold_pct'' = Some (field le_ThresholdPct (\<lambda>x e. e\<lparr>le_ThresholdPct := x\<rparr>) store_int64)"
  "map_of LogEvent_fields ''dropped_events'' = Some (field le_DroppedEvents (\<lambda>x e. e\<lparr>le_DroppedEvents := x\<rparr>) store_uint64)"
  by (simp_all add: LogEvent_fields_def)

lemma Event_fields_lookup:
  "map_of Event_fields ''type'' = Some (field ev_Type (\<lambda>x e. e\<lparr>ev_Type := x\<rparr>) store_string)"
  "map_of Event_fields ''timestamp'' = Some (field ev_Timestamp (\<lambda>x e. e\<lparr>ev_Timestamp := x\<rparr>) store_int64)"
  "map_of Event_fields ''agent_id'' = Some (field ev_AgentID (\<lambda>x e. e\<lparr>ev_AgentID := x\<rparr>) store_string)"
  "map_of Event_fields ''project'' = Some (field ev_Project (\<lambda>x e. e\<lparr>ev_Project := x\<rparr>) store_string)"
  "map_of Event_fields ''model'' = Some (field ev_Model (\<lambda>x e. e\<lparr>ev_Model := x\<rparr>) store_string)"
  "map_of Event_fields ''saved_cost_micro_usd'' = Some (field ev_SavedCostMicro (\<lambda>x e. e\<lparr>ev_SavedCostMicro := x\<rparr>) store_int64)"
  "map_of Event_fields ''reason'' = Some (field ev_Reason (\<lambda>x e. e\<lparr>ev_Reason := x\<rparr>) store_string)"
  "map_of Event_fields ''retry_after'' = Some (field ev_RetryAfter (\<lambda>x e. e\<lparr>ev_RetryAfter := x\<rparr>) store_int64)"
  "map_of Event_fields ''budget_micro_usd'' = Some (field ev_BudgetMicroUSD (\<lambda>x e. e\<lparr>ev_BudgetMicroUSD := x\<rparr>) store_int64)"
  "map_of Event_fields ''spent_micro_usd'' = Some (field ev_SpentMicroUSD (\<lambda>x e. e\<lparr>ev_SpentMicroUSD := x\<rparr>) store_int64)"
  "map_of Event_fields ''threshold_pct'' = Some (field ev_ThresholdPct (\<lambda>x e. e\<lparr>ev_ThresholdPct := x\<rparr>) store_int64)"
  "map_of Event_fields ''similarity'' = Some (field ev_Similarity (\<lambda>x e. e\<lparr>ev_Similarity := x\<rparr>) store_float)"
  "map_of Event_fields ''intent_score'' = Some (field ev_IntentScore (\<lambda>x e. e\<lparr>ev_IntentScore := x\<rparr>) store_float)"
  "map_of Event_fields ''quota_kind'' = Some (field ev_QuotaKind (\<lambda>x e. e\<lparr>ev_QuotaKind := x\<rparr>) store_string)"
  "map_of Event_fields ''quota_id'' = Some (field ev_QuotaID (\<lambda>x e. e\<lparr>ev_QuotaID := x\<rparr>) store_string)"
  by (simp_all add: Event_fields_def)

section \<open>Storing the members\<close>

definition ascii :: "string \<Rightarrow> bool" where "ascii s \<longleftrightarrow> list_all (\<lambda>c. code c < 0x80) s"

lemma to_valid_ascii: "ascii s \<Longrightarrow> to_valid s = s"
  unfolding ascii_def by (induction s) simp_all

lemma ascii_names:
  "ascii ''agent_id''" "ascii ''budget_micro_usd''" "ascii ''completion_tokens''" "ascii ''cost_micro_usd''"
  "ascii ''dropped_events''" "ascii ''first_block''" "ascii ''intent_score''" "ascii ''level''"
  "ascii ''model''" "ascii ''monthly_budget_micro''" "ascii ''msg''" "ascii ''project''"
  "ascii ''project_name''" "ascii ''prompt_tokens''" "ascii ''quota_id''" "ascii ''quota_kind''"
  "ascii ''reason''" "ascii ''retry_after''" "ascii ''saved_cost_micro_usd''" "ascii ''similarity''"
  "ascii ''spent_micro_usd''" "ascii ''status_code''" "ascii ''tenant_id''" "ascii ''tenant_name''"
  "ascii ''threshold_pct''" "ascii ''time''" "ascii ''timestamp''" "ascii ''type''"
  by code_simp+

lemma store_string_field:
  assumes "map_of fs k = Some (field get upd store_string)" and "ascii k" and "upd '''' old = old"
  shows "store_members fs (map member_value (omit_string k s) @ ms) old = store_members fs ms (upd (to_valid s) old)"
  using assms by (simp add: omit_string_def member_value_def to_valid_ascii find_field_exact field_def)

lemma store_int_field:
  assumes "map_of fs k = Some (field get upd store_int64)" and "ascii k" and "upd 0 old = old" and "is_int64 i"
  shows "store_members fs (map member_value (omit_int k i) @ ms) old = store_members fs ms (upd i old)"
  using assms by (simp add: omit_int_def member_value_def to_valid_ascii find_field_exact field_def parse_int64_Itoa)

lemma store_bool_field:
  assumes "map_of fs k = Some (field get upd store_bool)" and "ascii k" and "upd False old = old"
  shows "store_members fs (map member_value (omit_bool k b) @ ms) old = store_members fs ms (upd b old)"
  using assms by (simp add: omit_bool_def member_value_def to_valid_ascii find_field_exact field_def)

lemma store_uint64_Itoa: "store_uint64 (JNum (Itoa (uint w))) old = Some w"
proof -
  have "Itoa (uint w) = nat_digits (nat (uint w))" by (simp add: Itoa_def)
  then show ?thesis using uint_lt2p [of w] by (simp add: digits_value_nat)
qed

lemma store_uint_field:
  assumes "map_of fs k = Some (field get upd store_uint64)" and "ascii k" and "upd 0 old = old"
  shows "store_members fs (map member_value (omit_int k (uint w)) @ ms) old = store_members fs ms (upd w old)"
  using assms by (simp add: omit_int_def member_value_def to_valid_ascii find_field_exact field_def store_uint64_Itoa
      uint_0_iff del: store_uint64.simps)

text \<open>The members that both variants write, behind the type, the level and the time.\<close>

definition LogEvent_tail :: "LogEvent \<Rightarrow> (string \<times> jscalar) list" where
  "LogEvent_tail ev = drop 2 (logEventAttrs ev)"

lemma logEventAttrs_tail:
  "logEventAttrs ev = [(''type'', SString (le_Type ev)), (''timestamp'', SInt (le_Timestamp ev))] @ LogEvent_tail ev"
  "LogEvent_members ev =
     [(''type'', SString (le_Type ev)), (''level'', SString (le_Level ev)), (''timestamp'', SInt (le_Timestamp ev))] @
     LogEvent_tail ev @ omit_int ''dropped_events'' (uint (le_DroppedEvents ev))"
  by (simp_all add: LogEvent_tail_def logEventAttrs_def LogEvent_members_def)

lemmas LogEvent_stores =
  store_string_field [OF LogEvent_fields_lookup(1)] store_string_field [OF LogEvent_fields_lookup(2)]
  store_int_field [OF LogEvent_fields_lookup(3)] store_string_field [OF LogEvent_fields_lookup(4)]
  store_string_field [OF LogEvent_fields_lookup(5)] store_string_field [OF LogEvent_fields_lookup(6)]
  store_string_field [OF LogEvent_fields_lookup(7)] store_string_field [OF LogEvent_fields_lookup(8)]
  store_int_field [OF LogEvent_fields_lookup(9)] store_int_field [OF LogEvent_fields_lookup(10)]
  store_int_field [OF LogEvent_fields_lookup(11)] store_int_field [OF LogEvent_fields_lookup(12)]
  store_int_field [OF LogEvent_fields_lookup(13)] store_int_field [OF LogEvent_fields_lookup(14)]
  store_int_field [OF LogEvent_fields_lookup(15)] store_int_field [OF LogEvent_fields_lookup(16)]
  store_bool_field [OF LogEvent_fields_lookup(17)] store_string_field [OF LogEvent_fields_lookup(18)]
  store_int_field [OF LogEvent_fields_lookup(19)] store_int_field [OF LogEvent_fields_lookup(20)]
  store_uint_field [OF LogEvent_fields_lookup(21)]

lemmas Event_stores =
  store_string_field [OF Event_fields_lookup(1)] store_int_field [OF Event_fields_lookup(2)]
  store_string_field [OF Event_fields_lookup(3)] store_string_field [OF Event_fields_lookup(4)]
  store_string_field [OF Event_fields_lookup(5)] store_int_field [OF Event_fields_lookup(6)]
  store_string_field [OF Event_fields_lookup(7)] store_int_field [OF Event_fields_lookup(8)]
  store_int_field [OF Event_fields_lookup(9)] store_int_field [OF Event_fields_lookup(10)]
  store_int_field [OF Event_fields_lookup(11)] store_string_field [OF Event_fields_lookup(14)]
  store_string_field [OF Event_fields_lookup(15)]

lemma store_LogEvent_tail:
  assumes "LogEvent_fits ev"
  shows "store_members LogEvent_fields (map member_value (LogEvent_tail ev) @ ms)
      (LogEvent_zero\<lparr>le_Type := a, le_Level := b, le_Timestamp := c\<rparr>) =
    store_members LogEvent_fields ms
      ((LogEvent_valid ev)\<lparr>le_Type := a, le_Level := b, le_Timestamp := c, le_DroppedEvents := 0\<rparr>)"
  using assms
  by (cases ev) (simp add: LogEvent_tail_def logEventAttrs_def LogEvent_stores ascii_names LogEvent_fits_def LogEvent_zero_def
      LogEvent_valid_def)

lemma omit_no_float [simp]:
  "list_all (\<lambda>m. no_float (snd m)) (omit_string k s)" "list_all (\<lambda>m. no_float (snd m)) (omit_int k i)"
  "list_all (\<lambda>m. no_float (snd m)) (omit_bool k b)"
  by (simp_all add: omit_string_def omit_int_def omit_bool_def)

lemma no_float_encodable: "list_all (\<lambda>m. no_float (snd m)) ms \<Longrightarrow> list_all (\<lambda>m. encodable (snd m)) ms"
proof (induction ms)
  case (Cons m ms)
  then show ?case by (cases "snd m") simp_all
qed simp

lemma LogEvent_no_float:
  "list_all (\<lambda>m. no_float (snd m)) (LogEvent_members ev)" "list_all (\<lambda>m. no_float (snd m)) (slog_members stamp lv msg (logEventAttrs ev))"
  by (simp_all add: LogEvent_members_def logEventAttrs_def slog_members_def)

lemma unmarshal_object:
  assumes "list_all (\<lambda>m. no_float (snd m)) ms" and "ms \<noteq> []"
  shows "unmarshal (store_struct fs) zero (encode_object ff st ms) = store_members fs (map member_value ms) zero"
  by (simp add: unmarshal_def json_parse_encode [OF assms])

lemma member_value_string: "ascii k \<Longrightarrow> member_value (k, SString s) = (k, JStr (to_valid s))"
  by (simp add: member_value_def to_valid_ascii)

lemma member_value_int: "ascii k \<Longrightarrow> member_value (k, SInt i) = (k, JNum (Itoa i))"
  by (simp add: member_value_def to_valid_ascii)

lemma field_string: "field get upd store_string (JStr s) e = Some (upd s e)"
  by (simp add: field_def)

lemma field_int: "is_int64 i \<Longrightarrow> field get upd store_int64 (JNum (Itoa i)) e = Some (upd i e)"
  by (simp add: field_def parse_int64_Itoa)

lemmas store_first =
  member_value_string member_value_int find_field_exact field_string field_int ascii_names LogEvent_fields_lookup Event_fields_lookup

text \<open>A line of the encoder is decoded to the event, and one of the handler up to its level and its drop count.\<close>

lemma decode_log_line:
  assumes "LogEvent_fits ev"
  shows "unmarshal store_LogEvent LogEvent_zero (encode_object ff StructEncoder (LogEvent_members ev)) = Some (LogEvent_valid ev)"
proof -
  have ts: "is_int64 (le_Timestamp ev)" using assms by (simp add: LogEvent_fits_def)
  have "unmarshal store_LogEvent LogEvent_zero (encode_object ff StructEncoder (LogEvent_members ev)) =
      store_members LogEvent_fields (map member_value (LogEvent_members ev)) LogEvent_zero"
    unfolding store_LogEvent_def by (rule unmarshal_object [OF LogEvent_no_float(1)]) (simp add: LogEvent_members_def)
  also have "\<dots> = store_members LogEvent_fields
      (map member_value (LogEvent_tail ev) @ map member_value (omit_int ''dropped_events'' (uint (le_DroppedEvents ev))) @ [])
      (LogEvent_zero\<lparr>le_Type := to_valid (le_Type ev), le_Level := to_valid (le_Level ev), le_Timestamp := le_Timestamp ev\<rparr>)"
    unfolding logEventAttrs_tail(2) using ts by (simp add: store_first)
  also have "\<dots> = Some (LogEvent_valid ev)"
    unfolding store_LogEvent_tail [OF assms]
    by (subst LogEvent_stores(21)) (simp_all add: ascii_names LogEvent_valid_def)
  finally show ?thesis .
qed

lemma slog_unknown: "find_field LogEvent_fields ''time'' = None" "find_field LogEvent_fields ''msg'' = None"
  "find_field Event_fields ''time'' = None" "find_field Event_fields ''msg'' = None" "find_field Event_fields ''level'' = None"
proof -
  have n: "map fst LogEvent_fields = [''type'', ''level'', ''timestamp'', ''tenant_id'', ''tenant_name'', ''agent_id'', ''model'',
      ''project_name'', ''prompt_tokens'', ''completion_tokens'', ''cost_micro_usd'', ''saved_cost_micro_usd'', ''budget_micro_usd'',
      ''spent_micro_usd'', ''monthly_budget_micro'', ''status_code'', ''first_block'', ''reason'', ''retry_after'', ''threshold_pct'',
      ''dropped_events'']" by (simp add: LogEvent_fields_def)
  have m: "map fst Event_fields = [''type'', ''timestamp'', ''agent_id'', ''project'', ''model'', ''saved_cost_micro_usd'', ''reason'',
      ''retry_after'', ''budget_micro_usd'', ''spent_micro_usd'', ''threshold_pct'', ''similarity'', ''intent_score'', ''quota_kind'',
      ''quota_id'']" by (simp add: Event_fields_def)
  show "find_field LogEvent_fields ''time'' = None" "find_field LogEvent_fields ''msg'' = None"
    by (rule find_field_unknown; unfold n; code_simp)+
  show "find_field Event_fields ''time'' = None" "find_field Event_fields ''msg'' = None" "find_field Event_fields ''level'' = None"
    by (rule find_field_unknown; unfold m; code_simp)+
qed

lemma ascii_levels: "ascii (ToLower (Level_String lv))"
proof -
  have "ascii (ToLower (Level_String LevelDebug))" by code_simp
  moreover have "ascii (ToLower (Level_String LevelInfo))" by code_simp
  moreover have "ascii (ToLower (Level_String LevelWarn))" by code_simp
  moreover have "ascii (ToLower (Level_String LevelError))" by code_simp
  ultimately show ?thesis by (cases lv) (simp_all only:)
qed

lemmas level_ascii = to_valid_ascii [OF ascii_levels]

lemma decode_slog_line:
  assumes "LogEvent_fits ev"
  shows "unmarshal store_LogEvent LogEvent_zero (encode_object ff SlogHandler (slog_members stamp lv msg (logEventAttrs ev))) =
    Some ((LogEvent_valid ev)\<lparr>le_Level := ToLower (Level_String lv), le_DroppedEvents := 0\<rparr>)"
proof -
  have ts: "is_int64 (le_Timestamp ev)" using assms by (simp add: LogEvent_fits_def)
  have "unmarshal store_LogEvent LogEvent_zero (encode_object ff SlogHandler (slog_members stamp lv msg (logEventAttrs ev))) =
      store_members LogEvent_fields (map member_value (slog_members stamp lv msg (logEventAttrs ev))) LogEvent_zero"
    unfolding store_LogEvent_def by (rule unmarshal_object [OF LogEvent_no_float(2)]) (simp add: slog_members_def)
  also have "\<dots> = store_members LogEvent_fields (map member_value (LogEvent_tail ev) @ [])
      (LogEvent_zero\<lparr>le_Type := to_valid (le_Type ev), le_Level := ToLower (Level_String lv), le_Timestamp := le_Timestamp ev\<rparr>)"
    unfolding logEventAttrs_tail(1) slog_members_def using ts
    by (simp add: store_first slog_unknown level_ascii LogEvent_zero_def)
  also have "\<dots> = Some ((LogEvent_valid ev)\<lparr>le_Level := ToLower (Level_String lv), le_DroppedEvents := 0\<rparr>)"
    unfolding store_LogEvent_tail [OF assms] by (simp add: LogEvent_valid_def)
  finally show ?thesis .
qed

text \<open>The same for the alerts of the program.\<close>

definition Event_tail :: "Event \<Rightarrow> (string \<times> jscalar) list" where
  "Event_tail ev = drop 2 (eventAttrs ev)"

lemma eventAttrs_tail: "eventAttrs ev = [(''type'', SString (ev_Type ev)), (''timestamp'', SInt (ev_Timestamp ev))] @ Event_tail ev"
  by (simp add: Event_tail_def eventAttrs_def)

lemma Event_members_core: "core_event ev \<Longrightarrow> Event_members ev = eventAttrs ev"
  by (simp add: core_event_def Event_members_def eventAttrs_def omit_float_def omit_string_def)

lemma Event_no_float: "list_all (\<lambda>m. no_float (snd m)) (eventAttrs ev)" "list_all (\<lambda>m. no_float (snd m)) (slog_members stamp lv msg (eventAttrs ev))"
  by (simp_all add: eventAttrs_def slog_members_def)

lemma store_Event_tail:
  assumes "Event_fits ev" and "core_event ev"
  shows "store_members Event_fields (map member_value (Event_tail ev) @ []) (Event_zero\<lparr>ev_Type := a, ev_Timestamp := c\<rparr>) =
    Some ((Event_valid ev)\<lparr>ev_Type := a, ev_Timestamp := c\<rparr>)"
  using assms
  by (cases ev) (simp add: Event_tail_def eventAttrs_def Event_stores Event_stores(11) [where ms = "[]", unfolded append_Nil2]
      ascii_names Event_fits_def Event_zero_def Event_valid_def core_event_def)

lemma decode_alert_lines:
  assumes "Event_fits ev" and "core_event ev"
  shows "unmarshal store_Event Event_zero (encode_object ff StructEncoder (Event_members ev)) = Some (Event_valid ev)"
    and "unmarshal store_Event Event_zero (encode_object ff SlogHandler (slog_members stamp lv msg (eventAttrs ev))) = Some (Event_valid ev)"
proof -
  have ts: "is_int64 (ev_Timestamp ev)" using assms(1) by (simp add: Event_fits_def)
  let ?old = "Event_zero\<lparr>ev_Type := to_valid (ev_Type ev), ev_Timestamp := ev_Timestamp ev\<rparr>"
  have tail: "store_members Event_fields (map member_value (Event_tail ev) @ []) ?old = Some (Event_valid ev)"
    unfolding store_Event_tail [OF assms] by (simp add: Event_valid_def)
  have "unmarshal store_Event Event_zero (encode_object ff StructEncoder (Event_members ev)) =
      store_members Event_fields (map member_value (eventAttrs ev)) Event_zero"
    unfolding store_Event_def Event_members_core [OF assms(2)]
    by (rule unmarshal_object [OF Event_no_float(1)]) (simp add: eventAttrs_def)
  also have "\<dots> = store_members Event_fields (map member_value (Event_tail ev) @ []) ?old"
    unfolding eventAttrs_tail using ts by (simp add: store_first Event_zero_def)
  finally show "unmarshal store_Event Event_zero (encode_object ff StructEncoder (Event_members ev)) = Some (Event_valid ev)"
    unfolding tail .
  have "unmarshal store_Event Event_zero (encode_object ff SlogHandler (slog_members stamp lv msg (eventAttrs ev))) =
      store_members Event_fields (map member_value (slog_members stamp lv msg (eventAttrs ev))) Event_zero"
    unfolding store_Event_def by (rule unmarshal_object [OF Event_no_float(2)]) (simp add: slog_members_def)
  also have "\<dots> = store_members Event_fields (map member_value (Event_tail ev) @ []) ?old"
    unfolding eventAttrs_tail slog_members_def using ts by (simp add: store_first slog_unknown Event_zero_def)
  finally show "unmarshal store_Event Event_zero (encode_object ff SlogHandler (slog_members stamp lv msg (eventAttrs ev))) = Some (Event_valid ev)"
    unfolding tail .
qed

section \<open>Running the loggers\<close>

lemma Logger_Log_line:
  "\<not> lg_Failed l \<Longrightarrow> Logger_Log ff None ev l = l\<lparr>lg_Out := lg_Out l @ encode_object ff StructEncoder (LogEvent_members ev) @ [CHR 0x0A]\<rparr>"
  using no_float_encodable [OF LogEvent_no_float(1), of ev] by (simp add: Logger_Log_def Logger_Encode_def Let_def)

lemma Logger_Log_run:
  assumes "\<not> lg_Failed l"
  shows "lg_Out (fold (Logger_Log ff None) evs l) =
    lg_Out l @ concat (map (\<lambda>ev. encode_object ff StructEncoder (LogEvent_members ev) @ [CHR 0x0A]) evs)"
  using assms by (induction evs arbitrary: l) (simp_all add: Logger_Log_line)

lemma split_lines_run:
  "split_on (CHR 0x0A) (concat (map (\<lambda>ev. encode_object ff StructEncoder (LogEvent_members ev) @ [CHR 0x0A]) evs)) =
     map (\<lambda>ev. encode_object ff StructEncoder (LogEvent_members ev)) evs @ ['''']"
proof (induction evs)
  case (Cons ev evs)
  then show ?case using split_on_append [OF encode_object_line [OF LogEvent_no_float(1)]] by simp
qed simp

text \<open>A failed write silences the encoder for good.\<close>

lemma failed_logger_silent: "lg_Failed l \<Longrightarrow> Logger_Encode ff wr ms l = l"
  by (simp add: Logger_Encode_def)

text \<open>While fewer events are outstanding than the buffer holds, none is dropped.\<close>

lemma subscriber_push_room:
  assumes "int (length (sb_ch sub)) < sb_cap sub" and "subscriber_push ev gaps sub = (new, sub')"
  shows "new @ sb_ch sub' = sb_ch sub @ [ev] \<and> sb_cap sub' = sb_cap sub"
  using assms append_take_drop_id [of "fst gaps" "sb_ch sub"] append_take_drop_id [of "snd gaps" "drop (fst gaps) (sb_ch sub)"]
  by (auto simp: subscriber_push_def Let_def split: if_splits)

lemma queue_run_room:
  assumes "int (length (sb_ch sub) + length (pushed es)) \<le> sb_cap sub"
  shows "fst (queue_run es (got, sub)) @ sb_ch (snd (queue_run es (got, sub))) = got @ sb_ch sub @ pushed es"
  using assms
proof (induction es arbitrary: got sub)
  case (Cons e es)
  show ?case
  proof (cases e)
    case (Push ev gaps)
    obtain new sub' where p: "subscriber_push ev gaps sub = (new, sub')" by (cases "subscriber_push ev gaps sub")
    have room: "int (length (sb_ch sub)) < sb_cap sub" using Cons.prems Push by simp
    have s: "new @ sb_ch sub' = sb_ch sub @ [ev]" "sb_cap sub' = sb_cap sub" using subscriber_push_room [OF room p] by simp_all
    then have "length (sb_ch sub') \<le> Suc (length (sb_ch sub))" by (metis add.commute length_append le_add2 length_Cons list.size(3) plus_1_eq_Suc One_nat_def)
    then have "int (length (sb_ch sub') + length (pushed es)) \<le> sb_cap sub'" using Cons.prems Push s(2) by simp
    from Cons.IH [OF this, of "got @ new"] show ?thesis using Push p s(1) by simp
  next
    case Recv
    have "int (length (drop 1 (sb_ch sub)) + length (pushed es)) \<le> sb_cap sub" using Cons.prems Recv by simp
    then show ?thesis using Cons.IH [of "sub\<lparr>sb_ch := drop 1 (sb_ch sub)\<rparr>" "got @ take 1 (sb_ch sub)"] Recv
      by (simp add: chan_recv_def)
  qed
qed simp

section \<open>Properties\<close>

text \<open>
  C38. The live log on standard output: for any order of deliveries to the subscription of the encoder
  logger and reads of its goroutine, the output is a sequence of lines, each a JSON object that decodes
  to the event it was written for (with bytes that are not UTF-8 replaced), and these are the events
  taken from the channel in the order of publication; when at most 1024 events were published, every
  one of them is a line or still in the channel.
\<close>

theorem subscribed_log:
  fixes es :: "queue_event list"
  defines "s \<equiv> queue_run es ([], \<lparr>sb_ch = [], sb_cap = 1024, sb_dropped = 0, sb_closed = False, sb_once = False\<rparr>)"
  assumes "\<forall>ev\<in>set (pushed es). LogEvent_fits ev"
  shows "gm_get (hb_heap (snd (the (Logger_Subscribe (Some h))))) (fst (the (Logger_Subscribe (Some h)))) =
      Some \<lparr>sb_ch = [], sb_cap = 1024, sb_dropped = 0, sb_closed = False, sb_once = False\<rparr> \<and>
    (\<exists>ls. split_on (CHR 0x0A) (lg_Out (fold (Logger_Log ff None) (fst s) New_Logger)) = ls @ [''''] \<and>
       map (unmarshal store_LogEvent LogEvent_zero) ls = map (\<lambda>ev. Some (LogEvent_valid ev)) (fst s)) \<and>
    subseq (fst s) (pushed es) \<and> (length (pushed es) \<le> 1024 \<longrightarrow> fst s @ sb_ch (snd s) = pushed es)"
proof -
  let ?sub = "\<lparr>sb_ch = [], sb_cap = 1024, sb_dropped = 0, sb_closed = False, sb_once = False\<rparr>"
  have "queue_ok [] ([], ?sub)" by (simp add: queue_ok_def)
  from queue_run_ok [OF this, of es] have "queue_ok (pushed es) s" by (simp add: s_def)
  then have sub: "subseq (fst s) (pushed es)"
    by (auto simp: queue_ok_def split: prod.splits intro: list_emb_prefix)
  have "length (pushed es) \<le> 1024 \<longrightarrow> fst s @ sb_ch (snd s) = pushed es"
    using queue_run_room [of ?sub es "[]"] by (simp add: s_def)
  moreover have "map (unmarshal store_LogEvent LogEvent_zero) (map (\<lambda>ev. encode_object ff StructEncoder (LogEvent_members ev)) (fst s)) =
      map (\<lambda>ev. Some (LogEvent_valid ev)) (fst s)"
  proof -
    have "ev \<in> set (pushed es)" if "ev \<in> set (fst s)" for ev using sub that by (auto elim: list_emb_set)
    then show ?thesis using assms(2) by (simp add: decode_log_line)
  qed
  moreover have "split_on (CHR 0x0A) (lg_Out (fold (Logger_Log ff None) (fst s) New_Logger)) =
      map (\<lambda>ev. encode_object ff StructEncoder (LogEvent_members ev)) (fst s) @ ['''']"
    using Logger_Log_run [of New_Logger ff "fst s"] by (simp add: New_Logger_def split_lines_run)
  moreover have "gm_get (hb_heap (snd (the (Logger_Subscribe (Some h))))) (fst (the (Logger_Subscribe (Some h)))) = Some ?sub"
    by (simp add: Logger_Subscribe_def Hub_Subscribe_def Let_def)
  ultimately show ?thesis using sub by blast
qed

theorem subscribed_log_witness:
  "\<exists>ls. split_on (CHR 0x0A) (lg_Out (fold (Logger_Log (\<lambda>_. '''') None)
       [LogEvent_zero\<lparr>le_Type := ''cost_alert'', le_CostMicroUSD := 7\<rparr>] New_Logger)) = ls @ [''''] \<and>
     map (unmarshal store_LogEvent LogEvent_zero) ls = [Some (LogEvent_zero\<lparr>le_Type := ''cost_alert'', le_CostMicroUSD := 7\<rparr>)]"
proof -
  let ?ev = "LogEvent_zero\<lparr>le_Type := ''cost_alert'', le_CostMicroUSD := 7\<rparr>"
  have fits: "\<forall>ev\<in>set (pushed [Push ?ev (0, 0), Recv]). LogEvent_fits ev"
    by (simp add: LogEvent_fits_def LogEvent_zero_def is_int64_iff)
  have run: "fst (queue_run [Push ?ev (0, 0), Recv] ([], \<lparr>sb_ch = [], sb_cap = 1024, sb_dropped = 0, sb_closed = False, sb_once = False\<rparr>)) = [?ev]"
    by (simp add: subscriber_push_def chan_recv_def Let_def)
  have "to_valid ''cost_alert'' = ''cost_alert''" by code_simp
  then have "LogEvent_valid ?ev = ?ev" by (simp add: LogEvent_valid_def LogEvent_zero_def)
  then show ?thesis using subscribed_log [OF fits, of "NewHub None" "\<lambda>_. ''''", unfolded run] by simp
qed

lemma to_valid_wide: "\<not> code c < 0x80 \<Longrightarrow> \<exists>d t. to_valid (c # s) = d # t \<and> \<not> code d < 0x80"
proof (cases "utf8_size (c # s) = 0")
  case True
  have r: "replacement = [byte 0xEF, byte 0xBF, byte 0xBD]" by (simp add: replacement_def utf8_encode_def)
  have "\<not> code (byte 0xEF) < 0x80" by (simp add: code_byte)
  then show "\<not> code c < 0x80 \<Longrightarrow> \<exists>d t. to_valid (c # s) = d # t \<and> \<not> code d < 0x80" using True by (simp add: Let_def r)
next
  case False
  then show "\<not> code c < 0x80 \<Longrightarrow> \<exists>d t. to_valid (c # s) = d # t \<and> \<not> code d < 0x80"
    by (cases "utf8_size (c # s)") (auto simp: Let_def)
qed

lemma ascii_to_valid: "ascii (to_valid s) \<Longrightarrow> to_valid s = s"
proof (induction s)
  case (Cons c s)
  have "code c < 0x80"
  proof (rule ccontr)
    assume "\<not> code c < 0x80"
    then obtain d t where "to_valid (c # s) = d # t" "\<not> code d < 0x80" using to_valid_wide by blast
    then show False using Cons.prems by (simp add: ascii_def del: to_valid.simps)
  qed
  then show ?case using Cons by (simp add: ascii_def)
qed simp

lemma level_name_iff: "to_valid l = ToLower (Level_String (levelFor l)) \<longleftrightarrow> l \<in> {''error'', ''warn'', ''debug'', ''info''}"
proof -
  have names: "ToLower (Level_String LevelError) = ''error''" "ToLower (Level_String LevelWarn) = ''warn''"
      "ToLower (Level_String LevelDebug) = ''debug''" "ToLower (Level_String LevelInfo) = ''info''"
    by code_simp+
  have levels: "levelFor ''error'' = LevelError" "levelFor ''warn'' = LevelWarn" "levelFor ''debug'' = LevelDebug" "levelFor ''info'' = LevelInfo"
    by (simp_all add: levelFor_def)
  show ?thesis
  proof
    assume eq: "to_valid l = ToLower (Level_String (levelFor l))"
    then have "ascii (to_valid l)" by (simp only: ascii_levels)
    then have "l = ToLower (Level_String (levelFor l))" using ascii_to_valid eq by metis
    then show "l \<in> {''error'', ''warn'', ''debug'', ''info''}"
      using names by (cases "levelFor l") (simp_all only: insert_iff simp_thms)
  next
    assume "l \<in> {''error'', ''warn'', ''debug'', ''info''}"
    then have eq: "l = ToLower (Level_String (levelFor l))" using names levels by auto
    then have "ascii l" using ascii_levels by metis
    then show "to_valid l = ToLower (Level_String (levelFor l))" using to_valid_ascii eq by metis
  qed
qed

text \<open>
  C39. The two variants: an event of the live log at or above the level of the attribute variant is one
  line in each, and what that line decodes to differs from the line of the encoder in the level, which
  is one of the four of the package, and in the number of dropped events, which is missing; so the two
  decode to the same event exactly when the level is one of the four and no drop is reported. The
  alerts of the program, whose level is that of a warning, decode to the same event.
\<close>

theorem slog_agrees:
  assumes "LogEvent_fits ev" and "Event_fits al" and "core_event al" and "\<not> lg_Failed l"
    and "sl_Level s \<le> levelFor (le_Level ev)" and "sl_Level s \<le> LevelWarn"
  shows "\<exists>a b c d. lg_Out (Logger_Log ff None ev l) = lg_Out l @ a @ [CHR 0x0A] \<and>
    sl_Out (SlogLogger_Log ff stamp None ev s) = sl_Out s @ b @ [CHR 0x0A] \<and>
    lg_Out (Logger_Notify ff None al l) = lg_Out l @ c @ [CHR 0x0A] \<and>
    sl_Out (SlogLogger_Notify ff stamp None al s) = sl_Out s @ d @ [CHR 0x0A] \<and>
    CHR 0x0A \<notin> set (a @ b @ c @ d) \<and>
    unmarshal store_LogEvent LogEvent_zero b =
      Some ((LogEvent_valid ev)\<lparr>le_Level := ToLower (Level_String (levelFor (le_Level ev))), le_DroppedEvents := 0\<rparr>) \<and>
    (unmarshal store_LogEvent LogEvent_zero a = unmarshal store_LogEvent LogEvent_zero b \<longleftrightarrow>
       le_Level ev \<in> {''error'', ''warn'', ''debug'', ''info''} \<and> le_DroppedEvents ev = 0) \<and>
    unmarshal store_Event Event_zero c = Some (Event_valid al) \<and> unmarshal store_Event Event_zero d = Some (Event_valid al)"
proof -
  let ?a = "encode_object ff StructEncoder (LogEvent_members ev)"
  let ?b = "encode_object ff SlogHandler (slog_members stamp (levelFor (le_Level ev)) (le_Type ev) (logEventAttrs ev))"
  let ?c = "encode_object ff StructEncoder (Event_members al)"
  let ?d = "encode_object ff SlogHandler (slog_members stamp LevelWarn (ev_Type al) (eventAttrs al))"
  have "lg_Out (Logger_Log ff None ev l) = lg_Out l @ ?a @ [CHR 0x0A]" using assms(4) by (simp add: Logger_Log_line)
  moreover have "sl_Out (SlogLogger_Log ff stamp None ev s) = sl_Out s @ ?b @ [CHR 0x0A]"
    using assms(5) by (simp add: SlogLogger_Log_def LogAttrs_def Let_def)
  moreover have "lg_Out (Logger_Notify ff None al l) = lg_Out l @ ?c @ [CHR 0x0A]"
    using assms(4) no_float_encodable [OF Event_no_float(1), of al]
    by (simp add: Logger_Notify_def Logger_Encode_def Let_def Event_members_core [OF assms(3)])
  moreover have "sl_Out (SlogLogger_Notify ff stamp None al s) = sl_Out s @ ?d @ [CHR 0x0A]"
    using assms(6) by (simp add: SlogLogger_Notify_def LogAttrs_def Let_def)
  moreover have "CHR 0x0A \<notin> set (?a @ ?b @ ?c @ ?d)"
    using encode_object_line [OF LogEvent_no_float(1)] encode_object_line [OF LogEvent_no_float(2)]
      encode_object_line [OF Event_no_float(1)] encode_object_line [OF Event_no_float(2)]
    by (simp add: Event_members_core [OF assms(3)])
  moreover have "LogEvent_valid ev = (LogEvent_valid ev)\<lparr>le_Level := ToLower (Level_String (levelFor (le_Level ev))), le_DroppedEvents := 0\<rparr> \<longleftrightarrow>
      to_valid (le_Level ev) = ToLower (Level_String (levelFor (le_Level ev))) \<and> le_DroppedEvents ev = 0"
    by (cases ev) (simp add: LogEvent_valid_def)
  ultimately show ?thesis
    using decode_log_line [OF assms(1), of ff] decode_slog_line [OF assms(1), of ff stamp] decode_alert_lines [OF assms(2,3), of ff]
      level_name_iff [of "le_Level ev"]
    by (intro exI [of _ ?a] exI [of _ ?b] exI [of _ ?c] exI [of _ ?d]) (simp only: option.inject simp_thms)
qed

theorem slog_agrees_witness:
  "\<exists>b. sl_Out (SlogLogger_Log (\<lambda>_. '''') ''t'' None (LogEvent_zero\<lparr>le_Level := ''info'', le_DroppedEvents := 3\<rparr>) (NewSlogLogger LevelInfo)) =
       b @ [CHR 0x0A] \<and>
     unmarshal store_LogEvent LogEvent_zero b = Some (LogEvent_zero\<lparr>le_Level := ''info''\<rparr>)"
proof -
  let ?ev = "LogEvent_zero\<lparr>le_Level := ''info'', le_DroppedEvents := 3\<rparr>"
  have "LogEvent_fits ?ev" by (simp add: LogEvent_fits_def LogEvent_zero_def is_int64_iff)
  moreover have "Event_fits Event_zero" "core_event Event_zero" by (simp_all add: Event_fits_def core_event_def Event_zero_def is_int64_iff)
  moreover have "\<not> lg_Failed New_Logger" by (simp add: New_Logger_def)
  moreover have lv: "levelFor (le_Level ?ev) = LevelInfo" by (simp add: levelFor_def)
  moreover have "sl_Level (NewSlogLogger LevelInfo) \<le> levelFor (le_Level ?ev)" "sl_Level (NewSlogLogger LevelInfo) \<le> LevelWarn"
    unfolding lv by (simp_all add: NewSlogLogger_def less_eq_slog_level_def)
  ultimately have "\<exists>b. sl_Out (SlogLogger_Log (\<lambda>_. '''') ''t'' None ?ev (NewSlogLogger LevelInfo)) = sl_Out (NewSlogLogger LevelInfo) @ b @ [CHR 0x0A] \<and>
      unmarshal store_LogEvent LogEvent_zero b =
        Some ((LogEvent_valid ?ev)\<lparr>le_Level := ToLower (Level_String (levelFor (le_Level ?ev))), le_DroppedEvents := 0\<rparr>)"
    using slog_agrees [of ?ev Event_zero New_Logger "NewSlogLogger LevelInfo" "\<lambda>_. ''''" "''t''"] by blast
  moreover have "(LogEvent_valid ?ev)\<lparr>le_Level := ToLower (Level_String (levelFor (le_Level ?ev))), le_DroppedEvents := 0\<rparr> =
      LogEvent_zero\<lparr>le_Level := ''info''\<rparr>"
  proof -
    have "ToLower (Level_String LevelInfo) = ''info''" by code_simp
    then show ?thesis unfolding lv by (simp add: LogEvent_valid_def LogEvent_zero_def)
  qed
  moreover have "sl_Out (NewSlogLogger LevelInfo) = ''''" by (simp add: NewSlogLogger_def)
  ultimately show ?thesis by (simp only: append.simps)
qed

end
