(* ===== verification/Alert_Log.thy ===== *)
theory Alert_Log
  imports Request_Path Logging "HOL-Library.Multiset"
begin

text \<open>
  The request path joined with the logger that \<^verbatim>\<open>main\<close> makes both its notifier and a subscriber
  of its live log: what a blocked request leaves on standard output. The lines are those of
  \<^theory_text>\<open>Logging\<close>, the alerts and live events those that \<^theory_text>\<open>Handler\<close>
  hands out, and the live ones come through a queue of \<^theory_text>\<open>Log_Hub\<close>.
\<close>

section \<open>Standard output\<close>

text \<open>An entry is written by \<^verbatim>\<open>Notify\<close> for an alert and by \<^verbatim>\<open>Log\<close>
  for a live event.\<close>

datatype log_entry = Alert Event | Live LogEvent

fun write_entry :: "float_format \<Rightarrow> log_entry \<Rightarrow> Logger \<Rightarrow> Logger" where
  "write_entry ff (Alert ev) l = Logger_Notify ff None ev l"
| "write_entry ff (Live ev) l = Logger_Log ff None ev l"

definition log_output :: "float_format \<Rightarrow> log_entry list \<Rightarrow> string" where
  "log_output ff es = lg_Out (fold (write_entry ff) es New_Logger)"

text \<open>
  The entries a logger has written in a world: the alerts the handler has handed to it, and in any
  interleaving with them what its goroutine has read from its subscription, to which every published
  event was pushed, once nothing is left in the channel and nothing had to be dropped.
\<close>

definition subscription :: subscriber where
  "subscription = \<lparr>sb_ch = [], sb_cap = 1024, sb_dropped = 0, sb_closed = False, sb_once = False\<rparr>"

definition logged :: "('d, 's) world \<Rightarrow> log_entry list \<Rightarrow> bool" where
  "logged w es \<longleftrightarrow>
     (\<exists>qs got sub. pushed qs = w_published w \<and> queue_run qs ([], subscription) = (got, sub) \<and>
        sb_ch sub = [] \<and> sb_dropped sub = 0 \<and> es \<in> shuffles (map Alert (w_notified w)) (map Live got))"

lemma subseq_same_length: "subseq xs ys \<Longrightarrow> length xs = length ys \<Longrightarrow> xs = ys"
  by (induction rule: list_emb.induct) (auto dest: list_emb_length)

lemma logged_mset:
  assumes "logged w es" and "length (w_published w) < 2 ^ 64"
  shows "mset es = mset (map Alert (w_notified w)) + mset (map Live (w_published w))"
proof -
  obtain qs got sub where q: "pushed qs = w_published w" "queue_run qs ([], subscription) = (got, sub)"
      "sb_ch sub = []" "sb_dropped sub = 0" "es \<in> shuffles (map Alert (w_notified w)) (map Live got)"
    using assms(1) by (auto simp: logged_def)
  have "queue_ok [] ([], subscription)" by (simp add: queue_ok_def subscription_def)
  from queue_run_ok [OF this, of qs] have got: "subseq got (w_published w)"
      "(of_nat (length (w_published w)) :: 64 word) = of_nat (length got)"
    using q by (auto simp: queue_ok_def)
  then have "length got = length (w_published w)"
    using assms(2) list_emb_length [OF got(1)]
    by (simp add: word_of_nat_eq_iff take_bit_nat_eq_self [of "length (w_published w)"] take_bit_nat_eq_self [of "length got"])
  then have "got = w_published w" using got(1) by (rule subseq_same_length [OF _ , rotated])
  then show ?thesis using mset_shuffles [OF q(5)] by simp
qed

definition block_alert :: "(nat \<Rightarrow> time) \<Rightarrow> ('d, 's) handler \<Rightarrow> Request \<Rightarrow> string \<Rightarrow> CheckResult \<Rightarrow> Event" where
  "block_alert clk h r body res =
     Event_zero\<lparr>ev_Type := EventLoopBlocked, ev_Timestamp := time_Unix (clk 6), ev_AgentID := rq_AgentID r,
       ev_Project := rq_Project r, ev_Reason := cr_Reason res, ev_RetryAfter := cr_RetryAfter res,
       ev_Model := (if h_price h \<noteq> None then ExtractModel body else ''''),
       ev_SavedCostMicro := (case h_price h of None \<Rightarrow> 0 | Some p \<Rightarrow> ps_SavedCost p body)\<rparr>"

definition block_live :: "(nat \<Rightarrow> time) \<Rightarrow> ('d, 's) handler \<Rightarrow> Request \<Rightarrow> string \<Rightarrow> CheckResult \<Rightarrow> LogEvent" where
  "block_live clk h r body res =
     LogEvent_zero\<lparr>le_Type := TypeLoopBlocked, le_Level := ''warn'', le_Timestamp := time_Unix (clk 7),
       le_TenantID := callerID r, le_AgentID := rq_AgentID r, le_Model := ExtractModel body, le_ProjectName := rq_Project r,
       le_SavedCostMicroUSD := (case h_price h of None \<Rightarrow> 0 | Some p \<Rightarrow> ps_SavedCost p body),
       le_StatusCode := 429, le_FirstBlock := cr_FirstBlock res, le_Reason := cr_Reason res, le_RetryAfter := cr_RetryAfter res\<rparr>"

lemma block_request_logs:
  shows "w_notified (snd (block_request clk h r body fp res w)) =
      w_notified w @ (if cr_FirstBlock res \<and> loopAlertsEnabled h then [block_alert clk h r body res] else [])"
    and "w_published (snd (block_request clk h r body fp res w)) =
      w_published w @ (if h_hub h then [block_live clk h r body res] else [])"
  by (auto simp: block_request_def Let_def block_alert_def block_live_def handler_emit_def publishLog_def Event_zero_def
      dest: loopAlerts_notifier split: option.split)

text \<open>The lines of the output, for alerts the program emits.\<close>

fun entry_line :: "float_format \<Rightarrow> log_entry \<Rightarrow> string" where
  "entry_line ff (Alert ev) = encode_object ff StructEncoder (Event_members ev)"
| "entry_line ff (Live ev) = encode_object ff StructEncoder (LogEvent_members ev)"

fun core_entry :: "log_entry \<Rightarrow> bool" where
  "core_entry (Alert ev) \<longleftrightarrow> core_event ev"
| "core_entry (Live ev) \<longleftrightarrow> True"

lemma write_entry_line:
  assumes "core_entry e" and "\<not> lg_Failed l"
  shows "write_entry ff e l = l\<lparr>lg_Out := lg_Out l @ entry_line ff e @ [CHR 0x0A]\<rparr>"
  using assms no_float_encodable [OF Event_no_float(1)]
  by (cases e) (simp_all add: Logger_Log_line Logger_Notify_def Logger_Encode_def Event_members_core Let_def)

lemma entry_line_plain: "core_entry e \<Longrightarrow> CHR 0x0A \<notin> set (entry_line ff e)"
  using encode_object_line [OF Event_no_float(1)] encode_object_line [OF LogEvent_no_float(1)]
  by (cases e) (simp_all add: Event_members_core)

lemma write_entries:
  assumes "\<forall>e\<in>set es. core_entry e" and "\<not> lg_Failed l"
  shows "lg_Out (fold (write_entry ff) es l) = lg_Out l @ concat (map (\<lambda>e. entry_line ff e @ [CHR 0x0A]) es)"
  using assms by (induction es arbitrary: l) (simp_all add: write_entry_line)

lemma log_output_lines:
  assumes "\<forall>e\<in>set es. core_entry e"
  shows "split_on (CHR 0x0A) (log_output ff es) = map (entry_line ff) es @ ['''']"
proof -
  have "split_on (CHR 0x0A) (concat (map (\<lambda>e. entry_line ff e @ [CHR 0x0A]) es)) = map (entry_line ff) es @ ['''']"
    using assms
  proof (induction es)
    case (Cons e es)
    then show ?case using split_on_append [OF entry_line_plain [of e ff]] by simp
  qed simp
  then show ?thesis using write_entries [OF assms, of New_Logger ff] by (simp add: log_output_def New_Logger_def)
qed

lemma block_alert_core: "core_event (block_alert clk h r body res)"
  by (simp add: core_event_def block_alert_def Event_zero_def)

text \<open>Appending alerts and live events appends their lines, somewhere.\<close>

lemma log_output_grows:
  assumes "logged w es" "logged w' es'" and "length (w_published w') < 2 ^ 64"
    and "w_notified w' = w_notified w @ alerts" "w_published w' = w_published w @ lives"
    and "\<forall>ev\<in>set (w_notified w) \<union> set alerts. core_event ev"
  shows "mset (split_on (CHR 0x0A) (log_output ff es')) = mset (split_on (CHR 0x0A) (log_output ff es)) +
    mset (map (\<lambda>ev. entry_line ff (Alert ev)) alerts) + mset (map (\<lambda>ev. entry_line ff (Live ev)) lives)"
proof -
  have m: "mset es = mset (map Alert (w_notified w)) + mset (map Live (w_published w))"
    using assms by (intro logged_mset) auto
  have m': "mset es' = mset (map Alert (w_notified w')) + mset (map Live (w_published w'))"
    using assms by (intro logged_mset) auto
  have "set es = Alert ` set (w_notified w) \<union> Live ` set (w_published w)"
    using m by (metis list.set_map set_mset_mset set_mset_union)
  then have core: "\<forall>e\<in>set es. core_entry e" using assms(6) by auto
  have "set es' = Alert ` set (w_notified w') \<union> Live ` set (w_published w')"
    using m' by (metis list.set_map set_mset_mset set_mset_union)
  then have core': "\<forall>e\<in>set es'. core_entry e" using assms(4,6) by auto
  have lines: "mset (map (entry_line ff) xs) = image_mset (entry_line ff) (mset xs)" for xs by simp
  show ?thesis
    unfolding log_output_lines [OF core] log_output_lines [OF core'] mset_append lines m m' assms(4,5)
    by (simp add: image_mset.compositionality o_def)
qed



end
