(* ===== verification/Loop_Watch.thy ===== *)
theory Loop_Watch
  imports Go_Strings
begin

text \<open>
  How the agent wrapper recognises a loop in what its child prints
  (\<^verbatim>\<open>internal/wrapper/signals.go\<close>): the writer that passes the bytes on and keeps
  the last 4096 of them, and the match on that window. The regular expressions are matched as package
  \<^verbatim>\<open>regexp\<close> does, character by character of the UTF-8 decoding and up to case, where
  the long s and the Kelvin sign fold to ASCII letters.
\<close>

section \<open>Definitions\<close>

text \<open>What is left of a text after a pattern has been matched up to case.\<close>

definition match_char :: "char \<Rightarrow> string \<Rightarrow> string option" where
  "match_char p s =
     (case s of
        [] \<Rightarrow> None
      | c # r \<Rightarrow>
          if lower c = p then Some r
          else if p = CHR ''s'' \<and> HasPrefix s [CHR 0xC5, CHR 0xBF] then Some (drop 2 s)
          else if p = CHR ''k'' \<and> HasPrefix s [CHR 0xE2, CHR 0x84, CHR 0xAA] then Some (drop 3 s)
          else None)"

fun match_word :: "string \<Rightarrow> string \<Rightarrow> string option" where
  "match_word [] s = Some s"
| "match_word (p # ps) s = (case match_char p s of None \<Rightarrow> None | Some r \<Rightarrow> match_word ps r)"

fun search :: "(string \<Rightarrow> bool) \<Rightarrow> string \<Rightarrow> bool" where
  "search P [] \<longleftrightarrow> P []"
| "search P (c # s) \<longleftrightarrow> P (c # s) \<or> search P s"

definition tooManyRequestsRe :: "string \<Rightarrow> bool" where
  "tooManyRequestsRe = search (\<lambda>s. match_word ''too many requests'' s \<noteq> None)"

text \<open>At most \<open>n\<close> characters other than a line feed, then \<^verbatim>\<open>429\<close>.\<close>

fun gap_429 :: "nat \<Rightarrow> string \<Rightarrow> bool" where
  "gap_429 0 s \<longleftrightarrow> HasPrefix s ''429''"
| "gap_429 (Suc n) s \<longleftrightarrow> HasPrefix s ''429'' \<or>
     (case s of [] \<Rightarrow> False | c # _ \<Rightarrow> c \<noteq> CHR 0x0A \<and> gap_429 n (drop (max 1 (utf8_size s)) s))"

definition http429Re :: "string \<Rightarrow> bool" where
  "http429Re = search (\<lambda>s. case match_word ''http'' s of None \<Rightarrow> False | Some r \<Rightarrow> gap_429 20 r)"

definition matchLoop :: "string \<Rightarrow> string \<Rightarrow> bool" where
  "matchLoop window marker \<longleftrightarrow> Contains window marker \<or> tooManyRequestsRe window \<or> http429Re window"

definition matchWindow :: nat where "matchWindow = 4096"

text \<open>
  The destination is the bytes it has taken. A write to it can fail after some of them. The third result
  of a write says whether it calls \<^verbatim>\<open>fire\<close>.
\<close>

record lineTee =
  lt_dst :: string
  lt_marker :: string
  lt_tail :: string

definition newLineTee :: "string \<Rightarrow> string \<Rightarrow> lineTee" where
  "newLineTee dst marker = \<lparr>lt_dst = dst, lt_marker = marker, lt_tail = []\<rparr>"

definition lineTee_Write :: "(nat \<times> error) option \<Rightarrow> string \<Rightarrow> lineTee \<Rightarrow> (nat \<times> error option \<times> bool) \<times> lineTee" where
  "lineTee_Write failed p t =
     (case failed of
        Some (k, err) \<Rightarrow> ((length p, Some err, False), t\<lparr>lt_dst := lt_dst t @ take k p\<rparr>)
      | None \<Rightarrow>
          (let tail = lt_tail t @ p;
               tail = (if length tail > matchWindow then drop (length tail - matchWindow) tail else tail)
           in ((length p, None, matchLoop tail (lt_marker t)), t\<lparr>lt_dst := lt_dst t @ p, lt_tail := tail\<rparr>)))"

text \<open>Successful writes one after the other, with what each says about \<^verbatim>\<open>fire\<close>.\<close>

fun tee_writes :: "string list \<Rightarrow> lineTee \<Rightarrow> bool list \<times> lineTee" where
  "tee_writes [] t = ([], t)"
| "tee_writes (p # ps) t =
     (let ((_, _, fire), t) = lineTee_Write None p t; (fires, t) = tee_writes ps t in (fire # fires, t))"

section \<open>The window\<close>

lemma Contains_iff: "Contains s p \<longleftrightarrow> (\<exists>a b. s = a @ p @ b)"
proof
  show "Contains s p \<Longrightarrow> \<exists>a b. s = a @ p @ b"
  proof (induction s)
    case (Cons c s)
    then consider "HasPrefix (c # s) p" | "Contains s p" by auto
    then show ?case
    proof cases
      case 1
      then show ?thesis by (metis HasPrefix_def append_Nil append_take_drop_id)
    next
      case 2
      then show ?thesis using Cons.IH by (metis append_Cons)
    qed
  qed simp
  have prefix: "HasPrefix s p \<Longrightarrow> Contains s p" for s by (cases s) (auto simp: HasPrefix_def)
  have "Contains (a @ p @ b) p" for a b
    by (induction a) (auto intro!: prefix simp: HasPrefix_def)
  then show "\<exists>a b. s = a @ p @ b \<Longrightarrow> Contains s p" by blast
qed

lemma tee_write_window:
  "lineTee_Write None p t =
     ((length p, None, matchLoop (lastn matchWindow (lt_tail t @ p)) (lt_marker t)),
      t\<lparr>lt_dst := lt_dst t @ p, lt_tail := lastn matchWindow (lt_tail t @ p)\<rparr>)"
  by (simp add: lineTee_Write_def Let_def lastn_def)

text \<open>
  After any writes the window is the last 4096 bytes of the stream, the destination has got every byte,
  and each write has looked at the window at its end.
\<close>

lemma tee_writes_window:
  assumes "lt_tail t = lastn matchWindow s"
  shows "tee_writes ps t =
    (map (\<lambda>i. matchLoop (lastn matchWindow (s @ concat (take (Suc i) ps))) (lt_marker t)) [0..<length ps],
     t\<lparr>lt_dst := lt_dst t @ concat ps, lt_tail := lastn matchWindow (s @ concat ps)\<rparr>)"
  using assms
proof (induction ps arbitrary: s t)
  case (Cons p ps)
  have w: "lastn matchWindow (lastn matchWindow s @ p) = lastn matchWindow (s @ p)" by (rule lastn_push) simp
  show ?case
    using Cons.prems
    by (simp add: tee_write_window w Cons.IH [of _ "s @ p"] upt_conv_Cons map_Suc_upt [symmetric] del: upt_Suc)
qed simp

lemma tee_writes_new:
  "tee_writes ps (newLineTee dst marker) =
    (map (\<lambda>i. matchLoop (lastn matchWindow (concat (take (Suc i) ps))) marker) [0..<length ps],
     \<lparr>lt_dst = dst @ concat ps, lt_marker = marker, lt_tail = lastn matchWindow (concat ps)\<rparr>)"
  using tee_writes_window [of "newLineTee dst marker" "[]" ps] by (simp add: newLineTee_def)

lemma lastn_contains:
  assumes "length p + length b \<le> n"
  shows "Contains (lastn n (a @ p @ b)) p"
proof -
  have "lastn n (a @ p @ b) = lastn (n - length (p @ b)) a @ p @ b"
    using assms by (simp add: lastn_append [of n a "p @ b"])
  then show ?thesis by (auto simp: Contains_iff)
qed

text \<open>The write in which an occurrence ends, and how much of that write follows it.\<close>

lemma occurrence_write:
  assumes "concat ws = a @ p @ b" and "p \<noteq> []"
  obtains i c where "i < length ws" and "concat (take (Suc i) ws) = a @ p @ c" and "length c < length (ws ! i)"
proof -
  let ?n = "length (a @ p)"
  define i where "i = (LEAST i. ?n \<le> length (concat (take (Suc i) ws)))"
  obtain w ws' where ws: "ws = w # ws'" using assms by (cases ws) auto
  have ex: "?n \<le> length (concat (take (Suc (length ws)) ws))" using assms(1) by simp
  then have reached: "?n \<le> length (concat (take (Suc i) ws))" unfolding i_def by (rule LeastI)
  have before: "length (concat (take i ws)) < ?n"
  proof (cases i)
    case 0
    then show ?thesis using assms(2) by simp
  next
    case (Suc j)
    then have "j < i" by simp
    then have "\<not> ?n \<le> length (concat (take (Suc j) ws))" unfolding i_def by (rule not_less_Least)
    then show ?thesis using Suc by simp
  qed
  have i: "i < length ws"
  proof (rule ccontr)
    assume "\<not> i < length ws"
    then have "concat (take i ws) = a @ p @ b" using assms(1) by simp
    then show False using before by simp
  qed
  then have split: "concat (take (Suc i) ws) = concat (take i ws) @ ws ! i" by (simp add: take_Suc_conv_app_nth)
  have "concat ws = concat (take (Suc i) ws) @ concat (drop (Suc i) ws)" by (metis append_take_drop_id concat_append)
  then have "concat (take (Suc i) ws) = take (length (concat (take (Suc i) ws))) ((a @ p) @ b)" using assms(1) by simp
  then obtain c where c: "concat (take (Suc i) ws) = a @ p @ c"
    using reached by (metis append.assoc append_take_drop_id take_all_iff take_append)
  moreover have "length c < length (ws ! i)"
  proof -
    have "length (a @ p) + length c = length (concat (take i ws)) + length (ws ! i)"
      using arg_cong [OF split, of length] c by simp
    then show ?thesis using before by linarith
  qed
  ultimately show thesis using that i by blast
qed

lemma marker_fires:
  assumes "marker \<noteq> []" and "\<forall>w\<in>set ws. length w + length marker \<le> 4097" and "Contains (concat ws) marker"
  shows "True \<in> set (fst (tee_writes ws (newLineTee dst marker)))"
proof -
  obtain a b where "concat ws = a @ marker @ b" using assms(3) by (auto simp: Contains_iff)
  then obtain i c where i: "i < length ws" "concat (take (Suc i) ws) = a @ marker @ c" "length c < length (ws ! i)"
    by (rule occurrence_write) (rule assms(1))
  have "length (ws ! i) + length marker \<le> 4097" using assms(2) i(1) by simp
  then have "Contains (lastn matchWindow (a @ marker @ c)) marker"
    using i(3) by (intro lastn_contains) (simp add: matchWindow_def)
  then have "matchLoop (lastn matchWindow (concat (take (Suc i) ws))) marker" using i(2) by (simp add: matchLoop_def)
  then show ?thesis using i(1) by (force simp: tee_writes_new)
qed

section \<open>Properties\<close>

text \<open>
  A loop signal is not missed however the child's output is cut: if no single write is longer than
  4097 bytes less the marker, then a marker anywhere in the stream, also one split over several writes,
  makes one of the writes fire, and the output has been passed on unchanged.
\<close>

theorem split_marker_caught:
  assumes "marker \<noteq> []" and "\<forall>w\<in>set ws. length w + length marker \<le> 4097" and "Contains (concat ws) marker"
  shows "True \<in> set (fst (tee_writes ws (newLineTee dst marker))) \<and> lt_dst (snd (tee_writes ws (newLineTee dst marker))) = dst @ concat ws"
  using marker_fires [OF assms] by (simp add: tee_writes_new)

theorem split_marker_caught_witness:
  "True \<in> set (fst (tee_writes [''x agent_lo'', ''op_exception y''] (newLineTee '''' ''agent_loop_exception'')))"
proof -
  have "Contains (concat [''x agent_lo'', ''op_exception y'']) ''agent_loop_exception''" by code_simp
  then show ?thesis
    using split_marker_caught [of "''agent_loop_exception''" "[''x agent_lo'', ''op_exception y'']" "''''"] by simp
qed

text \<open>
  C27. The window bounds what one write can show: when at least 4096 bytes follow a marker in the same
  write, the marker is cut off before the match, so the write fires only on what those last 4096 bytes
  contain. The copy loop of package \<^verbatim>\<open>os/exec\<close> writes up to 32 KiB at a time.
\<close>

theorem large_write_misses_marker:
  assumes "matchWindow \<le> length b" and "\<not> matchLoop (lastn matchWindow b) (lt_marker t)"
  shows "Contains (a @ lt_marker t @ b) (lt_marker t) \<and>
    fst (lineTee_Write None (a @ lt_marker t @ b) t) = (length (a @ lt_marker t @ b), None, False)"
proof -
  have "lastn matchWindow (lt_tail t @ a @ lt_marker t @ b) = lastn matchWindow b"
    using assms(1) lastn_append [of matchWindow "lt_tail t @ a @ lt_marker t" b] by (simp add: lastn_def)
  then show ?thesis using assms(2) by (auto simp: tee_write_window Contains_iff)
qed

lemma search_replicate: "search P (replicate n c) \<longleftrightarrow> (\<exists>i\<le>n. P (replicate i c))"
proof (induction n)
  case (Suc n)
  have "search P (replicate (Suc n) c) \<longleftrightarrow> P (replicate (Suc n) c) \<or> search P (replicate n c)" by simp
  then show ?case by (simp add: Suc.IH) (metis le_Suc_eq replicate_Suc)
qed simp

lemma search_replicate_blank:
  "\<not> matchLoop (replicate n CHR ''.'') (c # marker)" if "c \<noteq> CHR ''.''"
proof -
  have no: "match_char p (replicate i CHR ''.'') = None" if "p \<in> {CHR ''t'', CHR ''h''}" for i p
    using that by (cases i) (auto simp: match_char_def HasPrefix_def lower_def between_def code_def)
  have "\<not> Contains (replicate n CHR ''.'') (c # marker)"
  proof
    assume "Contains (replicate n CHR ''.'') (c # marker)"
    then obtain a b where "replicate n CHR ''.'' = a @ (c # marker) @ b" by (auto simp: Contains_iff)
    then have "c \<in> set (replicate n CHR ''.'')" by simp
    then show False using that by simp
  qed
  then show ?thesis
    by (auto simp: matchLoop_def tooManyRequestsRe_def http429Re_def search_replicate no)
qed

theorem large_write_misses_marker_witness:
  "fst (lineTee_Write None (''agent_loop_exception'' @ replicate 4096 CHR ''.'') (newLineTee '''' ''agent_loop_exception'')) = (4116, None, False)"
  using large_write_misses_marker [of "replicate 4096 CHR ''.''" "newLineTee '''' ''agent_loop_exception''" "''''"]
    search_replicate_blank [of "CHR ''a''" 4096 "''gent_loop_exception''"]
  by (simp add: newLineTee_def matchWindow_def)

end
