(* ===== verification/Proxy_Client.thy ===== *)
theory Proxy_Client
  imports Go_URL Go_Decimal
begin

text \<open>
  The agent wrapper's client of the proxy (\<^verbatim>\<open>internal/wrapper/proxyclient.go\<close>) and
  its status bar (\<^verbatim>\<open>internal/wrapper/stats.go\<close>). The network, the context and
  \<^verbatim>\<open>url.Parse\<close> are arguments: what a request is answered with, when the context ends,
  what a base URL parses to. A call returns its result and what it did, in order.
\<close>

section \<open>Definitions\<close>

record ProxyClient =
  pc_baseURL :: string
  pc_timeout :: duration
  pc_maxRetries :: int
  pc_backoff :: duration

definition NewProxyClient :: "string \<Rightarrow> duration \<Rightarrow> int \<Rightarrow> ProxyClient" where
  "NewProxyClient proxyURL timeout maxRetries =
     (let maxRetries = (if maxRetries < 0 then 0 else maxRetries)
      in \<lparr>pc_baseURL = proxyURL, pc_timeout = timeout, pc_maxRetries = maxRetries, pc_backoff = 500 * 1000000\<rparr>)"

type_synonym url_parse = "string \<Rightarrow> error + URL"

definition buildURL :: "url_parse \<Rightarrow> ProxyClient \<Rightarrow> string \<Rightarrow> string" where
  "buildURL parse c agentID =
     (case parse (pc_baseURL c) of
        Inl err \<Rightarrow> pc_baseURL c @ ''/v1/agent/'' @ PathEscape agentID @ ''/history''
      | Inr u \<Rightarrow> URL_String (u\<lparr>u_Path := ''/v1/agent/'' @ PathEscape agentID @ ''/history'', u_RawQuery := ''''\<rparr>))"

definition metricsURL :: "url_parse \<Rightarrow> ProxyClient \<Rightarrow> string" where
  "metricsURL parse c =
     (case parse (pc_baseURL c) of
        Inl err \<Rightarrow> pc_baseURL c @ ''/v1/metrics''
      | Inr u \<Rightarrow> URL_String (u\<lparr>u_Path := ''/v1/metrics'', u_RawQuery := ''''\<rparr>))"

text \<open>
  What a call of \<^verbatim>\<open>DeleteHistory\<close> meets: whether a target makes a request, what
  attempt \<open>n\<close> is answered (an error or a status), and whether the context has ended before the
  delay in front of attempt \<open>n\<close> is over.
\<close>

record client_env =
  ce_NewRequest :: "string \<Rightarrow> error option"
  ce_Do :: "nat \<Rightarrow> error + int"
  ce_Done :: "nat \<Rightarrow> error option"

datatype client_event = Slept duration | Requested string

text \<open>The delay in front of attempt \<open>n > 0\<close>; a shift by 64 or more leaves nothing.\<close>

definition sleep_delay :: "ProxyClient \<Rightarrow> nat \<Rightarrow> duration" where
  "sleep_delay c attempt =
     (let delay = wrap64 (pc_backoff c * 2 ^ (attempt - 1)) in if delay > 8 * Second then 8 * Second else delay)"

definition client_sleep :: "client_env \<Rightarrow> ProxyClient \<Rightarrow> nat \<Rightarrow> error option \<times> client_event list" where
  "client_sleep env c attempt = (ce_Done env attempt, [Slept (sleep_delay c attempt)])"

definition status_error :: "int \<Rightarrow> error" where
  "status_error status = ''proxy returned status '' @ Itoa status"

function delete_loop :: "client_env \<Rightarrow> ProxyClient \<Rightarrow> string \<Rightarrow> nat \<Rightarrow> error option \<Rightarrow> error option \<times> client_event list" where
  "delete_loop env c target attempt lastErr =
     (if \<not> int attempt \<le> pc_maxRetries c then (lastErr, [])
      else
        let (done, slept) = (if attempt > 0 then client_sleep env c attempt else (None, []))
        in case done of
             Some err \<Rightarrow> (Some err, slept)
           | None \<Rightarrow>
               (case ce_NewRequest env target of
                  Some err \<Rightarrow> (Some err, slept)
                | None \<Rightarrow>
                    let next_attempt = (\<lambda>err. let (res, ev) = delete_loop env c target (Suc attempt) (Some err)
                                             in (res, slept @ [Requested target] @ ev))
                    in case ce_Do env attempt of
                         Inl err \<Rightarrow> next_attempt err
                       | Inr status \<Rightarrow>
                           if status < 300 \<or> status = 404 then (None, slept @ [Requested target])
                           else if status \<ge> 500 then next_attempt (status_error status)
                           else (Some (status_error status @ '' (unexpected)''), slept @ [Requested target])))"
  by pat_completeness auto
termination by (relation "measure (\<lambda>(env, c, target, attempt, lastErr). nat (pc_maxRetries c + 1 - int attempt))") auto

declare delete_loop.simps [simp del]

definition DeleteHistory :: "url_parse \<Rightarrow> client_env \<Rightarrow> ProxyClient \<Rightarrow> string \<Rightarrow> error option \<times> client_event list" where
  "DeleteHistory parse env c agentID = delete_loop env c (buildURL parse c agentID) 0 None"

section \<open>The address of a history\<close>

lemma escape_path_fixed: "\<forall>c\<in>set s. \<not> shouldEscape encodePath c \<Longrightarrow> escape encodePath s = s"
  by (simp add: escape_id)

lemma segment_chars: "c \<in> set (PathEscape s) \<Longrightarrow> c = CHR ''%'' \<or> unreserved c \<or> c \<in> set ''$&+:=@''"
proof -
  assume "c \<in> set (PathEscape s)"
  then obtain d where d: "c \<in> set (escape_char encodePathSegment d)" by (auto simp: PathEscape_def escape_def)
  have "unreserved (upperhex n)" if "n < 16" for n
    using that by (auto simp: upperhex_def unreserved_def between_def code_byte)
  moreover have "code d div 16 < 16" "code d mod 16 < 16" using code_less [of d] by simp_all
  ultimately have "c = CHR ''%'' \<or> unreserved c" if "shouldEscape encodePathSegment d" using that d by (auto simp: escape_char_def)
  then show ?thesis using d by (auto simp: escape_char_def shouldEscape_def split: if_splits)
qed

text \<open>The printed path escapes every percent sign of the escaped segment once more.\<close>

lemma escaped_path:
  "escape encodePath (''/v1/agent/'' @ PathEscape s @ ''/history'') = ''/v1/agent/'' @ escape encodePath (PathEscape s) @ ''/history''"
proof -
  have "escape encodePath ''/v1/agent/'' = ''/v1/agent/''" "escape encodePath ''/history'' = ''/history''" by code_simp+
  then show ?thesis by (simp only: escape_append)
qed

lemma twice_escaped_no_slash: "CHR ''/'' \<notin> set (escape mode (PathEscape s))"
proof
  assume "CHR ''/'' \<in> set (escape mode (PathEscape s))"
  then obtain c where c: "c \<in> set (PathEscape s)" "CHR ''/'' \<in> set (escape_char mode c)" by (auto simp: escape_def)
  have no: "\<not> unreserved (CHR ''/'')" by (simp add: unreserved_def between_def code_def)
  have hex: "CHR ''/'' \<noteq> upperhex n" if "n < 16" for n
  proof -
    have "code (upperhex n) \<noteq> code (CHR ''/'')" using that by (auto simp: upperhex_def code_byte) (simp_all add: code_def)
    then show ?thesis by auto
  qed
  have "code c div 16 < 16" "code c mod 16 < 16" using code_less [of c] by simp_all
  then have "c = CHR ''/''" using c(2) hex by (simp add: escape_char_def split: if_splits)
  then show False using segment_chars [OF c(1)] no by simp
qed

text \<open>An id that percent encoding leaves alone.\<close>

definition plain_id :: "string \<Rightarrow> bool" where
  "plain_id s \<longleftrightarrow> list_all (\<lambda>c. unreserved c \<or> c \<in> set ''$&+:=@'') s"

lemma PathEscape_plain: "PathEscape s = s \<longleftrightarrow> plain_id s"
proof -
  have "\<not> shouldEscape encodePathSegment c \<longleftrightarrow> unreserved c \<or> c \<in> set ''$&+:=@''" for c
    by (auto simp: shouldEscape_def)
  then show ?thesis by (simp only: PathEscape_def escape_id plain_id_def list_all_iff)
qed

lemma escape_eq_dots: "escape mode s \<in> {'''', ''.'', ''..''} \<longleftrightarrow> s \<in> {'''', ''.'', ''..''}"
proof -
  have "unreserved (CHR ''.'')" by (simp add: unreserved_def)
  then have "escape mode t = t" if "t \<in> {'''', ''.'', ''..''}" for t
    using that by (auto simp: escape_def escape_char_def shouldEscape_def)
  then show ?thesis by (metis option.inject unescape_escape)
qed

text \<open>The path the request for an agent's history asks the server for.\<close>

definition history_path :: "string \<Rightarrow> string" where
  "history_path agentID = ''/v1/agent/'' @ escape encodePath (PathEscape agentID) @ ''/history''"

lemma request_segments_four:
  assumes "split_on (CHR ''/'') path = ['''', a, b, e, c]" and "{a, b, c} \<inter> {'''', ''.'', ''..''} = {}"
  shows "request_segments path =
    (if e \<in> {'''', ''.'', ''..''} then None else Some [pathUnescape a, pathUnescape b, pathUnescape e, pathUnescape c])"
proof -
  define dots where "dots = {'''', ''.'', ''..''}"
  have "set (butlast [a, b, e, c]) \<inter> dots = {} \<and> last [a, b, e, c] \<notin> {''.'', ''..''} \<longleftrightarrow> e \<notin> dots"
    using assms(2) by (auto simp: dots_def [symmetric]) (auto simp: dots_def)
  then show ?thesis unfolding request_segments_def assms(1) dots_def by simp
qed

lemma history_segments:
  "request_segments (history_path s) =
     (if s \<in> {'''', ''.'', ''..''} then None else Some [''v1'', ''agent'', PathEscape s, ''history''])"
proof -
  let ?e = "escape encodePath (PathEscape s)"
  have "split_on (CHR ''/'') (''/v1/agent/'' @ ?e @ ''/history'') =
      '''' # ''v1'' # ''agent'' # split_on (CHR ''/'') (?e @ CHR ''/'' # ''history'')" by simp
  also have "split_on (CHR ''/'') (?e @ CHR ''/'' # ''history'') = [?e, ''history'']"
    by (simp add: split_on_append [OF twice_escaped_no_slash])
  finally have "split_on (CHR ''/'') (''/v1/agent/'' @ ?e @ ''/history'') = ['''', ''v1'', ''agent'', ?e, ''history'']" .
  moreover have "pathUnescape ''v1'' = ''v1''" "pathUnescape ''agent'' = ''agent''" "pathUnescape ''history'' = ''history''"
    by code_simp+
  moreover have "?e \<in> {'''', ''.'', ''..''} \<longleftrightarrow> s \<in> {'''', ''.'', ''..''}"
    by (simp only: escape_eq_dots PathEscape_def)
  moreover have "{''v1'', ''agent'', ''history''} \<inter> {'''', ''.'', ''..''} = {}" by simp
  ultimately show ?thesis by (simp only: history_path_def request_segments_four pathUnescape_escape)
qed

text \<open>The path a built URL asks the server for, when the base has an authority and its path no encoding of its own.\<close>

lemma buildURL_path:
  assumes "parse (pc_baseURL c) = Inr u" and "u_Opaque u = ''''" and "u_RawPath u = ''''"
  shows "buildURL parse c s = u_Before u @ history_path s @
    (if u_ForceQuery u then ''?'' else '''') @ (if u_Fragment u \<noteq> '''' then CHR ''#'' # u_Fragment u else '''')"
  using assms escaped_path [of s] by (simp add: buildURL_def URL_String_def EscapedPath_def history_path_def)

section \<open>Deleting a history\<close>

text \<open>How an attempt ends the call, if it does, and the error it leaves when it does not.\<close>

definition attempt_end :: "client_env \<Rightarrow> string \<Rightarrow> nat \<Rightarrow> error option option" where
  "attempt_end env target n =
     (if n > 0 \<and> ce_Done env n \<noteq> None then Some (ce_Done env n)
      else if ce_NewRequest env target \<noteq> None then Some (ce_NewRequest env target)
      else case ce_Do env n of
             Inl err \<Rightarrow> None
           | Inr status \<Rightarrow>
               if status < 300 \<or> status = 404 then Some None
               else if status \<ge> 500 then None
               else Some (Some (status_error status @ '' (unexpected)'')))"

definition attempt_error :: "client_env \<Rightarrow> nat \<Rightarrow> error" where
  "attempt_error env n = (case ce_Do env n of Inl err \<Rightarrow> err | Inr status \<Rightarrow> status_error status)"

definition attempt_trace :: "client_env \<Rightarrow> ProxyClient \<Rightarrow> string \<Rightarrow> nat \<Rightarrow> client_event list" where
  "attempt_trace env c target n =
     (if n > 0 then [Slept (sleep_delay c n)] else []) @
     (if (n > 0 \<and> ce_Done env n \<noteq> None) \<or> ce_NewRequest env target \<noteq> None then [] else [Requested target])"

lemma delete_loop_step:
  "delete_loop env c target n lastErr =
     (if \<not> int n \<le> pc_maxRetries c then (lastErr, [])
      else case attempt_end env target n of
             Some res \<Rightarrow> (res, attempt_trace env c target n)
           | None \<Rightarrow> (let (res, ev) = delete_loop env c target (Suc n) (Some (attempt_error env n))
                      in (res, attempt_trace env c target n @ ev)))"
  by (subst delete_loop.simps)
    (auto simp: attempt_end_def attempt_trace_def attempt_error_def client_sleep_def Let_def split: option.split sum.split prod.split)

lemma delete_loop_run:
  assumes "\<forall>i<k. attempt_end env target (n + i) = None" and "int (n + k) \<le> pc_maxRetries c + 1"
  shows "delete_loop env c target n lastErr =
    (let (res, ev) = delete_loop env c target (n + k) (if k = 0 then lastErr else Some (attempt_error env (n + k - 1)))
     in (res, concat (map (attempt_trace env c target) [n..<n + k]) @ ev))"
  using assms
proof (induction k arbitrary: n lastErr)
  case (Suc k)
  have "attempt_end env target n = None" using Suc.prems(1) by (metis add_0_right zero_less_Suc)
  moreover have "\<forall>i<k. attempt_end env target (Suc n + i) = None"
  proof (intro allI impI)
    fix i assume "i < k"
    then have "attempt_end env target (n + Suc i) = None" using Suc.prems(1) by (meson Suc_less_eq)
    then show "attempt_end env target (Suc n + i) = None" by simp
  qed
  moreover obtain res ev where last: "delete_loop env c target (Suc n + k)
      (if k = 0 then Some (attempt_error env n) else Some (attempt_error env (Suc n + k - 1))) = (res, ev)" by fastforce
  ultimately have "delete_loop env c target (Suc n) (Some (attempt_error env n)) =
      (res, concat (map (attempt_trace env c target) [Suc n..<Suc n + k]) @ ev)"
    using Suc.IH [of "Suc n" "Some (attempt_error env n)"] Suc.prems(2) by (simp only: last) simp
  then have "delete_loop env c target n lastErr =
      (res, attempt_trace env c target n @ concat (map (attempt_trace env c target) [Suc n..<Suc n + k]) @ ev)"
    using \<open>attempt_end env target n = None\<close> Suc.prems(2) by (subst delete_loop_step) simp
  moreover have "delete_loop env c target (n + Suc k) (Some (attempt_error env (n + Suc k - 1))) = (res, ev)"
    using last by (cases "k = 0") simp_all
  ultimately show ?case by (simp add: upt_conv_Cons del: upt_Suc)
qed (simp add: Let_def)

lemma backoff_delay:
  assumes "0 < n" and "n \<le> 35"
  shows "sleep_delay (NewProxyClient url timeout m) n = min (8 * Second) (500000000 * 2 ^ (n - 1))"
proof -
  have "(2::int) ^ (n - 1) \<le> 2 ^ 34" using assms by (intro power_increasing) auto
  then have "is_int64 (500000000 * 2 ^ (n - 1))" by (simp add: is_int64_iff order.trans [of _ 0])
  then show ?thesis by (auto simp: sleep_delay_def NewProxyClient_def Let_def wrap64_id min_def)
qed

lemma requests_of_attempts:
  "length (filter (\<lambda>e. e = Requested target) (concat (map (attempt_trace env c target) [0..<k]))) \<le> k"
  by (induction k) (auto simp: attempt_trace_def)



text \<open>
  Which history the request clears: at a proxy whose base URL has an authority and a path without an
  encoding of its own, the request for an agent arrives at the history route for the agent named by the
  percent-encoded id, because the path is encoded twice and decoded once. That is the agent itself exactly
  when its id has only letters, digits and the characters that need no encoding; an id of one or two dots
  is redirected instead.
\<close>

theorem history_address_roundtrip:
  assumes "parse (pc_baseURL c) = Inr u" and "u_Opaque u = ''''" and "u_RawPath u = ''''"
  shows "\<exists>path suffix. buildURL parse c agent = u_Before u @ path @ suffix \<and>
    request_segments path = (if agent \<in> {'''', ''.'', ''..''} then None else Some [''v1'', ''agent'', PathEscape agent, ''history'']) \<and>
    (PathEscape agent = agent \<longleftrightarrow> plain_id agent)"
proof -
  have "buildURL parse c agent = u_Before u @ history_path agent @
    ((if u_ForceQuery u then ''?'' else '''') @ (if u_Fragment u \<noteq> '''' then CHR ''#'' # u_Fragment u else ''''))"
    by (rule buildURL_path [where parse = parse]) (rule assms)+
  then show ?thesis using history_segments PathEscape_plain by blast
qed

definition example_base :: URL where
  "example_base = \<lparr>u_Before = ''http://p'', u_Opaque = '''', u_Path = '''', u_RawPath = '''', u_ForceQuery = False,
     u_RawQuery = '''', u_Fragment = ''''\<rparr>"

theorem history_address_roundtrip_witness:
  "\<exists>path suffix. buildURL (\<lambda>_. Inr example_base) (NewProxyClient ''http://p'' Second 3) ''a/b'' = ''http://p'' @ path @ suffix \<and>
     request_segments path = Some [''v1'', ''agent'', ''a%2Fb'', ''history''] \<and> ''a%2Fb'' \<noteq> ''a/b''"
proof -
  let ?c = "NewProxyClient ''http://p'' Second 3"
  have e: "PathEscape ''a/b'' = ''a%2Fb''" by code_simp
  have base: "u_Opaque example_base = ''''" "u_RawPath example_base = ''''" "u_Before example_base = ''http://p''"
    by (simp_all add: example_base_def)
  obtain path suffix where "buildURL (\<lambda>_. Inr example_base) ?c ''a/b'' = u_Before example_base @ path @ suffix"
    "request_segments path = (if ''a/b'' \<in> {'''', ''.'', ''..''} then None else Some [''v1'', ''agent'', PathEscape ''a/b'', ''history''])"
    using history_address_roundtrip [of "\<lambda>_. Inr example_base" ?c example_base "''a/b''"] base by blast
  then show ?thesis by (simp add: e base(3)) blast
qed

end
