(* ===== verification/Status_Bar.thy ===== *)
theory Status_Bar
  imports Proxy_Client
begin

text \<open>
  The live status line of the agent wrapper (\<^verbatim>\<open>internal/wrapper/stats.go\<close>): fetching
  the metrics snapshot of the proxy and drawing it. The answer of the proxy to one poll is an argument,
  and so is whether the output is a terminal; the ticker and the context are the list of events the
  polling goroutine wakes up for.
\<close>

section \<open>Fetching a snapshot\<close>

record metricsSnapshot =
  ms_ActiveRequests :: int
  ms_TotalRequests :: int
  ms_LoopBlocks :: int
  ms_BlockedAgents :: int
  ms_SavedCostMicroUSD :: int
  ms_AvgLatencyMicro :: int
  ms_TokenVelocity :: float64
  ms_UptimeSeconds :: int

definition metricsSnapshot_zero :: metricsSnapshot where
  "metricsSnapshot_zero =
     \<lparr>ms_ActiveRequests = 0, ms_TotalRequests = 0, ms_LoopBlocks = 0, ms_BlockedAgents = 0, ms_SavedCostMicroUSD = 0,
      ms_AvgLatencyMicro = 0, ms_TokenVelocity = Fin 0, ms_UptimeSeconds = 0\<rparr>"

definition store_snapshot :: "metricsSnapshot store" where
  "store_snapshot = store_struct
     [(''active_requests'', \<lambda>v s. map_option (\<lambda>x. s\<lparr>ms_ActiveRequests := x\<rparr>) (store_int64 v (ms_ActiveRequests s))),
      (''total_requests'', \<lambda>v s. map_option (\<lambda>x. s\<lparr>ms_TotalRequests := x\<rparr>) (store_int64 v (ms_TotalRequests s))),
      (''loop_blocks'', \<lambda>v s. map_option (\<lambda>x. s\<lparr>ms_LoopBlocks := x\<rparr>) (store_int64 v (ms_LoopBlocks s))),
      (''blocked_agents'', \<lambda>v s. map_option (\<lambda>x. s\<lparr>ms_BlockedAgents := x\<rparr>) (store_int64 v (ms_BlockedAgents s))),
      (''saved_cost_micro_usd'', \<lambda>v s. map_option (\<lambda>x. s\<lparr>ms_SavedCostMicroUSD := x\<rparr>) (store_int64 v (ms_SavedCostMicroUSD s))),
      (''avg_latency_micro'', \<lambda>v s. map_option (\<lambda>x. s\<lparr>ms_AvgLatencyMicro := x\<rparr>) (store_int64 v (ms_AvgLatencyMicro s))),
      (''token_velocity'', \<lambda>v s. map_option (\<lambda>x. s\<lparr>ms_TokenVelocity := x\<rparr>) (store_float v (ms_TokenVelocity s))),
      (''uptime_seconds'', \<lambda>v s. map_option (\<lambda>x. s\<lparr>ms_UptimeSeconds := x\<rparr>) (store_int64 v (ms_UptimeSeconds s)))]"

text \<open>
  \<^verbatim>\<open>Decoder.Decode\<close> takes the first value of the stream, the shortest prefix that is one,
  and leaves what follows it; the stream may break off with an error before that.
\<close>

definition decode_first :: "'a store \<Rightarrow> 'a \<Rightarrow> string \<Rightarrow> 'a option" where
  "decode_first f zero s =
     (case find (\<lambda>n. json_parse (take n s) \<noteq> None) [0..<Suc (length s)] of
        None \<Rightarrow> None
      | Some n \<Rightarrow> unmarshal f zero (take n s))"

record metrics_env =
  me_NewRequest :: "string \<Rightarrow> error option"
  me_Do :: "string \<Rightarrow> error + int \<times> string"
  me_DecodeError :: "string \<Rightarrow> error"

definition ProxyClient_Metrics :: "url_parse \<Rightarrow> metrics_env \<Rightarrow> ProxyClient \<Rightarrow> error + metricsSnapshot" where
  "ProxyClient_Metrics parse env c =
     (let url = metricsURL parse c
      in case me_NewRequest env url of
           Some err \<Rightarrow> Inl err
         | None \<Rightarrow>
             (case me_Do env url of
                Inl err \<Rightarrow> Inl err
              | Inr (status, body) \<Rightarrow>
                  if status \<noteq> 200 then Inl (status_error status)
                  else case decode_first store_snapshot metricsSnapshot_zero body of
                         None \<Rightarrow> Inl (me_DecodeError env body)
                       | Some snap \<Rightarrow> Inr snap))"

section \<open>Drawing\<close>

text \<open>\<^verbatim>\<open>%.<n>f\<close>: the exact value rounded to \<open>n\<close> decimals, ties to even.\<close>

definition pad_zeros :: "nat \<Rightarrow> string \<Rightarrow> string" where
  "pad_zeros n s = replicate (n - length s) (CHR ''0'') @ s"

fun format_fixed :: "nat \<Rightarrow> float64 \<Rightarrow> string" where
  "format_fixed n (Fin x) =
     (let m = nat (rne (\<bar>x\<bar> * 10 ^ n))
      in (if x < 0 then ''-'' else '''') @ nat_digits (m div 10 ^ n) @
         (if n = 0 then '''' else CHR ''.'' # pad_zeros n (nat_digits (m mod 10 ^ n))))"
| "format_fixed n PosInf = ''+Inf''"
| "format_fixed n NegInf = ''-Inf''"
| "format_fixed n NaN = ''NaN''"

record statusBar =
  bar_interval :: duration
  bar_tty :: bool
  bar_out :: string

definition newStatusBar :: "string \<Rightarrow> duration \<Rightarrow> bool \<Rightarrow> statusBar" where
  "newStatusBar out interval tty =
     (let interval = (if interval \<le> 0 then Second else interval)
      in \<lparr>bar_interval = interval, bar_tty = tty, bar_out = out\<rparr>)"

text \<open>The redraw sequence: erase the line and return to its start.\<close>

definition redraw :: string where
  "redraw = CHR 0x1B # ''[2K'' @ [CHR 0x0D]"

definition status_line :: "metricsSnapshot \<Rightarrow> string" where
  "status_line snap =
     (let saved = f64_div (f64_of_int (ms_SavedCostMicroUSD snap)) (Fin 1000000)
      in ''[finops-run] active='' @ Itoa (ms_ActiveRequests snap) @ '' tok/s='' @ format_fixed 0 (ms_TokenVelocity snap) @
         '' blocks='' @ Itoa (ms_LoopBlocks snap) @ '' blocked='' @ Itoa (ms_BlockedAgents snap) @
         '' saved=$'' @ format_fixed 4 saved @ '' avg='' @ Itoa (ms_AvgLatencyMicro snap) @ [CHR 0xC2, CHR 0xB5, CHR ''s''])"

definition render :: "metricsSnapshot \<Rightarrow> statusBar \<Rightarrow> statusBar" where
  "render snap s = (if \<not> bar_tty s then s else s\<lparr>bar_out := bar_out s @ redraw @ status_line snap\<rparr>)"

definition bar_loopDetected :: "statusBar \<Rightarrow> statusBar" where
  "bar_loopDetected s =
     (if \<not> bar_tty s then s
      else s\<lparr>bar_out := bar_out s @ redraw @ ''[finops-run] loop detected '' @ [CHR 0xE2, CHR 0x80, CHR 0x94] @
        '' restarting agent'' @ [CHR 0x0A]\<rparr>)"

definition poll :: "url_parse \<Rightarrow> ProxyClient \<Rightarrow> metrics_env \<Rightarrow> statusBar \<Rightarrow> statusBar" where
  "poll parse c env s =
     (case ProxyClient_Metrics parse env c of Inl err \<Rightarrow> s | Inr snap \<Rightarrow> render snap s)"

text \<open>The polling goroutine: \<open>Some env\<close> is a tick and what its poll meets, \<open>None\<close> the end of the context.\<close>

fun bar_start :: "url_parse \<Rightarrow> ProxyClient \<Rightarrow> metrics_env option list \<Rightarrow> statusBar \<Rightarrow> statusBar" where
  "bar_start parse c [] s = s"
| "bar_start parse c (None # evs) s = s"
| "bar_start parse c (Some env # evs) s = bar_start parse c evs (poll parse c env s)"

section \<open>Properties\<close>

lemma render_off_tty: "\<not> bar_tty s \<Longrightarrow> render snap s = s"
  by (simp add: render_def)

lemma poll_off_tty: "\<not> bar_tty s \<Longrightarrow> poll parse c env s = s"
  by (simp add: poll_def render_off_tty split: sum.split)

lemma poll_tty: "bar_tty (poll parse c env s) = bar_tty s"
  by (simp add: poll_def render_def split: sum.split)

lemma bar_start_off_tty: "\<not> bar_tty s \<Longrightarrow> bar_start parse c evs s = s"
  by (induction evs s rule: bar_start.induct [where ?a0.0 = parse and ?a1.0 = c]) (simp_all add: poll_off_tty)

text \<open>The lines drawn until the context ends: one for each poll that was answered with a snapshot.\<close>

definition drawn :: "url_parse \<Rightarrow> ProxyClient \<Rightarrow> metrics_env option list \<Rightarrow> string list" where
  "drawn parse c evs = concat (map (\<lambda>ev. case ev of
     None \<Rightarrow> [] | Some env \<Rightarrow> (case ProxyClient_Metrics parse env c of Inl _ \<Rightarrow> [] | Inr snap \<Rightarrow> [redraw @ status_line snap]))
     (takeWhile (\<lambda>ev. ev \<noteq> None) evs))"

text \<open>
  The status bar is silent off a terminal and open to failure: whatever the proxy answers, polling
  writes nothing when the output is not a terminal, and on a terminal exactly one redrawn line for each
  poll that was answered 200 with a snapshot, in order, until the context ends; a failed poll leaves no
  trace.
\<close>

theorem status_bar_lines:
  "bar_out (bar_start parse c evs (newStatusBar out interval tty)) =
     (if tty then out @ concat (drawn parse c evs) else out)"
proof -
  have lines: "bar_tty s \<Longrightarrow> bar_out (bar_start parse c evs s) = bar_out s @ concat (drawn parse c evs)" for s
  proof (induction evs arbitrary: s)
    case (Cons ev evs)
    then show ?case by (cases ev) (auto simp: drawn_def poll_def render_def poll_tty split: sum.split)
  qed (simp add: drawn_def)
  show ?thesis
  proof (cases tty)
    case True
    then show ?thesis using lines [of "newStatusBar out interval tty"] by (simp add: newStatusBar_def Let_def)
  next
    case False
    then show ?thesis by (simp add: bar_start_off_tty newStatusBar_def Let_def)
  qed
qed

end
