(* ===== verification/Agent_Wrapper.thy ===== *)
theory Agent_Wrapper
  imports Loop_Watch Status_Bar Go_Flag Go_SHA256
begin

text \<open>
  The agent wrapper \<^verbatim>\<open>finops-run\<close>: its configuration and arguments
  (\<^verbatim>\<open>internal/wrapper/config.go\<close>, \<^verbatim>\<open>args.go\<close>), the child
  process with its watchdog (\<^verbatim>\<open>child.go\<close>) and the supervision loop
  (\<^verbatim>\<open>wrapper.go\<close>). What the operating system and the network do is an argument: for
  every attempt whether the child starts, what it prints, how it ends and whether the signal that ends
  the wrapper arrives first. The loop need not end, so it is a partial function.
\<close>

section \<open>Configuration and arguments\<close>

record wrapper_Config =
  wc_AgentID :: string
  wc_ProxyURL :: string
  wc_MaxRestarts :: int
  wc_RecoveryPrompt :: string
  wc_Marker :: string
  wc_KillGrace :: duration
  wc_DeleteTimeout :: duration
  wc_MaxDeleteRetries :: int
  wc_RetryOnNonzero :: bool
  wc_Watch :: bool
  wc_WatchInterval :: duration
  wc_Version :: bool

definition wrapper_DefaultConfig :: wrapper_Config where
  "wrapper_DefaultConfig =
     \<lparr>wc_AgentID = '''', wc_ProxyURL = ''http://localhost:8080'', wc_MaxRestarts = 3,
      wc_RecoveryPrompt = ''Loop detected on previous file, try an alternative solution.'',
      wc_Marker = ''agent_loop_exception'', wc_KillGrace = 5 * Second, wc_DeleteTimeout = 5 * Second,
      wc_MaxDeleteRetries = 3, wc_RetryOnNonzero = True, wc_Watch = False, wc_WatchInterval = Second,
      wc_Version = False\<rparr>"

text \<open>The text that is hashed for a command: every argument ends with a zero byte.\<close>

definition command_bytes :: "string \<Rightarrow> string list \<Rightarrow> string" where
  "command_bytes bin args = bin @ [CHR 0x00] @ concat (map (\<lambda>a. a @ [CHR 0x00]) args)"

definition DefaultAgentID :: "string \<Rightarrow> string list \<Rightarrow> string" where
  "DefaultAgentID bin args = take 16 (sha256_hex (command_bytes bin args))"

definition wrapper_flags :: "(string \<times> wrapper_Config flag) list" where
  "wrapper_flags =
     [(''agent-id'', StringFlag (\<lambda>v c. c\<lparr>wc_AgentID := v\<rparr>)),
      (''proxy-url'', StringFlag (\<lambda>v c. c\<lparr>wc_ProxyURL := v\<rparr>)),
      (''max-restarts'', IntFlag (\<lambda>v c. c\<lparr>wc_MaxRestarts := v\<rparr>)),
      (''recovery-prompt'', StringFlag (\<lambda>v c. c\<lparr>wc_RecoveryPrompt := v\<rparr>)),
      (''retry-on-nonzero'', BoolFlag (\<lambda>v c. c\<lparr>wc_RetryOnNonzero := v\<rparr>)),
      (''watch'', BoolFlag (\<lambda>v c. c\<lparr>wc_Watch := v\<rparr>)),
      (''stats'', BoolFlag (\<lambda>v c. c\<lparr>wc_Watch := v\<rparr>)),
      (''watch-interval'', DurationFlag (\<lambda>v c. c\<lparr>wc_WatchInterval := v\<rparr>)),
      (''version'', BoolFlag (\<lambda>v c. c\<lparr>wc_Version := v\<rparr>))]"

datatype args_error = FlagError flag_error | MissingBinary

text \<open>The binary and its arguments are empty when the version is asked for.\<close>

definition ParseArgs :: "string list \<Rightarrow> wrapper_Config \<times> (args_error + string \<times> string list)" where
  "ParseArgs args =
     (case parse_flags wrapper_flags args wrapper_DefaultConfig of
        (cfg, Inl err) \<Rightarrow> (cfg, Inl (FlagError err))
      | (cfg, Inr left) \<Rightarrow>
          if wc_Version cfg then (cfg, Inr ('''', []))
          else case left of
                 [] \<Rightarrow> (cfg, Inl MissingBinary)
               | bin # passthrough \<Rightarrow>
                   (if wc_AgentID cfg = '''' then cfg\<lparr>wc_AgentID := DefaultAgentID bin passthrough\<rparr> else cfg,
                    Inr (bin, passthrough)))"

section \<open>The child process\<close>

datatype process_state = NoState | Exited int | Signaled int

definition Child_ExitCode :: "process_state \<Rightarrow> int" where
  "Child_ExitCode ps = (case ps of NoState \<Rightarrow> 1 | Signaled s \<Rightarrow> 128 + s | Exited n \<Rightarrow> n)"

datatype group_signal = SIGTERM | SIGKILL

datatype errno = ESRCH | OtherErrno int

datatype signal_error = ErrProcessDone | Errno errno

text \<open>The process group of the child is signalled by its negated id; \<open>kill\<close> is the system call.\<close>

definition sigGroup :: "int option \<Rightarrow> (int \<Rightarrow> group_signal \<Rightarrow> errno option) \<Rightarrow> group_signal \<Rightarrow> signal_error option" where
  "sigGroup process kill sig =
     (case process of
        None \<Rightarrow> Some ErrProcessDone
      | Some pid \<Rightarrow>
          (case kill (- pid) sig of
             None \<Rightarrow> None
           | Some err \<Rightarrow> if err = ESRCH then Some ErrProcessDone else Some (Errno err)))"

text \<open>
  The processes of a started child, in the sections between which others can run. Package
  \<^verbatim>\<open>os/exec\<close> watches the context until \<^verbatim>\<open>cmd.Wait\<close>, having reaped
  the child, takes its watcher's result; if the context ends before, it calls \<^verbatim>\<open>Cancel\<close>.
  \<^verbatim>\<open>cmd.Wait\<close> then waits for the pipes, and \<^verbatim>\<open>Wait\<close> closes
  \<^verbatim>\<open>done\<close> only when it has returned. The goroutine of the watchdog moves through its two
  selects; it looks at \<^verbatim>\<open>done\<close> once more when the grace period is over, and then signals.
\<close>

datatype watchdog = Watching | Grace | Killing | Stopped

record child =
  ch_ctx_done :: bool
  ch_cancelled :: bool
  ch_reaped :: bool
  ch_watched :: bool
  ch_done :: bool
  ch_watchdog :: watchdog
  ch_signals :: "group_signal list"

definition startChild :: child where
  "startChild = \<lparr>ch_ctx_done = False, ch_cancelled = False, ch_reaped = False, ch_watched = False, ch_done = False,
     ch_watchdog = Watching, ch_signals = []\<rparr>"

inductive child_step :: "child \<Rightarrow> child \<Rightarrow> bool" where
  ctx_ends: "\<not> ch_ctx_done c \<Longrightarrow> child_step c (c\<lparr>ch_ctx_done := True\<rparr>)"
| exec_cancel: "ch_ctx_done c \<Longrightarrow> \<not> ch_cancelled c \<Longrightarrow> \<not> ch_watched c \<Longrightarrow>
    child_step c (c\<lparr>ch_cancelled := True, ch_signals := ch_signals c @ [SIGTERM]\<rparr>)"
| reap: "\<not> ch_reaped c \<Longrightarrow> child_step c (c\<lparr>ch_reaped := True\<rparr>)"
| watch_result: "ch_reaped c \<Longrightarrow> \<not> ch_watched c \<Longrightarrow> child_step c (c\<lparr>ch_watched := True\<rparr>)"
| wait_returns: "ch_watched c \<Longrightarrow> \<not> ch_done c \<Longrightarrow> child_step c (c\<lparr>ch_done := True\<rparr>)"
| watch_ctx: "ch_watchdog c = Watching \<Longrightarrow> ch_ctx_done c \<Longrightarrow> child_step c (c\<lparr>ch_watchdog := Grace\<rparr>)"
| watch_done: "ch_watchdog c = Watching \<Longrightarrow> ch_done c \<Longrightarrow> child_step c (c\<lparr>ch_watchdog := Stopped\<rparr>)"
| grace_over: "ch_watchdog c = Grace \<Longrightarrow> child_step c (c\<lparr>ch_watchdog := (if ch_done c then Stopped else Killing)\<rparr>)"
| grace_done: "ch_watchdog c = Grace \<Longrightarrow> ch_done c \<Longrightarrow> child_step c (c\<lparr>ch_watchdog := Stopped\<rparr>)"
| kill: "ch_watchdog c = Killing \<Longrightarrow> child_step c (c\<lparr>ch_watchdog := Stopped, ch_signals := ch_signals c @ [SIGKILL]\<rparr>)"

inductive child_reachable :: "child \<Rightarrow> bool" where
  start: "child_reachable startChild"
| step: "child_reachable c \<Longrightarrow> child_step c c' \<Longrightarrow> child_reachable c'"

inductive_cases child_stepE: "child_step c c'"

section \<open>The supervision loop\<close>

definition childEnv :: "string list \<Rightarrow> wrapper_Config \<Rightarrow> bool \<Rightarrow> string list" where
  "childEnv environ cfg recovery =
     (let env = environ @ [''FINOPS_AGENT_ID='' @ wc_AgentID cfg]
      in if recovery then env @ [''FINOPS_RECOVERY_PROMPT='' @ wc_RecoveryPrompt cfg] else env)"

text \<open>
  What happens to one attempt: the error of starting the child, or its writes until it is reaped or the
  wrapper moves on (to standard error where the flag says so, each with the failure of passing it on),
  whether the select takes the end of the wrapper's own context, whether the child ends by itself, only
  when it is killed or not even then, and what waiting for it returns.
\<close>

type_synonym child_write = "bool \<times> (nat \<times> error) option \<times> string"

datatype child_fate = ExitsAlone | ExitsKilled | NeverExits

record child_attempt =
  ra_Start :: "error option"
  ra_Output :: "child_write list"
  ra_Done :: bool
  ra_Fate :: child_fate
  ra_Wait :: "error option"
  ra_State :: process_state

fun child_output :: "child_write list \<Rightarrow> lineTee \<Rightarrow> lineTee \<Rightarrow> bool \<times> lineTee \<times> lineTee" where
  "child_output [] out err = (False, out, err)"
| "child_output ((to_stderr, failed, p) # ws) out err =
     (let ((_, _, fire), tee) = lineTee_Write failed p (if to_stderr then err else out);
          (fires, out, err) = (if to_stderr then child_output ws out tee else child_output ws tee err)
      in (fire \<or> fires, out, err))"

datatype wrapper_log =
  FailedToStart string error
| DeleteFailed string error
| GivingUp int
| RestartAfterLoop int
| RestartAfterExit int int

datatype run_event =
  Started string "string list" "string list"
| Printed string string
| BarLoopDetected
| Cleared string "client_event list"
| Logged wrapper_log

record run_env =
  re_Parse :: url_parse
  re_Environ :: "string list"
  re_Client :: "nat \<Rightarrow> client_env"
  re_Attempt :: "nat \<Rightarrow> child_attempt"

text \<open>
  The select of an attempt has nothing to take as long as the child runs on, prints no marker and the
  context does not end; and in every case the wrapper waits for the child to be reaped.
\<close>

definition attempt_ends :: "bool \<Rightarrow> child_attempt \<Rightarrow> bool" where
  "attempt_ends fired a =
     (case ra_Fate a of ExitsAlone \<Rightarrow> True | ExitsKilled \<Rightarrow> ra_Done a \<or> fired | NeverExits \<Rightarrow> False)"

datatype attempt_end = Returns int | Again | Blocks

text \<open>One round of the loop: whether the wrapper returns, goes on or waits for ever, and what it did.\<close>

definition run_attempt ::
    "run_env \<Rightarrow> wrapper_Config \<Rightarrow> string \<Rightarrow> string list \<Rightarrow> ProxyClient \<Rightarrow> nat \<Rightarrow> attempt_end \<times> run_event list" where
  "run_attempt e cfg bin args client n =
     (let attempt = wrap64 (int n); env = childEnv (re_Environ e) cfg (attempt > 0); a = re_Attempt e n
      in case ra_Start a of
           Some err \<Rightarrow> (Returns 1, [Logged (FailedToStart bin err)])
         | None \<Rightarrow>
             (let (fired, out, err) = child_output (ra_Output a) (newLineTee '''' (wc_Marker cfg)) (newLineTee '''' (wc_Marker cfg));
                  ev = [Started bin args env, Printed (lt_dst out) (lt_dst err)]
              in if \<not> attempt_ends fired a then (Blocks, ev)
                 else if ra_Done a then (Returns 130, ev)
                 else if fired then
                   (let bar = (if wc_Watch cfg then [BarLoopDetected] else []);
                        (failed, did) = DeleteHistory (re_Parse e) (re_Client e n) client (wc_AgentID cfg);
                        ev = ev @ bar @ [Cleared (wc_AgentID cfg) did] @
                          (case failed of None \<Rightarrow> [] | Some err \<Rightarrow> [Logged (DeleteFailed (wc_AgentID cfg) err)])
                    in if wc_MaxRestarts cfg \<ge> 0 \<and> attempt \<ge> wc_MaxRestarts cfg
                       then (Returns 42, ev @ [Logged (GivingUp (wc_MaxRestarts cfg))])
                       else (Again, ev @ [Logged (RestartAfterLoop (wrap64 (attempt + 1)))]))
                 else if ra_Wait a = None then (Returns 0, ev)
                 else if wc_RetryOnNonzero cfg \<and> (wc_MaxRestarts cfg < 0 \<or> attempt < wc_MaxRestarts cfg)
                 then (Again, ev @ [Logged (RestartAfterExit (Child_ExitCode (ra_State a)) (wrap64 (attempt + 1)))])
                 else (Returns (Child_ExitCode (ra_State a)), ev)))"

partial_function (option) run_loop ::
    "run_env \<Rightarrow> wrapper_Config \<Rightarrow> string \<Rightarrow> string list \<Rightarrow> ProxyClient \<Rightarrow> nat \<Rightarrow> run_event list \<Rightarrow> (int \<times> run_event list) option" where
  "run_loop e cfg bin args client n trace =
     (case run_attempt e cfg bin args client n of
        (Returns ret, ev) \<Rightarrow> Some (ret, trace @ ev)
      | (Again, ev) \<Rightarrow> run_loop e cfg bin args client (Suc n) (trace @ ev)
      | (Blocks, ev) \<Rightarrow> None)"

definition Run :: "run_env \<Rightarrow> wrapper_Config \<Rightarrow> string \<Rightarrow> string list \<Rightarrow> (int \<times> run_event list) option" where
  "Run e cfg bin args =
     run_loop e cfg bin args (NewProxyClient (wc_ProxyURL cfg) (wc_DeleteTimeout cfg) (wc_MaxDeleteRetries cfg)) 0 []"

text \<open>The command: bad arguments end it with 2, the version with 0; what it prints then is left out.\<close>

definition finops_run_main :: "run_env \<Rightarrow> string list \<Rightarrow> (int \<times> run_event list) option" where
  "finops_run_main e args =
     (case ParseArgs args of
        (cfg, Inl err) \<Rightarrow> Some (2, [])
      | (cfg, Inr (bin, passthrough)) \<Rightarrow> if wc_Version cfg then Some (0, []) else Run e cfg bin passthrough)"

section \<open>Arguments\<close>

lemma DefaultAgentID_hex: "length (DefaultAgentID bin args) = 16" "set (DefaultAgentID bin args) \<subseteq> hex_digits"
  using sha256_hex_digits [of "command_bytes bin args"] set_take_subset [of 16 "sha256_hex (command_bytes bin args)"]
  by (simp_all add: DefaultAgentID_def)

lemma hex_digits_plain: "set s \<subseteq> hex_digits \<Longrightarrow> plain_id s"
proof -
  assume s: "set s \<subseteq> hex_digits"
  have "list_all unreserved ''0123456789abcdef''" by code_simp
  then show ?thesis using s by (auto simp: plain_id_def hex_digits_def list_all_iff)
qed

text \<open>The hashed text determines the command, whose arguments cannot contain a zero byte.\<close>

lemma split_zero:
  assumes "a @ CHR 0x00 # s = b @ CHR 0x00 # t" and "CHR 0x00 \<notin> set a" and "CHR 0x00 \<notin> set b"
  shows "a = b \<and> s = t"
  using assms by (induction a arbitrary: b) (auto simp: Cons_eq_append_conv append_eq_Cons_conv)

lemma zero_terminated_inj:
  assumes "concat (map (\<lambda>a. a @ [CHR 0x00]) as) = concat (map (\<lambda>a. a @ [CHR 0x00]) bs)"
    and "\<forall>a\<in>set as \<union> set bs. CHR 0x00 \<notin> set a"
  shows "as = bs"
  using assms
proof (induction as arbitrary: bs)
  case Nil
  then show ?case by (cases bs) auto
next
  case (Cons a as)
  then obtain b bs' where bs: "bs = b # bs'" by (cases bs) auto
  have "a = b \<and> concat (map (\<lambda>a. a @ [CHR 0x00]) as) = concat (map (\<lambda>a. a @ [CHR 0x00]) bs')"
    using Cons.prems bs by (intro split_zero) auto
  then show ?case using Cons bs by auto
qed

lemma command_bytes_inj:
  assumes "command_bytes bin args = command_bytes bin' args'" and "\<forall>a\<in>set (bin # args) \<union> set (bin' # args'). CHR 0x00 \<notin> set a"
  shows "bin = bin' \<and> args = args'"
proof -
  have "command_bytes b as = concat (map (\<lambda>a. a @ [CHR 0x00]) (b # as))" for b as by (simp add: command_bytes_def)
  then have "bin # args = bin' # args'" using assms by (intro zero_terminated_inj) simp_all
  then show ?thesis by simp
qed

text \<open>
  C29. The command line of the wrapper: when its arguments are accepted with a child to run, what is run is
  a suffix of the arguments, taken as it is; whatever is put behind the child's name, also what looks like
  a flag of the wrapper, reaches the child and leaves the configuration alone but for a derived agent id.
  The agent id is never empty: it is the given one, or sixteen hexadecimal digits.
\<close>

theorem arguments_pass_through:
  assumes "ParseArgs args = (cfg, Inr (bin, passthrough))" and "\<not> wc_Version cfg"
  shows "wc_AgentID cfg \<noteq> '''' \<and>
    (\<exists>pre cfg0. args = pre @ bin # passthrough \<and>
       (\<forall>rest. ParseArgs (pre @ bin # rest) =
         (cfg0\<lparr>wc_AgentID := if wc_AgentID cfg0 = '''' then DefaultAgentID bin rest else wc_AgentID cfg0\<rparr>, Inr (bin, rest))))"
proof -
  obtain cfg0 left where parsed: "parse_flags wrapper_flags args wrapper_DefaultConfig = (cfg0, Inr left)"
    using assms(1) by (auto simp: ParseArgs_def split: prod.splits sum.splits)
  have version: "\<not> wc_Version cfg0"
    using assms parsed by (cases left) (auto simp: ParseArgs_def split: if_splits)
  then have left: "left = bin # passthrough"
      and cfg: "cfg = (if wc_AgentID cfg0 = '''' then cfg0\<lparr>wc_AgentID := DefaultAgentID bin passthrough\<rparr> else cfg0)"
    using assms(1) parsed by (auto simp: ParseArgs_def split: list.splits)
  from parse_flags_suffix [OF parsed [unfolded left]] obtain pre where pre: "args = pre @ bin # passthrough"
      "\<forall>rest. parse_flags wrapper_flags (pre @ bin # rest) wrapper_DefaultConfig = (cfg0, Inr (bin # rest))" by (elim exE conjE)
  have "DefaultAgentID bin passthrough \<noteq> ''''" using DefaultAgentID_hex(1) [of bin passthrough] by auto
  then have "wc_AgentID cfg \<noteq> ''''" using cfg by simp
  moreover have "ParseArgs (pre @ bin # rest) =
      (cfg0\<lparr>wc_AgentID := if wc_AgentID cfg0 = '''' then DefaultAgentID bin rest else wc_AgentID cfg0\<rparr>, Inr (bin, rest))" for rest
    using pre(2) version by (simp add: ParseArgs_def)
  ultimately show ?thesis using pre(1) by blast
qed

theorem arguments_pass_through_witness:
  "ParseArgs [''-max-restarts'', ''0x10'', ''--agent-id=x'', ''claude'', ''--agent-id'', ''y''] =
     (wrapper_DefaultConfig\<lparr>wc_MaxRestarts := 16, wc_AgentID := ''x''\<rparr>, Inr (''claude'', [''--agent-id'', ''y''])) \<and>
   (\<exists>pre. [''-max-restarts'', ''0x10'', ''--agent-id=x'', ''claude'', ''--agent-id'', ''y''] = pre @ [''claude'', ''--agent-id'', ''y''])"
proof -
  have "ParseArgs [''-max-restarts'', ''0x10'', ''--agent-id=x'', ''claude'', ''--agent-id'', ''y''] =
     (wrapper_DefaultConfig\<lparr>wc_MaxRestarts := 16, wc_AgentID := ''x''\<rparr>, Inr (''claude'', [''--agent-id'', ''y'']))" by code_simp
  moreover have "\<not> wc_Version (wrapper_DefaultConfig\<lparr>wc_MaxRestarts := 16, wc_AgentID := ''x''\<rparr>)" by code_simp
  ultimately show ?thesis using arguments_pass_through by blast
qed

section \<open>The watchdog\<close>

definition watchdog_inv :: "child \<Rightarrow> bool" where
  "watchdog_inv c \<longleftrightarrow>
     distinct (ch_signals c) \<and>
     (SIGTERM \<in> set (ch_signals c) \<longleftrightarrow> ch_cancelled c) \<and> (ch_cancelled c \<longrightarrow> ch_ctx_done c) \<and>
     (SIGKILL \<in> set (ch_signals c) \<longrightarrow> ch_watchdog c = Stopped) \<and>
     (ch_watchdog c = Grace \<or> ch_watchdog c = Killing \<or> SIGKILL \<in> set (ch_signals c) \<longrightarrow> ch_ctx_done c) \<and>
     (ch_watchdog c = Stopped \<longrightarrow> ch_done c \<or> SIGKILL \<in> set (ch_signals c)) \<and>
     (ch_done c \<longrightarrow> ch_watched c) \<and> (ch_watched c \<longrightarrow> ch_reaped c)"

lemma watchdog_inv_step: "child_step c c' \<Longrightarrow> watchdog_inv c \<Longrightarrow> watchdog_inv c'"
proof (induction rule: child_step.induct)
  case (exec_cancel c)
  then show ?case unfolding watchdog_inv_def by simp blast
next
  case (kill c)
  then show ?case unfolding watchdog_inv_def by simp
next
  case (grace_over c)
  then show ?case unfolding watchdog_inv_def by simp
qed (simp_all add: watchdog_inv_def, blast+)

lemma watchdog_inv_reachable: "child_reachable c \<Longrightarrow> watchdog_inv c"
proof (induction rule: child_reachable.induct)
  case start
  show ?case by (simp add: watchdog_inv_def startChild_def)
qed (rule watchdog_inv_step)

text \<open>What has been decided stays so: a closed \<^verbatim>\<open>done\<close> keeps the watchdog from killing.\<close>

lemma settled_steps:
  assumes "child_step\<^sup>*\<^sup>* c c'"
  shows "ch_done c \<and> ch_watchdog c \<noteq> Killing \<Longrightarrow>
      ch_done c' \<and> ch_watchdog c' \<noteq> Killing \<and> (SIGKILL \<in> set (ch_signals c') \<longleftrightarrow> SIGKILL \<in> set (ch_signals c))"
    and "ch_watched c \<Longrightarrow> ch_watched c' \<and> (SIGTERM \<in> set (ch_signals c') \<longleftrightarrow> SIGTERM \<in> set (ch_signals c))"
  using assms
proof (induction rule: rtranclp_induct)
  case (step c' c'')
  {
    case 1
    show ?case using step.hyps(2) step.IH(1) [OF 1] by (cases rule: child_step.cases) auto
  next
    case 2
    show ?case using step.hyps(2) step.IH(2) [OF 2] by (cases rule: child_step.cases) auto
  }
qed simp_all

text \<open>The child is reaped and waited for between the watchdog's last look and its signal.\<close>

lemma reaped_child_killed:
  "\<exists>c c'. child_reachable c \<and> ch_reaped c \<and> ch_done c \<and> child_step c c' \<and> ch_signals c = [] \<and> ch_signals c' = [SIGKILL]"
proof -
  let ?c1 = "startChild\<lparr>ch_reaped := True\<rparr>" and ?c2 = "startChild\<lparr>ch_reaped := True, ch_watched := True\<rparr>"
  let ?c3 = "?c2\<lparr>ch_ctx_done := True\<rparr>" and ?c4 = "?c2\<lparr>ch_ctx_done := True, ch_watchdog := Grace\<rparr>"
  let ?c5 = "?c4\<lparr>ch_watchdog := (if ch_done ?c4 then Stopped else Killing)\<rparr>"
  let ?c6 = "?c5\<lparr>ch_done := True\<rparr>"
  note steps = child_reachable.step [OF _ child_step.reap] child_reachable.step [OF _ child_step.watch_result]
    child_reachable.step [OF _ child_step.ctx_ends] child_reachable.step [OF _ child_step.watch_ctx]
    child_reachable.step [OF _ child_step.grace_over] child_reachable.step [OF _ child_step.wait_returns]
  have "child_reachable ?c1" by (rule steps(1) [OF child_reachable.start]) (simp add: startChild_def)
  then have "child_reachable ?c2" by (rule steps(2)) (simp_all add: startChild_def)
  then have "child_reachable ?c3" by (rule steps(3)) (simp add: startChild_def)
  then have "child_reachable ?c4" by (rule steps(4)) (simp_all add: startChild_def)
  then have "child_reachable ?c5" by (rule steps(5)) simp
  then have "child_reachable ?c6" by (rule steps(6)) (simp_all add: startChild_def)
  moreover have "ch_watchdog ?c6 = Killing" "ch_reaped ?c6" "ch_done ?c6" "ch_signals ?c6 = []"
    by (simp_all add: startChild_def)
  moreover have "ch_signals (c\<lparr>ch_watchdog := Stopped, ch_signals := ch_signals c @ [SIGKILL]\<rparr>) = ch_signals c @ [SIGKILL]" for c
    by simp
  ultimately show ?thesis by (metis append_Nil child_step.kill)
qed

text \<open>
  C30. Killing the child: in every order of cancellation, exit, reaping and expiry of the grace period, the
  process group gets at most one SIGTERM and at most one SIGKILL, and nothing before the context has
  ended. A cancelled child is not forgotten: until \<^verbatim>\<open>Wait\<close> has taken the result of the
  context's watcher the SIGTERM has been sent or can be, and the watchdog only stops when
  \<^verbatim>\<open>done\<close> is closed or it has sent the SIGKILL; where \<^verbatim>\<open>done\<close> is still
  open at the end of the grace period, it goes on to send it. Once \<^verbatim>\<open>done\<close> is closed, a
  watchdog that has not yet passed its last look at it never sends SIGKILL. But between that look and the signal,
  and while \<^verbatim>\<open>Wait\<close> still waits for the pipes of a child that has been reaped, the SIGKILL is
  sent to the group of a reaped child, even without a SIGTERM before, although the comment in the code says never.
\<close>

theorem watchdog_signals:
  assumes "child_reachable c"
  shows "distinct (ch_signals c) \<and> (ch_signals c \<noteq> [] \<longrightarrow> ch_ctx_done c) \<and>
    (ch_ctx_done c \<and> \<not> ch_watched c \<longrightarrow> SIGTERM \<in> set (ch_signals c) \<or>
       child_step c (c\<lparr>ch_cancelled := True, ch_signals := ch_signals c @ [SIGTERM]\<rparr>)) \<and>
    (ch_watchdog c = Stopped \<longrightarrow> ch_done c \<or> SIGKILL \<in> set (ch_signals c)) \<and>
    (ch_watchdog c = Grace \<and> \<not> ch_done c \<longrightarrow>
       (\<forall>c'. child_step c c' \<and> ch_watchdog c' \<noteq> Grace \<longrightarrow> ch_watchdog c' = Killing)) \<and>
    (ch_watchdog c = Killing \<longrightarrow>
       (\<forall>c'. child_step c c' \<and> ch_watchdog c' \<noteq> Killing \<longrightarrow> ch_signals c' = ch_signals c @ [SIGKILL])) \<and>
    (\<forall>c'. child_step\<^sup>*\<^sup>* c c' \<and> ch_done c \<and> ch_watchdog c \<noteq> Killing \<longrightarrow>
       (SIGKILL \<in> set (ch_signals c') \<longleftrightarrow> SIGKILL \<in> set (ch_signals c))) \<and>
    (\<forall>c'. child_step\<^sup>*\<^sup>* c c' \<and> ch_watched c \<longrightarrow> (SIGTERM \<in> set (ch_signals c') \<longleftrightarrow> SIGTERM \<in> set (ch_signals c))) \<and>
    (\<exists>c c'. child_reachable c \<and> ch_reaped c \<and> ch_done c \<and> child_step c c' \<and> ch_signals c = [] \<and> ch_signals c' = [SIGKILL])"
proof -
  have inv: "watchdog_inv c" by (rule watchdog_inv_reachable [OF assms])
  have cancel: "child_step c (c\<lparr>ch_cancelled := True, ch_signals := ch_signals c @ [SIGTERM]\<rparr>)"
    if "ch_ctx_done c" "\<not> ch_watched c" "SIGTERM \<notin> set (ch_signals c)"
    using that inv by (intro child_step.exec_cancel) (simp_all add: watchdog_inv_def)
  have grace: "ch_watchdog c' = Killing" if "child_step c c'" "ch_watchdog c = Grace" "\<not> ch_done c" "ch_watchdog c' \<noteq> Grace" for c'
    using that by (cases rule: child_step.cases) auto
  have killing: "ch_signals c' = ch_signals c @ [SIGKILL]" if "child_step c c'" "ch_watchdog c = Killing" "ch_watchdog c' \<noteq> Killing" for c'
    using that by (cases rule: child_step.cases) auto
  have start: "ch_signals c \<noteq> [] \<longrightarrow> ch_ctx_done c"
    using inv unfolding watchdog_inv_def by (metis (full_types) group_signal.exhaust last_in_set)
  show ?thesis
    using inv cancel grace killing start settled_steps reaped_child_killed
    unfolding watchdog_inv_def by (intro conjI impI allI) blast+
qed

theorem watchdog_signals_witness:
  "\<exists>c. child_reachable c \<and> ch_watchdog c = Grace \<and> \<not> ch_done c \<and>
     (\<forall>c'. child_step c c' \<and> ch_watchdog c' \<noteq> Grace \<longrightarrow> ch_watchdog c' = Killing)"
proof -
  let ?c1 = "startChild\<lparr>ch_ctx_done := True\<rparr>" and ?c2 = "startChild\<lparr>ch_ctx_done := True, ch_watchdog := Grace\<rparr>"
  have "child_step startChild ?c1" using child_step.ctx_ends [of startChild] by (simp add: startChild_def)
  moreover have "child_step ?c1 ?c2" using child_step.watch_ctx [of ?c1] by (simp add: startChild_def)
  ultimately have "child_reachable ?c2" by (blast intro: child_reachable.intros)
  moreover have "ch_watchdog ?c2 = Grace" "\<not> ch_done ?c2" by (simp_all add: startChild_def)
  ultimately show ?thesis using watchdog_signals [of ?c2] by blast
qed

section \<open>The loop\<close>

declare run_loop.simps [code]

abbreviation wrapper_client :: "wrapper_Config \<Rightarrow> ProxyClient" where
  "wrapper_client cfg \<equiv> NewProxyClient (wc_ProxyURL cfg) (wc_DeleteTimeout cfg) (wc_MaxDeleteRetries cfg)"

definition attempt_exit :: "run_env \<Rightarrow> wrapper_Config \<Rightarrow> string \<Rightarrow> string list \<Rightarrow> nat \<Rightarrow> attempt_end" where
  "attempt_exit e cfg bin args n = fst (run_attempt e cfg bin args (wrapper_client cfg) n)"

definition attempt_events :: "run_env \<Rightarrow> wrapper_Config \<Rightarrow> string \<Rightarrow> string list \<Rightarrow> nat \<Rightarrow> run_event list" where
  "attempt_events e cfg bin args n = snd (run_attempt e cfg bin args (wrapper_client cfg) n)"

lemma run_loop_step:
  "run_loop e cfg bin args (wrapper_client cfg) n trace =
     (case attempt_exit e cfg bin args n of
        Returns ret \<Rightarrow> Some (ret, trace @ attempt_events e cfg bin args n)
      | Again \<Rightarrow> run_loop e cfg bin args (wrapper_client cfg) (Suc n) (trace @ attempt_events e cfg bin args n)
      | Blocks \<Rightarrow> None)"
  by (subst run_loop.simps) (simp add: attempt_exit_def attempt_events_def split: prod.split attempt_end.split)

text \<open>The first attempt after which the wrapper does not go on decides the run.\<close>

lemma run_loop_reaches:
  assumes "\<forall>i<k. attempt_exit e cfg bin args (n + i) = Again" and "attempt_exit e cfg bin args (n + k) \<noteq> Again"
  shows "run_loop e cfg bin args (wrapper_client cfg) n trace =
    (case attempt_exit e cfg bin args (n + k) of
       Returns ret \<Rightarrow> Some (ret, trace @ concat (map (attempt_events e cfg bin args) [n..<Suc (n + k)]))
     | _ \<Rightarrow> None)"
  using assms
proof (induction k arbitrary: n trace)
  case 0
  then show ?case by (subst run_loop_step) (simp split: attempt_end.split)
next
  case (Suc k)
  have now: "attempt_exit e cfg bin args n = Again" using Suc.prems(1) by (metis add_0_right zero_less_Suc)
  have later: "attempt_exit e cfg bin args (Suc n + i) = Again" if "i < k" for i
    using Suc.prems(1) that by (metis Suc_less_eq add_Suc_shift)
  have "run_loop e cfg bin args (wrapper_client cfg) n trace =
      run_loop e cfg bin args (wrapper_client cfg) (Suc n) (trace @ attempt_events e cfg bin args n)"
    by (subst run_loop_step) (simp add: now)
  also have "\<dots> = (case attempt_exit e cfg bin args (Suc n + k) of
       Returns ret \<Rightarrow> Some (ret, (trace @ attempt_events e cfg bin args n) @ concat (map (attempt_events e cfg bin args) [Suc n..<Suc (Suc n + k)]))
     | _ \<Rightarrow> None)"
    using later Suc.prems(2) by (intro Suc.IH) simp_all
  finally show ?case by (simp add: upt_conv_Cons [of n] del: upt_Suc split: attempt_end.split)
qed

lemma run_loop_none:
  assumes "\<forall>i\<ge>n. attempt_exit e cfg bin args i = Again"
  shows "run_loop e cfg bin args (wrapper_client cfg) n trace = None"
proof (rule ccontr)
  assume "run_loop e cfg bin args (wrapper_client cfg) n trace \<noteq> None"
  then obtain r where r: "run_loop e cfg bin args (wrapper_client cfg) n trace = Some r" by blast
  let ?P = "\<lambda>e' cfg' bin' args' c' n' (trace' :: run_event list) (r :: int \<times> run_event list).
    e' = e \<and> cfg' = cfg \<and> bin' = bin \<and> args' = args \<and> c' = wrapper_client cfg \<longrightarrow> \<not> n \<le> n'"
  have "?P e cfg bin args (wrapper_client cfg) n trace r"
  proof (rule run_loop.raw_induct [where P = ?P, OF _ r])
    fix run e' cfg' bin' args' c' n' and trace' :: "run_event list" and r
    assume IH: "\<And>e' cfg' bin' args' c' n' trace' r. run e' cfg' bin' args' c' n' trace' = Some r \<Longrightarrow> ?P e' cfg' bin' args' c' n' trace' r"
      and ret: "(case run_attempt e' cfg' bin' args' c' n' of (Returns ret, ev) \<Rightarrow> Some (ret, trace' @ ev)
        | (Again, ev) \<Rightarrow> run e' cfg' bin' args' c' (Suc n') (trace' @ ev) | (Blocks, ev) \<Rightarrow> None) = Some r"
    show "?P e' cfg' bin' args' c' n' trace' r"
    proof (intro impI notI)
      assume eq: "e' = e \<and> cfg' = cfg \<and> bin' = bin \<and> args' = args \<and> c' = wrapper_client cfg" and le: "n \<le> n'"
      obtain ev where "run_attempt e cfg bin args (wrapper_client cfg) n' = (Again, ev)"
        using assms le by (cases "run_attempt e cfg bin args (wrapper_client cfg) n'") (auto simp: attempt_exit_def)
      then have "run e' cfg' bin' args' c' (Suc n') (trace' @ ev) = Some r" using ret eq by simp
      from IH [OF this] show False using eq le by simp
    qed
  qed
  then show False by simp
qed

text \<open>Which attempts block, and that one at the limit of restarts never goes on.\<close>

definition marker_fired :: "wrapper_Config \<Rightarrow> child_attempt \<Rightarrow> bool" where
  "marker_fired cfg a = fst (child_output (ra_Output a) (newLineTee '''' (wc_Marker cfg)) (newLineTee '''' (wc_Marker cfg)))"

lemma attempt_blocks:
  "attempt_exit e cfg bin args n = Blocks \<longleftrightarrow>
    ra_Start (re_Attempt e n) = None \<and> \<not> attempt_ends (marker_fired cfg (re_Attempt e n)) (re_Attempt e n)"
  by (simp add: attempt_exit_def run_attempt_def marker_fired_def Let_def case_prod_unfold split: option.split)

lemma last_attempt_exits:
  assumes "0 \<le> wc_MaxRestarts cfg" and "wc_MaxRestarts cfg \<le> int64_max"
  shows "attempt_exit e cfg bin args (nat (wc_MaxRestarts cfg)) \<noteq> Again"
proof -
  have "wrap64 (wc_MaxRestarts cfg) = wc_MaxRestarts cfg" using assms by (simp add: wrap64_id is_int64_def int64_bounds)
  then show ?thesis
    using assms(1)
    by (simp add: attempt_exit_def run_attempt_def Let_def split: option.split prod.split)
qed

lemma Run_decided:
  assumes "\<forall>i<k. attempt_exit e cfg bin args i = Again" and "attempt_exit e cfg bin args k \<noteq> Again"
  shows "Run e cfg bin args =
    (case attempt_exit e cfg bin args k of
       Returns ret \<Rightarrow> Some (ret, concat (map (attempt_events e cfg bin args) [0..<Suc k]))
     | _ \<Rightarrow> None)"
  using run_loop_reaches [of k e cfg bin args 0 "[]"] assms unfolding Run_def by (simp only: add_0 append_Nil) simp

lemma first_decision:
  fixes f :: "nat \<Rightarrow> attempt_end"
  assumes "f m \<noteq> Again"
  shows "(LEAST n. f n \<noteq> Again) \<le> m" and "f (LEAST n. f n \<noteq> Again) \<noteq> Again" and "\<forall>i<(LEAST n. f n \<noteq> Again). f i = Again"
  using assms by (rule Least_le, rule LeastI) (use not_less_Least [of _ "\<lambda>n. f n \<noteq> Again"] in blast)

text \<open>
  The supervision loop returns exactly when some attempt ends it before one blocks, and then with the exit
  code of that attempt and everything the attempts up to it did, in order. With unlimited restarts and a
  child that loops every time it never returns.
\<close>

theorem run_exact:
  "Run e cfg bin args =
     (if \<exists>n. attempt_exit e cfg bin args n \<noteq> Again
      then let k = (LEAST n. attempt_exit e cfg bin args n \<noteq> Again)
           in case attempt_exit e cfg bin args k of
                Returns ret \<Rightarrow> Some (ret, concat (map (attempt_events e cfg bin args) [0..<Suc k]))
              | _ \<Rightarrow> None
      else None)"
proof (cases "\<exists>n. attempt_exit e cfg bin args n \<noteq> Again")
  case True
  then obtain m where m: "attempt_exit e cfg bin args m \<noteq> Again" by blast
  show ?thesis unfolding if_P [OF True] Let_def by (rule Run_decided [OF first_decision(3) [of "attempt_exit e cfg bin args", OF m] first_decision(2) [of "attempt_exit e cfg bin args", OF m]])
next
  case False
  then show ?thesis using run_loop_none [of 0 e cfg bin args "[]"] by (simp add: Run_def)
qed

text \<open>
  C31. With a limit on the restarts the run is decided by an attempt no later than the limit: all attempts
  before it ended and were followed by a restart, and the wrapper returns with the exit code and the events of
  exactly these attempts, if that attempt could not be started or ends: its child exits by itself, or it
  is killed, because it printed the marker or the context ended, and dies of it. A child that does none of this keeps the
  wrapper waiting for ever, for there is no other bound on an attempt. So whatever the proxy and the operating system do, the wrapper
  returns as soon as every attempt ends.
\<close>

theorem run_terminates:
  assumes "0 \<le> wc_MaxRestarts cfg" and "wc_MaxRestarts cfg \<le> int64_max"
  shows "\<exists>k. int k \<le> wc_MaxRestarts cfg \<and> (\<forall>i<k. attempt_exit e cfg bin args i = Again) \<and>
    (if ra_Start (re_Attempt e k) \<noteq> None \<or> attempt_ends (marker_fired cfg (re_Attempt e k)) (re_Attempt e k)
     then \<exists>ret. attempt_exit e cfg bin args k = Returns ret \<and>
       Run e cfg bin args = Some (ret, concat (map (attempt_events e cfg bin args) [0..<Suc k]))
     else Run e cfg bin args = None)"
proof -
  define k where "k = (LEAST n. attempt_exit e cfg bin args n \<noteq> Again)"
  note first = first_decision [of "attempt_exit e cfg bin args", OF last_attempt_exits [OF assms], folded k_def]
  have "int k \<le> wc_MaxRestarts cfg" using first(1) assms(1) by simp
  with first(2,3) Run_decided [OF first(3,2)] attempt_blocks [of e cfg bin args k] show ?thesis
    by (intro exI [of _ k]) (cases "attempt_exit e cfg bin args k"; auto simp del: upt_Suc)
qed

section \<open>Recovery\<close>

text \<open>The writes of one of the two streams.\<close>

definition stream_writes :: "bool \<Rightarrow> child_write list \<Rightarrow> string list" where
  "stream_writes to_stderr ws = map (\<lambda>(_, _, p). p) (filter (\<lambda>(s, _, _). s = to_stderr) ws)"

lemma stream_writes_Cons: "stream_writes b ((s, failed, p) # ws) = (if b = s then p # stream_writes b ws else stream_writes b ws)"
  by (auto simp: stream_writes_def)

lemma child_output_fires:
  assumes "\<forall>(_, failed, _)\<in>set ws. failed = None"
  shows "child_output ws out err =
    (True \<in> set (fst (tee_writes (stream_writes False ws) out)) \<or> True \<in> set (fst (tee_writes (stream_writes True ws) err)),
     snd (tee_writes (stream_writes False ws) out), snd (tee_writes (stream_writes True ws) err))"
  using assms
proof (induction ws arbitrary: out err)
  case (Cons w ws)
  obtain to_stderr p where w: "w = (to_stderr, None, p)" using Cons.prems by (cases w) auto
  have IH: "child_output ws out err =
    (True \<in> set (fst (tee_writes (stream_writes False ws) out)) \<or> True \<in> set (fst (tee_writes (stream_writes True ws) err)),
     snd (tee_writes (stream_writes False ws) out), snd (tee_writes (stream_writes True ws) err))" for out err
    using Cons.IH Cons.prems by simp
  obtain n er fire tee where t: "lineTee_Write None p (if to_stderr then err else out) = ((n, er, fire), tee)"
    by (metis prod.exhaust)
  show ?case
    using t by (cases to_stderr) (auto simp: w stream_writes_Cons IH split: prod.split)
qed (simp add: stream_writes_def)

text \<open>
  C32. Recovery from a loop: when a child prints the marker on either stream, possibly split over writes
  that are none of them longer than 4097 bytes less the marker, and dies when it is killed, then however it ends, the attempt
  passes its output on unchanged, sends the proxy the requests to clear the history of the wrapper's agent (a failure
  of them is only logged), and is
  followed by a restart, or by the exit code 42 when the restarts are used up.
\<close>

theorem loop_is_recovered:
  assumes "ra_Start (re_Attempt e n) = None" and "\<not> ra_Done (re_Attempt e n)" and "ra_Fate (re_Attempt e n) \<noteq> NeverExits"
    and "\<forall>(_, failed, p)\<in>set (ra_Output (re_Attempt e n)). failed = None \<and> length p + length (wc_Marker cfg) \<le> 4097"
    and "wc_Marker cfg \<noteq> ''''" and "Contains (concat (stream_writes to_stderr (ra_Output (re_Attempt e n)))) (wc_Marker cfg)"
  shows "attempt_events e cfg bin args n =
      [Started bin args (childEnv (re_Environ e) cfg (wrap64 (int n) > 0)),
       Printed (concat (stream_writes False (ra_Output (re_Attempt e n)))) (concat (stream_writes True (ra_Output (re_Attempt e n))))] @
      (if wc_Watch cfg then [BarLoopDetected] else []) @
      [Cleared (wc_AgentID cfg) (snd (DeleteHistory (re_Parse e) (re_Client e n) (wrapper_client cfg) (wc_AgentID cfg)))] @
      (case fst (DeleteHistory (re_Parse e) (re_Client e n) (wrapper_client cfg) (wc_AgentID cfg)) of
         None \<Rightarrow> [] | Some err \<Rightarrow> [Logged (DeleteFailed (wc_AgentID cfg) err)]) @
      [Logged (if 0 \<le> wc_MaxRestarts cfg \<and> wc_MaxRestarts cfg \<le> wrap64 (int n) then GivingUp (wc_MaxRestarts cfg)
               else RestartAfterLoop (wrap64 (int n + 1)))] \<and>
    attempt_exit e cfg bin args n =
      (if 0 \<le> wc_MaxRestarts cfg \<and> wc_MaxRestarts cfg \<le> wrap64 (int n) then Returns 42 else Again)"
proof -
  let ?ws = "ra_Output (re_Attempt e n)" and ?t = "newLineTee '''' (wc_Marker cfg)"
  have "True \<in> set (fst (tee_writes (stream_writes to_stderr ?ws) ?t))"
  proof (rule marker_fires [OF assms(5) _ assms(6)])
    show "\<forall>w\<in>set (stream_writes to_stderr ?ws). length w + length (wc_Marker cfg) \<le> 4097"
      using assms(4) by (auto simp: stream_writes_def)
  qed
  moreover have "\<forall>(_, failed, _)\<in>set ?ws. failed = None" using assms(4) by auto
  moreover have "lt_dst (snd (tee_writes ps ?t)) = concat ps" for ps by (simp add: tee_writes_new)
  ultimately obtain out err where out: "child_output ?ws ?t ?t = (True, out, err)"
      "lt_dst out = concat (stream_writes False ?ws)" "lt_dst err = concat (stream_writes True ?ws)"
    by (cases to_stderr) (auto simp: child_output_fires)
  have "attempt_ends True (re_Attempt e n)"
    using assms(3) by (cases "ra_Fate (re_Attempt e n)") (simp_all add: attempt_ends_def)
  then show ?thesis
    using assms(1,2)
    by (simp add: attempt_events_def attempt_exit_def run_attempt_def out Let_def case_prod_unfold)
qed

definition example_run :: run_env where
  "example_run =
     \<lparr>re_Parse = (\<lambda>_. Inr example_base), re_Environ = [''HOME=/''],
      re_Client = (\<lambda>_. \<lparr>ce_NewRequest = \<lambda>_. None, ce_Do = \<lambda>_. Inr 204, ce_Done = \<lambda>_. None\<rparr>),
      re_Attempt = (\<lambda>n.
        if n = 0 then \<lparr>ra_Start = None, ra_Output = [(True, None, ''x agent_lo''), (False, None, ''hi''), (True, None, ''op_exception'')],
                       ra_Done = False, ra_Fate = ExitsKilled, ra_Wait = Some ''signal: terminated'', ra_State = Signaled 15\<rparr>
        else \<lparr>ra_Start = None, ra_Output = [], ra_Done = False, ra_Fate = ExitsAlone, ra_Wait = None, ra_State = Exited 0\<rparr>)\<rparr>"

text \<open>The same with a second child that hangs in silence.\<close>

definition example_hang :: run_env where
  "example_hang = example_run\<lparr>re_Attempt := (\<lambda>n. (re_Attempt example_run n)\<lparr>ra_Fate := ExitsKilled\<rparr>)\<rparr>"

theorem run_terminates_witness:
  "(\<exists>k ret. int k \<le> 3 \<and> Run example_run wrapper_DefaultConfig ''claude'' [] =
     Some (ret, concat (map (attempt_events example_run wrapper_DefaultConfig ''claude'' []) [0..<Suc k]))) \<and>
   Run example_hang wrapper_DefaultConfig ''claude'' [] = None"
proof
  have lim: "0 \<le> wc_MaxRestarts wrapper_DefaultConfig" "wc_MaxRestarts wrapper_DefaultConfig \<le> int64_max"
      "wc_MaxRestarts wrapper_DefaultConfig = 3"
    by (simp_all add: wrapper_DefaultConfig_def int64_max_def)
  have fired: "marker_fired wrapper_DefaultConfig (re_Attempt example_run 0)" by code_simp
  have ends: "attempt_ends (marker_fired wrapper_DefaultConfig (re_Attempt example_run k)) (re_Attempt example_run k)" for k
    using fired by (cases "k = 0") (simp_all add: example_run_def attempt_ends_def)
  show "\<exists>k ret. int k \<le> 3 \<and> Run example_run wrapper_DefaultConfig ''claude'' [] =
      Some (ret, concat (map (attempt_events example_run wrapper_DefaultConfig ''claude'' []) [0..<Suc k]))"
    using run_terminates [OF lim(1,2), of example_run "''claude''" "[]"] ends lim(3) by metis
  obtain k where k: "\<forall>i<k. attempt_exit example_hang wrapper_DefaultConfig ''claude'' [] i = Again"
      "if ra_Start (re_Attempt example_hang k) \<noteq> None \<or> attempt_ends (marker_fired wrapper_DefaultConfig (re_Attempt example_hang k)) (re_Attempt example_hang k)
       then \<exists>ret. attempt_exit example_hang wrapper_DefaultConfig ''claude'' [] k = Returns ret \<and>
         Run example_hang wrapper_DefaultConfig ''claude'' [] = Some (ret, concat (map (attempt_events example_hang wrapper_DefaultConfig ''claude'' []) [0..<Suc k]))
       else Run example_hang wrapper_DefaultConfig ''claude'' [] = None"
    using run_terminates [OF lim(1,2), of example_hang "''claude''" "[]"] by blast
  have zero: "attempt_exit example_hang wrapper_DefaultConfig ''claude'' [] 0 = Again"
    and one: "attempt_exit example_hang wrapper_DefaultConfig ''claude'' [] 1 = Blocks" by code_simp+
  have "attempt_exit example_hang wrapper_DefaultConfig ''claude'' [] k \<noteq> Again"
    using k(2) attempt_blocks [of example_hang wrapper_DefaultConfig "''claude''" "[]" k] by (metis attempt_end.distinct(1,5))
  then have "k \<noteq> 0" using zero by metis
  moreover have "\<not> 1 < k" using k(1) one by (metis attempt_end.distinct(5))
  ultimately have "k = 1" by simp
  then show "Run example_hang wrapper_DefaultConfig ''claude'' [] = None"
    using k(2) one by (metis attempt_end.distinct(3))
qed

theorem loop_is_recovered_witness:
  "attempt_exit example_run wrapper_DefaultConfig ''claude'' [] 0 = Again \<and>
   (\<exists>did report. attempt_events example_run wrapper_DefaultConfig ''claude'' [] 0 =
      [Started ''claude'' [] [''HOME=/'', ''FINOPS_AGENT_ID=''], Printed ''hi'' ''x agent_loop_exception''] @ [] @ [Cleared '''' did] @ report)"
proof -
  let ?ws = "ra_Output (re_Attempt example_run 0)"
  have ws: "stream_writes False ?ws = [''hi'']" "stream_writes True ?ws = [''x agent_lo'', ''op_exception'']" by code_simp+
  have cfg: "wc_Marker wrapper_DefaultConfig = ''agent_loop_exception''" "\<not> wc_Watch wrapper_DefaultConfig"
    "wc_AgentID wrapper_DefaultConfig = ''''" "wc_MaxRestarts wrapper_DefaultConfig = 3" by (simp_all add: wrapper_DefaultConfig_def)
  have "Contains (concat (stream_writes True ?ws)) (wc_Marker wrapper_DefaultConfig)" by code_simp
  moreover have "\<forall>(_, failed, p)\<in>set ?ws. failed = None \<and> length p + length (wc_Marker wrapper_DefaultConfig) \<le> 4097"
    by (simp add: example_run_def cfg(1))
  moreover have "ra_Start (re_Attempt example_run 0) = None" "\<not> ra_Done (re_Attempt example_run 0)"
    "ra_Fate (re_Attempt example_run 0) \<noteq> NeverExits" by (simp_all add: example_run_def)
  moreover have "childEnv (re_Environ example_run) wrapper_DefaultConfig (wrap64 (int 0) > 0) = [''HOME=/'', ''FINOPS_AGENT_ID='']"
    by code_simp
  ultimately show ?thesis
    using loop_is_recovered [of example_run 0 wrapper_DefaultConfig True "''claude''" "[]"] by (simp add: ws cfg wrap64_id is_int64_iff)
qed

end
