(* ===== verification/Spec2Isabelle.thy ===== *)
theory Spec2Isabelle
  imports Pipeline Price_Registry Catalog_Fetcher Static_Prices Mock_Server Alert_Log Agent_Wrapper Budget_Monitor Proxy_Store Log_Hub Proxy_Metrics Request_Path
begin

text \<open>
  FinOps proxy: a reverse proxy in front of a language-model API that recognises looping agents,
  enforces budgets and accounts for costs, with the command that serves it
  (\<^verbatim>\<open>cmd/proxy\<close>), a wrapper that restarts a looping agent
  (\<^verbatim>\<open>cmd/finops-run\<close>) and a mock upstream (\<^verbatim>\<open>cmd/mockserver\<close>).
  This library models the program in definitions that follow the source function by function, and
  proves what makes its parts correct, alone and together. Names are those of the source, with the
  receiver's type in front of a method (\<^verbatim>\<open>HashDetector.Check\<close> is
  \<open>HashDetector_Check\<close>) and a short prefix in front of a field.

  \<^bold>\<open>How the program is modelled.\<close> A struct is a record, an operation is a function from
  the state to its result and the next state. An operation that runs under one lock is one step;
  where a lock is released in between (refreshes of the registry, deliveries to subscribers, the
  watchdog of the child) the critical sections are separate steps and the properties hold for every
  interleaving. A reading of the clock, the order of a \<^verbatim>\<open>range\<close> over a map and
  what the network, the file system or a process does are arguments. Errors are values
  (\<open>error + 'a\<close>, \<open>option\<close> or a datatype per component), a panic is
  \<open>Panic\<close> or \<open>None\<close>. An \<^verbatim>\<open>int64\<close> is an integer with
  \<open>wrap64\<close> around every operation that can leave its range, \<^verbatim>\<open>uint64\<close>
  a 64-bit word, \<^verbatim>\<open>float64\<close> an IEEE binary64 number.

  \<^bold>\<open>The language and its library.\<close> \<^theory_text>\<open>Go_Prelude\<close> (integers, clock,
  ceilings, lists), \<^theory_text>\<open>Go_Map\<close> (maps and their iteration),
  \<^theory_text>\<open>Go_Float\<close> and \<^theory_text>\<open>Go_Decimal\<close> (binary64, decimal literals),
  \<^theory_text>\<open>Go_Strings\<close>, \<^theory_text>\<open>Go_JSON\<close> and
  \<^theory_text>\<open>Go_JSON_Encode\<close> (decoding into structs; encoding, and that decoding reads
  back what was encoded), \<^theory_text>\<open>Go_SHA256\<close>, \<^theory_text>\<open>Go_Calendar\<close>,
  \<^theory_text>\<open>Go_URL\<close> (percent encoding, segments of a request path) and
  \<^theory_text>\<open>Go_Flag\<close>.

  \<^bold>\<open>Loop detection\<close> (\<^verbatim>\<open>pkg/circuitbreaker\<close>).
  \<^theory_text>\<open>Detector\<close> has the data detectors exchange and two interfaces:
  \<open>agent_scoped\<close>, a detector whose verdicts on an agent depend on that agent only, and
  \<open>agent_states\<close>, a detector with a map of states per agent and a bound on its size, which
  gives the first. \<^theory_text>\<open>Hash_Detector\<close> (exact repeats),
  \<^theory_text>\<open>Velocity_Breaker\<close> (token rates), \<^theory_text>\<open>Structural_Hasher\<close>
  (near duplicates) and \<^theory_text>\<open>Tool_Matcher\<close> (cycles of tool calls) model one detector
  each, interpret these interfaces on it and show that over any run it answers as a specification on
  the history of the agent does. \<^theory_text>\<open>Pipeline\<close> composes the four and is an
  \<open>agent_scoped\<close> detector again.

  \<^bold>\<open>Prices\<close> (\<^verbatim>\<open>pkg/pricing\<close>). \<^theory_text>\<open>Price_Table\<close>
  (lookup by longest prefix, costs in micro-dollars), \<^theory_text>\<open>Static_Prices\<close> (the price
  file), \<^theory_text>\<open>Catalog_Fetcher\<close> (the remote catalog) and
  \<^theory_text>\<open>Price_Registry\<close> (the served table, its refreshes as steps, the background loop; readers
  always find a table exactly when every persistence hook returns one or an error).
  Together: from a loaded file on, whatever the network answers, a table with sane prices is served.

  \<^bold>\<open>Requests\<close> (\<^verbatim>\<open>pkg/proxy\<close>, \<^verbatim>\<open>pkg/logstream\<close>).
  \<^theory_text>\<open>Proxy_Store\<close> (callers, keys, the seams of the store as the interfaces
  \<open>caller_store\<close> and \<open>budget_ledger\<close>, and the memory store that
  implements them), \<^theory_text>\<open>SQLite_Store\<close> (the database store, which answers every
  sequence of operations as the memory store does), \<^theory_text>\<open>Budget_Monitor\<close> (daily
  alerts, calendar windows), \<^theory_text>\<open>Log_Hub\<close> (the live log with slow readers),
  \<^theory_text>\<open>Proxy_Metrics\<close> (counters and the token gauge),
  \<^theory_text>\<open>Cost_Tracking\<close> (token usage read off a response as it passes),
  \<^theory_text>\<open>Handler\<close> (every step of the handler over a state \<open>world\<close>) and
  \<^theory_text>\<open>Request_Path\<close> (what the handler guarantees for any detector, price source and
  store). \<^theory_text>\<open>Logging\<close> has the two loggers of
  \<^verbatim>\<open>internal/logging\<close> down to the bytes they write, and
  \<^theory_text>\<open>Alert_Log\<close> what a blocked request leaves on standard output, to which one logger writes
  both the alerts it is handed and the live log it subscribes to.

  \<^bold>\<open>Commands.\<close> \<^theory_text>\<open>Proxy_Server\<close> (flags, keys file, wiring and root
  routes of \<^verbatim>\<open>cmd/proxy\<close>), \<^theory_text>\<open>Loop_Watch\<close>,
  \<^theory_text>\<open>Proxy_Client\<close>, \<^theory_text>\<open>Status_Bar\<close> and
  \<^theory_text>\<open>Agent_Wrapper\<close> (\<^verbatim>\<open>internal/wrapper\<close>: the output of
  the child, the client of the proxy, the status line, arguments, watchdog and supervision loop) and
  \<^theory_text>\<open>Mock_Server\<close>.

  \<^bold>\<open>This theory\<close> joins the parts: the handler over the exact detector answers a run of
  requests as the window specification says (\<open>loop_protection\<close>), the history route of the
  handler over the pipeline (\<open>delete_history_route\<close>), and the recovery of a wrapped agent
  through that route (\<open>recovery_clears_history\<close>, \<open>recovery_needs_open_proxy\<close>).

  \<^bold>\<open>Recursion and bounds.\<close> Loops are recursive functions with a measure. Only the
  supervision loop of the wrapper need not end: it is a partial function, and
  \<open>run_terminates\<close> shows that with limited restarts it returns exactly when the attempt that
  decides it ends, which a child that runs on for ever does not. The parser of
  durations takes the length of its text as fuel, and every item consumes a character, so the fuel
  never runs out. Statements about detectors assume a clock that does not go back and, where they
  relate verdicts to the whole history, that no entry was evicted; the eviction itself is modelled.

  \<^bold>\<open>Not modelled.\<close> The transport between proxy and upstream and the rewriting of the URL
  by \<^verbatim>\<open>net/http\<close>; listening and shutting down; the database engine and its object
  mapper (a record of the calls with laws: the texts of the sum queries mean what a small parser and
  evaluator of SQL in \<^theory_text>\<open>SQLite_Store\<close> gives them, the other statements have
  their documented effect);
  \<^verbatim>\<open>url.Parse\<close> and \<^verbatim>\<open>filepath.Dir\<close> (arguments); the contents of
  the embedded dashboard page; the texts of diagnostic log lines; the printed form of a
  \<^verbatim>\<open>float64\<close> in JSON and of a time. Buffer pools, the constant-time comparison of
  keys and the contexts of requests beyond their cancellation have no effect that a definition could
  show.
\<close>

section \<open>The proxy over the exact-repeat detector\<close>

text \<open>
  The handler asks a detector through an interface; the readings of the clock and the iteration order
  of the map during one request are part of it.
\<close>

definition hash_if :: "time \<Rightarrow> key range_order \<Rightarrow> HashDetector detector_if" where
  "hash_if t ord = \<lparr>di_Check = HashDetector_Check t ord, di_CheckPayload = None, di_Reset = HashDetector_Reset ord\<rparr>"

definition pipeline_if :: "stage_env \<Rightarrow> Pipeline detector_if" where
  "pipeline_if env = \<lparr>di_Check = (let (t, ord) = se_exact env in Pipeline_Check t ord),
     di_CheckPayload = Some (Pipeline_CheckPayload env), di_Reset = Pipeline_Reset (snd (se_exact env))\<rparr>"

text \<open>Requests served one after the other: the clock of the handler, the one of the detector, the
  iteration order and the request with the body it carries.\<close>

type_synonym arrival = "(nat \<Rightarrow> time) \<times> time \<times> key range_order \<times> Request \<times> string"

fun serve_run :: "(HashDetector, 's) handler \<Rightarrow> arrival list \<Rightarrow> (HashDetector, 's) world \<Rightarrow> reply list \<times> (HashDetector, 's) world" where
  "serve_run h [] w = ([], w)"
| "serve_run h ((clk, t, ord, r, body) # xs) w =
     (let (rp, w) = ServeHTTP clk (h\<lparr>h_det := hash_if t ord\<rparr>) r w; (rps, w) = serve_run h xs w in (rp # rps, w))"

fun arrival_check :: "arrival \<Rightarrow> hash_request" where
  "arrival_check (clk, t, ord, r, body) = (t, ord, rq_AgentID r, sha256_hex body)"

text \<open>The reply a verdict calls for.\<close>

fun reply_matches :: "arrival \<Rightarrow> CheckResult \<Rightarrow> reply \<Rightarrow> bool" where
  "reply_matches (clk, t, ord, r, body) v rp \<longleftrightarrow>
     (if cr_Block v then is_Reply rp \<and> rp_status rp = 429 \<and> rp_retry rp = Some (Itoa (cr_RetryAfter v))
      else \<not> is_Reply rp \<and> rq_Body (rp_request rp) = Inr body \<and> rq_ContentLength (rp_request rp) = int (length body))"

lemma serve_run_replies:
  assumes "h_ledger h = None" and "\<forall>(clk, t, ord, r, body)\<in>set xs. checked r body" and "i < length xs"
  shows "reply_matches (xs ! i) (fst (hash_run (map arrival_check xs) (w_det w)) ! i) (fst (serve_run h xs w) ! i)"
  using assms(2,3)
proof (induction xs arbitrary: w i)
  case (Cons x xs)
  obtain clk t ord r body where x: "x = (clk, t, ord, r, body)" by (cases x)
  let ?h = "h\<lparr>h_det := hash_if t ord\<rparr>"
  obtain res d where c: "HashDetector_Check t ord (rq_AgentID r) (sha256_hex body) (w_det w) = (res, d)"
    by (cases "HashDetector_Check t ord (rq_AgentID r) (sha256_hex body) (w_det w)")
  have "checked r body" using Cons.prems(1) x by simp
  moreover have "budget_gate clk ?h r w = None" using assms(1) by (simp add: budget_gate_def)
  moreover have "detector_verdict (h_det ?h) (rq_AgentID r) (sha256_hex body) body (w_det w) = (res, d)"
    using c by (simp add: detector_verdict_def hash_if_def)
  ultimately have s: "ServeHTTP clk ?h r w =
    (if cr_Block res
     then let (rp, w') = block_request clk ?h r body (sha256_hex body) res (judged_world clk ?h r body d w)
          in (rp, w'\<lparr>w_metrics := markDone (w_metrics w')\<rparr>)
     else (Forward (rewind_body clk ?h r body (sha256_hex body)), judged_world clk ?h r body d w))" by (rule serve_outcome)
  obtain rp w' where sv: "ServeHTTP clk ?h r w = (rp, w')" by (cases "ServeHTTP clk ?h r w")
  have "w_det w' = d" "reply_matches x res rp"
    using sv s by (auto simp: x case_prod_unfold Let_def block_request_reply split: if_splits)
  then show ?case
    using Cons.IH [of "i - 1" w'] Cons.prems sv c by (cases i) (auto simp: x case_prod_unfold Let_def)
qed simp

text \<open>
  C1. Loop protection end to end: over any sequence of POST requests with readable bodies and no
  budget ledger, served by the handler over a new exact-repeat detector, the reply to each request is
  determined by the times at which the same agent sent a body with the same SHA-256 before. It is a 429
  with the rest of the TTL window as Retry-After exactly when the request is at least the
  \<open>max 2 limit\<close>-th of its window; otherwise it is forwarded with its bytes and length intact. It
  holds as long as fewer than \<^verbatim>\<open>maxEntries\<close> different pairs occur.
\<close>

theorem loop_protection:
  assumes "h_ledger h = None" and "\<forall>(clk, t, ord, r, body)\<in>set xs. checked r body \<and> 0 < t"
    and "card (req_key ` arrival_check ` set xs) < 100000" and "int (length xs) \<le> int64_max"
    and "w_det w = NewHashDetector ttl limit" and "xs ! i = (clk, t, ord, r, body)" and "i < length xs"
  shows "let v = verdict_spec ttl (if limit \<le> 0 then 2 else limit)
           (times_of (Key (rq_AgentID r) (sha256_hex body)) (map arrival_check (take i xs))) t;
         rp = fst (serve_run h xs w) ! i
    in if cr_Block v then (\<exists>message. rp = Reply 429 (Some (Itoa (cr_RetryAfter v))) message)
       else (\<exists>r'. rp = Forward r' \<and> rq_Body r' = Inr body \<and> rq_ContentLength r' = int (length body))"
proof -
  let ?rs = "map arrival_check xs"
  define v where "v = verdict_spec ttl (if limit \<le> 0 then 2 else limit)
    (times_of (Key (rq_AgentID r) (sha256_hex body)) (map arrival_check (take i xs))) t"
  have "\<forall>r\<in>set ?rs. 0 < req_time r" using assms(2) by auto
  then have "fst (hash_run ?rs (w_det w)) ! i = v"
    using hash_run_spec [OF hash_sim_New, of ?rs ttl limit i] assms(3-7)
    by (simp add: NewHashDetector_def maxEntries_def v_def take_map)
  moreover have "reply_matches (xs ! i) (fst (hash_run ?rs (w_det w)) ! i) (fst (serve_run h xs w) ! i)"
    using assms(1,2,7) by (intro serve_run_replies) auto
  ultimately have "reply_matches (clk, t, ord, r, body) v (fst (serve_run h xs w) ! i)" using assms(6) by simp
  then have "if cr_Block v then (\<exists>message. fst (serve_run h xs w) ! i = Reply 429 (Some (Itoa (cr_RetryAfter v))) message)
       else (\<exists>r'. fst (serve_run h xs w) ! i = Forward r' \<and> rq_Body r' = Inr body \<and> rq_ContentLength r' = int (length body))"
    by (cases "fst (serve_run h xs w) ! i") (auto split: if_splits)
  then show ?thesis by (simp only: Let_def v_def)
qed

definition example_arrivals :: "arrival list" where
  "example_arrivals = map (\<lambda>t. (\<lambda>_. t, t, in_order, example_request, ''{}'')) [10, 11]"

theorem loop_protection_witness:
  "\<exists>message. fst (serve_run (new_handler (hash_if 0 in_order) None [] :: (HashDetector, unit) handler) example_arrivals
     \<lparr>w_det = NewHashDetector (5 * Minute) 0, w_store = (), w_metrics = None, w_budget = None, w_notified = [], w_published = [],
      w_emitted = [], w_incidents = []\<rparr>) ! 1 = Reply 429 (Some (Itoa 300)) message"
proof -
  let ?h = "new_handler (hash_if 0 in_order) None [] :: (HashDetector, unit) handler"
  let ?w = "\<lparr>w_det = NewHashDetector (5 * Minute) 0, w_store = (), w_metrics = None, w_budget = None, w_notified = [], w_published = [],
      w_emitted = [], w_incidents = []\<rparr>"
  let ?v = "verdict_spec (5 * Minute) 2 [10] 11"
  have v: "cr_Block ?v" "cr_RetryAfter ?v = 300" by code_simp+
  have "h_ledger ?h = None" by (simp add: new_handler_def)
  moreover have "\<forall>(clk, t, ord, r, body)\<in>set example_arrivals. checked r body \<and> 0 < t"
    using example_checked by (simp add: example_arrivals_def)
  moreover have "req_key ` arrival_check ` set example_arrivals = {Key (rq_AgentID example_request) (sha256_hex ''{}'')}"
    by (simp add: example_arrivals_def)
  moreover have "times_of (Key (rq_AgentID example_request) (sha256_hex ''{}'')) (map arrival_check (take 1 example_arrivals)) = [10]"
    by (simp add: example_arrivals_def times_of_def)
  ultimately show ?thesis
    using loop_protection [of ?h example_arrivals ?w "5 * Minute" 0 1 "\<lambda>_. 11" 11 in_order example_request "''{}''"] v
    by (simp add: example_arrivals_def int64_bounds Let_def)
qed

section \<open>The history route over the pipeline\<close>

text \<open>
  The history route end to end: \<^verbatim>\<open>DELETE /v1/agent/{id}/history\<close> on the proxy over
  the detector pipeline answers 204 whether or not the agent was known, sends nothing upstream and
  leaves the ledger, the metrics and the notifications alone; the agent's next request is judged as by a
  pipeline of the same configuration that has never seen it, and every other agent's as if the route had
  not been called.
\<close>

theorem delete_history_route:
  assumes "pipeline_wf (w_det w)" and "rq_Method r = ''DELETE''" and "rq_Path r = [''v1'', ''agent'', agent, ''history'']"
    and "h_det h = pipeline_if env" and "mux clk h r w = (rp, w')"
  shows "rp = Reply 204 None '''' \<and> w' = w\<lparr>w_det := w_det w'\<rparr> \<and>
    (\<forall>q env' fp body. pipeline_wf q \<and> pipeline_config q = pipeline_config (w_det w) \<and> pipeline_history q agent = Map.empty \<longrightarrow>
       fst (detector_verdict (pipeline_if env') agent fp body (w_det w')) = fst (detector_verdict (pipeline_if env') agent fp body q)) \<and>
    (\<forall>b env' fp body. b \<noteq> agent \<longrightarrow>
       fst (detector_verdict (pipeline_if env') b fp body (w_det w')) = fst (detector_verdict (pipeline_if env') b fp body (w_det w)))"
proof -
  have w': "rp = Reply 204 None ''''" "w' = w\<lparr>w_det := snd (Pipeline_Reset (snd (se_exact env)) agent (w_det w))\<rparr>"
    using assms(2-5) by (auto simp: mux_def handleDeleteHistory_def pipeline_if_def)
  show ?thesis
    using pipeline.reset_then_fresh [OF assms(1)] pipeline.reset_isolated [OF assms(1)]
    unfolding w' by (simp add: detector_verdict_def pipeline_if_def) (metis (mono_tags, lifting) case_prod_conv)
qed

theorem delete_history_route_witness:
  "fst (mux (\<lambda>i. 0) (new_handler (pipeline_if env0) None []) (example_request\<lparr>rq_Method := ''DELETE'', rq_Path := [''v1'', ''agent'', ''a'', ''history'']\<rparr>)
     \<lparr>w_det = small_pipeline, w_store = (), w_metrics = None, w_budget = None, w_notified = [], w_published = [],
      w_emitted = [], w_incidents = []\<rparr>) = Reply 204 None ''''"
proof -
  let ?w = "\<lparr>w_det = small_pipeline, w_store = (), w_metrics = None, w_budget = None, w_notified = [], w_published = [],
      w_emitted = [], w_incidents = []\<rparr>"
  have "pipeline_wf (w_det ?w)" using small_pipeline_wf by simp
  from delete_history_route [OF this _ _ _ prod.collapse [symmetric]] show ?thesis by (simp add: new_handler_def)
qed

section \<open>The wrapper and the proxy\<close>

text \<open>
  What the proxy does with the wrapper's \<^verbatim>\<open>DELETE\<close> to a path: the mux redirects a path
  that is not clean; otherwise the request is handled with the segments of the path. The wrapper sends
  no headers of its own.
\<close>

definition wrapper_request :: "string list \<Rightarrow> Request" where
  "wrapper_request segs =
     \<lparr>rq_Method = ''DELETE'', rq_Path = segs, rq_ContentLength = 0, rq_Body = Inr '''', rq_AgentID = '''', rq_Project = '''',
      rq_APIKey = '''', rq_Caller = None, rq_Meta = None\<rparr>"

definition serve_path :: "(nat \<Rightarrow> time) \<Rightarrow> ('d, 's) handler \<Rightarrow> string \<Rightarrow> ('d, 's) world \<Rightarrow> reply \<times> ('d, 's) world" where
  "serve_path clk h path w =
     (case request_segments path of
        None \<Rightarrow> (Reply 301 None '''', w)
      | Some segs \<Rightarrow> handle clk h (wrapper_request segs) w)"

text \<open>
  C33. Recovery end to end: over a proxy without authentication whose base URL has an authority and a
  path without an encoding of its own, the wrapper's request to clear the history of an agent is answered
  204, which the wrapper takes as success, and resets the detector for the agent named by the
  percent-encoded id and for nobody else; that is the wrapper's agent exactly when its id needs no
  percent encoding, as every id derived from the command line.
\<close>

theorem recovery_clears_history:
  assumes "parse (pc_baseURL c) = Inr u" and "u_Opaque u = ''''" and "u_RawPath u = ''''" and "h_auth h = None"
    and "agent \<notin> {'''', ''.'', ''..''}"
  shows "(\<exists>suffix. buildURL parse c agent = u_Before u @ history_path agent @ suffix) \<and>
    serve_path clk h (history_path agent) w = (Reply 204 None '''', w\<lparr>w_det := snd (di_Reset (h_det h) (PathEscape agent) (w_det w))\<rparr>) \<and>
    (PathEscape agent = agent \<longleftrightarrow> plain_id agent) \<and> plain_id (DefaultAgentID bin args)"
proof -
  let ?path = "history_path agent"
  have "request_segments ?path = Some [''v1'', ''agent'', PathEscape agent, ''history'']" using assms(5) history_segments by simp
  then have "serve_path clk h ?path w = (Reply 204 None '''', w\<lparr>w_det := snd (di_Reset (h_det h) (PathEscape agent) (w_det w))\<rparr>)"
    using assms(4) by (simp add: serve_path_def handle_def mux_def wrapper_request_def handleDeleteHistory_def)
  moreover have "plain_id (DefaultAgentID bin args)" by (rule hex_digits_plain) (rule DefaultAgentID_hex(2))
  ultimately show ?thesis
    using PathEscape_plain [of agent] buildURL_path [where parse = parse, OF assms(1-3), of agent] by blast
qed

theorem recovery_clears_history_witness:
  "(\<exists>suffix. buildURL (\<lambda>_. Inr example_base) (NewProxyClient ''http://p'' Second 3) ''a/b'' = ''http://p'' @ history_path ''a/b'' @ suffix) \<and>
     serve_path (\<lambda>i. 0) (example_handler example_verdict) (history_path ''a/b'') example_world =
       (Reply 204 None '''', example_world\<lparr>w_det := snd (di_Reset (h_det (example_handler example_verdict)) ''a%2Fb'' (w_det example_world))\<rparr>)"
proof -
  let ?c = "NewProxyClient ''http://p'' Second 3"
  have e: "PathEscape ''a/b'' = ''a%2Fb''" by code_simp
  have base: "u_Opaque example_base = ''''" "u_RawPath example_base = ''''" "u_Before example_base = ''http://p''"
    by (simp_all add: example_base_def)
  have "h_auth (example_handler example_verdict) = None" by (simp add: example_handler_def new_handler_def WithStore_def WithNotifier_def WithLogStream_def)
  from recovery_clears_history [of "\<lambda>_. Inr example_base" ?c example_base "example_handler example_verdict" "''a/b''" "\<lambda>i. 0" example_world, OF refl base(1,2) this]
  show ?thesis by (simp add: e base(3))
qed

text \<open>
  C34. With a keys file the wrapper cannot recover its agent: the proxy's authentication covers the
  history route, the wrapper has no key to send, so its request is answered 401 and changes nothing,
  and clearing the history fails at once with an unexpected status.
\<close>

theorem recovery_needs_open_proxy:
  assumes "h_auth h = Some (Authenticate by_hash)" and "agent \<notin> {'''', ''.'', ''..''}"
    and "ce_NewRequest env (buildURL parse c agent) = None" and "0 \<le> pc_maxRetries c"
    and "ce_Do env 0 = Inr (rp_status (fst (serve_path clk h (history_path agent) w)))"
  shows "snd (serve_path clk h (history_path agent) w) = w \<and>
    DeleteHistory parse env c agent = (Some ''proxy returned status 401 (unexpected)'', [Requested (buildURL parse c agent)])"
proof -
  let ?path = "history_path agent"
  have segs: "request_segments ?path = Some [''v1'', ''agent'', PathEscape agent, ''history'']" using assms(2) history_segments by simp
  have served: "snd (serve_path clk h ?path w) = w" "rp_status (fst (serve_path clk h ?path w)) = 401"
    using assms(1) by (simp_all add: serve_path_def segs handle_def Middleware_def Authenticate_def wrapper_request_def)
  have msg: "status_error 401 @ '' (unexpected)'' = ''proxy returned status 401 (unexpected)''" by code_simp
  have "attempt_end env (buildURL parse c agent) 0 = Some (Some ''proxy returned status 401 (unexpected)'')"
    using assms(3,5) served(2) msg by (simp add: attempt_end_def)
  moreover have "attempt_trace env c (buildURL parse c agent) 0 = [Requested (buildURL parse c agent)]"
    using assms(3) by (simp add: attempt_trace_def)
  ultimately show ?thesis using assms(4) served(1) by (simp add: DeleteHistory_def delete_loop_step)
qed

theorem recovery_needs_open_proxy_witness:
  "let h = WithAuth (Some (Authenticate (\<lambda>_. Inl ErrInvalidKey))) (example_handler example_verdict);
       env = \<lparr>ce_NewRequest = \<lambda>_. None, ce_Do = \<lambda>_. Inr 401, ce_Done = \<lambda>_. None\<rparr>; c = NewProxyClient ''http://p'' Second 3
   in DeleteHistory (\<lambda>_. Inr example_base) env c ''a'' =
        (Some ''proxy returned status 401 (unexpected)'', [Requested (buildURL (\<lambda>_. Inr example_base) c ''a'')])"
proof -
  let ?h = "WithAuth (Some (Authenticate (\<lambda>_. Inl ErrInvalidKey))) (example_handler example_verdict)"
  let ?env = "\<lparr>ce_NewRequest = \<lambda>_. None, ce_Do = \<lambda>_. Inr 401, ce_Done = \<lambda>_. None\<rparr>"
  have auth: "h_auth ?h = Some (Authenticate (\<lambda>_. Inl ErrInvalidKey))" by (simp add: WithAuth_def)
  have "request_segments (history_path ''a'') = Some [''v1'', ''agent'', ''a'', ''history'']"
    by code_simp
  then have "rp_status (fst (serve_path (\<lambda>i. 0) ?h (history_path ''a'') example_world)) = 401"
    using auth by (simp add: serve_path_def handle_def Middleware_def Authenticate_def wrapper_request_def)
  then show ?thesis
    using recovery_needs_open_proxy [OF auth, of "''a''" ?env "\<lambda>_. Inr example_base" "NewProxyClient ''http://p'' Second 3" "\<lambda>i. 0" example_world]
    by (simp add: NewProxyClient_def Let_def)
qed

end
